(* ===== verification/Prelude.thy ===== *)
theory Prelude
  imports Complex_Main
begin

text \<open>
  Shared vocabulary of the development: the Python values, strings, numbers and dictionaries
  that the modelled modules use, and the generic lemmas about them.

  \<^item> A Python \<open>str\<close> is a \<^typ>\<open>string\<close> read as ASCII text. Case mapping and white space follow
    Python on code points below 128; text beyond ASCII is outside the model.
  \<^item> A decoded JSON value is a \<open>json\<close>. A dictionary is an association list in insertion order,
    as Python keeps it; storing at an existing key keeps the key's position.
  \<^item> A float is either one of the three special values or an exact rational together with the
    text that Python prints for it. Arithmetic on floats is exact rational arithmetic.
  \<^item> A raised exception is the left value of a sum (\<open>'a result\<close>).
\<close>

named_theorems py_simps \<open>defining equations of the Python vocabulary\<close>

section \<open>Exceptions\<close>

datatype py_error =
    TypeError
  | ValueError string
  | KeyError
  | AttributeError
  | OverflowError
  | RuntimeError string
  | WorkerLeaseLost
  | WatchError
  | HTTPException nat string
  | InterruptedBeforeDispatch
  | RunAbortedError string
  | ApprovalRequiredError
  | OAuthRequiredError string string
  | UnsafeURLError string
  | UnresolvableHostError string

type_synonym 'a result = "py_error + 'a"

fun bind_result :: "'a result \<Rightarrow> ('a \<Rightarrow> 'b result) \<Rightarrow> 'b result" where
  "bind_result (Inl e) f = Inl e"
| "bind_result (Inr x) f = f x"

fun is_ok :: "'a result \<Rightarrow> bool" where
  "is_ok (Inl e) = False"
| "is_ok (Inr x) = True"

lemma bind_result_Inr: "bind_result m f = Inr y \<longleftrightarrow> (\<exists>x. m = Inr x \<and> f x = Inr y)"
  by (cases m) auto

lemma bind_result_Inl:
  "bind_result m f = Inl e \<longleftrightarrow> m = Inl e \<or> (\<exists>x. m = Inr x \<and> f x = Inl e)"
  by (cases m) auto

section \<open>Characters and strings\<close>

definition code :: "char \<Rightarrow> nat" where
  "code c = of_char c"

definition is_space :: "char \<Rightarrow> bool" where
  "is_space c = (let n = code c in n = 32 \<or> (9 \<le> n \<and> n \<le> 13) \<or> (28 \<le> n \<and> n \<le> 31))"

definition is_digit :: "char \<Rightarrow> bool" where
  "is_digit c = (48 \<le> code c \<and> code c \<le> 57)"

definition is_lower_letter :: "char \<Rightarrow> bool" where
  "is_lower_letter c = (97 \<le> code c \<and> code c \<le> 122)"

definition is_upper_letter :: "char \<Rightarrow> bool" where
  "is_upper_letter c = (65 \<le> code c \<and> code c \<le> 90)"

definition lower_char :: "char \<Rightarrow> char" where
  "lower_char c = (if is_upper_letter c then char_of (code c + 32) else c)"

text \<open>\<open>str.lower\<close>, \<open>str.casefold\<close> (the same on ASCII), \<open>str.strip\<close>, \<open>lstrip\<close>, \<open>rstrip\<close>.\<close>

definition lower :: "string \<Rightarrow> string" where
  "lower s = map lower_char s"

definition lstrip :: "string \<Rightarrow> string" where
  "lstrip s = dropWhile is_space s"

definition rstrip_while :: "(char \<Rightarrow> bool) \<Rightarrow> string \<Rightarrow> string" where
  "rstrip_while P s = rev (dropWhile P (rev s))"

definition strip :: "string \<Rightarrow> string" where
  "strip s = rstrip_while is_space (lstrip s)"

definition starts_with :: "string \<Rightarrow> string \<Rightarrow> bool" where
  "starts_with p s = (take (length p) s = p)"

text \<open>The substring test \<open>p in s\<close>.\<close>

fun contains :: "string \<Rightarrow> string \<Rightarrow> bool" where
  "contains p [] = (p = [])"
| "contains p (c # cs) = (starts_with p (c # cs) \<or> contains p cs)"

text \<open>\<open>s.partition(c)\<close>: the text before the first \<open>c\<close>, and what follows it if there is one.\<close>

fun partition_at :: "char \<Rightarrow> string \<Rightarrow> string \<times> string option" where
  "partition_at c [] = ([], None)"
| "partition_at c (x # xs) =
     (if x = c then ([], Some xs)
      else (case partition_at c xs of (a, b) \<Rightarrow> (x # a, b)))"

fun split_at :: "char \<Rightarrow> string \<Rightarrow> string list" where
  "split_at c [] = [[]]"
| "split_at c (x # xs) =
     (if x = c then [] # split_at c xs
      else (case split_at c xs of [] \<Rightarrow> [[x]] | w # ws \<Rightarrow> (x # w) # ws))"

fun join_with :: "string \<Rightarrow> string list \<Rightarrow> string" where
  "join_with sep [] = []"
| "join_with sep [w] = w"
| "join_with sep (w # v # ws) = w @ sep @ join_with sep (v # ws)"

text \<open>The maximal runs of characters that satisfy \<open>P\<close>, in order: \<open>re.findall(r"[...]+", s)\<close>.\<close>

fun runs_of :: "(char \<Rightarrow> bool) \<Rightarrow> string \<Rightarrow> string \<Rightarrow> string list" where
  "runs_of P [] acc = (if acc = [] then [] else [rev acc])"
| "runs_of P (c # cs) acc =
     (if P c then runs_of P cs (c # acc)
      else if acc = [] then runs_of P cs []
      else rev acc # runs_of P cs [])"

section \<open>Numbers as text\<close>

definition digit_char :: "nat \<Rightarrow> char" where
  "digit_char d = char_of (48 + d)"

fun show_nat :: "nat \<Rightarrow> string" where
  "show_nat n = (if n < 10 then [digit_char n] else show_nat (n div 10) @ [digit_char (n mod 10)])"

declare show_nat.simps [simp del]

definition show_int :: "int \<Rightarrow> string" where
  "show_int i = (if i < 0 then CHR ''-'' # show_nat (nat (- i)) else show_nat (nat i))"

definition digits_value :: "string \<Rightarrow> nat" where
  "digits_value s = foldl (\<lambda>n c. 10 * n + (code c - 48)) 0 s"

text \<open>
  \<open>int(text)\<close>: surrounding white space, an optional sign, then digits with single underscores
  between digits; at most 4300 digits (the interpreter's conversion limit).
\<close>

fun digit_groups :: "string list \<Rightarrow> bool" where
  "digit_groups [] = False"
| "digit_groups [g] = (g \<noteq> [] \<and> list_all is_digit g)"
| "digit_groups (g # h # gs) = (g \<noteq> [] \<and> list_all is_digit g \<and> digit_groups (h # gs))"

definition unsigned_text :: "string \<Rightarrow> nat option" where
  "unsigned_text s =
     (let gs = split_at (CHR ''_'') s; ds = concat gs in
      if digit_groups gs \<and> length ds \<le> 4300 then Some (digits_value ds) else None)"

definition int_of_text :: "string \<Rightarrow> int option" where
  "int_of_text s =
     (case strip s of
        [] \<Rightarrow> None
      | c # cs \<Rightarrow>
          if c = CHR ''-'' then map_option (\<lambda>n. - int n) (unsigned_text cs)
          else if c = CHR ''+'' then map_option int (unsigned_text cs)
          else map_option int (unsigned_text (c # cs)))"

section \<open>Values\<close>

datatype pyfloat = Finite rat string | PosInf | NegInf | NaN

datatype json =
    JNull
  | JBool bool
  | JInt int
  | JFloat pyfloat
  | JStr string
  | JList "json list"
  | JObj "(string \<times> json) list"

type_synonym dict = "(string \<times> json) list"

fun is_dict :: "json \<Rightarrow> bool" where
  "is_dict (JObj d) = True"
| "is_dict _ = False"

fun is_list :: "json \<Rightarrow> bool" where
  "is_list (JList d) = True"
| "is_list _ = False"

fun is_str :: "json \<Rightarrow> bool" where
  "is_str (JStr d) = True"
| "is_str _ = False"

fun float_truthy :: "pyfloat \<Rightarrow> bool" where
  "float_truthy (Finite q r) = (q \<noteq> 0)"
| "float_truthy _ = True"

fun truthy :: "json \<Rightarrow> bool" where
  "truthy JNull = False"
| "truthy (JBool b) = b"
| "truthy (JInt i) = (i \<noteq> 0)"
| "truthy (JFloat f) = float_truthy f"
| "truthy (JStr s) = (s \<noteq> [])"
| "truthy (JList xs) = (xs \<noteq> [])"
| "truthy (JObj d) = (d \<noteq> [])"

text \<open>\<open>int(value)\<close>.\<close>

definition trunc_rat :: "rat \<Rightarrow> int" where
  "trunc_rat q = (if q < 0 then - floor (- q) else floor q)"

fun int_of_float :: "pyfloat \<Rightarrow> int result" where
  "int_of_float (Finite q r) = Inr (trunc_rat q)"
| "int_of_float NaN = Inl (ValueError ''cannot convert float NaN to integer'')"
| "int_of_float _ = Inl OverflowError"

fun py_int :: "json \<Rightarrow> int result" where
  "py_int (JBool b) = Inr (if b then 1 else 0)"
| "py_int (JInt i) = Inr i"
| "py_int (JFloat f) = int_of_float f"
| "py_int (JStr s) =
     (case int_of_text s of
        None \<Rightarrow> Inl (ValueError ''invalid literal for int()'')
      | Some i \<Rightarrow> Inr i)"
| "py_int _ = Inl TypeError"

text \<open>\<open>str(value)\<close> and \<open>repr(value)\<close>.\<close>

definition hex_digit :: "nat \<Rightarrow> char" where
  "hex_digit d = (if d < 10 then char_of (48 + d) else char_of (87 + d))"

definition repr_char :: "char \<Rightarrow> char \<Rightarrow> string" where
  "repr_char q c =
     (let n = code c in
      if c = q \<or> n = 92 then [char_of (92::nat), c]
      else if n = 9 then [char_of (92::nat), CHR ''t'']
      else if n = 10 then [char_of (92::nat), CHR ''n'']
      else if n = 13 then [char_of (92::nat), CHR ''r'']
      else if n < 32 \<or> n = 127
      then [char_of (92::nat), CHR ''x'', hex_digit (n div 16), hex_digit (n mod 16)]
      else [c])"

definition repr_str :: "string \<Rightarrow> string" where
  "repr_str s =
     (let q = (if char_of (39::nat) \<in> set s \<and> char_of (34::nat) \<notin> set s
               then char_of (34::nat) else char_of (39::nat))
      in [q] @ concat (map (repr_char q) s) @ [q])"

fun float_text :: "pyfloat \<Rightarrow> string" where
  "float_text (Finite q r) = r"
| "float_text PosInf = ''inf''"
| "float_text NegInf = ''-inf''"
| "float_text NaN = ''nan''"

fun py_repr :: "json \<Rightarrow> string" where
  "py_repr JNull = ''None''"
| "py_repr (JBool b) = (if b then ''True'' else ''False'')"
| "py_repr (JInt i) = show_int i"
| "py_repr (JFloat f) = float_text f"
| "py_repr (JStr s) = repr_str s"
| "py_repr (JList xs) = ''['' @ join_with '', '' (map py_repr xs) @ '']''"
| "py_repr (JObj d) =
     ''{'' @ join_with '', '' (map (\<lambda>(k, v). repr_str k @ '': '' @ py_repr v) d) @ ''}''"

definition py_str :: "json \<Rightarrow> string" where
  "py_str v = (case v of JStr s \<Rightarrow> s | _ \<Rightarrow> py_repr v)"

section \<open>Dictionaries\<close>

definition dict_get :: "dict \<Rightarrow> string \<Rightarrow> json" where
  "dict_get d k = (case map_of d k of None \<Rightarrow> JNull | Some v \<Rightarrow> v)"

definition dict_get_default :: "dict \<Rightarrow> string \<Rightarrow> json \<Rightarrow> json" where
  "dict_get_default d k v = (case map_of d k of None \<Rightarrow> v | Some w \<Rightarrow> w)"

fun dict_set :: "string \<Rightarrow> json \<Rightarrow> dict \<Rightarrow> dict" where
  "dict_set k v [] = [(k, v)]"
| "dict_set k v ((k', v') # d) = (if k = k' then (k, v) # d else (k', v') # dict_set k v d)"

definition dict_pop :: "string \<Rightarrow> dict \<Rightarrow> dict" where
  "dict_pop k d = filter (\<lambda>(k', v). k' \<noteq> k) d"

text \<open>\<open>{**a, **b}\<close>.\<close>

definition dict_merge :: "dict \<Rightarrow> dict \<Rightarrow> dict" where
  "dict_merge a b = fold (\<lambda>(k, v). dict_set k v) b a"

text \<open>\<open>a or b\<close> on values.\<close>

definition py_or :: "json \<Rightarrow> json \<Rightarrow> json" where
  "py_or a b = (if truthy a then a else b)"

lemma map_of_dict_set [simp]: "map_of (dict_set k v d) = (map_of d)(k \<mapsto> v)"
  by (induction k v d rule: dict_set.induct) (auto simp: fun_eq_iff)

lemma dict_get_set [simp]: "dict_get (dict_set k v d) k' = (if k' = k then v else dict_get d k')"
  by (simp add: dict_get_def)

lemma map_of_dict_merge: "distinct (map fst b) \<Longrightarrow> map_of (dict_merge a b) = map_of a ++ map_of b"
proof (induction b arbitrary: a)
  case Nil
  then show ?case by (simp add: dict_merge_def)
next
  case (Cons p b)
  obtain k v where p: "p = (k, v)" by (cases p)
  have "map_of (dict_merge a (p # b)) = map_of (dict_merge (dict_set k v a) b)"
    by (simp add: dict_merge_def p)
  also have "\<dots> = (map_of a)(k \<mapsto> v) ++ map_of b"
    using Cons by simp
  also have "\<dots> = map_of a ++ map_of (p # b)"
  proof -
    have "k \<notin> dom (map_of b)"
      using Cons.prems by (auto simp: p dom_map_of_conv_image_fst)
    then show ?thesis
      by (auto simp: p fun_eq_iff map_add_def split: option.splits)
  qed
  finally show ?case .
qed

lemma dict_get_merge:
  "distinct (map fst b) \<Longrightarrow>
     dict_get (dict_merge a b) k = (case map_of b k of None \<Rightarrow> dict_get a k | Some v \<Rightarrow> v)"
  by (simp add: dict_get_def map_of_dict_merge map_add_def split: option.splits)

lemma fst_dict_set: "fst ` set (dict_set k v d) = insert k (fst ` set d)"
  by (induction k v d rule: dict_set.induct) auto

lemma distinct_dict_set: "distinct (map fst d) \<Longrightarrow> distinct (map fst (dict_set k v d))"
  by (induction k v d rule: dict_set.induct) (auto simp: fst_dict_set simp flip: image_set)

lemma distinct_dict_merge: "distinct (map fst a) \<Longrightarrow> distinct (map fst (dict_merge a b))"
  unfolding dict_merge_def by (induction b arbitrary: a) (auto simp: distinct_dict_set)

lemma dict_pop_get [simp]: "map_of (dict_pop k d) = (map_of d)(k := None)"
  by (induction d) (auto simp: dict_pop_def fun_eq_iff)

section \<open>Generic lemmas\<close>

lemma strip_empty [simp]: "strip [] = []"
  by (simp add: strip_def lstrip_def rstrip_while_def)

lemma strip_nonempty_suffix: "strip s \<noteq> [] \<Longrightarrow> \<not> is_space (hd (strip s))"
proof -
  assume ne: "strip s \<noteq> []"
  let ?t = "dropWhile is_space s"
  from ne have t: "?t \<noteq> []"
    by (auto simp: strip_def rstrip_while_def lstrip_def dest: set_dropWhileD)
  then have h: "\<not> is_space (hd ?t)" by (rule hd_dropWhile)
  obtain u where u: "?t = rstrip_while is_space ?t @ u"
    unfolding rstrip_while_def
    by (metis rev_append rev_rev_ident takeWhile_dropWhile_id)
  from ne have "rstrip_while is_space ?t \<noteq> []"
    by (simp add: strip_def lstrip_def)
  with u h show ?thesis
    by (metis hd_append2 lstrip_def strip_def)
qed

lemma rstrip_while_idem [simp]: "rstrip_while P (rstrip_while P s) = rstrip_while P s"
proof -
  have "dropWhile P (dropWhile P (rev s)) = dropWhile P (rev s)"
    by (metis dropWhile_eq_self_iff hd_dropWhile)
  then show ?thesis by (simp add: rstrip_while_def)
qed

lemma strip_idem [simp]: "strip (strip s) = strip s"
proof (cases "strip s = []")
  case True
  then show ?thesis by simp
next
  case False
  then have "lstrip (strip s) = strip s"
    by (simp add: lstrip_def dropWhile_eq_self_iff strip_nonempty_suffix)
  then show ?thesis
    by (metis rstrip_while_idem strip_def)
qed

lemma starts_with_append [simp]: "starts_with p (p @ s)"
  by (simp add: starts_with_def)

lemma starts_with_iff: "starts_with p s \<longleftrightarrow> (\<exists>t. s = p @ t)"
  by (metis append_eq_conv_conj append_take_drop_id starts_with_def)

lemmas char_defs = code_def is_space_def is_digit_def is_lower_letter_def is_upper_letter_def
  lower_char_def Let_def

lemmas string_defs = char_defs lower_def lstrip_def strip_def rstrip_while_def starts_with_def

lemma lower_char_idem [simp]: "lower_char (lower_char c) = lower_char c"
proof (cases "is_upper_letter c")
  case True
  then have "code c + 32 < 256" by (simp add: is_upper_letter_def)
  then have "code (char_of (code c + 32)) = code c + 32"
    by (simp add: code_def)
  with True show ?thesis by (simp add: lower_char_def is_upper_letter_def)
next
  case False
  then show ?thesis by (simp add: lower_char_def)
qed

lemma lower_idem [simp]: "lower (lower s) = lower s"
  by (simp add: lower_def)

end
