(* ===== verification/Py_Values.thy ===== *)
theory Py_Values
  imports Prelude
begin

text \<open>
  More of Python's built-in behaviour on JSON values: equality, hashing, iteration, \<open>float()\<close> and
  comparison of floats, and \<open>json.dumps\<close> of strings. Floats are exact rationals or one of the
  special values; conversions round nothing.
\<close>

section \<open>Floats\<close>

text \<open>\<open>float(i)\<close> overflows at the rounding boundary of the largest double.\<close>

definition float_limit :: int where
  "float_limit = 2 ^ 1024 - 2 ^ 970"

definition float_of_int :: "int \<Rightarrow> pyfloat result" where
  "float_of_int i = (if \<bar>i\<bar> \<ge> float_limit then Inl OverflowError else Inr (Finite (of_int i) []))"

fun float_eq :: "pyfloat \<Rightarrow> pyfloat \<Rightarrow> bool" where
  "float_eq (Finite p _) (Finite q _) = (p = q)"
| "float_eq PosInf PosInf = True"
| "float_eq NegInf NegInf = True"
| "float_eq _ _ = False"

fun float_less :: "pyfloat \<Rightarrow> pyfloat \<Rightarrow> bool" where
  "float_less (Finite p _) (Finite q _) = (p < q)"
| "float_less (Finite p _) PosInf = True"
| "float_less NegInf (Finite q _) = True"
| "float_less NegInf PosInf = True"
| "float_less _ _ = False"

definition float_le :: "pyfloat \<Rightarrow> pyfloat \<Rightarrow> bool" where
  "float_le x y = (float_less x y \<or> float_eq x y)"

fun float_neg :: "pyfloat \<Rightarrow> pyfloat" where
  "float_neg (Finite q r) = Finite (- q) []"
| "float_neg PosInf = NegInf"
| "float_neg NegInf = PosInf"
| "float_neg NaN = NaN"

text \<open>\<open>i - x\<close> for a finite left operand, and \<open>x / q\<close> for a positive divisor.\<close>

fun float_sub :: "rat \<Rightarrow> pyfloat \<Rightarrow> pyfloat" where
  "float_sub p (Finite q r) = Finite (p - q) []"
| "float_sub p PosInf = NegInf"
| "float_sub p NegInf = PosInf"
| "float_sub p NaN = NaN"

fun float_div :: "pyfloat \<Rightarrow> rat \<Rightarrow> pyfloat" where
  "float_div (Finite p r) q = Finite (p / q) []"
| "float_div x q = x"

text \<open>
  \<open>float(text)\<close>: surrounding white space, a sign, then \<open>inf\<close>, \<open>infinity\<close>, \<open>nan\<close> or a decimal
  number with an optional fraction and exponent; digit groups may be separated by underscores.
\<close>

definition digits_text :: "string \<Rightarrow> nat option" where
  "digits_text s =
     (let gs = split_at (CHR ''_'') s in if digit_groups gs then Some (digits_value (concat gs)) else None)"

definition mantissa_text :: "string \<Rightarrow> rat option" where
  "mantissa_text s =
     (case partition_at (CHR ''.'') s of
        (a, None) \<Rightarrow> map_option of_nat (digits_text a)
      | (a, Some b) \<Rightarrow>
          let scale = 10 ^ length (filter is_digit b) in
          if a = [] \<and> b = [] then None
          else if b = [] then map_option of_nat (digits_text a)
          else (case digits_text b of
              None \<Rightarrow> None
            | Some f \<Rightarrow>
                if a = [] then Some (of_nat f / scale)
                else map_option (\<lambda>i. of_nat i + of_nat f / scale) (digits_text a)))"

definition signed_digits :: "string \<Rightarrow> int option" where
  "signed_digits s =
     (case s of
        [] \<Rightarrow> None
      | c # cs \<Rightarrow>
          if c = CHR ''-'' then map_option (\<lambda>n. - int n) (digits_text cs)
          else if c = CHR ''+'' then map_option int (digits_text cs)
          else map_option int (digits_text s))"

definition unsigned_float :: "string \<Rightarrow> pyfloat option" where
  "unsigned_float s =
     (let t = lower s in
      if t = ''inf'' \<or> t = ''infinity'' then Some PosInf
      else if t = ''nan'' then Some NaN
      else case partition_at (CHR ''e'') t of
        (m, None) \<Rightarrow> map_option (\<lambda>q. Finite q []) (mantissa_text m)
      | (m, Some e) \<Rightarrow>
          (case (mantissa_text m, signed_digits e) of
             (Some q, Some k) \<Rightarrow>
               Some (Finite (if k \<ge> 0 then q * 10 ^ nat k else q / 10 ^ nat (- k)) [])
           | _ \<Rightarrow> None))"

definition float_of_text :: "string \<Rightarrow> pyfloat option" where
  "float_of_text s =
     (case strip s of
        [] \<Rightarrow> None
      | c # cs \<Rightarrow>
          if c = CHR ''-'' then map_option float_neg (unsigned_float cs)
          else if c = CHR ''+'' then unsigned_float cs
          else unsigned_float (c # cs))"

fun py_float :: "json \<Rightarrow> pyfloat result" where
  "py_float (JBool b) = Inr (Finite (if b then 1 else 0) [])"
| "py_float (JInt i) = float_of_int i"
| "py_float (JFloat f) = Inr f"
| "py_float (JStr s) =
     (case float_of_text s of
        None \<Rightarrow> Inl (ValueError ''could not convert string to float'')
      | Some f \<Rightarrow> Inr f)"
| "py_float _ = Inl TypeError"

section \<open>Equality, hashing and iteration\<close>

fun number_of :: "json \<Rightarrow> pyfloat option" where
  "number_of (JBool b) = Some (Finite (if b then 1 else 0) [])"
| "number_of (JInt i) = Some (Finite (of_int i) [])"
| "number_of (JFloat f) = Some f"
| "number_of _ = None"

lemma size_zip_left [termination_simp]: "p \<in> set (zip xs ys) \<Longrightarrow> size (fst p) \<le> size_list size xs"
  by (metis prod.collapse set_zip_leftD order_refl size_list_estimation')

lemma size_value [termination_simp]: "p \<in> set d \<Longrightarrow> size (snd p) \<le> size_list (size_prod (\<lambda>_. 0) size) d"
  by (rule size_list_estimation') (auto simp: size_prod_simp)

fun py_eq :: "json \<Rightarrow> json \<Rightarrow> bool" where
  "py_eq (JList xs) (JList ys) =
     (length xs = length ys \<and> (\<forall>p \<in> set (zip xs ys). py_eq (fst p) (snd p)))"
| "py_eq (JObj d) (JObj e) =
     (length d = length e \<and>
      (\<forall>p \<in> set d. case map_of e (fst p) of None \<Rightarrow> False | Some w \<Rightarrow> py_eq (snd p) w))"
| "py_eq (JStr s) (JStr t) = (s = t)"
| "py_eq JNull JNull = True"
| "py_eq a b =
     (case (number_of a, number_of b) of (Some x, Some y) \<Rightarrow> float_eq x y | _ \<Rightarrow> False)"

fun hashable :: "json \<Rightarrow> bool" where
  "hashable (JList xs) = False"
| "hashable (JObj d) = False"
| "hashable _ = True"

text \<open>The values that \<open>for x in value\<close> visits.\<close>

fun iterate :: "json \<Rightarrow> json list result" where
  "iterate (JList xs) = Inr xs"
| "iterate (JStr s) = Inr (map (\<lambda>c. JStr [c]) s)"
| "iterate (JObj d) = Inr (map (JStr \<circ> fst) d)"
| "iterate _ = Inl TypeError"

lemma py_eq_str: "py_eq (JStr s) v \<longleftrightarrow> v = JStr s"
  by (cases v) auto

lemma py_eq_str_right: "py_eq v (JStr s) \<longleftrightarrow> v = JStr s"
  by (cases v) auto

lemma py_eq_null [simp]: "py_eq JNull v \<longleftrightarrow> v = JNull" "py_eq v JNull \<longleftrightarrow> v = JNull"
  by (cases v; simp)+

section \<open>Encoding of strings\<close>

text \<open>\<open>json.dumps(s)\<close>.\<close>

definition json_escape :: "char \<Rightarrow> string" where
  "json_escape c =
     (let n = code c in
      if n = 34 \<or> n = 92 then [char_of (92::nat), c]
      else if n = 10 then [char_of (92::nat), CHR ''n'']
      else if n = 13 then [char_of (92::nat), CHR ''r'']
      else if n = 9 then [char_of (92::nat), CHR ''t'']
      else if n = 8 then [char_of (92::nat), CHR ''b'']
      else if n = 12 then [char_of (92::nat), CHR ''f'']
      else if n < 32
      then [char_of (92::nat)] @ ''u00'' @ [hex_digit (n div 16), hex_digit (n mod 16)]
      else [c])"

definition json_dumps_str :: "string \<Rightarrow> string" where
  "json_dumps_str s = [char_of (34::nat)] @ concat (map json_escape s) @ [char_of (34::nat)]"

definition json_dumps_strs :: "string list \<Rightarrow> string" where
  "json_dumps_strs xs = ''['' @ join_with '', '' (map json_dumps_str xs) @ '']''"

text \<open>An object in the compact form of \<open>json.dumps\<close>, from its members (the value already as text).\<close>

definition compact_member :: "string \<times> string \<Rightarrow> string" where
  "compact_member kv = json_dumps_str (fst kv) @ '':'' @ snd kv"

definition compact_object :: "(string \<times> string) list \<Rightarrow> string" where
  "compact_object members = ''{'' @ join_with '','' (map compact_member members) @ ''}''"

end
