(* ===== verification/Mcp_Policy.thy ===== *)
theory Mcp_Policy
  imports Py_Values "HOL-Library.AList"
begin

text \<open>
  The authorization policy for MCP tools (\<open>builder/daedalus_runtime/approval.py\<close>): how the deployed
  configuration becomes a registry, how a call is classified, and the exact call that an approval binds.

  The file system, YAML, \<open>os.path.expandvars\<close> and the path operations are arguments (\<open>loader\<close>);
  \<open>str.casefold\<close> is \<open>lower\<close> on ASCII text. A \<open>frozenset\<close> of names is a list of names.
\<close>

section \<open>Classification of a call\<close>

definition MUTATING_TOOL_FRAGMENTS :: "string list" where
  "MUTATING_TOOL_FRAGMENTS =
     [''apply'', ''create'', ''delete'', ''deletecollection'', ''patch'', ''replace'', ''rollback'',
      ''rollout'', ''scale'', ''autoscale'', ''uninstall'', ''update'', ''upgrade'', ''cordon'', ''drain'',
      ''evict'', ''taint'', ''terminate'', ''destroy'', ''revoke'', ''restart'', ''annotate'', ''remove'',
      ''disable'']"

definition MUTATING_TOOL_TOKENS :: "string list" where
  "MUTATING_TOOL_TOKENS =
     [''exec'', ''set'', ''put'', ''post'', ''cp'', ''edit'', ''kill'', ''drop'', ''debug'', ''expose'',
      ''attach'', ''label'', ''write'', ''send'', ''move'', ''rename'']"

definition alnum_char :: "char \<Rightarrow> bool" where
  "alnum_char c = (is_digit c \<or> (97 \<le> code c \<and> code c \<le> 122))"

definition annotation_hint :: "dict option \<Rightarrow> string \<Rightarrow> bool option" where
  "annotation_hint annotations name =
     (case annotations of
        None \<Rightarrow> None
      | Some d \<Rightarrow> (case dict_get d name of JBool b \<Rightarrow> Some b | _ \<Rightarrow> None))"

definition call_text :: "string \<Rightarrow> dict \<Rightarrow> string" where
  "call_text tool_name payload =
     lower (join_with '' '' (tool_name # concat (map (\<lambda>k. case dict_get payload k of JStr s \<Rightarrow> [s] | _ \<Rightarrow> [])
       [''operation'', ''command'', ''action'', ''method'', ''verb''])))"

definition is_mutating_mcp_call :: "string \<Rightarrow> dict \<Rightarrow> dict option \<Rightarrow> bool" where
  "is_mutating_mcp_call tool_name payload annotations =
     (annotation_hint annotations ''destructiveHint'' = Some True \<or>
      (let t = call_text tool_name payload in
       list_ex (\<lambda>f. contains f t) MUTATING_TOOL_FRAGMENTS \<or>
       list_ex (\<lambda>w. w \<in> set MUTATING_TOOL_TOKENS) (runs_of alnum_char t [])))"

section \<open>Policies of a group\<close>

datatype policy = ReadOnly | ApprovalRequired | AutoApprove

definition policy_of_text :: "string \<Rightarrow> policy option" where
  "policy_of_text t =
     (if t = ''read_only'' then Some ReadOnly
      else if t = ''approval_required'' then Some ApprovalRequired
      else if t = ''auto_approve'' then Some AutoApprove else None)"

record group_policy =
  included :: "string list"
  excluded :: "string list"
  default_policy :: policy
  overrides :: "(string \<times> policy) list"

definition for_tool :: "group_policy \<Rightarrow> string \<Rightarrow> policy" where
  "for_tool g tool_name =
     (if included g \<noteq> [] \<and> tool_name \<notin> set (included g) then ApprovalRequired
      else if included g = [] \<and> tool_name \<in> set (excluded g) then ApprovalRequired
      else (case map_of (overrides g) tool_name of Some p \<Rightarrow> p | None \<Rightarrow> default_policy g))"

definition tool_names :: "string \<Rightarrow> dict \<Rightarrow> string \<Rightarrow> string list result" where
  "tool_names name config key =
     (case dict_get_default config key (JList []) of
        JList raw \<Rightarrow>
          if list_all (\<lambda>t. case t of JStr s \<Rightarrow> strip s \<noteq> [] | _ \<Rightarrow> False) raw
          then Inr (map (\<lambda>t. lower (strip (py_str t))) raw)
          else Inl (RuntimeError (''function_groups.'' @ name @ ''.'' @ key @ '' must be a list of non-empty tool names''))
      | _ \<Rightarrow> Inl (RuntimeError (''function_groups.'' @ name @ ''.'' @ key @ '' must be a list of non-empty tool names'')))"

fun put_policy :: "string \<Rightarrow> policy \<Rightarrow> (string \<times> policy) list \<Rightarrow> (string \<times> policy) list" where
  "put_policy k p [] = [(k, p)]"
| "put_policy k p ((k', p') # ps) = (if k = k' then (k, p) # ps else (k', p') # put_policy k p ps)"

definition override_policy ::
  "string \<Rightarrow> string list \<Rightarrow> string list \<Rightarrow> string \<Rightarrow> json \<Rightarrow> (string \<times> policy) option result" where
  "override_policy name incl excl raw_tool_name override =
     (case override of
        JObj o1 \<Rightarrow>
          if dict_get o1 ''approval_policy'' = JNull then Inr None
          else
            let raw_policy = dict_get o1 ''approval_policy'';
                tool_name = lower (strip raw_tool_name);
                label = name @ ''.'' @ raw_tool_name in
            (case policy_of_text (lower (strip (py_str raw_policy))) of
               None \<Rightarrow> Inl (RuntimeError (''Unsupported MCP approval policy '' @ py_repr raw_policy @ '' for '' @ label))
             | Some p \<Rightarrow>
                 if incl \<noteq> [] \<and> tool_name \<notin> set incl
                 then Inl (RuntimeError (''MCP approval policy references a tool outside include: '' @ label))
                 else if incl = [] \<and> tool_name \<in> set excl
                 then Inl (RuntimeError (''MCP approval policy references an excluded tool: '' @ label))
                 else if p = ReadOnly \<and> is_mutating_mcp_call raw_tool_name [] None
                 then Inl (RuntimeError (''MCP read-only policy conflicts with local mutation detection: '' @ label))
                 else Inr (Some (tool_name, p)))
      | _ \<Rightarrow> Inr None)"

fun override_loop ::
  "string \<Rightarrow> string list \<Rightarrow> string list \<Rightarrow> dict \<Rightarrow> (string \<times> policy) list \<Rightarrow> (string \<times> policy) list result" where
  "override_loop name incl excl [] acc = Inr acc"
| "override_loop name incl excl ((tool, v) # rest) acc =
     bind_result (override_policy name incl excl tool v) (\<lambda>o1.
       override_loop name incl excl rest (case o1 of None \<Rightarrow> acc | Some (t, p) \<Rightarrow> put_policy t p acc))"

definition parse_mcp_group_approval_policy :: "string \<Rightarrow> dict \<Rightarrow> group_policy result" where
  "parse_mcp_group_approval_policy name config =
     bind_result (tool_names name config ''include'') (\<lambda>incl.
     bind_result (tool_names name config ''exclude'') (\<lambda>excl.
       let default_text = lower (strip (py_str (dict_get_default config ''approval_policy'' (JStr ''approval_required'')))) in
       case policy_of_text default_text of
         Some p \<Rightarrow>
           if p = ReadOnly
           then Inl (RuntimeError (''Unsupported MCP group approval policy '' @ repr_str default_text @ '' for '' @ name))
           else (case py_or (dict_get_default config ''tool_overrides'' (JObj [])) (JObj []) of
                   JObj raw_overrides \<Rightarrow>
                     bind_result (override_loop name incl excl raw_overrides []) (\<lambda>ovs.
                       Inr \<lparr>included = incl, excluded = excl, default_policy = p, overrides = ovs\<rparr>)
                 | _ \<Rightarrow> Inl (RuntimeError (''function_groups.'' @ name @ ''.tool_overrides must be a mapping'')))
       | None \<Rightarrow>
           Inl (RuntimeError (''Unsupported MCP group approval policy '' @ repr_str default_text @ '' for '' @ name))))"

section \<open>Endpoints and configuration files\<close>

type_synonym endpoints = "(string \<times> string) list \<times> string list"

definition bind_configured_mcp_endpoint :: "string \<Rightarrow> string \<Rightarrow> endpoints \<Rightarrow> endpoints" where
  "bind_configured_mcp_endpoint physical logical eps =
     (case eps of (bound, ambiguous) \<Rightarrow>
        if physical = [] \<or> physical \<in> set ambiguous then eps
        else (case map_of bound physical of
            Some previous \<Rightarrow>
              if previous \<noteq> [] \<and> previous \<noteq> logical
              then (filter (\<lambda>(k, v). k \<noteq> physical) bound, physical # ambiguous)
              else (AList.update physical logical bound, ambiguous)
          | None \<Rightarrow> (AList.update physical logical bound, ambiguous)))"

function (sequential) deep_merge_policy_mapping :: "dict \<Rightarrow> dict \<Rightarrow> dict" where
  "deep_merge_policy_mapping base_value [] = base_value"
| "deep_merge_policy_mapping base_value ((k, JObj v) # rest) =
     deep_merge_policy_mapping
       (dict_set k (case map_of base_value k of
                      Some (JObj b) \<Rightarrow> JObj (deep_merge_policy_mapping b v) | _ \<Rightarrow> JObj v) base_value) rest"
| "deep_merge_policy_mapping base_value ((k, v) # rest) =
     deep_merge_policy_mapping (dict_set k v base_value) rest"
  by pat_completeness auto
termination
  by (relation "measure (\<lambda>(b, v). size_list (size_prod (\<lambda>_. 0) size) v)") auto

record loader =
  resolve_path :: "string \<Rightarrow> string"
  base_path :: "string \<Rightarrow> string \<Rightarrow> string"
  read_yaml :: "string \<Rightarrow> json option"
  expandvars :: "string \<Rightarrow> string"

text \<open>The chain of \<open>base:\<close> files: at most five files may precede the one being loaded.\<close>

function load_policy_config :: "loader \<Rightarrow> string \<Rightarrow> string list \<Rightarrow> dict result" where
  "load_policy_config L path seen =
     (let resolved = resolve_path L path in
      if resolved \<in> set seen \<or> length seen \<ge> 5
      then Inl (RuntimeError (''MCP approval policy `base:` chain too deep or circular at '' @ resolved))
      else case read_yaml L resolved of
        None \<Rightarrow> Inl (RuntimeError (''Unable to load MCP approval policy from '' @ resolved))
      | Some (JObj raw_config) \<Rightarrow>
          let base = dict_get raw_config ''base''; own = dict_pop ''base'' raw_config in
          if \<not> truthy base then Inr own
          else bind_result (load_policy_config L (base_path L resolved (py_str base)) (resolved # seen))
                 (\<lambda>base_config. Inr (deep_merge_policy_mapping base_config own))
      | Some _ \<Rightarrow> Inl (RuntimeError (''MCP approval policy config is not a mapping: '' @ resolved)))"
  by pat_completeness auto
termination
  by (relation "measure (\<lambda>(L, p, seen). 5 - length seen)") auto

declare load_policy_config.simps [simp del]

section \<open>The registry\<close>

record registry =
  read_only_tools :: "(string \<times> string list) list"
  group_policies :: "(string \<times> group_policy) list"
  server_groups :: "(string \<times> string) list"

definition empty_registry :: registry where
  "empty_registry = \<lparr>read_only_tools = [], group_policies = [], server_groups = []\<rparr>"

definition tools_with :: "policy \<Rightarrow> group_policy \<Rightarrow> string list" where
  "tools_with p g = map fst (filter (\<lambda>(t, q). q = p) (overrides g))"

definition group_endpoint :: "loader \<Rightarrow> dict \<Rightarrow> dict \<Rightarrow> string result" where
  "group_endpoint L authentication grp =
     (case dict_get_default grp ''server'' (JObj []) of
        JObj server \<Rightarrow>
          if \<not> hashable (dict_get server ''auth_provider'') then Inl TypeError
          else
            let transport = strip (py_str (py_or (dict_get server ''transport'') (JStr ''streamable-http'')));
                endpoint = expandvars L (strip (py_str (py_or (dict_get server ''url'') (JStr [])))) in
            Inr (if endpoint \<noteq> [] \<and> \<not> contains ''${'' endpoint then transport @ '':'' @ endpoint else [])
      | _ \<Rightarrow> Inr [])"

fun configure_groups ::
  "loader \<Rightarrow> dict \<Rightarrow> dict \<Rightarrow> registry \<Rightarrow> endpoints \<Rightarrow> (registry \<times> endpoints) result" where
  "configure_groups L authentication [] R eps = Inr (R, eps)"
| "configure_groups L authentication ((raw_name, JObj grp) # rest) R eps =
     (if \<not> hashable (dict_get grp ''_type'') then Inl TypeError
      else if dict_get grp ''_type'' \<noteq> JStr ''mcp_client'' \<and> dict_get grp ''_type'' \<noteq> JStr ''per_user_mcp_client''
      then configure_groups L authentication rest R eps
      else
        bind_result (parse_mcp_group_approval_policy raw_name grp) (\<lambda>g.
        bind_result (group_endpoint L authentication grp) (\<lambda>ep.
          let ro = tools_with ReadOnly g;
              R' = R\<lparr>group_policies := AList.update (lower raw_name) g (group_policies R),
                     read_only_tools := (if ro = [] then read_only_tools R
                        else AList.update (lower raw_name) ro (read_only_tools R))\<rparr>
          in configure_groups L authentication rest R' (bind_configured_mcp_endpoint ep raw_name eps))))"
| "configure_groups L authentication (_ # rest) R eps = configure_groups L authentication rest R eps"

definition configure_mcp_approval_policy :: "loader \<Rightarrow> string \<Rightarrow> registry result" where
  "configure_mcp_approval_policy L path =
     bind_result (load_policy_config L path []) (\<lambda>raw_config.
       case (dict_get_default raw_config ''function_groups'' (JObj []),
             dict_get_default raw_config ''authentication'' (JObj [])) of
         (JObj function_groups, JObj authentication) \<Rightarrow>
           bind_result (configure_groups L authentication function_groups empty_registry ([], []))
             (\<lambda>(R, bound, ambiguous). Inr (R\<lparr>server_groups := bound\<rparr>))
       | (JObj function_groups, _) \<Rightarrow> Inl (RuntimeError (''authentication is not a mapping in '' @ path))
       | _ \<Rightarrow> Inl (RuntimeError (''function_groups is not a mapping in '' @ path)))"

section \<open>Policy of a call\<close>

definition mcp_policy_target :: "registry \<Rightarrow> string \<Rightarrow> string \<Rightarrow> string \<times> string" where
  "mcp_policy_target R server_name tool_name =
     (let logical = lower (case map_of (server_groups R) server_name of None \<Rightarrow> server_name | Some g \<Rightarrow> g);
          t = lower (strip tool_name) in
      (logical,
       if starts_with (logical @ ''.'') t then drop (length logical + 1) t
       else if starts_with (logical @ ''::'') t then drop (length logical + 2) t
       else t))"

definition has_local_read_only_evidence :: "registry \<Rightarrow> string \<Rightarrow> string \<Rightarrow> bool" where
  "has_local_read_only_evidence R server_name tool_name =
     (case mcp_policy_target R server_name tool_name of
        (logical, t) \<Rightarrow>
          t \<in> set (case map_of (read_only_tools R) logical of None \<Rightarrow> [] | Some ts \<Rightarrow> ts))"

definition call_policy :: "registry \<Rightarrow> string \<Rightarrow> string \<Rightarrow> policy" where
  "call_policy R server_name tool_name =
     (case mcp_policy_target R server_name tool_name of
        (logical, t) \<Rightarrow>
          (case map_of (group_policies R) logical of
             None \<Rightarrow> ApprovalRequired | Some g \<Rightarrow> for_tool g t))"

section \<open>The call that an approval binds\<close>

text \<open>\<open>dumps\<close> is the canonical \<open>json.dumps\<close>, \<open>sha256\<close> the hash, and \<open>schema\<close> the typed adapter that
  validates and dumps the arguments.\<close>

definition canonical_mcp_call ::
  "(dict \<Rightarrow> string) \<Rightarrow> (string \<Rightarrow> string) \<Rightarrow> (dict \<Rightarrow> dict result) option \<Rightarrow> dict \<Rightarrow> (string \<times> string) result" where
  "canonical_mcp_call dumps sha256 schema payload =
     bind_result
       (case schema of
          None \<Rightarrow> Inr (dict_pop ''approval_token'' payload)
        | Some validate \<Rightarrow> validate (dict_pop ''approval_token'' payload))
       (\<lambda>d. Inr (dumps d, sha256 (dumps d)))"

fun identifiers_loop :: "dict \<Rightarrow> string list \<Rightarrow> string list \<Rightarrow> string list" where
  "identifiers_loop arguments [] acc = acc"
| "identifiers_loop arguments (key # keys) acc =
     (let v = dict_get arguments key; rendered = strip (py_str v);
          is_label = (case v of JStr s \<Rightarrow> True | JInt i \<Rightarrow> True | JBool b \<Rightarrow> True | _ \<Rightarrow> False) in
      identifiers_loop arguments keys
        (if is_label \<and> rendered \<noteq> [] \<and> rendered \<notin> set acc then acc @ [rendered] else acc))"

definition mcp_approval_target :: "dict \<Rightarrow> string \<Rightarrow> string" where
  "mcp_approval_target arguments arguments_sha256 =
     (let ids = identifiers_loop arguments
        [''documentId'', ''document_id'', ''calendarId'', ''calendar_id'', ''eventId'', ''event_id'',
         ''namespace'', ''name'', ''id''] [];
          label = join_with ''/'' (take 3 ids)
      in if label = [] then ''arguments:'' @ take 16 arguments_sha256 else label)"

definition mcp_approval_summary :: "string \<Rightarrow> string \<Rightarrow> string \<Rightarrow> string \<Rightarrow> string" where
  "mcp_approval_summary server_name tool_name target canonical_arguments =
     (let kib = show_nat (max 1 ((length canonical_arguments + 1023) div 1024)) in
      if server_name = ''docs_mcp_server'' \<and> tool_name = ''update_doc''
      then ''Update Google document '' @ target @ '' ('' @ kib @ '' KiB payload)''
      else ''Run '' @ server_name @ ''.'' @ tool_name @ '' on '' @ target @ '' ('' @ kib @ '' KiB payload)'')"

section \<open>Facts\<close>

lemma put_policy_map: "map_of (put_policy k p ps) = (map_of ps)(k \<mapsto> p)"
  by (induction k p ps rule: put_policy.induct) (auto simp: fun_eq_iff)

lemma call_text_name: "call_text raw [] = lower raw"
  by (simp add: call_text_def dict_get_def)

lemma override_policy_result:
  "override_policy name incl excl raw v = Inr (Some (t, p)) \<Longrightarrow>
     t = lower (strip raw) \<and> (incl \<noteq> [] \<longrightarrow> t \<in> set incl) \<and> (incl = [] \<longrightarrow> t \<notin> set excl)
     \<and> (p = ReadOnly \<longrightarrow> \<not> is_mutating_mcp_call raw [] None)"
  by (auto simp: override_policy_def Let_def split: json.splits option.splits if_splits)

text \<open>What every accepted override satisfies.\<close>

definition override_ok :: "string list \<Rightarrow> string list \<Rightarrow> string \<Rightarrow> policy \<Rightarrow> bool" where
  "override_ok incl excl t p \<longleftrightarrow>
     (incl \<noteq> [] \<longrightarrow> t \<in> set incl) \<and> (incl = [] \<longrightarrow> t \<notin> set excl) \<and>
     (p = ReadOnly \<longrightarrow> (\<exists>raw. t = lower (strip raw) \<and> \<not> is_mutating_mcp_call raw [] None))"

lemma override_loop_ok:
  "override_loop name incl excl raw acc = Inr ovs \<Longrightarrow>
   (\<forall>t p. map_of acc t = Some p \<longrightarrow> override_ok incl excl t p) \<Longrightarrow>
   map_of ovs t = Some p \<Longrightarrow> override_ok incl excl t p"
proof (induction raw arbitrary: acc)
  case (Cons kv raw)
  obtain k v where kv: "kv = (k, v)" by (cases kv)
  from Cons.prems(1) obtain o1 where o1: "override_policy name incl excl k v = Inr o1"
    and r: "override_loop name incl excl raw (case o1 of None \<Rightarrow> acc | Some (t, p) \<Rightarrow> put_policy t p acc) = Inr ovs"
    by (auto simp: kv bind_result_Inr)
  have "\<forall>t p. map_of (case o1 of None \<Rightarrow> acc | Some (t, p) \<Rightarrow> put_policy t p acc) t = Some p \<longrightarrow>
      override_ok incl excl t p"
    using Cons.prems(2) o1
    by (auto simp: put_policy_map override_ok_def split: option.splits if_splits prod.splits
        dest!: override_policy_result)
  from Cons.IH [OF r this Cons.prems(3)] show ?case .
qed simp

lemma parse_group_ok:
  assumes "parse_mcp_group_approval_policy name config = Inr g"
  shows "default_policy g \<noteq> ReadOnly \<and>
    (\<forall>t p. map_of (overrides g) t = Some p \<longrightarrow> override_ok (included g) (excluded g) t p)"
proof -
  let ?d = "policy_of_text (lower (strip (py_str (dict_get_default config ''approval_policy'' (JStr ''approval_required'')))))"
  let ?o = "py_or (dict_get_default config ''tool_overrides'' (JObj [])) (JObj [])"
  from assms obtain incl excl where n: "tool_names name config ''include'' = Inr incl"
    "tool_names name config ''exclude'' = Inr excl"
    by (auto simp: parse_mcp_group_approval_policy_def bind_result_Inr)
  from assms n obtain p where p: "?d = Some p" "p \<noteq> ReadOnly"
    by (cases ?d) (auto simp: parse_mcp_group_approval_policy_def Let_def split: if_splits)
  from assms n p obtain raw where raw: "?o = JObj raw"
    by (cases ?o) (simp_all add: parse_mcp_group_approval_policy_def Let_def)
  from assms n p raw obtain ovs where
    o1: "override_loop name incl excl raw [] = Inr ovs"
    and g: "g = \<lparr>included = incl, excluded = excl, default_policy = p, overrides = ovs\<rparr>" "p \<noteq> ReadOnly"
    by (auto simp: parse_mcp_group_approval_policy_def Let_def bind_result_Inr)
  from override_loop_ok [OF o1] g show ?thesis by simp
qed

definition registry_ok :: "registry \<Rightarrow> bool" where
  "registry_ok R \<longleftrightarrow> (\<forall>n g. map_of (group_policies R) n = Some g \<longrightarrow> default_policy g \<noteq> ReadOnly \<and>
     (\<forall>t p. map_of (overrides g) t = Some p \<longrightarrow> override_ok (included g) (excluded g) t p))"

lemma configure_groups_ok:
  "configure_groups L auth groups R eps = Inr (R', eps') \<Longrightarrow> registry_ok R \<Longrightarrow> registry_ok R'"
proof (induction L auth groups R eps rule: configure_groups.induct)
  case (2 L auth raw grp rest R eps)
  from "2.prems"(1) have h: "hashable (dict_get grp ''_type'')" by (simp split: if_splits)
  then have hh: "\<not> \<not> hashable (dict_get grp ''_type'')" by simp
  show ?case
  proof (cases "dict_get grp ''_type'' \<noteq> JStr ''mcp_client'' \<and> dict_get grp ''_type'' \<noteq> JStr ''per_user_mcp_client''")
    case True
    with "2.IH"(1) [OF hh True] "2.prems" h show ?thesis by simp
  next
    case False
    with "2.prems"(1) h obtain g ep where g: "parse_mcp_group_approval_policy raw grp = Inr g"
      "group_endpoint L auth grp = Inr ep"
      and r: "configure_groups L auth rest
        (R\<lparr>group_policies := AList.update (lower raw) g (group_policies R),
           read_only_tools := (if tools_with ReadOnly g = [] then read_only_tools R
             else AList.update (lower raw) (tools_with ReadOnly g) (read_only_tools R))\<rparr>)
        (bind_configured_mcp_endpoint ep raw eps) = Inr (R', eps')"
      by (auto simp: bind_result_Inr Let_def)
    have "registry_ok (R\<lparr>group_policies := AList.update (lower raw) g (group_policies R),
           read_only_tools := (if tools_with ReadOnly g = [] then read_only_tools R
             else AList.update (lower raw) (tools_with ReadOnly g) (read_only_tools R))\<rparr>)"
      using "2.prems"(2) parse_group_ok [OF g(1)]
      by (auto simp: registry_ok_def update_conv' split: if_splits)
    from "2.IH"(2) [OF hh False refl refl r this] show ?thesis .
  qed
qed auto

lemma configured_registry:
  assumes "configure_mcp_approval_policy L path = Inr R"
  obtains auth groups R0 bound amb where
    "configure_groups L auth groups empty_registry ([], []) = Inr (R0, bound, amb)"
    and "R = R0\<lparr>server_groups := bound\<rparr>"
proof -
  from assms obtain c where c: "load_policy_config L path [] = Inr c"
    by (auto simp: configure_mcp_approval_policy_def bind_result_Inr)
  let ?f = "dict_get_default c ''function_groups'' (JObj [])"
  let ?a = "dict_get_default c ''authentication'' (JObj [])"
  from assms c obtain groups where f: "?f = JObj groups"
    by (cases ?f) (simp_all add: configure_mcp_approval_policy_def)
  from assms c f obtain auth where a: "?a = JObj auth"
    by (cases ?a) (simp_all add: configure_mcp_approval_policy_def)
  from assms c f a show ?thesis
    by (auto simp: configure_mcp_approval_policy_def bind_result_Inr
        intro: that)
qed

section \<open>Properties\<close>

text \<open>C5. Fail-closed policy: with any configuration that was accepted, a call to a server without a
  configured group requires approval, as does a tool outside its group's exposure filter; and a call
  has the read-only policy only when the operator declared that exact tool read-only under a name
  that the mutation detector does not flag. A group default is never read-only.\<close>

theorem policy_fails_closed:
  assumes "configure_mcp_approval_policy L path = Inr R"
    and "mcp_policy_target R server tool = (logical, t)"
  shows "(map_of (group_policies R) logical = None \<longrightarrow> call_policy R server tool = ApprovalRequired)
    \<and> (\<forall>g. map_of (group_policies R) logical = Some g \<longrightarrow>
         (included g \<noteq> [] \<and> t \<notin> set (included g) \<or> included g = [] \<and> t \<in> set (excluded g) \<longrightarrow>
            call_policy R server tool = ApprovalRequired)
       \<and> (call_policy R server tool = ReadOnly \<longrightarrow> map_of (overrides g) t = Some ReadOnly
            \<and> (\<exists>raw. t = lower (strip raw) \<and> \<not> is_mutating_mcp_call raw [] None)))"
proof -
  have e: "registry_ok empty_registry" by (simp add: registry_ok_def empty_registry_def)
  from assms(1) obtain auth groups R0 bound amb where
    "configure_groups L auth groups empty_registry ([], []) = Inr (R0, bound, amb)"
    and R: "R = R0\<lparr>server_groups := bound\<rparr>"
    by (rule configured_registry)
  from configure_groups_ok [OF this(1) e] R have ok: "registry_ok R" by (simp add: registry_ok_def)
  have "map_of (overrides g) t = Some ReadOnly \<and> (\<exists>raw. t = lower (strip raw) \<and> \<not> is_mutating_mcp_call raw [] None)"
    if "map_of (group_policies R) logical = Some g" "call_policy R server tool = ReadOnly" for g
    using that ok assms(2)
    by (auto simp: call_policy_def for_tool_def registry_ok_def override_ok_def split: if_splits option.splits)
  then show ?thesis
    using assms(2) by (auto simp: call_policy_def for_tool_def)
qed

definition sample_loader :: loader where
  "sample_loader = \<lparr>resolve_path = id, base_path = (\<lambda>_ b. b),
     read_yaml = (\<lambda>_. Some (JObj [(''function_groups'', JObj [(''K8s'', JObj
       [(''_type'', JStr ''mcp_client''),
        (''tool_overrides'', JObj [(''Get_Pods'', JObj [(''approval_policy'', JStr ''read_only'')])])])])])),
     expandvars = id\<rparr>"

theorem policy_fails_closed_witness:
  "\<exists>R. configure_mcp_approval_policy sample_loader ''p'' = Inr R
    \<and> call_policy R ''k8s'' ''k8s.get_pods'' = ReadOnly
    \<and> call_policy R ''other'' ''get_pods'' = ApprovalRequired"
proof -
  let ?r = "configure_mcp_approval_policy sample_loader ''p''"
  have "is_ok ?r \<and> (case ?r of Inl e \<Rightarrow> False | Inr R \<Rightarrow>
      call_policy R ''k8s'' ''k8s.get_pods'' = ReadOnly
      \<and> mcp_policy_target R ''other'' ''get_pods'' = (''other'', ''get_pods'')
      \<and> map_of (group_policies R) ''other'' = None)"
    by code_simp
  then obtain R where h: "?r = Inr R" "call_policy R ''k8s'' ''k8s.get_pods'' = ReadOnly"
    "mcp_policy_target R ''other'' ''get_pods'' = (''other'', ''get_pods'')"
    "map_of (group_policies R) ''other'' = None"
    by (cases ?r) auto
  from policy_fails_closed [OF h(1,3)] h show ?thesis by blast
qed

text \<open>C18. Loading a policy always ends: when every configuration file that can be read names a further
  \<open>base:\<close> file, in a circle or in an endless chain, loading is refused with an error after finitely
  many files.\<close>

theorem policy_chain_ends:
  "(\<forall>p d. read_yaml L p = Some (JObj d) \<longrightarrow> truthy (dict_get d ''base'')) \<Longrightarrow>
     \<exists>e. load_policy_config L path seen = Inl e"
proof (induction L path seen rule: load_policy_config.induct)
  case (1 L path seen)
  let ?r = "resolve_path L path"
  show ?case
  proof (cases "?r \<in> set seen \<or> length seen \<ge> 5")
    case True
    then show ?thesis by (subst load_policy_config.simps) (simp add: Let_def)
  next
    case False
    show ?thesis
    proof (cases "\<exists>d. read_yaml L ?r = Some (JObj d)")
      case True
      then obtain d where d: "read_yaml L ?r = Some (JObj d)" by blast
      with "1.prems" have b: "truthy (dict_get d ''base'')" by blast
      with "1.IH" [OF refl False d refl refl refl] "1.prems" b obtain e where
        "load_policy_config L (base_path L ?r (py_str (dict_get d ''base''))) (?r # seen) = Inl e" by auto
      with False d b show ?thesis by (subst load_policy_config.simps) (simp add: Let_def)
    next
      case no: False
      with False show ?thesis
        by (subst load_policy_config.simps) (auto simp: Let_def split: option.splits json.splits)
    qed
  qed
qed

theorem policy_chain_ends_witness:
  "\<exists>e. load_policy_config \<lparr>resolve_path = id, base_path = (\<lambda>_ b. b),
     read_yaml = (\<lambda>_. Some (JObj [(''base'', JStr ''self'')])), expandvars = id\<rparr> ''self'' [] = Inl e"
  by (rule policy_chain_ends) (auto simp: dict_get_def)

end
