(* ===== verification/Internal_Auth.thy ===== *)
theory Internal_Auth
  imports Prelude
begin

text \<open>
  The trusted boundary between the frontend and the backend: the token gate and its middleware
  (\<open>nat_helpers/internal_auth.py\<close>), the identity that tools see (\<open>nat_helpers/identity.py\<close>) and the
  test for autonomous requests (\<open>nat_helpers/autonomous_llm.py\<close>).

  \<^item> \<open>settings\<close> are the two environment variables; \<open>hmac.compare_digest\<close> on the encoded texts is
    equality of the texts.
  \<^item> Request headers are name and value texts in wire order. The middleware builds a dictionary with
    lower-case names in which the last value of a name wins; that dictionary is the request context,
    and \<open>None\<close> stands for no HTTP request.
\<close>

record settings =
  token_env :: "string option"
  insecure_env :: "string option"

type_synonym headers = "(string \<times> string) list"

section \<open>The token gate\<close>

definition or_empty :: "string option \<Rightarrow> string" where
  "or_empty v = (case v of None \<Rightarrow> [] | Some s \<Rightarrow> s)"

definition configured_internal_token :: "settings \<Rightarrow> string" where
  "configured_internal_token S = strip (or_empty (token_env S))"

definition allow_insecure_internal :: "settings \<Rightarrow> bool" where
  "allow_insecure_internal S = (lower (strip (or_empty (insecure_env S))) \<in> set [''1'', ''true'', ''yes''])"

definition require_internal_token :: "settings \<Rightarrow> string option \<Rightarrow> unit result" where
  "require_internal_token S x_daedalus_internal_token =
     (let expected = configured_internal_token S in
      if expected = []
      then (if allow_insecure_internal S then Inr ()
            else Inl (HTTPException 503 ''Internal API authentication is not configured''))
      else
        let provided = strip (or_empty x_daedalus_internal_token) in
        if provided = [] \<or> provided \<noteq> expected
        then Inl (HTTPException 401 ''Internal API token is required'')
        else Inr ())"

definition require_trusted_user :: "settings \<Rightarrow> string option \<Rightarrow> string option \<Rightarrow> string result" where
  "require_trusted_user S x_user_id x_daedalus_internal_token =
     bind_result (require_internal_token S x_daedalus_internal_token) (\<lambda>_.
       let user_id = strip (or_empty x_user_id) in
       if user_id = [] then Inl (HTTPException 401 ''Authenticated user is required'') else Inr user_id)"

section \<open>The middleware\<close>

definition PUBLIC_HTTP_PATHS :: "string list" where
  "PUBLIC_HTTP_PATHS = [''/health'', ''/health/ready'', ''/auth/redirect'']"

fun put_header :: "string \<Rightarrow> string \<Rightarrow> headers \<Rightarrow> headers" where
  "put_header k v [] = [(k, v)]"
| "put_header k v ((k', v') # hs) = (if k = k' then (k, v) # hs else (k', v') # put_header k v hs)"

definition decode_headers :: "headers \<Rightarrow> headers" where
  "decode_headers raw = fold (\<lambda>(k, v). put_header (lower k) v) raw []"

record scope =
  scope_type :: string
  scope_path :: "string option"
  scope_headers :: headers

text \<open>What happens to a request: it is passed on, with the authenticated headers as its context or
  without a context, or it is answered (an HTTP status with a detail) or closed (a WebSocket code).\<close>

datatype verdict = Forward "headers option" | Respond nat string | CloseSocket nat string

definition request_path :: "scope \<Rightarrow> string" where
  "request_path sc =
     (let p = or_empty (scope_path sc);
          q = rstrip_while (\<lambda>c. c = CHR ''/'') (if p = [] then ''/'' else p)
      in if q = [] then ''/'' else q)"

definition middleware :: "settings \<Rightarrow> scope \<Rightarrow> verdict" where
  "middleware S sc =
     (if scope_type sc \<noteq> ''http'' \<and> scope_type sc \<noteq> ''websocket'' then Forward None
      else
        let protected = (scope_type sc = ''websocket'' \<or> request_path sc \<notin> set PUBLIC_HTTP_PATHS);
            headers = decode_headers (scope_headers sc) in
        if \<not> protected then Forward None
        else (case require_trusted_user S (map_of headers ''x-user-id'')
                     (map_of headers ''x-daedalus-internal-token'') of
                Inl (HTTPException status detail) \<Rightarrow>
                  if scope_type sc = ''websocket''
                  then CloseSocket (if status = 401 then 4401 else 4503) detail
                  else Respond status detail
              | Inl e \<Rightarrow> Respond 500 []
              | Inr user \<Rightarrow> Forward (Some headers)))"

section \<open>Identity in the request context\<close>

definition header_value :: "headers option \<Rightarrow> string \<Rightarrow> string" where
  "header_value headers name =
     (case headers of
        None \<Rightarrow> []
      | Some hs \<Rightarrow>
          (case map_of hs name of
             Some v \<Rightarrow> strip v
           | None \<Rightarrow>
               (case find (\<lambda>(k, v). lower k = lower name) hs of
                  Some (k, v) \<Rightarrow> strip v
                | None \<Rightarrow> [])))"

definition authenticated_user_id_from_headers :: "settings \<Rightarrow> headers option \<Rightarrow> string result" where
  "authenticated_user_id_from_headers S headers =
     (let expected_token = configured_internal_token S;
          provided_token = header_value headers ''x-daedalus-internal-token'';
          user_id = header_value headers ''x-user-id'' in
      if expected_token \<noteq> [] \<and> (provided_token = [] \<or> provided_token \<noteq> expected_token)
      then Inl (ValueError ''valid x-daedalus-internal-token is required'')
      else if expected_token = [] \<and> \<not> allow_insecure_internal S
      then Inl (ValueError ''internal API authentication is not configured'')
      else if user_id = []
      then Inl (ValueError ''authenticated user header x-user-id is required'')
      else Inr user_id)"

definition trusted_request_header_from_context :: "settings \<Rightarrow> headers option \<Rightarrow> string \<Rightarrow> string result" where
  "trusted_request_header_from_context S ctx name =
     bind_result (authenticated_user_id_from_headers S ctx) (\<lambda>_. Inr (header_value ctx name))"

definition request_id_from_context_or_none :: "settings \<Rightarrow> headers option \<Rightarrow> string option" where
  "request_id_from_context_or_none S ctx =
     (case trusted_request_header_from_context S ctx ''x-daedalus-request-id'' of
        Inl e \<Rightarrow> None | Inr v \<Rightarrow> if v = [] then None else Some v)"

definition execution_id_from_context_or_none :: "headers option \<Rightarrow> string option" where
  "execution_id_from_context_or_none ctx =
     (if ctx = None \<or> lower (header_value ctx ''x-daedalus-execution-scope'') \<noteq> ''autonomy'' then None
      else let i = header_value ctx ''x-daedalus-execution-id'' in if i = [] then None else Some i)"

definition authenticated_user_id_from_context_or_fallback ::
  "settings \<Rightarrow> headers option \<Rightarrow> string \<Rightarrow> string result" where
  "authenticated_user_id_from_context_or_fallback S ctx fallback =
     (if ctx = None then Inr (strip fallback) else authenticated_user_id_from_headers S ctx)"

definition resolve_authenticated_user_id :: "settings \<Rightarrow> headers option \<Rightarrow> string result" where
  "resolve_authenticated_user_id S ctx =
     bind_result (authenticated_user_id_from_context_or_fallback S ctx []) (\<lambda>u.
       if u = [] then Inl (ValueError ''authenticated user identity is required'') else Inr u)"

definition is_authenticated_autonomy_request :: "settings \<Rightarrow> headers option \<Rightarrow> bool" where
  "is_authenticated_autonomy_request S ctx =
     (case trusted_request_header_from_context S ctx ''x-daedalus-execution-scope'' of
        Inl e \<Rightarrow> False | Inr v \<Rightarrow> lower v = ''autonomy'')"

section \<open>Facts\<close>

lemma put_header_keys: "fst ` set (put_header k v hs) = insert k (fst ` set hs)"
  by (induction k v hs rule: put_header.induct) auto

lemma decode_headers_lower: "\<forall>k \<in> fst ` set (decode_headers raw). lower k = k"
proof -
  have "\<forall>k \<in> fst ` set hs. lower k = k \<Longrightarrow>
      \<forall>k \<in> fst ` set (fold (\<lambda>(k, v). put_header (lower k) v) raw hs). lower k = k" for hs
  proof (induction raw arbitrary: hs)
    case (Cons p raw)
    obtain k v where p: "p = (k, v)" by (cases p)
    from Cons.prems have "\<forall>x \<in> fst ` set (put_header (lower k) v hs). lower x = x"
      by (simp add: put_header_keys)
    from Cons.IH [OF this] show ?case by (simp add: p)
  qed simp
  from this [of "[]"] show ?thesis by (simp add: decode_headers_def)
qed

text \<open>On the context that the middleware builds, the case-insensitive search finds nothing new.\<close>

lemma header_value_decoded:
  assumes "lower name = name"
  shows "header_value (Some (decode_headers raw)) name = strip (or_empty (map_of (decode_headers raw) name))"
proof (cases "map_of (decode_headers raw) name")
  case None
  have "find (\<lambda>(k, v). lower k = lower name) (decode_headers raw) = None"
  proof -
    have "lower (fst p) \<noteq> lower name" if "p \<in> set (decode_headers raw)" for p
      using that None decode_headers_lower [of raw] assms by (auto simp: map_of_eq_None_iff image_iff)
    then show ?thesis by (auto simp: find_None_iff split: prod.splits)
  qed
  with None show ?thesis by (simp add: header_value_def or_empty_def)
qed (simp add: header_value_def or_empty_def)

lemma header_names_lower:
  "lower ''x-user-id'' = ''x-user-id''" "lower ''x-daedalus-internal-token'' = ''x-daedalus-internal-token''"
  by (simp_all add: lower_def lower_char_def is_upper_letter_def code_def)

lemma gate_identity:
  "authenticated_user_id_from_headers S (Some (decode_headers raw)) = Inr u \<longleftrightarrow>
   require_trusted_user S (map_of (decode_headers raw) ''x-user-id'')
     (map_of (decode_headers raw) ''x-daedalus-internal-token'') = Inr u"
  unfolding authenticated_user_id_from_headers_def require_trusted_user_def require_internal_token_def
    header_value_decoded [OF header_names_lower(1)] header_value_decoded [OF header_names_lower(2)] Let_def
  by (auto simp: bind_result_Inr split: if_splits)

lemma no_context_no_identity:
  "authenticated_user_id_from_headers S None = Inr u \<Longrightarrow> False"
  by (simp add: authenticated_user_id_from_headers_def header_value_def Let_def split: if_splits)

section \<open>Properties\<close>

text \<open>C6. The boundary fails closed: a request for a path that is not public (and every WebSocket)
  reaches the application only with a context whose token equals the configured one (or, with no token
  configured, only under the explicit opt-out) and with a user; and then every tool that asks for the
  identity gets exactly that user. Without the token nothing but the public paths is reachable.\<close>

theorem boundary_fails_closed:
  assumes "scope_type sc = ''websocket'' \<or> scope_type sc = ''http'' \<and> request_path sc \<notin> set PUBLIC_HTTP_PATHS"
    and "middleware S sc = Forward ctx"
  shows "\<exists>headers user. ctx = Some headers \<and> user \<noteq> []
    \<and> authenticated_user_id_from_headers S ctx = Inr user
    \<and> resolve_authenticated_user_id S ctx = Inr user
    \<and> (configured_internal_token S \<noteq> [] \<longrightarrow>
         strip (or_empty (map_of headers ''x-daedalus-internal-token'')) = configured_internal_token S)
    \<and> (configured_internal_token S = [] \<longrightarrow> allow_insecure_internal S)"
proof -
  let ?h = "decode_headers (scope_headers sc)"
  from assms obtain user where ctx: "ctx = Some ?h"
    and t: "require_trusted_user S (map_of ?h ''x-user-id'') (map_of ?h ''x-daedalus-internal-token'') = Inr user"
    by (auto simp: middleware_def Let_def split: if_splits sum.splits py_error.splits)
  from t have "user \<noteq> []" "configured_internal_token S \<noteq> [] \<longrightarrow>
      strip (or_empty (map_of ?h ''x-daedalus-internal-token'')) = configured_internal_token S"
    "configured_internal_token S = [] \<longrightarrow> allow_insecure_internal S"
    by (auto simp: require_trusted_user_def require_internal_token_def Let_def bind_result_Inr split: if_splits)
  moreover from t have "authenticated_user_id_from_headers S ctx = Inr user"
    unfolding ctx gate_identity .
  ultimately show ?thesis
    by (auto simp: ctx resolve_authenticated_user_id_def authenticated_user_id_from_context_or_fallback_def)
qed

definition sample_scope :: scope where
  "sample_scope = \<lparr>scope_type = ''http'', scope_path = Some ''/v1/chat/'',
     scope_headers = [(''X-User-Id'', '' ann ''), (''X-Daedalus-Internal-Token'', ''k'')]\<rparr>"

theorem boundary_fails_closed_witness:
  "\<exists>headers. middleware \<lparr>token_env = Some ''k'', insecure_env = None\<rparr> sample_scope = Forward (Some headers)
    \<and> resolve_authenticated_user_id \<lparr>token_env = Some ''k'', insecure_env = None\<rparr> (Some headers) = Inr ''ann''"
proof -
  let ?S = "\<lparr>token_env = Some ''k'', insecure_env = None\<rparr>"
  let ?h = "decode_headers (scope_headers sample_scope)"
  have m: "middleware ?S sample_scope = Forward (Some ?h)" by code_simp
  have p: "scope_type sample_scope = ''websocket'' \<or>
      scope_type sample_scope = ''http'' \<and> request_path sample_scope \<notin> set PUBLIC_HTTP_PATHS"
    by code_simp
  have u: "authenticated_user_id_from_headers ?S (Some ?h) = Inr ''ann''" by code_simp
  from boundary_fails_closed [OF p m] m u show ?thesis by auto
qed

text \<open>Outside the boundary there is no identity: with no HTTP context no identity, no execution
  identifier and no autonomy scope is found, whatever the settings; a request identifier or an autonomy
  claim is believed only together with a valid identity.\<close>

theorem no_identity_outside:
  "\<not> is_ok (resolve_authenticated_user_id S None)
   \<and> execution_id_from_context_or_none None = None
   \<and> \<not> is_authenticated_autonomy_request S None
   \<and> (is_authenticated_autonomy_request S ctx \<or> request_id_from_context_or_none S ctx \<noteq> None \<longrightarrow>
        is_ok (resolve_authenticated_user_id S ctx))"
proof -
  have "is_ok (resolve_authenticated_user_id S ctx)"
    if "authenticated_user_id_from_headers S ctx = Inr u" for u
  proof -
    have "ctx \<noteq> None" using that by (cases ctx) (auto dest: no_context_no_identity)
    moreover have "u \<noteq> []"
      using that by (auto simp: authenticated_user_id_from_headers_def Let_def split: if_splits)
    ultimately show ?thesis
      using that by (simp add: resolve_authenticated_user_id_def authenticated_user_id_from_context_or_fallback_def)
  qed
  then show ?thesis
    by (auto dest: no_context_no_identity simp: is_authenticated_autonomy_request_def request_id_from_context_or_none_def
        trusted_request_header_from_context_def resolve_authenticated_user_id_def
        authenticated_user_id_from_context_or_fallback_def execution_id_from_context_or_none_def
        bind_result_Inr split: sum.splits)
qed

theorem no_identity_outside_witness:
  "is_ok (resolve_authenticated_user_id \<lparr>token_env = None, insecure_env = Some ''1''\<rparr>
     (Some [(''x-user-id'', ''ann''), (''x-daedalus-execution-scope'', ''Autonomy'')]))"
proof -
  let ?S = "\<lparr>token_env = None, insecure_env = Some ''1''\<rparr>"
  let ?c = "Some [(''x-user-id'', ''ann''), (''x-daedalus-execution-scope'', ''Autonomy'')]"
  have "is_authenticated_autonomy_request ?S ?c" by code_simp
  with no_identity_outside [of ?S ?c] show ?thesis by blast
qed

end
