(* ===== verification/Interfaces.thy ===== *)
theory Interfaces
  imports Prelude
begin

text \<open>
  Interfaces shared by the components, stated as locales and interpreted where a component
  provides them: transition systems with an inductive invariant, and first-in first-out queues.
\<close>

section \<open>Transition systems\<close>

inductive reach :: "('s \<Rightarrow> bool) \<Rightarrow> ('s \<Rightarrow> 's \<Rightarrow> bool) \<Rightarrow> 's \<Rightarrow> bool"
  for init :: "'s \<Rightarrow> bool" and trans :: "'s \<Rightarrow> 's \<Rightarrow> bool"
where
  reach_start: "init s \<Longrightarrow> reach init trans s"
| reach_next: "reach init trans s \<Longrightarrow> trans s t \<Longrightarrow> reach init trans t"

locale invariant_system =
  fixes init :: "'s \<Rightarrow> bool"
    and trans :: "'s \<Rightarrow> 's \<Rightarrow> bool"
    and inv :: "'s \<Rightarrow> bool"
  assumes init_inv: "init s \<Longrightarrow> inv s"
    and trans_inv: "inv s \<Longrightarrow> trans s t \<Longrightarrow> inv t"
begin

lemma reach_inv: "reach init trans s \<Longrightarrow> inv s"
  by (induction rule: reach.induct) (auto intro: init_inv trans_inv)

lemma reach_implies: "(\<And>s. inv s \<Longrightarrow> P s) \<Longrightarrow> reach init trans s \<Longrightarrow> P s"
  using reach_inv by blast

end

text \<open>A detailed system that implements an abstract one: every step is an abstract step or leaves the
  abstract state as it is.\<close>

locale refinement =
  fixes init :: "'s \<Rightarrow> bool"
    and trans :: "'s \<Rightarrow> 's \<Rightarrow> bool"
    and spec_init :: "'a \<Rightarrow> bool"
    and spec_trans :: "'a \<Rightarrow> 'a \<Rightarrow> bool"
    and abs_state :: "'s \<Rightarrow> 'a"
  assumes init_abs: "init s \<Longrightarrow> spec_init (abs_state s)"
    and trans_abs: "trans s t \<Longrightarrow> abs_state t = abs_state s \<or> spec_trans (abs_state s) (abs_state t)"
begin

lemma reach_abs: "reach init trans s \<Longrightarrow> reach spec_init spec_trans (abs_state s)"
proof (induction rule: reach.induct)
  case (reach_start s)
  then show ?case by (intro reach.reach_start init_abs)
next
  case (reach_next s t)
  from trans_abs [OF reach_next(2)] reach_next(3) show ?case
    by (metis reach.reach_next)
qed

lemma spec_holds: "(\<And>a. reach spec_init spec_trans a \<Longrightarrow> P a) \<Longrightarrow> reach init trans s \<Longrightarrow> P (abs_state s)"
  using reach_abs by blast

end

section \<open>First-in first-out queues\<close>

text \<open>\<open>waiting\<close> lists the waiting entries, the one to be served next first.\<close>

locale fifo_queue =
  fixes push :: "'a \<Rightarrow> 'q \<Rightarrow> 'q"
    and pop :: "'q \<Rightarrow> 'a option \<times> 'q"
    and waiting :: "'q \<Rightarrow> 'a list"
  assumes waiting_push: "waiting (push x q) = waiting q @ [x]"
    and pop_empty: "waiting q = [] \<Longrightarrow> pop q = (None, q)"
    and pop_waiting: "waiting q = x # xs \<Longrightarrow> fst (pop q) = Some x \<and> waiting (snd (pop q)) = xs"
begin

primrec serve :: "nat \<Rightarrow> 'q \<Rightarrow> 'a list \<times> 'q" where
  "serve 0 q = ([], q)"
| "serve (Suc n) q =
     (case pop q of
        (None, q') \<Rightarrow> ([], q')
      | (Some x, q') \<Rightarrow> (case serve n q' of (xs, q'') \<Rightarrow> (x # xs, q'')))"

lemma waiting_push_list: "waiting (fold push xs q) = waiting q @ xs"
  by (induction xs arbitrary: q) (auto simp: waiting_push)

lemma serve_waiting:
  "n \<le> length (waiting q) \<Longrightarrow>
     fst (serve n q) = take n (waiting q) \<and> waiting (snd (serve n q)) = drop n (waiting q)"
proof (induction n arbitrary: q)
  case 0
  then show ?case by simp
next
  case (Suc n)
  then obtain x xs where w: "waiting q = x # xs"
    by (cases "waiting q") auto
  from pop_waiting [OF w] obtain q' where q': "pop q = (Some x, q')" "waiting q' = xs"
    by (cases "pop q") auto
  with Suc.IH [of q'] Suc.prems w show ?case
    by (auto simp: split_beta)
qed

lemma serve_pushed_in_order:
  "waiting q = [] \<Longrightarrow> fst (serve (length xs) (fold push xs q)) = xs"
  using serve_waiting [of "length xs" "fold push xs q"] by (simp add: waiting_push_list)

end

end
