(* ===== verification/Work_Queue.thy ===== *)
theory Work_Queue
  imports Interfaces
begin

text \<open>
  The reliable work queue of the autonomous worker
  (\<open>builder/autonomous_agent/src/autonomous_agent/store.py\<close>): the per-user lease, the queue, the
  processing list and the phase of every claim.

  \<^item> \<open>redis\<close> holds one user's keys (\<open>autonomy:<user>:*\<close>); \<open>store\<close> holds what one
    \<open>RedisStore\<close> object remembers for that user. Every method is a function of both.
  \<^item> Each Lua script is one function of \<open>redis\<close>, because Redis runs it atomically. The three
    commands of \<open>dequeue\<close> that other workers can interleave with are three functions.
  \<^item> A list key is a \<^typ>\<open>'a list\<close> with the LEFT end first.
  \<^item> Time to live: a lease carries the seconds it was last given. That it expires is a step of
    the environment in the theory \<open>Queue_System\<close>.
\<close>

section \<open>State\<close>

text \<open>The text of a Redis string as \<open>json.loads\<close> reads it: a decoded value, or other text.\<close>

datatype payload = Encoded json | Garbage string

fun json_loads :: "payload \<Rightarrow> json option" where
  "json_loads (Encoded v) = Some v"
| "json_loads (Garbage s) = None"

fun payload_truthy :: "payload \<Rightarrow> bool" where
  "payload_truthy (Encoded v) = True"
| "payload_truthy (Garbage s) = (s \<noteq> [])"

text \<open>A key that holds a JSON document: absent, a plain string, a RedisJSON value, or a key of
  another Redis type (its \<open>TYPE\<close>).\<close>

datatype slot = Missing | PlainText payload | RedisJson json | OtherKind string

record redis =
  lease :: "(string \<times> int) option"
  queue :: "payload list"
  processing :: "payload list"
  processing_state :: "payload \<rightharpoonup> string"
  slots :: "string \<Rightarrow> slot"
  texts :: "string \<rightharpoonup> string"
  cancels :: "string \<rightharpoonup> string"
  published :: "(string \<times> json) list"

record store =
  lease_token :: "string option"
  lease_ttl :: "int option"
  inflight :: "payload option"

definition empty_store :: store where
  "empty_store = \<lparr>lease_token = None, lease_ttl = None, inflight = None\<rparr>"

definition empty_redis :: redis where
  "empty_redis = \<lparr>lease = None, queue = [], processing = [], processing_state = Map.empty,
     slots = (\<lambda>_. Missing), texts = Map.empty, cancels = Map.empty, published = []\<rparr>"

section \<open>Lease operations\<close>

text \<open>
  The token is \<open>"<pid>:<uuid hex>"\<close>, so it is never empty and Python's test \<open>not token\<close> is the
  test for an absent entry. \<open>SET key token NX EX ttl\<close> succeeds only on an absent key.
\<close>

definition acquire_lease :: "string \<Rightarrow> int \<Rightarrow> store \<Rightarrow> redis \<Rightarrow> bool \<times> store \<times> redis" where
  "acquire_lease token ttl_seconds s r =
     (let ttl = max 1 ttl_seconds in
      case lease r of
        Some l \<Rightarrow> (False, s, r)
      | None \<Rightarrow>
          (True, s\<lparr>lease_token := Some token, lease_ttl := Some ttl\<rparr>,
           r\<lparr>lease := Some (token, ttl)\<rparr>))"

definition owns_lease :: "store \<Rightarrow> redis \<Rightarrow> bool" where
  "owns_lease s r =
     (case lease_token s of None \<Rightarrow> False | Some t \<Rightarrow> map_option fst (lease r) = Some t)"

definition refresh_script :: "string \<Rightarrow> int \<Rightarrow> redis \<Rightarrow> bool \<times> redis" where
  "refresh_script token ttl r =
     (if map_option fst (lease r) = Some token
      then (True, r\<lparr>lease := Some (token, ttl)\<rparr>) else (False, r))"

definition refresh_lease :: "int \<Rightarrow> store \<Rightarrow> redis \<Rightarrow> bool \<times> store \<times> redis" where
  "refresh_lease ttl_seconds s r =
     (case lease_token s of
        None \<Rightarrow> (False, s, r)
      | Some t \<Rightarrow>
          (let ttl = max 1 ttl_seconds; (refreshed, r') = refresh_script t ttl r in
           if refreshed then (True, s\<lparr>lease_ttl := Some ttl\<rparr>, r')
           else (False, s\<lparr>lease_token := None, lease_ttl := None\<rparr>, r')))"

definition release_script :: "string \<Rightarrow> redis \<Rightarrow> redis" where
  "release_script token r =
     (if map_option fst (lease r) = Some token then r\<lparr>lease := None\<rparr> else r)"

definition release_lease :: "store \<Rightarrow> redis \<Rightarrow> store \<times> redis" where
  "release_lease s r =
     (let s' = s\<lparr>lease_token := None, lease_ttl := None\<rparr> in
      case lease_token s of None \<Rightarrow> (s', r) | Some t \<Rightarrow> (s', release_script t r))"

section \<open>Queue operations\<close>

definition queue_length :: "redis \<Rightarrow> nat" where
  "queue_length r = length (queue r)"

fun json_dict_of :: "payload \<Rightarrow> dict option" where
  "json_dict_of (Encoded (JObj d)) = Some d"
| "json_dict_of _ = None"

text \<open>\<open>LRANGE queue -limit -1\<close>, reversed, keeping the entries that decode to objects.\<close>

definition queue_snapshot :: "nat \<Rightarrow> redis \<Rightarrow> dict list" where
  "queue_snapshot limit r =
     (let raw_items = (if limit = 0 then queue r
                       else drop (length (queue r) - limit) (queue r))
      in List.map_filter json_dict_of (rev raw_items))"

text \<open>\<open>LPUSH queue\<close>, the producers' operation (the dashboard and the scheduler).\<close>

definition enqueue :: "payload \<Rightarrow> redis \<Rightarrow> redis" where
  "enqueue p r = r\<lparr>queue := p # queue r\<rparr>"

text \<open>\<open>BRPOPLPUSH queue processing\<close>.\<close>

definition pop_to_processing :: "redis \<Rightarrow> payload option \<times> redis" where
  "pop_to_processing r =
     (if queue r = [] then (None, r)
      else (Some (last (queue r)),
            r\<lparr>queue := butlast (queue r), processing := last (queue r) # processing r\<rparr>))"

definition record_phase :: "payload \<Rightarrow> string \<Rightarrow> redis \<Rightarrow> redis" where
  "record_phase p phase r = r\<lparr>processing_state := (processing_state r)(p \<mapsto> phase)\<rparr>"

text \<open>
  What \<open>dequeue\<close> does after the claim was recorded: renew the lease, decode the request, drop a
  poison entry, and remember the request in flight.
\<close>

definition finish_dequeue ::
  "payload \<Rightarrow> store \<Rightarrow> redis \<Rightarrow> dict option result \<times> store \<times> redis" where
  "finish_dequeue raw s r =
     (let ttl = (case lease_ttl s of None \<Rightarrow> 60 | Some t \<Rightarrow> t);
          (ok, s1, r1) = refresh_lease ttl s r in
      if \<not> ok
      then (Inl (RuntimeError ''worker lease was lost while dequeuing a request''), s1, r1)
      else case json_dict_of raw of
        None \<Rightarrow>
          (Inr None, s1,
           r1\<lparr>processing := remove1 raw (processing r1),
              processing_state := (processing_state r1)(raw := None)\<rparr>)
      | Some parsed \<Rightarrow> (Inr (Some parsed), s1\<lparr>inflight := Some raw\<rparr>, r1))"

definition dequeue :: "store \<Rightarrow> redis \<Rightarrow> dict option result \<times> store \<times> redis" where
  "dequeue s r =
     (if \<not> owns_lease s r
      then (Inl (RuntimeError ''cannot dequeue without owning the worker lease''), s, r)
      else case pop_to_processing r of
        (None, r1) \<Rightarrow> (Inr None, s, r1)
      | (Some raw, r1) \<Rightarrow>
          if \<not> payload_truthy raw then (Inr None, s, r1)
          else finish_dequeue raw s (record_phase raw ''claimed'' r1))"

definition mark_started_script :: "string \<Rightarrow> payload \<Rightarrow> redis \<Rightarrow> bool \<times> redis" where
  "mark_started_script token raw r =
     (if map_option fst (lease r) \<noteq> Some token \<or> processing_state r raw \<noteq> Some ''claimed''
      then (False, r) else (True, record_phase raw ''started'' r))"

definition mark_backend_started :: "store \<Rightarrow> redis \<Rightarrow> unit result \<times> redis" where
  "mark_backend_started s r =
     (case (inflight s, lease_token s) of
        (Some raw, Some token) \<Rightarrow>
          (case mark_started_script token raw r of
             (ok, r') \<Rightarrow> (if ok then Inr () else Inl WorkerLeaseLost, r'))
      | _ \<Rightarrow> (Inl WorkerLeaseLost, r))"

definition complete_script :: "string \<Rightarrow> payload \<Rightarrow> redis \<Rightarrow> bool \<times> redis" where
  "complete_script token raw r =
     (if map_option fst (lease r) \<noteq> Some token then (False, r)
      else (True, r\<lparr>processing := remove1 raw (processing r),
                     processing_state := (processing_state r)(raw := None)\<rparr>))"

definition complete :: "store \<Rightarrow> redis \<Rightarrow> bool \<times> store \<times> redis" where
  "complete s r =
     (let s' = s\<lparr>inflight := None\<rparr> in
      case inflight s of
        None \<Rightarrow> (False, s', r)
      | Some raw \<Rightarrow>
          (case lease_token s of
             None \<Rightarrow> (False, s', r)
           | Some token \<Rightarrow> (case complete_script token raw r of (ok, r') \<Rightarrow> (ok, s', r'))))"

text \<open>
  The reclaim script: from the LEFT end, a claim whose phase is \<open>claimed\<close> moves to the RIGHT end
  of the queue, any other claim is removed; its phase is deleted; every claim is reported.
\<close>

fun reclaim_loop ::
  "payload list \<Rightarrow> payload list \<Rightarrow> (payload \<rightharpoonup> string) \<Rightarrow> payload list \<times> payload list" where
  "reclaim_loop [] q st = (q, [])"
| "reclaim_loop (v # ps) q st =
     (let q' = (if st v = Some ''claimed'' then q @ [v] else q);
          (q'', moved) = reclaim_loop ps q' (st(v := None))
      in (q'', v # moved))"

definition reclaim_script :: "string \<Rightarrow> redis \<Rightarrow> payload list option \<times> redis" where
  "reclaim_script token r =
     (if map_option fst (lease r) \<noteq> Some token then (None, r)
      else (case reclaim_loop (processing r) (queue r) (processing_state r) of
              (q, moved) \<Rightarrow>
                (Some moved, r\<lparr>queue := q, processing := [], processing_state := Map.empty\<rparr>)))"

text \<open>The script run when no claim is left: it deletes phases left behind by a lost lease.\<close>

definition clear_phases_script :: "string \<Rightarrow> redis \<Rightarrow> redis" where
  "clear_phases_script token r =
     (if map_option fst (lease r) \<noteq> Some token then r
      else if processing r = [] then r\<lparr>processing_state := Map.empty\<rparr> else r)"

definition cancel_requested :: "string \<Rightarrow> redis \<Rightarrow> bool" where
  "cancel_requested run_id r =
     (case cancels r run_id of None \<Rightarrow> False | Some v \<Rightarrow> v \<noteq> [])"

lemmas lease_defs = acquire_lease_def owns_lease_def refresh_lease_def refresh_script_def
  release_lease_def release_script_def

lemmas queue_defs = enqueue_def pop_to_processing_def record_phase_def finish_dequeue_def
  dequeue_def mark_started_script_def mark_backend_started_def complete_script_def complete_def
  reclaim_script_def clear_phases_script_def

section \<open>Facts about single operations\<close>

lemma reclaim_loop_moved [simp]: "snd (reclaim_loop ps q st) = ps"
  by (induction ps arbitrary: q st) (auto simp: Let_def split_beta)

lemma reclaim_loop_queue:
  "distinct ps \<Longrightarrow>
     fst (reclaim_loop ps q st) = q @ filter (\<lambda>v. st v = Some ''claimed'') ps"
proof (induction ps arbitrary: q st)
  case Nil
  then show ?case by simp
next
  case (Cons v ps)
  have "filter (\<lambda>u. (st(v := None)) u = Some ''claimed'') ps
      = filter (\<lambda>u. st u = Some ''claimed'') ps"
    using Cons.prems by (intro filter_cong) auto
  with Cons.prems show ?case
    by (simp add: Let_def split_beta Cons.IH del: fun_upd_apply)
qed

lemma reclaim_loop_eq:
  "distinct ps \<Longrightarrow>
     reclaim_loop ps q st = (q @ filter (\<lambda>v. st v = Some ''claimed'') ps, ps)"
  by (metis prod.collapse reclaim_loop_moved reclaim_loop_queue)

interpretation rq: fifo_queue enqueue pop_to_processing "\<lambda>r. rev (queue r)"
proof unfold_locales
  fix x and q :: redis
  show "rev (queue (enqueue x q)) = rev (queue q) @ [x]"
    by (simp add: enqueue_def)
next
  fix q :: redis
  assume "rev (queue q) = []"
  then show "pop_to_processing q = (None, q)"
    by (simp add: pop_to_processing_def)
next
  fix q :: redis and x xs
  assume "rev (queue q) = x # xs"
  then have q: "queue q = rev xs @ [x]"
    by (metis rev.simps(2) rev_rev_ident)
  then show "fst (pop_to_processing q) = Some x \<and> rev (queue (snd (pop_to_processing q))) = xs"
    by (simp add: pop_to_processing_def)
qed

lemma owns_lease_iff:
  "owns_lease s r \<longleftrightarrow> (\<exists>t n. lease_token s = Some t \<and> lease r = Some (t, n))"
  by (auto simp: owns_lease_def split: option.splits)

lemma mark_started_ok:
  "mark_backend_started s r = (Inr (), r') \<longleftrightarrow>
     (\<exists>raw. inflight s = Some raw \<and> owns_lease s r \<and> processing_state r raw = Some ''claimed''
            \<and> r' = record_phase raw ''started'' r)"
  by (auto simp: mark_backend_started_def mark_started_script_def owns_lease_def
      split: option.splits if_splits)

end
