(* ===== verification/Approval_Tokens.thy ===== *)
theory Approval_Tokens
  imports Py_Values Work_Queue
begin

text \<open>
  Single-use approval credentials
  (\<open>builder/user_interaction/src/user_interaction/approval_tokens.py\<close>).

  SHA-256, the canonical \<open>json.dumps\<close>, \<open>json.loads\<close> and the random texts are arguments
  (\<open>crypto\<close>, and the token or request identifier of a call). The keys of the approval database map to
  the stored text as \<open>json.loads\<close> reads it. A key expires as a step of the environment.
\<close>

record crypto =
  hash256 :: "string \<Rightarrow> string"
  canonical_dumps :: "dict \<Rightarrow> string"
  decode_json :: "string \<Rightarrow> json option"

type_synonym approvals = "string \<rightharpoonup> payload"

record approval_request =
  ar_user_id :: string
  ar_action_type :: string
  ar_target :: string
  ar_server_name :: string
  ar_tool_name :: string
  ar_arguments_sha256 :: string
  ar_canonical_arguments :: string

section \<open>Keys and canonical arguments\<close>

definition norm_text :: "string \<Rightarrow> string \<Rightarrow> string" where
  "norm_text value fallback =
     (let t = strip (if value = [] then fallback else value) in if t = [] then fallback else t)"

text \<open>\<open>_norm(payload.get(...))\<close>: \<open>strip\<close> of a true value that is not text raises.\<close>

definition norm_value :: "json \<Rightarrow> string result" where
  "norm_value v =
     (case v of JStr s \<Rightarrow> Inr (norm_text s []) | _ \<Rightarrow> if truthy v then Inl AttributeError else Inr [])"

definition safe_user :: "crypto \<Rightarrow> string \<Rightarrow> string" where
  "safe_user C user_id = take 16 (hash256 C (norm_text user_id ''anonymous''))"

definition approval_token_key :: "crypto \<Rightarrow> string \<Rightarrow> string \<Rightarrow> string" where
  "approval_token_key C user_id token = ''approval:'' @ safe_user C user_id @ '':'' @ token"

definition pending_approval_key :: "crypto \<Rightarrow> string \<Rightarrow> string \<Rightarrow> string" where
  "pending_approval_key C user_id request_id =
     ''approval-pending:'' @ safe_user C user_id @ '':'' @ norm_text request_id []"

definition canonicalize_mcp_arguments :: "crypto \<Rightarrow> string \<Rightarrow> (string \<times> string) result" where
  "canonicalize_mcp_arguments C arguments_json =
     (case decode_json C arguments_json of
        Some (JObj arguments) \<Rightarrow>
          let canonical = canonical_dumps C (dict_pop ''approval_token'' arguments)
          in Inr (canonical, hash256 C canonical)
      | _ \<Rightarrow> Inl (ValueError ''arguments_json must be a JSON object''))"

section \<open>Pending intents\<close>

record pending_intent =
  pi_user_id :: string
  pi_action :: string
  pi_reason :: string
  pi_target :: string
  pi_server_name :: string
  pi_tool_name :: string
  pi_arguments_json :: string

definition create_pending_mcp_approval ::
  "crypto \<Rightarrow> string \<Rightarrow> int \<Rightarrow> pending_intent \<Rightarrow> approvals \<Rightarrow> dict result \<times> approvals" where
  "create_pending_mcp_approval C request_id time p m =
     (let user = norm_text (pi_user_id p) []; action = norm_text (pi_action p) [];
          reason = norm_text (pi_reason p) []; target = norm_text (pi_target p) [];
          server = norm_text (pi_server_name p) []; tool = norm_text (pi_tool_name p) [] in
      if user = [] then (Inl (ValueError ''pending MCP approval requires an authenticated user''), m)
      else if action = [] \<or> reason = []
      then (Inl (ValueError ''pending MCP approval requires an exact action and reason''), m)
      else if target = [] \<or> target = ''*''
      then (Inl (ValueError ''pending MCP approval requires an exact target''), m)
      else if server = [] \<or> tool = []
      then (Inl (ValueError ''pending MCP approval requires an exact server and tool''), m)
      else (case canonicalize_mcp_arguments C (pi_arguments_json p) of
              Inl e \<Rightarrow> (Inl e, m)
            | Inr (canonical, sha) \<Rightarrow>
                let d = [(''request_id'', JStr request_id), (''user_id'', JStr user),
                         (''action_type'', JStr ''mcp_mutation''), (''action'', JStr action),
                         (''reason'', JStr reason), (''target'', JStr target),
                         (''server_name'', JStr server), (''tool_name'', JStr tool),
                         (''canonical_arguments'', JStr canonical), (''arguments_sha256'', JStr sha),
                         (''created_at'', JInt time)]
                in (Inr d, m(pending_approval_key C user request_id \<mapsto> Encoded (JObj d)))))"

section \<open>Issuing\<close>

definition credential_payload :: "int \<Rightarrow> approval_request \<Rightarrow> dict" where
  "credential_payload time req =
     [(''user_id'', JStr (norm_text (ar_user_id req) [])),
      (''action_type'', JStr (norm_text (ar_action_type req) [])),
      (''target'', JStr (norm_text (ar_target req) [])),
      (''server_name'', JStr (norm_text (ar_server_name req) [])),
      (''tool_name'', JStr (norm_text (ar_tool_name req) [])),
      (''arguments_sha256'', JStr (norm_text (ar_arguments_sha256 req) [])),
      (''canonical_arguments'', JStr (norm_text (ar_canonical_arguments req) [])),
      (''created_at'', JInt time)]"

definition check_mcp_request :: "crypto \<Rightarrow> approval_request \<Rightarrow> unit result" where
  "check_mcp_request C req =
     (let canonical_arguments = norm_text (ar_canonical_arguments req) [];
          sha = norm_text (ar_arguments_sha256 req) [] in
      if norm_text (ar_server_name req) [] = [] \<or> norm_text (ar_tool_name req) [] = [] \<or> sha = []
         \<or> canonical_arguments = []
      then Inl (ValueError ''MCP approval credentials require an exact server, tool, canonical arguments, and argument hash'')
      else bind_result (canonicalize_mcp_arguments C canonical_arguments) (\<lambda>(c, canonical_hash).
        if canonical_hash \<noteq> sha
        then Inl (ValueError ''MCP approval canonical arguments do not match hash'') else Inr ()))"

definition issue_approval_token ::
  "crypto \<Rightarrow> string \<Rightarrow> int \<Rightarrow> approval_request \<Rightarrow> approvals \<Rightarrow> string result \<times> approvals" where
  "issue_approval_token C token time req m =
     (let user = norm_text (ar_user_id req) []; action = norm_text (ar_action_type req) [];
          target = norm_text (ar_target req) [] in
      if user = [] \<or> action = []
      then (Inl (ValueError ''approval credentials require an exact user and action''), m)
      else if target = [] \<or> target = ''*''
      then (Inl (ValueError ''approval credentials cannot use a wildcard target''), m)
      else (case (if action = ''mcp_mutation'' then check_mcp_request C req else Inr ()) of
              Inl e \<Rightarrow> (Inl e, m)
            | Inr _ \<Rightarrow>
                (Inr token, m(approval_token_key C user token \<mapsto> Encoded (JObj (credential_payload time req))))))"

section \<open>Validation\<close>

text \<open>The comparison of a decoded payload with the expected request; \<open>normalize_arguments_hash\<close> recomputes the hash
  of the approved arguments where a remote schema supplies defaults.\<close>

definition actual_hash ::
  "string \<Rightarrow> (string \<Rightarrow> string result) option \<Rightarrow> dict \<Rightarrow> (string + string) result" where
  "actual_hash action_type normalize_arguments_hash d =
     bind_result (norm_value (dict_get d ''arguments_sha256'')) (\<lambda>stored.
       case normalize_arguments_hash of
         Some f \<Rightarrow>
           if action_type = ''mcp_mutation''
           then (case dict_get d ''canonical_arguments'' of
                   JStr (c # cs) \<Rightarrow>
                     (case f (c # cs) of
                        Inl e \<Rightarrow> Inr (Inl ''approval_token canonical arguments are invalid'')
                      | Inr h \<Rightarrow> Inr (Inr (norm_text h [])))
                 | _ \<Rightarrow> Inr (Inl ''approval_token canonical arguments are missing''))
           else Inr (Inr stored)
       | None \<Rightarrow> Inr (Inr stored))"

definition compare_request :: "approval_request \<Rightarrow> dict \<Rightarrow> string \<Rightarrow> (bool \<times> string) result" where
  "compare_request expected d sha =
     bind_result (norm_value (dict_get d ''user_id'')) (\<lambda>user.
     bind_result (norm_value (dict_get d ''action_type'')) (\<lambda>action.
     bind_result (norm_value (dict_get d ''target'')) (\<lambda>target.
     bind_result (norm_value (dict_get d ''server_name'')) (\<lambda>server.
     bind_result (norm_value (dict_get d ''tool_name'')) (\<lambda>tool.
       Inr (if user \<noteq> ar_user_id expected then (False, ''approval_token user mismatch'')
            else if action \<noteq> ar_action_type expected then (False, ''approval_token action mismatch'')
            else if ar_action_type expected \<noteq> ''mcp_mutation''
                    \<and> (ar_target expected = [] \<or> target \<noteq> ar_target expected)
            then (False, ''approval_token target mismatch'')
            else if server \<noteq> ar_server_name expected then (False, ''approval_token server mismatch'')
            else if tool \<noteq> ar_tool_name expected then (False, ''approval_token tool mismatch'')
            else if sha \<noteq> ar_arguments_sha256 expected then (False, ''approval_token arguments mismatch'')
            else (True, ''approved'')))))))"

definition expected_request :: "approval_request \<Rightarrow> approval_request" where
  "expected_request q =
     \<lparr>ar_user_id = norm_text (ar_user_id q) [], ar_action_type = norm_text (ar_action_type q) [],
      ar_target = norm_text (ar_target q) [], ar_server_name = norm_text (ar_server_name q) [],
      ar_tool_name = norm_text (ar_tool_name q) [],
      ar_arguments_sha256 = norm_text (ar_arguments_sha256 q) [], ar_canonical_arguments = []\<rparr>"

text \<open>\<open>q\<close> carries the arguments of the call. \<open>GETDEL\<close> reads and removes the key at once.\<close>

definition validate_approval_token ::
  "crypto \<Rightarrow> approval_request \<Rightarrow> string \<Rightarrow> (string \<Rightarrow> string result) option \<Rightarrow> bool \<Rightarrow> approvals \<Rightarrow>
   (bool \<times> string) result \<times> approvals" where
  "validate_approval_token C q token normalize_arguments_hash consume m =
     (if token = [] then (Inr (False, ''approval_token is required''), m)
      else
        let key = approval_token_key C (ar_user_id q) token;
            m' = (if consume then m(key := None) else m) in
        (case m key of
           None \<Rightarrow> (Inr (False, ''approval_token is missing, expired, or already used''), m')
         | Some raw \<Rightarrow>
             if \<not> payload_truthy raw
             then (Inr (False, ''approval_token is missing, expired, or already used''), m')
             else (case json_loads raw of
                     None \<Rightarrow> (Inr (False, ''approval_token payload is invalid''), m')
                   | Some (JObj d) \<Rightarrow>
                       (case actual_hash (ar_action_type q) normalize_arguments_hash d of
                          Inl e \<Rightarrow> (Inl e, m')
                        | Inr (Inl reason) \<Rightarrow> (Inr (False, reason), m')
                        | Inr (Inr sha) \<Rightarrow> (compare_request (expected_request q) d sha, m'))
                   | Some _ \<Rightarrow> (Inl AttributeError, m'))))"

section \<open>Facts\<close>

lemma norm_text_idem [simp]: "norm_text (norm_text s []) [] = norm_text s []"
  by (simp add: norm_text_def Let_def)

lemma credential_fields:
  "dict_get (credential_payload t req) ''user_id'' = JStr (norm_text (ar_user_id req) [])"
  "dict_get (credential_payload t req) ''action_type'' = JStr (norm_text (ar_action_type req) [])"
  "dict_get (credential_payload t req) ''target'' = JStr (norm_text (ar_target req) [])"
  "dict_get (credential_payload t req) ''server_name'' = JStr (norm_text (ar_server_name req) [])"
  "dict_get (credential_payload t req) ''tool_name'' = JStr (norm_text (ar_tool_name req) [])"
  "dict_get (credential_payload t req) ''arguments_sha256'' = JStr (norm_text (ar_arguments_sha256 req) [])"
  by (simp_all add: credential_payload_def dict_get_def)

lemma safe_user_norm: "safe_user C (norm_text u []) = safe_user C u"
proof -
  have "strip ''anonymous'' = ''anonymous''" by code_simp
  then show ?thesis by (auto simp: safe_user_def norm_text_def Let_def)
qed

lemma validate_effect:
  "snd (validate_approval_token C q token normalize_arguments_hash consume m)
     = (if token \<noteq> [] \<and> consume then m(approval_token_key C (ar_user_id q) token := None) else m)"
  by (simp add: validate_approval_token_def Let_def split: option.splits json.splits sum.splits)

text \<open>What an accepted credential says.\<close>

lemma validate_accepts:
  assumes "fst (validate_approval_token C q token normalize_arguments_hash consume m) = Inr (True, reason)"
  shows "\<exists>d sha. m (approval_token_key C (ar_user_id q) token) = Some (Encoded (JObj d))
    \<and> actual_hash (ar_action_type q) normalize_arguments_hash d = Inr (Inr sha)
    \<and> compare_request (expected_request q) d sha = Inr (True, reason)"
proof (cases "m (approval_token_key C (ar_user_id q) token)")
  case None
  with assms show ?thesis by (auto simp: validate_approval_token_def Let_def split: if_splits)
next
  case (Some raw)
  show ?thesis
  proof (cases raw)
    case (Garbage t)
    with assms Some show ?thesis by (auto simp: validate_approval_token_def Let_def split: if_splits)
  next
    case (Encoded v)
    with assms Some obtain d where v: "v = JObj d"
      by (cases v) (auto simp: validate_approval_token_def Let_def split: if_splits)
    with assms Some Encoded show ?thesis
      by (auto simp: validate_approval_token_def Let_def split: if_splits sum.splits)
  qed
qed

lemma compare_accepts:
  "compare_request e d sha = Inr (True, reason) \<Longrightarrow>
     norm_value (dict_get d ''user_id'') = Inr (ar_user_id e)
     \<and> norm_value (dict_get d ''action_type'') = Inr (ar_action_type e)
     \<and> norm_value (dict_get d ''server_name'') = Inr (ar_server_name e)
     \<and> norm_value (dict_get d ''tool_name'') = Inr (ar_tool_name e)
     \<and> sha = ar_arguments_sha256 e
     \<and> (ar_action_type e \<noteq> ''mcp_mutation'' \<longrightarrow>
          ar_target e \<noteq> [] \<and> norm_value (dict_get d ''target'') = Inr (ar_target e))"
  by (auto simp: compare_request_def bind_result_Inr split: if_splits)

text \<open>What an issued credential stores.\<close>

lemma issue_stores:
  assumes "issue_approval_token C token time req m = (Inr t, m')"
  shows "t = token" "m' = m(approval_token_key C (ar_user_id req) token
                            \<mapsto> Encoded (JObj (credential_payload time req)))"
    "norm_text (ar_user_id req) [] \<noteq> []" "norm_text (ar_target req) [] \<noteq> []"
    "norm_text (ar_target req) [] \<noteq> ''*''"
  using assms
  by (auto simp: issue_approval_token_def Let_def approval_token_key_def safe_user_norm
      split: if_splits sum.splits)

lemma issue_refused: "issue_approval_token C token time req m = (Inl e, m') \<Longrightarrow> m' = m"
  by (auto simp: issue_approval_token_def Let_def split: if_splits sum.splits)

lemma compare_credential:
  "compare_request e (credential_payload t req) sha =
     Inr (if norm_text (ar_user_id req) [] \<noteq> ar_user_id e then (False, ''approval_token user mismatch'')
          else if norm_text (ar_action_type req) [] \<noteq> ar_action_type e
          then (False, ''approval_token action mismatch'')
          else if ar_action_type e \<noteq> ''mcp_mutation''
                  \<and> (ar_target e = [] \<or> norm_text (ar_target req) [] \<noteq> ar_target e)
          then (False, ''approval_token target mismatch'')
          else if norm_text (ar_server_name req) [] \<noteq> ar_server_name e
          then (False, ''approval_token server mismatch'')
          else if norm_text (ar_tool_name req) [] \<noteq> ar_tool_name e
          then (False, ''approval_token tool mismatch'')
          else if sha \<noteq> ar_arguments_sha256 e then (False, ''approval_token arguments mismatch'')
          else (True, ''approved''))"
  by (simp add: compare_request_def credential_fields norm_value_def)

lemma hash_of_credential:
  "actual_hash a None (credential_payload t req) = Inr (Inr (norm_text (ar_arguments_sha256 req) []))"
  by (simp add: actual_hash_def credential_fields norm_value_def)

lemma credential_true: "credential_payload t req \<noteq> []"
  by (simp add: credential_payload_def)

text \<open>Presenting a credential where the key holds the payload of an issued request.\<close>

lemma validate_issued:
  assumes "token \<noteq> []"
    and "m (approval_token_key C (ar_user_id q) token) = Some (Encoded (JObj (credential_payload t req)))"
  shows "fst (validate_approval_token C q token None consume m)
    = compare_request (expected_request q) (credential_payload t req)
        (norm_text (ar_arguments_sha256 req) [])"
  using assms credential_true [of t req]
  by (simp add: validate_approval_token_def Let_def hash_of_credential)

definition same_call :: "approval_request \<Rightarrow> approval_request \<Rightarrow> bool" where
  "same_call q req =
     (let a = expected_request q; b = expected_request req in
      ar_action_type a = ar_action_type b \<and> ar_server_name a = ar_server_name b
      \<and> ar_tool_name a = ar_tool_name b \<and> ar_arguments_sha256 a = ar_arguments_sha256 b
      \<and> (ar_action_type a = ''mcp_mutation'' \<or> ar_target a = ar_target b))"

lemma compare_same_call:
  assumes "norm_text (ar_user_id q) [] = norm_text (ar_user_id req) []"
    and "norm_text (ar_target req) [] \<noteq> []"
  shows "compare_request (expected_request q) (credential_payload t req)
           (norm_text (ar_arguments_sha256 req) []) = Inr (True, ''approved'') \<longleftrightarrow> same_call q req"
  using assms by (auto simp: compare_credential expected_request_def same_call_def Let_def)

text \<open>C4. A credential that was issued is accepted from its user, with the key still stored, exactly
  when the presented call is the approved one: the same action, server, tool and argument hash, and
  for other actions than MCP calls the same target, all after normalisation. Presented by another
  user whose key is the same it is refused. A consuming presentation removes the key whatever the
  answer is, and then every later presentation is refused.\<close>

theorem credential_exact:
  assumes issued: "issue_approval_token C token time req m = (Inr token, m')"
    and tok: "token \<noteq> []"
    and user: "norm_text (ar_user_id q) [] = norm_text (ar_user_id req) []"
  shows "(fst (validate_approval_token C q token None consume m') = Inr (True, ''approved'')
            \<longleftrightarrow> same_call q req)
    \<and> (\<forall>p. approval_token_key C (ar_user_id p) token = approval_token_key C (ar_user_id req) token
            \<longrightarrow> norm_text (ar_user_id p) [] \<noteq> norm_text (ar_user_id req) []
            \<longrightarrow> fst (validate_approval_token C p token None consume m')
                  = Inr (False, ''approval_token user mismatch''))
    \<and> (\<forall>p n c. ar_user_id p = ar_user_id q \<longrightarrow>
         fst (validate_approval_token C p token n c (snd (validate_approval_token C q token None True m')))
           = Inr (False, ''approval_token is missing, expired, or already used''))"
proof (intro conjI allI impI)
  note stored = issue_stores [OF issued]
  have key: "approval_token_key C (ar_user_id q) token = approval_token_key C (ar_user_id req) token"
    using user safe_user_norm by (metis approval_token_key_def)
  show "fst (validate_approval_token C q token None consume m') = Inr (True, ''approved'')
          \<longleftrightarrow> same_call q req"
    using validate_issued [OF tok, of m' C q time req consume] key stored
      compare_same_call [OF user stored(4)] by simp
  fix p :: approval_request
  assume k: "approval_token_key C (ar_user_id p) token = approval_token_key C (ar_user_id req) token"
    and other: "norm_text (ar_user_id p) [] \<noteq> norm_text (ar_user_id req) []"
  show "fst (validate_approval_token C p token None consume m')
          = Inr (False, ''approval_token user mismatch'')"
    using validate_issued [OF tok, of m' C p time req consume] k stored other
    by (simp add: compare_credential expected_request_def)
next
  fix p :: approval_request and n c
  assume p: "ar_user_id p = ar_user_id q"
  show "fst (validate_approval_token C p token n c (snd (validate_approval_token C q token None True m')))
          = Inr (False, ''approval_token is missing, expired, or already used'')"
    using tok p by (simp add: validate_effect) (simp add: validate_approval_token_def Let_def)
qed

definition sample_crypto :: crypto where
  "sample_crypto = \<lparr>hash256 = (\<lambda>s. s), canonical_dumps = (\<lambda>d. ''{}''),
     decode_json = (\<lambda>s. Some (JObj []))\<rparr>"

definition sample_request :: approval_request where
  "sample_request = \<lparr>ar_user_id = ''ann'', ar_action_type = ''mcp_mutation'', ar_target = ''pod'',
     ar_server_name = ''k8s'', ar_tool_name = ''delete'', ar_arguments_sha256 = ''{}'',
     ar_canonical_arguments = ''{}''\<rparr>"

theorem credential_exact_witness:
  "fst (validate_approval_token sample_crypto sample_request ''t'' None True
      (snd (issue_approval_token sample_crypto ''t'' 0 sample_request (\<lambda>_. None))))
     = Inr (True, ''approved'')"
proof -
  have issued: "issue_approval_token sample_crypto ''t'' 0 sample_request (\<lambda>_. None)
      = (Inr ''t'', snd (issue_approval_token sample_crypto ''t'' 0 sample_request (\<lambda>_. None)))"
  proof -
    have "fst (issue_approval_token sample_crypto ''t'' 0 sample_request (\<lambda>_. None)) = Inr ''t''"
      by code_simp
    then show ?thesis by (metis prod.collapse)
  qed
  have "same_call sample_request sample_request" by (simp add: same_call_def Let_def)
  with credential_exact [OF issued, of sample_request True] show ?thesis by simp
qed

section \<open>Single use\<close>

text \<open>The approval database under every operation, with ghost counts of the credentials issued
  and of the consuming presentations that were accepted, by key.\<close>

record token_state =
  db :: approvals
  issued :: "string \<Rightarrow> nat"
  spent :: "string \<Rightarrow> nat"

definition accepted :: "(bool \<times> string) result \<Rightarrow> bool" where
  "accepted r = (case r of Inr (True, _) \<Rightarrow> True | _ \<Rightarrow> False)"

inductive token_step :: "crypto \<Rightarrow> token_state \<Rightarrow> token_state \<Rightarrow> bool" for C :: crypto where
  ts_issue: "issue_approval_token C token time req (db s) = (Inr t, m) \<Longrightarrow>
     token_step C s (s\<lparr>db := m,
       issued := (issued s)(approval_token_key C (ar_user_id req) token
         := Suc (issued s (approval_token_key C (ar_user_id req) token)))\<rparr>)"
| ts_refuse: "issue_approval_token C token time req (db s) = (Inl e, m) \<Longrightarrow>
     token_step C s (s\<lparr>db := m\<rparr>)"
| ts_spend: "validate_approval_token C q token n True (db s) = (r, m) \<Longrightarrow>
     token_step C s (s\<lparr>db := m,
       spent := (spent s)(approval_token_key C (ar_user_id q) token
         := spent s (approval_token_key C (ar_user_id q) token) + (if accepted r then 1 else 0))\<rparr>)"
| ts_peek: "validate_approval_token C q token n False (db s) = (r, m) \<Longrightarrow>
     token_step C s (s\<lparr>db := m\<rparr>)"
| ts_pending: "create_pending_mcp_approval C request_id time p (db s) = (r, m) \<Longrightarrow>
     token_step C s (s\<lparr>db := m\<rparr>)"
| ts_expire: "token_step C s (s\<lparr>db := (db s)(k := None)\<rparr>)"

definition token_init :: "token_state \<Rightarrow> bool" where
  "token_init s = (db s = (\<lambda>_. None) \<and> issued s = (\<lambda>_. 0) \<and> spent s = (\<lambda>_. 0))"

definition token_inv :: "token_state \<Rightarrow> bool" where
  "token_inv s = (\<forall>k. starts_with ''approval:'' k \<longrightarrow>
     spent s k + (if db s k = None then 0 else 1) \<le> issued s k)"

lemma key_prefixes:
  "starts_with ''approval:'' (approval_token_key C u t)"
  "\<not> starts_with ''approval:'' (pending_approval_key C u i)"
  by (simp_all add: approval_token_key_def pending_approval_key_def starts_with_def)

lemma accepted_needs_key:
  assumes "accepted (fst (validate_approval_token C q token n c m))"
  shows "m (approval_token_key C (ar_user_id q) token) \<noteq> None"
proof -
  from assms obtain reason where "fst (validate_approval_token C q token n c m) = Inr (True, reason)"
    by (auto simp: accepted_def split: sum.splits prod.splits bool.splits)
  then show ?thesis using validate_accepts by blast
qed

lemma pending_effect:
  "create_pending_mcp_approval C request_id time p m = (r, m') \<Longrightarrow>
     starts_with ''approval:'' k \<Longrightarrow> m' k = m k"
  by (auto simp: create_pending_mcp_approval_def Let_def key_prefixes
      split: if_splits sum.splits prod.splits)

interpretation tokens: invariant_system token_init "token_step C" token_inv for C
proof
  show "token_inv s" if "token_init s" for s
    using that by (simp add: token_init_def token_inv_def)
  show "token_inv t" if "token_inv s" "token_step C s t" for s t
    using that(2,1)
  proof cases
    case (ts_issue token time req t' m)
    from issue_stores(2) [OF ts_issue(2)] that(1) show ?thesis
      by (force simp: token_inv_def ts_issue(1))
  next
    case (ts_refuse token time req e m)
    with issue_refused [OF ts_refuse(2)] that(1) show ?thesis by (simp add: token_inv_def)
  next
    case (ts_spend q token n r m)
    have r: "accepted r \<Longrightarrow> db s (approval_token_key C (ar_user_id q) token) \<noteq> None"
      using accepted_needs_key ts_spend(2) by (metis fst_conv)
    show ?thesis
    proof (cases "token = []")
      case True
      with ts_spend(2) have "m = db s" "\<not> accepted r"
        by (auto simp: validate_approval_token_def accepted_def)
      with that(1) show ?thesis by (auto simp: token_inv_def ts_spend(1))
    next
      case False
      with ts_spend(2) validate_effect [of C q token n True "db s"]
      have m: "m = (db s)(approval_token_key C (ar_user_id q) token := None)" by simp
      show ?thesis
        unfolding token_inv_def
      proof (intro allI impI)
        fix k
        assume "starts_with ''approval:'' k"
        with that(1) have "spent s k + (if db s k = None then 0 else 1) \<le> issued s k"
          by (simp add: token_inv_def)
        with r show "spent t k + (if db t k = None then 0 else 1) \<le> issued t k"
          by (auto simp: m ts_spend(1))
      qed
    qed
  next
    case (ts_peek q token n r m)
    with validate_effect [of C q token n False "db s"] that(1) show ?thesis
      by (simp add: token_inv_def)
  next
    case (ts_pending request_id time p r m)
    with pending_effect [OF ts_pending(2)] that(1) show ?thesis
      by (simp add: token_inv_def)
  next
    case (ts_expire k)
    with that(1) show ?thesis by (auto simp: token_inv_def)
  qed
qed

text \<open>C3. Whatever operations run on the approval database and whatever keys expire, in any order, a
  credential is accepted by a consuming presentation at most as often as it was issued: a credential
  issued once is spent at most once.\<close>

theorem credential_single_use:
  assumes "reach token_init (token_step C) s"
  shows "spent s (approval_token_key C user token) \<le> issued s (approval_token_key C user token)"
  using tokens.reach_inv [OF assms] key_prefixes(1) [of C user token]
  by (force simp: token_inv_def)

definition spent_state :: token_state where
  "spent_state =
     (let key = approval_token_key sample_crypto ''ann'' ''t'' in
      \<lparr>db = ((\<lambda>_. None)(key \<mapsto> Encoded (JObj (credential_payload 0 sample_request))))(key := None),
       issued = (\<lambda>_. 0)(key := 1), spent = (\<lambda>_. 0)(key := 1)\<rparr>)"

theorem credential_single_use_witness:
  "spent spent_state (approval_token_key sample_crypto ''ann'' ''t'') = 1
   \<and> spent spent_state (approval_token_key sample_crypto ''ann'' ''t'')
       \<le> issued spent_state (approval_token_key sample_crypto ''ann'' ''t'')"
proof -
  let ?C = sample_crypto and ?q = sample_request and ?key = "approval_token_key sample_crypto ''ann'' ''t''"
  let ?s0 = "\<lparr>db = (\<lambda>_. None), issued = (\<lambda>_. 0), spent = (\<lambda>_. 0)\<rparr>"
  obtain r m where issue: "issue_approval_token ?C ''t'' 0 ?q (\<lambda>_. None) = (r, m)"
    by (cases "issue_approval_token ?C ''t'' 0 ?q (\<lambda>_. None)")
  have "fst (issue_approval_token ?C ''t'' 0 ?q (\<lambda>_. None)) = Inr ''t''" by code_simp
  with issue have issue: "issue_approval_token ?C ''t'' 0 ?q (\<lambda>_. None) = (Inr ''t'', m)" by simp
  have user: "ar_user_id ?q = ''ann''" by (simp add: sample_request_def)
  note m = issue_stores(2) [OF issue, unfolded user]
  have "same_call ?q ?q" by (simp add: same_call_def Let_def)
  then have ok: "fst (validate_approval_token ?C ?q ''t'' None True m) = Inr (True, ''approved'')"
    using validate_issued [of "''t''" m ?C ?q 0 ?q True] compare_same_call [of ?q ?q 0]
      issue_stores(4) [OF issue] m user by simp
  have step1: "token_step ?C ?s0 (?s0\<lparr>db := m, issued := (\<lambda>_. 0)(?key := 1)\<rparr>)"
    using ts_issue [of ?C "''t''" 0 ?q ?s0] issue user by simp
  have val: "validate_approval_token ?C ?q ''t'' None True m = (Inr (True, ''approved''), m(?key := None))"
    using ok validate_effect [of ?C ?q "''t''" None True m] user
    by (cases "validate_approval_token ?C ?q ''t'' None True m") simp
  have step2: "token_step ?C (?s0\<lparr>db := m, issued := (\<lambda>_. 0)(?key := 1)\<rparr>) spent_state"
    using ts_spend [of ?C ?q "''t''" None "?s0\<lparr>db := m, issued := (\<lambda>_. 0)(?key := 1)\<rparr>"] val user m
    by (simp add: spent_state_def Let_def accepted_def)
  have "reach token_init (token_step ?C) ?s0"
    by (rule reach_start) (simp add: token_init_def)
  then have "reach token_init (token_step ?C) (?s0\<lparr>db := m, issued := (\<lambda>_. 0)(?key := 1)\<rparr>)"
    using step1 reach.reach_next [of token_init "token_step ?C" ?s0] by blast
  then have "reach token_init (token_step ?C) spent_state"
    using step2 reach.reach_next [of token_init "token_step ?C" _ spent_state] by blast
  from credential_single_use [OF this, of "''ann''" "''t''"] show ?thesis
    by (simp add: spent_state_def Let_def)
qed

end
