(* ===== verification/Mcp_Gate.thy ===== *)
theory Mcp_Gate
  imports Mcp_Policy Internal_Auth Approval_Tokens
begin

text \<open>
  The gate in front of every MCP call (\<open>validate_mcp_approval\<close> of \<open>builder/daedalus_runtime/approval.py\<close>),
  the provenance of its markers (\<open>nat_helpers/approval_context.py\<close>), the route that executes an approved
  call (\<open>builder/mcp_approval_api.py\<close>) and the records of such executions
  (\<open>builder/daedalus_runtime/executions.py\<close>).

  A \<open>gate_ctx\<close> is what a call sees of its surroundings: the loaded policy, the request context, the
  consumed-execution variable and whether the approval database answers. A \<open>gate_state\<close> is what it may
  change: the approval database and the marker set of the request (\<open>None\<close> outside a marker scope).
\<close>

section \<open>Markers\<close>

definition b64_char :: "nat \<Rightarrow> char" where
  "b64_char n =
     (if n < 26 then char_of (65 + n) else if n < 52 then char_of (71 + n)
      else if n < 62 then char_of (n - 4) else if n = 62 then CHR ''-'' else CHR ''_'')"

text \<open>\<open>base64.urlsafe_b64encode(...).rstrip("=")\<close>.\<close>

fun b64_urlsafe :: "nat list \<Rightarrow> string" where
  "b64_urlsafe [] = []"
| "b64_urlsafe [a] = [b64_char (a div 4), b64_char (a mod 4 * 16)]"
| "b64_urlsafe [a, b] =
     [b64_char (a div 4), b64_char (a mod 4 * 16 + b div 16), b64_char (b mod 16 * 4)]"
| "b64_urlsafe (a # b # c # rest) =
     [b64_char (a div 4), b64_char (a mod 4 * 16 + b div 16), b64_char (b mod 16 * 4 + c div 64),
      b64_char (c mod 64)] @ b64_urlsafe rest"

definition MCP_APPROVAL_MARKER_PREFIX :: string where
  "MCP_APPROVAL_MARKER_PREFIX = ''<!--daedalus-mcp-approval:''"

definition MCP_APPROVAL_MARKER_SUFFIX :: string where
  "MCP_APPROVAL_MARKER_SUFFIX = ''-->''"

definition encode_mcp_approval_marker :: "(string \<times> string) list \<Rightarrow> string" where
  "encode_mcp_approval_marker members =
     MCP_APPROVAL_MARKER_PREFIX
     @ b64_urlsafe (map code (compact_object members))
     @ MCP_APPROVAL_MARKER_SUFFIX"

text \<open>The members of the marker payload, all texts but the version, in the order of their keys.\<close>

definition marker_members ::
  "string \<Rightarrow> string \<Rightarrow> string \<Rightarrow> string \<Rightarrow> string \<Rightarrow> string \<Rightarrow> (string \<times> string) list" where
  "marker_members request_id server_name tool_name target summary sha =
     [(''argumentsSha256'', json_dumps_str sha), (''requestId'', json_dumps_str request_id),
      (''serverName'', json_dumps_str server_name), (''summary'', json_dumps_str summary),
      (''target'', json_dumps_str target), (''toolName'', json_dumps_str tool_name), (''version'', ''1'')]"

record gate_ctx =
  crypt :: crypto
  policies :: registry
  env :: settings
  request_headers :: "headers option"
  consumed_execution :: "(string \<times> string \<times> string \<times> string) option"
  redis_up :: bool

record gate_state =
  approval_db :: approvals
  markers :: "string list option"

definition approval_marker_scope :: "bool \<Rightarrow> string list option \<Rightarrow> string list option" where
  "approval_marker_scope new_request ms = (if \<not> new_request \<and> ms \<noteq> None then ms else Some [])"

definition register_approval_marker :: "string \<Rightarrow> gate_state \<Rightarrow> gate_state" where
  "register_approval_marker marker st =
     (case markers st of None \<Rightarrow> st | Some ms \<Rightarrow> st\<lparr>markers := Some (marker # ms)\<rparr>)"

definition is_trusted_approval_marker :: "string \<Rightarrow> gate_state \<Rightarrow> bool" where
  "is_trusted_approval_marker marker st =
     (case markers st of None \<Rightarrow> False | Some ms \<Rightarrow> marker \<in> set ms)"

text \<open>\<open>make_redis_client\<close>, and with it every request to the approval database, fails when the
  database does not answer.\<close>

definition make_redis_client :: "gate_ctx \<Rightarrow> unit result" where
  "make_redis_client G = (if redis_up G then Inr () else Inl (RuntimeError ''redis package is unavailable''))"

text \<open>\<open>request_id\<close> and \<open>time\<close> are the random identifier and the clock of the call.\<close>

definition create_mcp_approval_marker ::
  "gate_ctx \<Rightarrow> string \<Rightarrow> int \<Rightarrow> string \<Rightarrow> string \<Rightarrow> string \<Rightarrow> string \<Rightarrow> string \<Rightarrow> gate_state \<Rightarrow>
   string result \<times> gate_state" where
  "create_mcp_approval_marker G request_id time user_id server_name tool_name canonical_arguments sha st =
     (case decode_json (crypt G) canonical_arguments of
        None \<Rightarrow> (Inl (ValueError ''Expecting value''), st)
      | Some (JObj arguments) \<Rightarrow>
          let target = mcp_approval_target arguments sha;
              summary = mcp_approval_summary server_name tool_name target canonical_arguments in
          (case make_redis_client G of
             Inl e \<Rightarrow> (Inl e, st)
           | Inr _ \<Rightarrow>
               (case create_pending_mcp_approval (crypt G) request_id time
                       \<lparr>pi_user_id = user_id, pi_action = summary,
                        pi_reason = ''This MCP operation changes external data.'', pi_target = target,
                        pi_server_name = server_name, pi_tool_name = tool_name,
                        pi_arguments_json = canonical_arguments\<rparr> (approval_db st) of
                  (Inl e, m) \<Rightarrow> (Inl e, st\<lparr>approval_db := m\<rparr>)
                | (Inr pending, m) \<Rightarrow>
                    let marker = encode_mcp_approval_marker
                          (marker_members request_id server_name tool_name target summary sha)
                    in (Inr marker, register_approval_marker marker (st\<lparr>approval_db := m\<rparr>))))
      | Some _ \<Rightarrow> (Inl AttributeError, st))"

section \<open>The gate\<close>

fun replace_text :: "string \<Rightarrow> string \<Rightarrow> nat \<Rightarrow> string \<Rightarrow> string" where
  "replace_text old new k [] = []"
| "replace_text old new (Suc k) (c # cs) = replace_text old new k cs"
| "replace_text old new 0 (c # cs) =
     (if starts_with old (c # cs) then new @ replace_text old new (length old - 1) cs
      else c # replace_text old new 0 cs)"

definition BACKGROUND_APPROVAL_REFUSAL :: string where
  "BACKGROUND_APPROVAL_REFUSAL =
     ''This action needs the user's approval, which a background run cannot request. The call was not executed; leave it for an interactive chat.''"

definition canonical_hash ::
  "gate_ctx \<Rightarrow> (dict \<Rightarrow> dict result) option \<Rightarrow> dict \<Rightarrow> (string \<times> string) result" where
  "canonical_hash G schema payload =
     canonical_mcp_call (canonical_dumps (crypt G)) (hash256 (crypt G)) schema payload"

text \<open>\<open>_normalized_approved_hash\<close>.\<close>

definition normalized_approved_hash ::
  "gate_ctx \<Rightarrow> (dict \<Rightarrow> dict result) option \<Rightarrow> string \<Rightarrow> string result" where
  "normalized_approved_hash G schema approved_arguments =
     (case decode_json (crypt G) approved_arguments of
        None \<Rightarrow> Inl (ValueError ''Expecting value'')
      | Some (JObj approved_payload) \<Rightarrow>
          bind_result (canonical_hash G schema approved_payload) (\<lambda>(c, sha). Inr sha)
      | Some _ \<Rightarrow> Inl (ValueError ''approved MCP arguments must be an object''))"

definition call_request :: "string \<Rightarrow> string \<Rightarrow> string \<Rightarrow> string \<Rightarrow> approval_request" where
  "call_request user_id server_name tool_name sha =
     \<lparr>ar_user_id = user_id, ar_action_type = ''mcp_mutation'', ar_target = [], ar_server_name = server_name,
      ar_tool_name = tool_name, ar_arguments_sha256 = sha, ar_canonical_arguments = []\<rparr>"

text \<open>The arguments of a call to the gate.\<close>

record mcp_call =
  tool :: string
  payload_of :: dict
  annotations :: "dict option"
  server :: string
  approval_token :: "string option"
  input_schema :: "(dict \<Rightarrow> dict result) option"

text \<open>The branch that spends a presented credential.\<close>

definition spend_credential ::
  "gate_ctx \<Rightarrow> mcp_call \<Rightarrow> string \<Rightarrow> string \<Rightarrow> gate_state \<Rightarrow> (bool \<times> string) \<times> gate_state" where
  "spend_credential G c user_id token st =
     (case canonical_hash G (input_schema c) (payload_of c) of
        Inl e \<Rightarrow> ((False, ''approval validation is unavailable''), st)
      | Inr (canonical, sha) \<Rightarrow>
          (case make_redis_client G of
             Inl e \<Rightarrow> ((False, ''approval validation is unavailable''), st)
           | Inr _ \<Rightarrow>
               (case validate_approval_token (crypt G) (call_request user_id (server c) (tool c) sha) token
                       (Some (normalized_approved_hash G (input_schema c))) True (approval_db st) of
                  (Inl e, m) \<Rightarrow> ((False, ''approval validation is unavailable''), st\<lparr>approval_db := m\<rparr>)
                | (Inr (ok, reason), m) \<Rightarrow>
                    (if ok then (True, ''approved'')
                     else (False, replace_text ''approval_token'' ''approval credential'' 0 reason),
                     st\<lparr>approval_db := m\<rparr>))))"

text \<open>The branch without a credential: an autonomous run is refused, any other call is recorded.\<close>

definition request_approval ::
  "gate_ctx \<Rightarrow> string \<Rightarrow> int \<Rightarrow> mcp_call \<Rightarrow> string \<Rightarrow> gate_state \<Rightarrow> (bool \<times> string) \<times> gate_state" where
  "request_approval G request_id time c user_id st =
     (if is_authenticated_autonomy_request (env G) (request_headers G)
      then ((False, BACKGROUND_APPROVAL_REFUSAL), st)
      else (case canonical_hash G (input_schema c) (payload_of c) of
              Inl e \<Rightarrow> ((False, ''protected approval creation is unavailable''), st)
            | Inr (canonical, sha) \<Rightarrow>
                (case create_mcp_approval_marker G request_id time user_id (server c) (tool c) canonical sha st of
                   (Inl e, st') \<Rightarrow> ((False, ''protected approval creation is unavailable''), st')
                 | (Inr marker, st') \<Rightarrow> ((False, marker), st'))))"

text \<open>The branch of a call that the execute route has started.\<close>

definition match_consumed ::
  "gate_ctx \<Rightarrow> mcp_call \<Rightarrow> string \<Rightarrow> string \<times> string \<times> string \<times> string \<Rightarrow> bool \<times> string" where
  "match_consumed G c user_id consumed =
     (case mcp_policy_target (policies G) (server c) (tool c) of
        (logical_server, normalized_tool) \<Rightarrow>
          (case canonical_hash G (input_schema c) (payload_of c) of
             Inl e \<Rightarrow> (False, ''approval validation is unavailable'')
           | Inr (canonical, sha) \<Rightarrow>
               if consumed = (user_id, logical_server, normalized_tool, sha) then (True, ''approved'')
               else (False, ''approval credential does not match this operation'')))"

definition READ_ONLY_CONFLICT :: string where
  "READ_ONLY_CONFLICT =
     ''MCP read-only policy conflicts with destructive tool metadata or arguments. The call was not executed; this source is unavailable until its configuration is corrected.''"

definition validate_mcp_approval ::
  "gate_ctx \<Rightarrow> string \<Rightarrow> int \<Rightarrow> mcp_call \<Rightarrow> gate_state \<Rightarrow> (bool \<times> string) \<times> gate_state" where
  "validate_mcp_approval G request_id time c st =
     (let p = call_policy (policies G) (server c) (tool c);
          is_mutating = (p \<noteq> ReadOnly \<or> is_mutating_mcp_call (tool c) (payload_of c) (annotations c)) in
      if p = AutoApprove then ((True, ''auto-approved''), st)
      else if \<not> is_mutating then ((True, ''read-only''), st)
      else if p = ReadOnly then ((False, READ_ONLY_CONFLICT), st)
      else (case authenticated_user_id_from_context_or_fallback (env G) (request_headers G) [] of
              Inl e \<Rightarrow> ((False, ''authenticated approval context is invalid''), st)
            | Inr user_id \<Rightarrow>
                if user_id = []
                then ((False, ''authenticated approval context is required before an execution credential can be created''), st)
                else (case consumed_execution G of
                        Some consumed \<Rightarrow> (match_consumed G c user_id consumed, st)
                      | None \<Rightarrow>
                          let token = strip (or_empty (approval_token c)) in
                          if token = [] then request_approval G request_id time c user_id st
                          else spend_credential G c user_id token st)))"

section \<open>Results of a call\<close>

text \<open>What an MCP call returned: an object with an \<open>isError\<close> attribute, a text (with \<open>json.loads\<close> of it,
  if it is JSON) or a decoded value.\<close>

datatype mcp_result = WithError bool | ResultText string "json option" | ResultValue json

definition error_envelope :: "json \<Rightarrow> bool" where
  "error_envelope v =
     (case v of
        JObj d \<Rightarrow>
          dict_get d ''isError'' = JBool True \<or>
          (truthy (dict_get d ''error'') \<and> is_str (dict_get d ''server'') \<and> is_str (dict_get d ''tool'')
           \<and> (case dict_get d ''retryable'' of JBool b \<Rightarrow> True | _ \<Rightarrow> False))
      | _ \<Rightarrow> False)"

definition mcp_result_is_error :: "mcp_result \<Rightarrow> bool" where
  "mcp_result_is_error r =
     (case r of
        WithError e \<Rightarrow> e
      | ResultText s parsed \<Rightarrow>
          starts_with ''MCPToolClient tool call failed:'' (lstrip s)
          \<or> contains MCP_APPROVAL_MARKER_PREFIX s
          \<or> (case parsed of None \<Rightarrow> False | Some v \<Rightarrow> error_envelope v)
      | ResultValue v \<Rightarrow> error_envelope v)"

section \<open>Facts\<close>

lemma norm_mutation: "norm_text ''mcp_mutation'' [] = ''mcp_mutation''"
  by code_simp

lemma expected_call:
  "expected_request (call_request u s t sha) = \<lparr>ar_user_id = norm_text u [], ar_action_type = ''mcp_mutation'',
     ar_target = norm_text [] [], ar_server_name = norm_text s [], ar_tool_name = norm_text t [],
     ar_arguments_sha256 = norm_text sha [], ar_canonical_arguments = []\<rparr>"
  by (simp add: expected_request_def call_request_def norm_mutation)

lemma call_request_simps [simp]:
  "ar_user_id (call_request u s t sha) = u" "ar_action_type (call_request u s t sha) = ''mcp_mutation''"
  by (simp_all add: call_request_def)

text \<open>A hash recomputed from the approved arguments.\<close>

lemma actual_hash_renormalised:
  assumes "actual_hash ''mcp_mutation'' (Some f) d = Inr (Inr sha)"
  shows "\<exists>approved h. dict_get d ''canonical_arguments'' = JStr approved \<and> f approved = Inr h
    \<and> sha = norm_text h []"
proof -
  from assms obtain stored where "norm_value (dict_get d ''arguments_sha256'') = Inr stored"
    by (auto simp: actual_hash_def bind_result_Inr)
  with assms show ?thesis
    by (auto simp: actual_hash_def split: json.splits list.splits sum.splits)
qed

text \<open>What a credential that the gate accepted says of the call, and that it is gone.\<close>

definition credential_covers ::
  "gate_ctx \<Rightarrow> mcp_call \<Rightarrow> string \<Rightarrow> string \<Rightarrow> dict \<Rightarrow> bool" where
  "credential_covers G c user sha d \<longleftrightarrow>
     norm_value (dict_get d ''user_id'') = Inr (norm_text user [])
     \<and> norm_value (dict_get d ''action_type'') = Inr ''mcp_mutation''
     \<and> norm_value (dict_get d ''server_name'') = Inr (norm_text (server c) [])
     \<and> norm_value (dict_get d ''tool_name'') = Inr (norm_text (tool c) [])
     \<and> (\<exists>approved h. dict_get d ''canonical_arguments'' = JStr approved
          \<and> normalized_approved_hash G (input_schema c) approved = Inr h
          \<and> norm_text h [] = norm_text sha [])"

lemma spend_accepts:
  assumes "spend_credential G c user token st = ((True, reason), st')" and "token \<noteq> []"
  shows "\<exists>canonical sha d. canonical_hash G (input_schema c) (payload_of c) = Inr (canonical, sha)
    \<and> approval_db st (approval_token_key (crypt G) user token) = Some (Encoded (JObj d))
    \<and> credential_covers G c user sha d
    \<and> st' = st\<lparr>approval_db := (approval_db st)(approval_token_key (crypt G) user token := None)\<rparr>"
proof -
  from assms(1) obtain canonical sha where h: "canonical_hash G (input_schema c) (payload_of c) = Inr (canonical, sha)"
    by (auto simp: spend_credential_def split: sum.splits)
  let ?q = "call_request user (server c) (tool c) sha"
  let ?v = "validate_approval_token (crypt G) ?q token
     (Some (normalized_approved_hash G (input_schema c))) True (approval_db st)"
  from assms(1) h obtain r m where v: "?v = (Inr (True, r), m)" and st': "st' = st\<lparr>approval_db := m\<rparr>"
    by (auto simp: spend_credential_def split: sum.splits prod.splits if_splits)
  from v have "fst ?v = Inr (True, r)" by simp
  from validate_accepts [OF this] obtain d sha' where
    d: "approval_db st (approval_token_key (crypt G) user token) = Some (Encoded (JObj d))"
    and a: "actual_hash ''mcp_mutation'' (Some (normalized_approved_hash G (input_schema c))) d = Inr (Inr sha')"
    and e: "compare_request (expected_request ?q) d sha' = Inr (True, r)"
    by auto
  from compare_accepts [OF e] actual_hash_renormalised [OF a] have "credential_covers G c user sha d"
    by (auto simp: credential_covers_def expected_call)
  moreover from v assms(2) validate_effect [of "crypt G" ?q token
      "Some (normalized_approved_hash G (input_schema c))" True "approval_db st"]
  have "m = (approval_db st)(approval_token_key (crypt G) user token := None)" by simp
  ultimately show ?thesis using h d st' by blast
qed

lemma request_approval_refuses: "fst (fst (request_approval G rid time c user st)) = False"
  by (auto simp: request_approval_def split: sum.splits prod.splits)

text \<open>A call that is neither auto-approved nor read-only goes through the identity check.\<close>

lemma gate_protected:
  assumes "call_policy (policies G) (server c) (tool c) = ApprovalRequired"
  shows "validate_mcp_approval G rid time c st =
    (case authenticated_user_id_from_context_or_fallback (env G) (request_headers G) [] of
       Inl e \<Rightarrow> ((False, ''authenticated approval context is invalid''), st)
     | Inr user \<Rightarrow>
         if user = []
         then ((False, ''authenticated approval context is required before an execution credential can be created''), st)
         else (case consumed_execution G of
                 Some consumed \<Rightarrow> (match_consumed G c user consumed, st)
               | None \<Rightarrow>
                   if strip (or_empty (approval_token c)) = [] then request_approval G rid time c user st
                   else spend_credential G c user (strip (or_empty (approval_token c))) st))"
  unfolding validate_mcp_approval_def Let_def using assms by simp

lemma match_consumed_accepts:
  "fst (match_consumed G c user consumed) \<longleftrightarrow>
     (\<exists>canonical sha logical t. canonical_hash G (input_schema c) (payload_of c) = Inr (canonical, sha)
        \<and> mcp_policy_target (policies G) (server c) (tool c) = (logical, t)
        \<and> consumed = (user, logical, t, sha))"
  by (cases "mcp_policy_target (policies G) (server c) (tool c)")
    (auto simp: match_consumed_def split: sum.splits prod.splits)

text \<open>What a pending intent stores.\<close>

lemma pending_stores:
  assumes "create_pending_mcp_approval C rid time p m = (Inr d, m')"
  shows "\<exists>stored stored_sha. canonicalize_mcp_arguments C (pi_arguments_json p) = Inr (stored, stored_sha)
    \<and> m' = m(pending_approval_key C (pi_user_id p) rid \<mapsto> Encoded (JObj d))
    \<and> dict_get d ''user_id'' = JStr (norm_text (pi_user_id p) [])
    \<and> dict_get d ''server_name'' = JStr (norm_text (pi_server_name p) [])
    \<and> dict_get d ''tool_name'' = JStr (norm_text (pi_tool_name p) [])
    \<and> dict_get d ''canonical_arguments'' = JStr stored
    \<and> dict_get d ''arguments_sha256'' = JStr stored_sha"
  using assms
  by (auto simp: create_pending_mcp_approval_def Let_def pending_approval_key_def safe_user_norm dict_get_def
      split: if_splits sum.splits prod.splits)

lemma pending_refused:
  "create_pending_mcp_approval C rid time p m = (Inl e, m') \<Longrightarrow> m' = m"
  by (auto simp: create_pending_mcp_approval_def Let_def split: if_splits sum.splits prod.splits)

lemma create_marker_refused:
  assumes "create_mcp_approval_marker G rid time user srv tn canonical sha st = (Inl e, st')"
  shows "st' = st"
  using assms
  by (auto simp: create_mcp_approval_marker_def Let_def split: option.splits json.splits sum.splits prod.splits
      dest!: pending_refused)

lemma create_marker_stores:
  assumes "create_mcp_approval_marker G rid time user srv tn canonical sha st = (Inr mk, st')"
  shows "\<exists>d m stored stored_sha. st' = register_approval_marker mk (st\<lparr>approval_db := m\<rparr>)
    \<and> canonicalize_mcp_arguments (crypt G) canonical = Inr (stored, stored_sha)
    \<and> m (pending_approval_key (crypt G) user rid) = Some (Encoded (JObj d))
    \<and> dict_get d ''user_id'' = JStr (norm_text user [])
    \<and> dict_get d ''server_name'' = JStr (norm_text srv [])
    \<and> dict_get d ''tool_name'' = JStr (norm_text tn [])
    \<and> dict_get d ''canonical_arguments'' = JStr stored
    \<and> dict_get d ''arguments_sha256'' = JStr stored_sha"
proof -
  from assms obtain arguments where a: "decode_json (crypt G) canonical = Some (JObj arguments)"
    by (auto simp: create_mcp_approval_marker_def split: option.splits json.splits)
  define p where "p = \<lparr>pi_user_id = user,
    pi_action = mcp_approval_summary srv tn (mcp_approval_target arguments sha) canonical,
    pi_reason = ''This MCP operation changes external data.'', pi_target = mcp_approval_target arguments sha,
    pi_server_name = srv, pi_tool_name = tn, pi_arguments_json = canonical\<rparr>"
  from assms a obtain d m where
    d: "create_pending_mcp_approval (crypt G) rid time p (approval_db st) = (Inr d, m)"
    and st': "st' = register_approval_marker mk (st\<lparr>approval_db := m\<rparr>)"
    by (auto simp: create_mcp_approval_marker_def Let_def p_def split: sum.splits prod.splits)
  from pending_stores [OF d] have
    "\<exists>stored stored_sha. canonicalize_mcp_arguments (crypt G) canonical = Inr (stored, stored_sha)
      \<and> m = (approval_db st)(pending_approval_key (crypt G) user rid \<mapsto> Encoded (JObj d))
      \<and> dict_get d ''user_id'' = JStr (norm_text user []) \<and> dict_get d ''server_name'' = JStr (norm_text srv [])
      \<and> dict_get d ''tool_name'' = JStr (norm_text tn []) \<and> dict_get d ''canonical_arguments'' = JStr stored
      \<and> dict_get d ''arguments_sha256'' = JStr stored_sha"
    by (simp add: p_def)
  with st' show ?thesis by (intro exI [of _ d] exI [of _ m]) auto
qed

lemma trusted_register:
  "is_trusted_approval_marker mk (register_approval_marker x st) \<Longrightarrow>
     mk = x \<or> is_trusted_approval_marker mk st"
  by (auto simp: is_trusted_approval_marker_def register_approval_marker_def split: option.splits)

lemma trusted_other_db [simp]:
  "is_trusted_approval_marker mk (st\<lparr>approval_db := m\<rparr>) = is_trusted_approval_marker mk st"
  by (simp add: is_trusted_approval_marker_def)

lemma register_db [simp]: "approval_db (register_approval_marker x st) = approval_db st"
  by (simp add: register_approval_marker_def split: option.splits)

lemma spend_markers: "markers (snd (spend_credential G c user token st)) = markers st"
  by (auto simp: spend_credential_def split: sum.splits prod.splits)

text \<open>A new trusted marker comes from the branch that records an approval request.\<close>

lemma new_marker_requested:
  assumes gate: "validate_mcp_approval G rid time c st = (r, st')"
    and new: "is_trusted_approval_marker mk st'" "\<not> is_trusted_approval_marker mk st"
  obtains user where "authenticated_user_id_from_context_or_fallback (env G) (request_headers G) [] = Inr user"
    and "request_approval G rid time c user st = (r, st')"
proof (cases "call_policy (policies G) (server c) (tool c) = ApprovalRequired")
  case False
  with gate have "st' = st"
    by (cases "call_policy (policies G) (server c) (tool c)")
      (auto simp: validate_mcp_approval_def Let_def split: if_splits)
  with new show ?thesis by simp
next
  case True
  have "st' \<noteq> st" using new by auto
  with gate obtain user where
    u: "authenticated_user_id_from_context_or_fallback (env G) (request_headers G) [] = Inr user"
    and c: "(if strip (or_empty (approval_token c)) = [] then request_approval G rid time c user st
       else spend_credential G c user (strip (or_empty (approval_token c))) st) = (r, st')"
    unfolding gate_protected [OF True] by (auto split: sum.splits if_splits option.splits)
  have "markers st' \<noteq> markers st" using new by (auto simp: is_trusted_approval_marker_def)
  with c spend_markers [of G c user "strip (or_empty (approval_token c))" st]
  have "request_approval G rid time c user st = (r, st')" by (auto split: if_splits)
  with u show ?thesis by (rule that)
qed

section \<open>Properties\<close>

text \<open>C1. The gate fails closed. It lets a call through in four cases only: the operator's policy
  auto-approves it; the policy declares it read-only and the call itself shows no sign of a mutation; the
  execute route has already spent the credential for exactly this user, server, tool and argument hash;
  or the caller, with an authenticated identity, presented a stored credential that covers this call,
  and this credential is then removed from the database. The first three change nothing.\<close>

theorem gate_fails_closed:
  assumes allowed: "validate_mcp_approval G rid time c st = ((True, reason), st')"
    and target: "mcp_policy_target (policies G) (server c) (tool c) = (logical, t)"
  shows "call_policy (policies G) (server c) (tool c) = AutoApprove \<and> st' = st
    \<or> call_policy (policies G) (server c) (tool c) = ReadOnly
        \<and> \<not> is_mutating_mcp_call (tool c) (payload_of c) (annotations c) \<and> st' = st
    \<or> call_policy (policies G) (server c) (tool c) = ApprovalRequired
        \<and> (\<exists>user canonical sha. authenticated_user_id_from_context_or_fallback (env G) (request_headers G) [] = Inr user
             \<and> user \<noteq> []
             \<and> canonical_hash G (input_schema c) (payload_of c) = Inr (canonical, sha)
             \<and> (consumed_execution G = Some (user, logical, t, sha) \<and> st' = st
                \<or> consumed_execution G = None
                  \<and> (\<exists>d. let key = approval_token_key (crypt G) user (strip (or_empty (approval_token c))) in
                       approval_db st key = Some (Encoded (JObj d)) \<and> credential_covers G c user sha d
                       \<and> st' = st\<lparr>approval_db := (approval_db st)(key := None)\<rparr>)))"
proof (cases "call_policy (policies G) (server c) (tool c)")
  case AutoApprove
  with allowed show ?thesis by (simp add: validate_mcp_approval_def Let_def)
next
  case ReadOnly
  with allowed show ?thesis by (simp add: validate_mcp_approval_def Let_def split: if_splits)
next
  case ApprovalRequired
  note gate = gate_protected [OF ApprovalRequired]
  from allowed obtain user where u:
    "authenticated_user_id_from_context_or_fallback (env G) (request_headers G) [] = Inr user" "user \<noteq> []"
    unfolding gate by (auto split: sum.splits if_splits)
  show ?thesis
  proof (cases "consumed_execution G")
    case (Some consumed)
    with allowed u have "fst (match_consumed G c user consumed)" "st' = st"
      unfolding gate by auto
    with match_consumed_accepts target Some u ApprovalRequired show ?thesis by auto
  next
    case None
    let ?tok = "strip (or_empty (approval_token c))"
    from allowed u None request_approval_refuses [of G rid time c user st]
    have tok: "?tok \<noteq> []" and sp: "spend_credential G c user ?tok st = ((True, reason), st')"
      unfolding gate by (auto split: if_splits)
    from spend_accepts [OF sp tok] ApprovalRequired u None show ?thesis
      by (auto simp: Let_def)
  qed
qed

text \<open>A setting in which an authenticated user presents a credential for a protected call.\<close>

definition sample_gate :: gate_ctx where
  "sample_gate = \<lparr>crypt = sample_crypto, policies = empty_registry,
     env = \<lparr>token_env = Some ''s'', insecure_env = None\<rparr>,
     request_headers = Some [(''x-user-id'', ''ann''), (''x-daedalus-internal-token'', ''s'')],
     consumed_execution = None, redis_up = True\<rparr>"

definition sample_call :: mcp_call where
  "sample_call = \<lparr>tool = ''delete'', payload_of = [], annotations = None, server = ''k8s'',
     approval_token = Some ''t'', input_schema = None\<rparr>"

definition sample_db :: approvals where
  "sample_db = snd (issue_approval_token sample_crypto ''t'' 0 sample_request (\<lambda>_. None))"

theorem gate_fails_closed_witness:
  "\<exists>d. sample_db (approval_token_key sample_crypto ''ann'' ''t'') = Some (Encoded (JObj d))
     \<and> credential_covers sample_gate sample_call ''ann'' ''{}'' d"
proof -
  let ?st = "\<lparr>approval_db = sample_db, markers = Some []\<rparr>"
  have ok: "fst (fst (validate_mcp_approval sample_gate ''r'' 0 sample_call ?st)) = True" by code_simp
  have p: "call_policy (policies sample_gate) (server sample_call) (tool sample_call) = ApprovalRequired"
    by code_simp
  have u: "authenticated_user_id_from_context_or_fallback (env sample_gate) (request_headers sample_gate) [] = Inr ''ann''"
    by code_simp
  have h: "canonical_hash sample_gate (input_schema sample_call) (payload_of sample_call) = Inr (''{}'', ''{}'')"
    by code_simp
  have t: "strip (or_empty (approval_token sample_call)) = ''t''" by code_simp
  have c: "consumed_execution sample_gate = None" "crypt sample_gate = sample_crypto"
    by (simp_all add: sample_gate_def)
  obtain reason st' where "validate_mcp_approval sample_gate ''r'' 0 sample_call ?st = ((True, reason), st')"
    using ok by (cases "validate_mcp_approval sample_gate ''r'' 0 sample_call ?st") auto
  from gate_fails_closed [OF this prod.collapse [symmetric]] p u h t c show ?thesis
    by (auto simp: Let_def)
qed

text \<open>Markers have provenance: the only text that one call can add to the trusted markers of its
  request is the refusal it returns, and then the database holds a pending intent, under the request
  identifier and the authenticated user, for exactly this server, tool and argument object. An
  authenticated autonomous run never adds a marker.\<close>

theorem marker_provenance:
  assumes gate: "validate_mcp_approval G rid time c st = (r, st')"
    and new: "is_trusted_approval_marker mk st'" "\<not> is_trusted_approval_marker mk st"
  shows "r = (False, mk) \<and> \<not> is_authenticated_autonomy_request (env G) (request_headers G)
    \<and> (\<exists>user canonical sha pending stored stored_sha.
         authenticated_user_id_from_context_or_fallback (env G) (request_headers G) [] = Inr user
         \<and> canonical_hash G (input_schema c) (payload_of c) = Inr (canonical, sha)
         \<and> canonicalize_mcp_arguments (crypt G) canonical = Inr (stored, stored_sha)
         \<and> approval_db st' (pending_approval_key (crypt G) user rid) = Some (Encoded (JObj pending))
         \<and> dict_get pending ''user_id'' = JStr (norm_text user [])
         \<and> dict_get pending ''server_name'' = JStr (norm_text (server c) [])
         \<and> dict_get pending ''tool_name'' = JStr (norm_text (tool c) [])
         \<and> dict_get pending ''canonical_arguments'' = JStr stored
         \<and> dict_get pending ''arguments_sha256'' = JStr stored_sha)"
proof -
  from new_marker_requested [OF assms] obtain user where
    u: "authenticated_user_id_from_context_or_fallback (env G) (request_headers G) [] = Inr user"
    and req: "request_approval G rid time c user st = (r, st')" .
  from req new have auto: "\<not> is_authenticated_autonomy_request (env G) (request_headers G)"
    by (auto simp: request_approval_def)
  from req auto new obtain canonical sha where
    h: "canonical_hash G (input_schema c) (payload_of c) = Inr (canonical, sha)"
    by (auto simp: request_approval_def split: sum.splits)
  from req auto h new obtain x where
    x: "create_mcp_approval_marker G rid time user (server c) (tool c) canonical sha st = (Inr x, st')"
    and r: "r = (False, x)"
    by (auto simp: request_approval_def split: sum.splits prod.splits dest!: create_marker_refused)
  from create_marker_stores [OF x] new have "mk = x" by (auto dest: trusted_register)
  with create_marker_stores [OF x] u auto h r show ?thesis by (auto 0 4)
qed

definition unapproved_call :: mcp_call where
  "unapproved_call = sample_call\<lparr>approval_token := None\<rparr>"

theorem marker_provenance_witness:
  "\<exists>pending. approval_db (snd (validate_mcp_approval sample_gate ''r'' 0 unapproved_call
       \<lparr>approval_db = (\<lambda>_. None), markers = Some []\<rparr>)) (pending_approval_key sample_crypto ''ann'' ''r'')
     = Some (Encoded (JObj pending)) \<and> dict_get pending ''tool_name'' = JStr ''delete''"
proof -
  let ?c = unapproved_call
  let ?st = "\<lparr>approval_db = (\<lambda>_. None), markers = Some []\<rparr> :: gate_state"
  have u: "authenticated_user_id_from_context_or_fallback (env sample_gate) (request_headers sample_gate) [] = Inr ''ann''"
    by code_simp
  have p: "call_policy (policies sample_gate) (server ?c) (tool ?c) = ApprovalRequired" by code_simp
  have k: "strip (or_empty (approval_token ?c)) = []" by code_simp
  have q: "\<not> is_authenticated_autonomy_request (env sample_gate) (request_headers sample_gate)" by code_simp
  have h: "canonical_hash sample_gate (input_schema ?c) (payload_of ?c) = Inr (''{}'', ''{}'')" by code_simp
  have c: "crypt sample_gate = sample_crypto" "consumed_execution sample_gate = None"
    "make_redis_client sample_gate = Inr ()" "decode_json sample_crypto ''{}'' = Some (JObj [])"
    "server ?c = ''k8s''" "tool ?c = ''delete''"
    by (simp_all add: sample_gate_def sample_crypto_def make_redis_client_def unapproved_call_def sample_call_def)
  let ?target = "mcp_approval_target [] ''{}''"
  let ?p = "\<lparr>pi_user_id = ''ann'', pi_action = mcp_approval_summary ''k8s'' ''delete'' ?target ''{}'',
    pi_reason = ''This MCP operation changes external data.'', pi_target = ?target,
    pi_server_name = ''k8s'', pi_tool_name = ''delete'', pi_arguments_json = ''{}''\<rparr>"
  have "is_ok (fst (create_pending_mcp_approval sample_crypto ''r'' 0 ?p (\<lambda>_. None)))" by code_simp
  then obtain d m where "create_pending_mcp_approval sample_crypto ''r'' 0 ?p (\<lambda>_. None) = (Inr d, m)"
    by (cases "create_pending_mcp_approval sample_crypto ''r'' 0 ?p (\<lambda>_. None)";
        cases "fst (create_pending_mcp_approval sample_crypto ''r'' 0 ?p (\<lambda>_. None))") auto
  then obtain mk where
    g0: "validate_mcp_approval sample_gate ''r'' 0 ?c ?st = ((False, mk), ?st\<lparr>approval_db := m, markers := Some [mk]\<rparr>)"
    by (simp add: gate_protected [OF p] u c k request_approval_def q h create_mcp_approval_marker_def Let_def
        register_approval_marker_def)
  define r where "r = (False, mk)"
  define st' where "st' = ?st\<lparr>approval_db := m, markers := Some [mk]\<rparr>"
  from g0 have g: "validate_mcp_approval sample_gate ''r'' 0 ?c ?st = (r, st')"
    by (simp add: r_def st'_def)
  have t: "is_trusted_approval_marker (snd r) st'"
    by (simp add: is_trusted_approval_marker_def r_def st'_def)
  have n: "\<not> is_trusted_approval_marker (snd r) ?st" by (simp add: is_trusted_approval_marker_def)
  have d: "norm_text (tool ?c) [] = ''delete''" by code_simp
  from marker_provenance [OF g t n] u c(1) d g show ?thesis by auto
qed

end
