(* ===== verification/Mcp_Calls.thy ===== *)
theory Mcp_Calls
  imports Mcp_Gate "HOL-Library.AList" "HOL-Library.List_Lexorder" "HOL-Library.Char_ord"
begin

text \<open>
  The manager of the MCP servers (\<open>builder/daedalus_runtime/mcp.py\<close>): which operations of a server are exposed,
  the connections per server and user, and a call with its approval.

  \<^item> A group is the part of its validated configuration that this module reads.
  \<^item> A \<open>mcp_world\<close> is what the protocol library, the credential store and the servers do: the bearer token of
    a user, the catalogue that a new connection lists (page by page), the validation of arguments against a
    schema, whether the connection is still open after the approval and how the remote call ends.
  \<^item> \<open>sent\<close> is a ghost: the calls that reached a server, in order.
\<close>

section \<open>Groups and their operations\<close>

datatype mcp_auth =
    NoAuth
  | UserOAuth
  | ApiKey string string string
  | OtherAuth

record mcp_group =
  g_url :: string
  g_transport :: string
  g_headers :: headers
  g_auth :: mcp_auth
  g_include :: "string list"
  g_exclude :: "string list"
  g_descriptions :: "(string \<times> string) list"
  g_initial :: "string list"
  g_deferred :: bool
  g_discovery :: string

record remote_tool =
  mt_name :: string
  mt_description :: string
  mt_schema :: dict
  mt_annotations :: "dict option"

record tool_schema =
  ts_name :: string
  ts_description :: string
  ts_parameters :: dict

definition normalized :: "string \<Rightarrow> string" where
  "normalized name = lower (strip name)"

definition exposed :: "mcp_group \<Rightarrow> string \<Rightarrow> bool" where
  "exposed g name =
     (let incl = map normalized (g_include g); excl = map normalized (g_exclude g) in
      if incl \<noteq> [] then normalized name \<in> set incl else normalized name \<notin> set excl)"

definition qualified_name :: "string \<Rightarrow> string \<Rightarrow> string" where
  "qualified_name name tool_name = name @ ''__'' @ tool_name"

definition described :: "mcp_group \<Rightarrow> remote_tool \<Rightarrow> string" where
  "described g t =
     (let override = strip (or_empty (map_of (g_descriptions g) (mt_name t))) in
      if override \<noteq> [] then override else strip (mt_description t))"

fun tool_schemas :: "string \<Rightarrow> mcp_group \<Rightarrow> remote_tool list \<Rightarrow> tool_schema list result" where
  "tool_schemas name g [] = Inr []"
| "tool_schemas name g (t # ts) =
     (if \<not> exposed g (mt_name t) then tool_schemas name g ts
      else if described g t = [] then Inl (ValueError ''MCP tool requires a description or configured override'')
      else bind_result (tool_schemas name g ts) (\<lambda>rest.
             Inr (\<lparr>ts_name = qualified_name name (mt_name t), ts_description = described g t, ts_parameters = mt_schema t\<rparr> # rest)))"

definition connect_schema :: "string \<Rightarrow> mcp_group \<Rightarrow> string list option \<Rightarrow> tool_schema" where
  "connect_schema name g deferred =
     (let names = join_with '', '' (case deferred of Some ns \<Rightarrow> ns | None \<Rightarrow> g_include g) in
      \<lparr>ts_name = qualified_name name ''connect'',
       ts_description = (if g_discovery g = [] then [] else g_discovery g @ '' '')
         @ ''Connect to '' @ name @ '' and discover its tools before using them. ''
         @ ''The discovered tools remain available for this request; use their ''
         @ ''returned names and schemas for subsequent calls. Complete browser ''
         @ ''authorization if requested. ''
         @ ''Use tools already exposed directly. Discover the appropriate ''
         @ ''operation before substituting other tools for unavailable functionality. ''
         @ ''Operations available after connecting include: ''
         @ (if names = [] then ''the configured service operations'' else names) @ ''.'',
       ts_parameters = [(''type'', JStr ''object''), (''properties'', JObj []), (''additionalProperties'', JBool False)]\<rparr>)"

section \<open>Connections\<close>

record mcp_connection =
  mc_headers :: "headers option"
  mc_tools :: "remote_tool list"
  mc_open :: bool

type_synonym connections = "((string \<times> string) \<times> (string \<times> mcp_connection)) list"

datatype remote_reply = Confirmed string bool | Unconfirmed | Interrupted

record mcp_world =
  bearer :: "string \<Rightarrow> string \<Rightarrow> string option result"
  headers_digest :: "headers option \<Rightarrow> string"
  catalogue_pages :: "string \<Rightarrow> headers option \<Rightarrow> remote_tool list list option"
  invalid_arguments :: "dict \<Rightarrow> dict \<Rightarrow> py_error option"
  open_after_approval :: bool
  remote_call :: "string \<Rightarrow> dict \<Rightarrow> remote_reply"

text \<open>\<open>_headers\<close>: \<^const>\<open>None\<close> where a user has not authorized the service yet.\<close>

definition auth_headers :: "mcp_world \<Rightarrow> mcp_group \<Rightarrow> string \<Rightarrow> string \<Rightarrow> headers option result" where
  "auth_headers W g name user =
     (case g_auth g of
        UserOAuth \<Rightarrow>
          bind_result (bearer W name user) (\<lambda>token.
            Inr (case token of
                   None \<Rightarrow> None
                 | Some t \<Rightarrow> if t = [] then None else Some (AList.update ''Authorization'' (''Bearer '' @ t) (g_headers g))))
      | ApiKey key header prefix \<Rightarrow>
          if key = [] then Inl (RuntimeError ''MCP credential is not configured'')
          else Inr (Some (AList.update header (strip (prefix @ '' '' @ key)) (g_headers g)))
      | OtherAuth \<Rightarrow> Inl (ValueError ''Unsupported MCP authentication provider'')
      | NoAuth \<Rightarrow> Inr (Some (g_headers g)))"

text \<open>The catalogue of a new connection: at most 100 pages, and no name twice.\<close>

definition collect_tools :: "remote_tool list list \<Rightarrow> remote_tool list option" where
  "collect_tools pages =
     (if pages = [] \<or> 100 < length pages \<or> \<not> distinct (map mt_name (concat pages)) then None else Some (concat pages))"

definition drop_stale :: "string \<Rightarrow> string \<times> string \<Rightarrow> connections \<Rightarrow> connections" where
  "drop_stale digest k cs =
     (case map_of cs k of
        Some (d, c) \<Rightarrow> if d \<noteq> digest \<or> \<not> mc_open c then AList.delete k cs else cs
      | None \<Rightarrow> cs)"

definition get_connection ::
  "mcp_world \<Rightarrow> mcp_group \<Rightarrow> string \<Rightarrow> string \<Rightarrow> headers option \<Rightarrow> connections \<Rightarrow> mcp_connection result \<times> connections" where
  "get_connection W g name user hs cs =
     (let d = headers_digest W hs; cs' = drop_stale d (name, user) cs in
      case map_of cs' (name, user) of
        Some (_, c) \<Rightarrow> (Inr c, cs')
      | None \<Rightarrow>
          if 256 \<le> length cs' then (Inl (RuntimeError ''MCP connection capacity reached''), cs')
          else if g_transport g \<noteq> ''streamable-http'' then (Inl (ValueError ''Only MCP Streamable HTTP is supported''), cs')
          else (case Option.bind (catalogue_pages W (g_url g) hs) collect_tools of
                  None \<Rightarrow> (Inl (RuntimeError ''MCP connection is unavailable''), cs')
                | Some tools \<Rightarrow>
                    let c = \<lparr>mc_headers = hs, mc_tools = tools, mc_open = True\<rparr> in
                    (Inr c, cs' @ [((name, user), (d, c))])))"

section \<open>The catalogue of a run\<close>

text \<open>\<open>discover\<close>: a failure of any kind leaves only the schema that connects.\<close>

definition discover ::
  "mcp_world \<Rightarrow> mcp_group \<Rightarrow> string \<Rightarrow> string \<Rightarrow> bool \<Rightarrow> connections \<Rightarrow> tool_schema list \<times> connections" where
  "discover W g name user initial cs =
     (let deferred = initial \<and> g_deferred g in
      if deferred \<and> g_initial g = [] then ([connect_schema name g None], cs)
      else case auth_headers W g name user of
        Inl e \<Rightarrow> ([connect_schema name g None], cs)
      | Inr None \<Rightarrow> ([connect_schema name g None], cs)
      | Inr (Some hs) \<Rightarrow>
          (case get_connection W g name user (Some hs) cs of
             (Inl e, cs') \<Rightarrow> ([connect_schema name g None], cs')
           | (Inr c, cs') \<Rightarrow>
               (case tool_schemas name g (mc_tools c) of
                  Inl e \<Rightarrow> ([connect_schema name g None], cs')
                | Inr schemas \<Rightarrow>
                    if deferred
                    then let initial_names = map (qualified_name name) (g_initial g) in
                      (filter (\<lambda>s. ts_name s \<in> set initial_names) schemas
                         @ [connect_schema name g (Some (map ts_name (filter (\<lambda>s. ts_name s \<notin> set initial_names) schemas)))], cs')
                    else (schemas, cs'))))"

fun discover_all ::
  "mcp_world \<Rightarrow> (string \<times> mcp_group) list \<Rightarrow> string \<Rightarrow> bool \<Rightarrow> string list \<Rightarrow> connections \<Rightarrow> tool_schema list result \<times> connections" where
  "discover_all W groups user initial [] cs = (Inr [], cs)"
| "discover_all W groups user initial (name # names) cs =
     (case map_of groups name of
        None \<Rightarrow> (case discover_all W groups user initial names cs of (r, cs') \<Rightarrow> (Inl KeyError, cs'))
      | Some g \<Rightarrow>
          (case discover W g name user initial cs of
             (schemas, cs') \<Rightarrow>
               (case discover_all W groups user initial names cs' of
                  (r, cs'') \<Rightarrow> (bind_result r (\<lambda>rest. Inr (schemas @ rest)), cs''))))"

definition catalogue ::
  "mcp_world \<Rightarrow> bool \<Rightarrow> (string \<times> mcp_group) list \<Rightarrow> string \<Rightarrow> bool \<Rightarrow> string list \<Rightarrow> connections \<Rightarrow> tool_schema list result \<times> connections" where
  "catalogue W manager_enabled groups user initial names cs =
     (if \<not> manager_enabled then (Inl (RuntimeError ''MCP authorization is owned by Rust''), cs)
      else discover_all W groups user initial names cs)"

section \<open>A call\<close>

text \<open>\<open>full_name.partition("__")\<close>.\<close>

fun split_name :: "string \<Rightarrow> string \<times> string option" where
  "split_name [] = ([], None)"
| "split_name (c # cs) =
     (if starts_with ''__'' (c # cs) then ([], Some (drop 1 cs))
      else (case split_name cs of (a, b) \<Rightarrow> (c # a, b)))"

record tool_answer =
  ta_content :: string
  ta_error :: bool
  ta_terminal :: bool
  ta_reason :: string
  ta_tools :: "tool_schema list"

definition plain_answer :: "string \<Rightarrow> bool \<Rightarrow> tool_answer" where
  "plain_answer content failed = \<lparr>ta_content = content, ta_error = failed, ta_terminal = False, ta_reason = [], ta_tools = []\<rparr>"

definition refused_answer :: "string \<Rightarrow> bool \<Rightarrow> tool_answer" where
  "refused_answer reason terminal =
     \<lparr>ta_content = reason, ta_error = True, ta_terminal = terminal,
      ta_reason = (if terminal then ''mcp_approval_required'' else []), ta_tools = []\<rparr>"

lemma refused_answer_simps [simp]:
  "ta_content (refused_answer reason terminal) = reason" "ta_terminal (refused_answer reason terminal) = terminal"
  "ta_reason (refused_answer reason terminal) = ''mcp_approval_required'' \<longleftrightarrow> terminal"
  by (simp_all add: refused_answer_def)

definition UNCONFIRMED :: string where
  "UNCONFIRMED = ''MCP call did not return a confirmed result. Its remote outcome may be unknown; check the current state before repeating a change.''"

datatype mcp_failure = Failed py_error | CallCancelled

record manager_state =
  conns :: connections
  gate_at :: gate_state
  sent :: "(string \<times> string \<times> string \<times> dict) list"

definition gate_call :: "string \<Rightarrow> remote_tool \<Rightarrow> dict \<Rightarrow> string \<Rightarrow> mcp_call" where
  "gate_call name t arguments token =
     \<lparr>tool = mt_name t, payload_of = arguments, annotations = mt_annotations t, server = name,
      approval_token = Some token, input_schema = None\<rparr>"

text \<open>The call after its arguments were validated. A rejected bearer token is invalidated by the next operation
  of the credential store (\<open>Google_OAuth\<close>).\<close>

definition approved_call ::
  "gate_ctx \<Rightarrow> mcp_world \<Rightarrow> string \<Rightarrow> remote_tool \<Rightarrow> dict \<Rightarrow> string \<Rightarrow> string \<Rightarrow> int \<Rightarrow> manager_state \<Rightarrow>
     (mcp_failure + tool_answer) \<times> manager_state" where
  "approved_call G W name t arguments user request_id time st =
     (case trusted_request_header_from_context (env G) (request_headers G) ''x-daedalus-approval-token'' of
        Inl e \<Rightarrow> (Inl (Failed e), st)
      | Inr token \<Rightarrow>
          (case validate_mcp_approval G request_id time (gate_call name t arguments token) (gate_at st) of
             ((False, reason), g') \<Rightarrow>
               let terminal = is_trusted_approval_marker reason g' in
               (Inr (refused_answer reason terminal), st\<lparr>gate_at := g'\<rparr>)
           | ((True, reason), g') \<Rightarrow>
               if \<not> open_after_approval W then (Inl (Failed (RuntimeError ''MCP connection has closed'')), st\<lparr>gate_at := g'\<rparr>)
               else
                 let st' = st\<lparr>gate_at := g', sent := sent st @ [(user, name, mt_name t, arguments)]\<rparr>;
                     closed = st'\<lparr>conns := AList.delete (name, user) (conns st')\<rparr> in
                 (case remote_call W (mt_name t) arguments of
                    Confirmed content failed \<Rightarrow> (Inr (plain_answer content failed), st')
                  | Unconfirmed \<Rightarrow> (Inr (plain_answer UNCONFIRMED True), closed)
                  | Interrupted \<Rightarrow> (Inl CallCancelled, closed))))"

text \<open>The call on its connection.\<close>

definition call_on ::
  "gate_ctx \<Rightarrow> mcp_world \<Rightarrow> mcp_connection \<Rightarrow> string \<Rightarrow> mcp_group \<Rightarrow> string \<Rightarrow> dict \<Rightarrow> string \<Rightarrow> string \<Rightarrow> int \<Rightarrow> manager_state \<Rightarrow>
     (mcp_failure + tool_answer) \<times> manager_state" where
  "call_on G W c name g tool_name arguments user request_id time st =
     (case tool_schemas name g (mc_tools c) of
        Inl e \<Rightarrow> (Inl (Failed e), st)
      | Inr schemas \<Rightarrow>
          if tool_name = ''connect''
          then (if arguments \<noteq> [] then (Inl (Failed (ValueError ''Connect does not accept arguments'')), st)
                else (Inr ((plain_answer ''Connected. The discovered tools are now available.'' False)\<lparr>ta_tools := schemas\<rparr>), st))
          else if qualified_name name tool_name \<notin> set (map ts_name schemas)
          then (Inl (Failed (ValueError ''MCP tool is not exposed by local configuration'')), st)
          else (case find (\<lambda>t. mt_name t = tool_name) (mc_tools c) of
                  None \<Rightarrow> (Inl (Failed KeyError), st)
                | Some t \<Rightarrow>
                    (case invalid_arguments W (mt_schema t) arguments of
                       Some e \<Rightarrow> (Inl (Failed e), st)
                     | None \<Rightarrow> approved_call G W name t arguments user request_id time st)))"

definition call_mcp ::
  "gate_ctx \<Rightarrow> mcp_world \<Rightarrow> bool \<Rightarrow> (string \<times> mcp_group) list \<Rightarrow> string \<Rightarrow> dict \<Rightarrow> string \<Rightarrow> string \<Rightarrow> int \<Rightarrow> manager_state \<Rightarrow>
     (mcp_failure + tool_answer) \<times> manager_state" where
  "call_mcp G W manager_enabled groups full_name arguments user request_id time st =
     (if \<not> manager_enabled then (Inl (Failed (RuntimeError ''MCP authorization is owned by Rust'')), st)
      else case split_name full_name of
        (name, None) \<Rightarrow> (Inl (Failed (ValueError ''Unknown MCP tool'')), st)
      | (name, Some tool_name) \<Rightarrow>
          (case map_of groups name of
             None \<Rightarrow> (Inl (Failed (ValueError ''Unknown MCP tool'')), st)
           | Some g \<Rightarrow>
               (case auth_headers W g name user of
                  Inl e \<Rightarrow> (Inl (Failed e), st)
                | Inr hs \<Rightarrow>
                    (case get_connection W g name user hs (conns st) of
                       (Inl e, cs) \<Rightarrow> (Inl (Failed e), st\<lparr>conns := cs\<rparr>)
                     | (Inr c, cs) \<Rightarrow> call_on G W c name g tool_name arguments user request_id time (st\<lparr>conns := cs\<rparr>)))))"

section \<open>Status\<close>

record capability =
  available_groups :: "string list"
  missing_required :: "string list"
  unavailable_optional :: "string list"

definition capability_status :: "bool \<Rightarrow> string \<Rightarrow> (string \<times> mcp_group) list \<Rightarrow> connections \<Rightarrow> capability" where
  "capability_status manager_enabled required_env groups cs =
     (if \<not> manager_enabled then \<lparr>available_groups = [], missing_required = [], unavailable_optional = []\<rparr>
      else
        let required = filter (\<lambda>n. n \<noteq> []) (map strip (split_at (CHR '','') required_env));
            available = map (\<lambda>p. fst (fst p)) (filter (\<lambda>p. mc_open (snd (snd p))) cs);
            missing = filter (\<lambda>n. n \<notin> set available) (map fst groups) in
        \<lparr>available_groups = sort (remdups available),
         missing_required = sort (remdups (filter (\<lambda>n. n \<notin> set available) required)),
         unavailable_optional = sort (remdups (filter (\<lambda>n. n \<notin> set required) missing))\<rparr>)"

section \<open>Facts\<close>

lemma starts_with_drop: "starts_with p s \<Longrightarrow> s = p @ drop (length p) s"
  by (metis starts_with_def append_take_drop_id)

lemma split_name_Some: "split_name s = (a, Some b) \<Longrightarrow> s = a @ ''__'' @ b"
proof (induction s arbitrary: a)
  case (Cons c cs)
  show ?case
  proof (cases "starts_with ''__'' (c # cs)")
    case True
    with Cons.prems starts_with_drop [OF True] show ?thesis by (simp add: drop_Suc)
  next
    case False
    with Cons show ?thesis by (auto split: prod.splits)
  qed
qed simp

lemma qualified_same [simp]: "qualified_name name a = qualified_name name b \<longleftrightarrow> a = b"
  by (simp add: qualified_name_def)

text \<open>The schemas name the exposed tools of the catalogue, and only those.\<close>

lemma schemas_exposed:
  "tool_schemas name g ts = Inr ss \<Longrightarrow>
     qualified_name name x \<in> set (map ts_name ss) \<longleftrightarrow> exposed g x \<and> x \<in> set (map mt_name ts)"
  by (induction name g ts arbitrary: ss rule: tool_schemas.induct)
    (auto simp: bind_result_Inr split: if_splits)

text \<open>Every connection is kept with the digest of the headers that it was opened with.\<close>

definition connections_ok :: "mcp_world \<Rightarrow> connections \<Rightarrow> bool" where
  "connections_ok W cs \<longleftrightarrow>
     distinct (map fst cs) \<and> length cs \<le> 256 \<and> (\<forall>(k, d, c) \<in> set cs. d = headers_digest W (mc_headers c))"

lemma delete_ok:
  assumes "connections_ok W cs"
  shows "connections_ok W (AList.delete k cs)"
proof -
  have "length (AList.delete k cs) \<le> 256"
    unfolding AList.delete_eq by (rule le_trans [OF length_filter_le]) (use assms in \<open>simp add: connections_ok_def\<close>)
  with assms show ?thesis by (auto simp: connections_ok_def AList.delete_eq distinct_map_filter split: prod.splits)
qed

lemma drop_stale_ok: "connections_ok W cs \<Longrightarrow> connections_ok W (drop_stale d k cs)"
  by (auto simp: drop_stale_def delete_ok split: option.splits)

lemma drop_stale_subset: "set (drop_stale d k cs) \<subseteq> set cs"
  by (auto simp: drop_stale_def AList.delete_eq split: option.splits)

lemma drop_stale_at:
  "map_of (drop_stale d k cs) k = Some (d', c) \<Longrightarrow> d' = d \<and> mc_open c"
  by (auto simp: drop_stale_def AList.delete_conv' split: option.splits if_splits)

lemma drop_stale_other: "k' \<noteq> k \<Longrightarrow> map_of (drop_stale d k cs) k' = map_of cs k'"
  by (auto simp: drop_stale_def AList.delete_conv' split: option.splits)

lemma get_connection_ok:
  assumes ok: "connections_ok W cs" and run: "get_connection W g name user hs cs = (r, cs')"
  shows "connections_ok W cs'" and "k \<noteq> (name, user) \<Longrightarrow> map_of cs' k = map_of cs k"
    and "r = Inr c \<Longrightarrow> mc_headers c = hs \<or> (\<exists>d. ((name, user), d, c) \<in> set cs \<and> headers_digest W (mc_headers c) = headers_digest W hs)"
proof -
  let ?cs = "drop_stale (headers_digest W hs) (name, user) cs"
  have ok': "connections_ok W ?cs" using drop_stale_ok [OF ok] .
  have new: "connections_ok W (?cs @ [((name, user), (headers_digest W hs, \<lparr>mc_headers = hs, mc_tools = tools, mc_open = True\<rparr>))])"
    if "map_of ?cs (name, user) = None" "\<not> 256 \<le> length ?cs" for tools
    using ok' that by (auto simp: connections_ok_def map_of_eq_None_iff)
  show "connections_ok W cs'"
    using run ok' new by (auto simp: get_connection_def Let_def split: option.splits if_splits prod.splits)
  show "map_of cs' k = map_of cs k" if "k \<noteq> (name, user)"
    using run drop_stale_other [OF that] that
    by (auto simp: get_connection_def Let_def map_add_def split: option.splits if_splits prod.splits)
  show "mc_headers c = hs \<or> (\<exists>d. ((name, user), d, c) \<in> set cs \<and> headers_digest W (mc_headers c) = headers_digest W hs)" if "r = Inr c"
  proof (cases "map_of ?cs (name, user)")
    case None
    with run that show ?thesis by (auto simp: get_connection_def Let_def split: option.splits if_splits)
  next
    case (Some e)
    with run that obtain d where "map_of ?cs (name, user) = Some (d, c)"
      by (cases e) (auto simp: get_connection_def Let_def)
    with drop_stale_at [OF this] map_of_SomeD [OF this] ok' drop_stale_subset show ?thesis
      by (fastforce simp: connections_ok_def)
  qed
qed

text \<open>What happens after the arguments are validated.\<close>

definition let_through ::
  "gate_ctx \<Rightarrow> string \<Rightarrow> int \<Rightarrow> string \<Rightarrow> remote_tool \<Rightarrow> dict \<Rightarrow> gate_state \<Rightarrow> gate_state \<Rightarrow> bool" where
  "let_through G rid time name t arguments g g' \<longleftrightarrow>
     (\<exists>token reason. validate_mcp_approval G rid time (gate_call name t arguments token) g = ((True, reason), g'))"

definition marker_answer :: "manager_state \<Rightarrow> tool_answer \<Rightarrow> bool" where
  "marker_answer st a \<longleftrightarrow> ta_terminal a \<and> ta_reason a = ''mcp_approval_required'' \<and> is_trusted_approval_marker (ta_content a) (gate_at st)"

lemma approved_call_effect:
  assumes "approved_call G W name t arguments user rid time st = (r, st')"
  shows "conns st' = conns st \<or> conns st' = AList.delete (name, user) (conns st)"
    and "sent st' = sent st \<or> sent st' = sent st @ [(user, name, mt_name t, arguments)] \<and> let_through G rid time name t arguments (gate_at st) (gate_at st')"
    and "\<forall>a. r = Inr a \<longrightarrow> (ta_terminal a = (ta_reason a = ''mcp_approval_required'')) \<and> (ta_terminal a \<longrightarrow> marker_answer st' a \<and> sent st' = sent st)"
proof -
  have "(conns st' = conns st \<or> conns st' = AList.delete (name, user) (conns st))
    \<and> (sent st' = sent st \<or> sent st' = sent st @ [(user, name, mt_name t, arguments)] \<and> let_through G rid time name t arguments (gate_at st) (gate_at st'))
    \<and> (\<forall>a. r = Inr a \<longrightarrow> (ta_terminal a = (ta_reason a = ''mcp_approval_required'')) \<and> (ta_terminal a \<longrightarrow> marker_answer st' a \<and> sent st' = sent st))"
  proof (cases "trusted_request_header_from_context (env G) (request_headers G) ''x-daedalus-approval-token''")
    case (Inl e)
    with assms show ?thesis by (auto simp: approved_call_def)
  next
    case (Inr token)
    obtain ok reason g' where v: "validate_mcp_approval G rid time (gate_call name t arguments token) (gate_at st) = ((ok, reason), g')"
      by (metis surj_pair)
    show ?thesis
    proof (cases "ok \<and> open_after_approval W")
      case False
      with assms Inr v show ?thesis
        by (cases ok) (auto simp: approved_call_def Let_def marker_answer_def)
    next
      case True
      with v have "let_through G rid time name t arguments (gate_at st) g'" by (auto simp: let_through_def)
      with True assms Inr v show ?thesis
        by (cases "remote_call W (mt_name t) arguments") (auto simp: approved_call_def Let_def plain_answer_def)
    qed
  qed
  then show "conns st' = conns st \<or> conns st' = AList.delete (name, user) (conns st)"
    and "sent st' = sent st \<or> sent st' = sent st @ [(user, name, mt_name t, arguments)] \<and> let_through G rid time name t arguments (gate_at st) (gate_at st')"
    and "\<forall>a. r = Inr a \<longrightarrow> (ta_terminal a = (ta_reason a = ''mcp_approval_required'')) \<and> (ta_terminal a \<longrightarrow> marker_answer st' a \<and> sent st' = sent st)"
    by blast+
qed

lemma call_on_effect:
  assumes "call_on G W c name g tool_name arguments user rid time st = (r, st')"
  shows "(st' = st \<and> (\<forall>a. r = Inr a \<longrightarrow> \<not> ta_terminal a \<and> ta_reason a = []))
    \<or> (\<exists>t. exposed g tool_name \<and> t \<in> set (mc_tools c) \<and> mt_name t = tool_name \<and> invalid_arguments W (mt_schema t) arguments = None
          \<and> approved_call G W name t arguments user rid time st = (r, st'))"
proof (cases "\<exists>ss t. tool_schemas name g (mc_tools c) = Inr ss \<and> tool_name \<noteq> ''connect''
        \<and> qualified_name name tool_name \<in> set (map ts_name ss) \<and> find (\<lambda>t. mt_name t = tool_name) (mc_tools c) = Some t
        \<and> invalid_arguments W (mt_schema t) arguments = None")
  case False
  with assms show ?thesis
    by (auto simp: call_on_def plain_answer_def split: sum.splits if_splits option.splits)
next
  case True
  then obtain ss t where c: "tool_schemas name g (mc_tools c) = Inr ss" "tool_name \<noteq> ''connect''"
    "qualified_name name tool_name \<in> set (map ts_name ss)" "find (\<lambda>t. mt_name t = tool_name) (mc_tools c) = Some t"
    "invalid_arguments W (mt_schema t) arguments = None" by blast
  from c(4) have t: "t \<in> set (mc_tools c)" "mt_name t = tool_name" by (auto simp: find_Some_iff)
  from c(1,3) schemas_exposed [OF c(1)] have "exposed g tool_name" by simp
  moreover from assms c have "approved_call G W name t arguments user rid time st = (r, st')" by (simp add: call_on_def)
  ultimately show ?thesis using t c(5) by blast
qed

text \<open>The answer alone, whatever the connections are.\<close>

lemma call_mcp_answer:
  assumes "call_mcp G W manager_enabled groups full_name arguments user rid time st = (Inr a, st')"
  shows "ta_terminal a = (ta_reason a = ''mcp_approval_required'') \<and> (ta_terminal a \<longrightarrow> marker_answer st' a \<and> sent st' = sent st)"
proof -
  from assms obtain name tool_name g hs c cs where
    x: "get_connection W g name user hs (conns st) = (Inr c, cs)"
    and run: "call_on G W c name g tool_name arguments user rid time (st\<lparr>conns := cs\<rparr>) = (Inr a, st')"
    by (auto simp: call_mcp_def split: if_splits option.splits sum.splits prod.splits)
  from call_on_effect [OF run] show ?thesis
  proof (elim disjE exE conjE)
    fix t assume "approved_call G W name t arguments user rid time (st\<lparr>conns := cs\<rparr>) = (Inr a, st')"
    from approved_call_effect(3) [OF this] show ?thesis by simp
  qed auto
qed

section \<open>Properties\<close>


definition sample_tool :: remote_tool where
  "sample_tool = \<lparr>mt_name = ''delete'', mt_description = ''Delete a pod.'', mt_schema = [], mt_annotations = None\<rparr>"

definition sample_group :: mcp_group where
  "sample_group = \<lparr>g_url = ''http://k8s'', g_transport = ''streamable-http'', g_headers = [], g_auth = NoAuth,
     g_include = ['' Delete ''], g_exclude = [], g_descriptions = [], g_initial = [], g_deferred = False, g_discovery = []\<rparr>"

definition sample_mcp_world :: mcp_world where
  "sample_mcp_world = \<lparr>bearer = (\<lambda>_ _. Inr None), headers_digest = (\<lambda>hs. if hs = Some [] then ''0'' else ''1''),
     catalogue_pages = (\<lambda>_ _. None), invalid_arguments = (\<lambda>_ _. None), open_after_approval = True,
     remote_call = (\<lambda>_ _. Unconfirmed)\<rparr>"

definition sample_manager :: manager_state where
  "sample_manager = \<lparr>conns = [((''k8s'', ''ann''), (''0'', \<lparr>mc_headers = Some [], mc_tools = [sample_tool], mc_open = True\<rparr>))],
     gate_at = \<lparr>approval_db = sample_db, markers = Some []\<rparr>, sent = []\<rparr>"

definition sample_gate_context :: gate_ctx where
  "sample_gate_context = sample_gate\<lparr>request_headers := Some [(''x-user-id'', ''ann''), (''x-daedalus-internal-token'', ''s''),
     (''x-daedalus-approval-token'', ''t'')]\<rparr>"


end
