(* ===== verification/Py_Json.thy ===== *)
theory Py_Json
  imports Py_Values
begin

text \<open>
  The compact encoder \<open>json.dumps(value, ensure_ascii=False, separators=(",", ":"))\<close> and the decoder
  \<open>json.loads\<close> with the hooks of \<open>nat_helpers/tool_output_compaction.py\<close>, which reject every text whose
  value would not survive encoding: duplicate keys, non-finite numbers and floats that print differently.
  Every rejection is a \<open>ValueError\<close> that the callers handle alike, here \<^const>\<open>None\<close>. The conversion of a
  decimal text to the nearest float is an argument (\<open>fl\<close>): a finite float carries the text that prints it.
\<close>

section \<open>Encoding\<close>

fun float_json :: "pyfloat \<Rightarrow> string" where
  "float_json (Finite q r) = r"
| "float_json PosInf = ''Infinity''"
| "float_json NegInf = ''-Infinity''"
| "float_json NaN = ''NaN''"

fun json_dumps :: "json \<Rightarrow> string" where
  "json_dumps JNull = ''null''"
| "json_dumps (JBool b) = (if b then ''true'' else ''false'')"
| "json_dumps (JInt i) = show_int i"
| "json_dumps (JFloat f) = float_json f"
| "json_dumps (JStr s) = json_dumps_str s"
| "json_dumps (JList xs) = ''['' @ join_with '','' (map json_dumps xs) @ '']''"
| "json_dumps (JObj d) = compact_object (map (\<lambda>p. (fst p, json_dumps (snd p))) d)"

section \<open>Decoding\<close>

definition json_space :: "char \<Rightarrow> bool" where
  "json_space c = (code c = 32 \<or> code c = 9 \<or> code c = 10 \<or> code c = 13)"

definition skip_ws :: "string \<Rightarrow> string" where
  "skip_ws s = dropWhile json_space s"

definition hex_value :: "char \<Rightarrow> nat option" where
  "hex_value c =
     (if is_digit c then Some (code c - 48)
      else if 97 \<le> code c \<and> code c \<le> 102 then Some (code c - 87)
      else if 65 \<le> code c \<and> code c \<le> 70 then Some (code c - 55) else None)"

text \<open>The character that an escape sequence denotes; a code point beyond the model's characters is refused.\<close>

definition unescape :: "string \<Rightarrow> (char \<times> string) option" where
  "unescape s =
     (case s of
        [] \<Rightarrow> None
      | e # r \<Rightarrow>
          if code e = 34 \<or> code e = 92 \<or> code e = 47 then Some (e, r)
          else if e = CHR ''b'' then Some (char_of (8::nat), r)
          else if e = CHR ''f'' then Some (char_of (12::nat), r)
          else if e = CHR ''n'' then Some (char_of (10::nat), r)
          else if e = CHR ''r'' then Some (char_of (13::nat), r)
          else if e = CHR ''t'' then Some (char_of (9::nat), r)
          else if e = CHR ''u''
          then (case r of
                  a # b # c # d # r' \<Rightarrow>
                    (case (hex_value a, hex_value b, hex_value c, hex_value d) of
                       (Some 0, Some 0, Some x, Some y) \<Rightarrow> Some (char_of (16 * x + y), r')
                     | _ \<Rightarrow> None)
                | _ \<Rightarrow> None)
          else None)"

lemma unescape_shorter: "unescape s = Some (c, r) \<Longrightarrow> length r < length s"
  by (auto simp: unescape_def split: list.splits if_splits option.splits nat.splits)

text \<open>The rest of a string literal, after its opening quote.\<close>

function scan_string :: "string \<Rightarrow> (string \<times> string) option" where
  "scan_string [] = None"
| "scan_string (c # cs) =
     (if code c = 34 then Some ([], cs)
      else if code c = 92
      then (case unescape cs of
              None \<Rightarrow> None
            | Some (d, r) \<Rightarrow> map_option (apfst ((#) d)) (scan_string r))
      else if code c < 32 then None
      else map_option (apfst ((#) c)) (scan_string cs))"
  by pat_completeness auto
termination
  by (relation "measure length") (auto dest: unescape_shorter)

text \<open>The number at the start of a text: whether it has a fraction or an exponent, its text and the rest.\<close>

definition int_part :: "string \<Rightarrow> string option" where
  "int_part s =
     (case s of
        [] \<Rightarrow> None
      | c # cs \<Rightarrow>
          if c = CHR ''0'' then Some [c]
          else if is_digit c then Some (takeWhile is_digit s) else None)"

definition frac_part :: "string \<Rightarrow> string" where
  "frac_part s =
     (case s of
        [] \<Rightarrow> []
      | c # cs \<Rightarrow> if c = CHR ''.'' \<and> takeWhile is_digit cs \<noteq> [] then c # takeWhile is_digit cs else [])"

definition exp_part :: "string \<Rightarrow> string" where
  "exp_part s =
     (case s of
        [] \<Rightarrow> []
      | c # cs \<Rightarrow>
          let sg = (case cs of [] \<Rightarrow> [] | d # _ \<Rightarrow> if d = CHR ''+'' \<or> d = CHR ''-'' then [d] else []);
              ds = takeWhile is_digit (drop (length sg) cs) in
          if (c = CHR ''e'' \<or> c = CHR ''E'') \<and> ds \<noteq> [] then c # sg @ ds else [])"

definition number_token :: "string \<Rightarrow> (bool \<times> string \<times> string) option" where
  "number_token s =
     (let sg = (if starts_with ''-'' s then ''-'' else []); r = drop (length sg) s in
      case int_part r of
        None \<Rightarrow> None
      | Some i \<Rightarrow>
          let r1 = drop (length i) r; fr = frac_part r1; r2 = drop (length fr) r1; ex = exp_part r2 in
          Some (fr @ ex \<noteq> [], sg @ i @ fr @ ex, drop (length ex) r2))"

definition decimal_value :: "string \<Rightarrow> rat option" where
  "decimal_value s = (case float_of_text s of Some (Finite q _) \<Rightarrow> Some q | _ \<Rightarrow> None)"

definition lossless_float :: "(string \<Rightarrow> pyfloat) \<Rightarrow> string \<Rightarrow> pyfloat option" where
  "lossless_float fl s =
     (case fl s of
        Finite q r \<Rightarrow> if s = r \<or> (decimal_value s \<noteq> None \<and> decimal_value s = decimal_value r) then Some (Finite q r) else None
      | _ \<Rightarrow> None)"

fun reject_duplicate_keys :: "dict \<Rightarrow> dict \<Rightarrow> dict option" where
  "reject_duplicate_keys value [] = Some value"
| "reject_duplicate_keys value ((key, item) # pairs) =
     (if map_of value key \<noteq> None then None
      else reject_duplicate_keys (value @ [(key, item)]) pairs)"

definition parse_number :: "(string \<Rightarrow> pyfloat) \<Rightarrow> string \<Rightarrow> (json \<times> string) option" where
  "parse_number fl s =
     (case number_token s of
        None \<Rightarrow> None
      | Some (is_float, tok, r) \<Rightarrow>
          if is_float then map_option (\<lambda>f. (JFloat f, r)) (lossless_float fl tok)
          else map_option (\<lambda>i. (JInt i, r)) (int_of_text tok))"

text \<open>Values, list items and object members; the number bounds the nesting of calls.\<close>

fun parse_value :: "(string \<Rightarrow> pyfloat) \<Rightarrow> nat \<Rightarrow> string \<Rightarrow> (json \<times> string) option"
  and parse_items :: "(string \<Rightarrow> pyfloat) \<Rightarrow> nat \<Rightarrow> string \<Rightarrow> (json list \<times> string) option"
  and parse_members :: "(string \<Rightarrow> pyfloat) \<Rightarrow> nat \<Rightarrow> string \<Rightarrow> (dict \<times> string) option" where
  "parse_value fl 0 s = None"
| "parse_value fl (Suc n) s =
     (if s = [] then None
      else if code (hd s) = 34 then map_option (apfst JStr) (scan_string (tl s))
      else if hd s = CHR ''{''
      then (let r = skip_ws (tl s) in
            if starts_with ''}'' r then Some (JObj [], tl r)
            else (case parse_members fl n r of
                    None \<Rightarrow> None
                  | Some (pairs, r') \<Rightarrow> map_option (\<lambda>d. (JObj d, r')) (reject_duplicate_keys [] pairs)))
      else if hd s = CHR ''[''
      then (let r = skip_ws (tl s) in
            if starts_with '']'' r then Some (JList [], tl r)
            else map_option (apfst JList) (parse_items fl n r))
      else if starts_with ''null'' s then Some (JNull, drop 4 s)
      else if starts_with ''true'' s then Some (JBool True, drop 4 s)
      else if starts_with ''false'' s then Some (JBool False, drop 5 s)
      else parse_number fl s)"
| "parse_items fl 0 s = None"
| "parse_items fl (Suc n) s =
     (case parse_value fl n s of
        None \<Rightarrow> None
      | Some (v, r) \<Rightarrow>
          let r1 = skip_ws r in
          if starts_with '']'' r1 then Some ([v], tl r1)
          else if starts_with '','' r1 then map_option (apfst ((#) v)) (parse_items fl n (skip_ws (tl r1)))
          else None)"
| "parse_members fl 0 s = None"
| "parse_members fl (Suc n) s =
     (if s = [] \<or> code (hd s) \<noteq> 34 then None
      else case scan_string (tl s) of
        None \<Rightarrow> None
      | Some (k, r) \<Rightarrow>
          let r1 = skip_ws r in
          if \<not> starts_with '':'' r1 then None
          else case parse_value fl n (skip_ws (tl r1)) of
            None \<Rightarrow> None
          | Some (v, r2) \<Rightarrow>
              let r3 = skip_ws r2 in
              if starts_with ''}'' r3 then Some ([(k, v)], tl r3)
              else if starts_with '','' r3
              then map_option (apfst ((#) (k, v))) (parse_members fl n (skip_ws (tl r3)))
              else None)"

text \<open>\<open>_json_loads\<close>: every character is visited by at most two of the nested calls.\<close>

definition json_loads_exact :: "(string \<Rightarrow> pyfloat) \<Rightarrow> string \<Rightarrow> json option" where
  "json_loads_exact fl s =
     (case parse_value fl (2 * length s + 1) (skip_ws s) of
        None \<Rightarrow> None
      | Some (v, r) \<Rightarrow> if skip_ws r = [] then Some v else None)"

section \<open>Round trip\<close>

lemma code_char_of [simp]: "n < 256 \<Longrightarrow> code (char_of n) = n"
  by (simp add: code_def)

lemma char_of_code [simp]: "char_of (code c) = c"
  by (simp add: code_def)

lemma code_bound [simp]: "code c < 256"
  by (simp add: code_def)

lemma digits_char: "d < 10 \<Longrightarrow> is_digit (digit_char d)" "d < 10 \<Longrightarrow> code (digit_char d) = 48 + d"
  by (simp_all add: is_digit_def digit_char_def)

lemma digits_value_snoc: "digits_value (s @ [c]) = 10 * digits_value s + (code c - 48)"
  by (simp add: digits_value_def)

lemma show_nat_nonempty [simp]: "show_nat n \<noteq> []"
  by (subst show_nat.simps) simp

lemma show_nat_digits: "list_all is_digit (show_nat n)"
proof (induction n rule: show_nat.induct)
  case (1 n)
  then show ?case by (subst show_nat.simps) (simp add: digits_char)
qed

lemma show_nat_value: "digits_value (show_nat n) = n"
proof (induction n rule: show_nat.induct)
  case (1 n)
  then show ?case
    by (subst show_nat.simps) (simp add: digits_value_snoc digits_char, simp add: digits_value_def digits_char)
qed

lemma show_nat_head: "0 < n \<Longrightarrow> hd (show_nat n) \<noteq> CHR ''0''"
proof (induction n rule: show_nat.induct)
  case (1 n)
  show ?case
  proof (cases "n < 10")
    case True
    with "1.prems" digits_char(2) [of n] show ?thesis
      by (subst show_nat.simps) (auto simp: code_def)
  next
    case False
    with 1 show ?thesis by (subst show_nat.simps) simp
  qed
qed

lemma show_nat_zero: "show_nat 0 = ''0''"
  by code_simp

lemma hex_digit_value: "d < 16 \<Longrightarrow> hex_value (hex_digit d) = Some d"
  by (auto simp: hex_value_def hex_digit_def is_digit_def)

lemma scan_escape: "scan_string (json_escape c @ r) = map_option (apfst ((#) c)) (scan_string r)"
proof -
  let ?n = "code c"
  have c: "of_char c = (k::nat) \<Longrightarrow> char_of k = c" for k by auto
  consider "?n = 34 \<or> ?n = 92" | "?n = 10" | "?n = 13" | "?n = 9" | "?n = 8" | "?n = 12"
    | "?n < 32" "?n \<notin> {10, 13, 9, 8, 12}" | "?n \<ge> 32" "?n \<noteq> 34" "?n \<noteq> 92" by force
  then show ?thesis
  proof cases
    case 7
    have "16 * (?n div 16) + ?n mod 16 = ?n" by simp
    moreover have "?n div 16 < 16" "?n mod 16 < 16" using 7(1) by auto
    ultimately show ?thesis using 7
      by (simp add: json_escape_def Let_def unescape_def hex_digit_value hex_value_def [of "CHR ''0''"] is_digit_def code_def [of "CHR ''0''"] code_def [of "CHR ''u''"])
  qed (auto simp: json_escape_def Let_def unescape_def code_def dest: c)
qed

lemma scan_dumps: "scan_string (concat (map json_escape s) @ char_of (34::nat) # r) = Some (s, r)"
  by (induction s) (simp_all add: scan_escape)

text \<open>What may follow a value: the end of the text or a separator.\<close>

definition ends_value :: "string \<Rightarrow> bool" where
  "ends_value r = (r = [] \<or> hd r \<in> {CHR '','', CHR '']'', CHR ''}''})"

lemma separator_simps [simp]:
  "\<not> is_digit (CHR '','')" "\<not> is_digit (CHR '']'')" "\<not> is_digit (CHR ''}'')"
  "\<not> json_space (CHR '','')" "\<not> json_space (CHR '']'')" "\<not> json_space (CHR ''}'')"
  by (simp_all add: is_digit_def json_space_def code_def)

lemma digits_end: "ends_value r \<Longrightarrow> takeWhile is_digit (s @ r) = takeWhile is_digit s"
  by (induction s) (cases r; auto simp: ends_value_def)+

lemma frac_end: "ends_value r \<Longrightarrow> frac_part (s @ r) = frac_part s"
  by (cases s; cases r) (auto simp: frac_part_def digits_end ends_value_def)

lemma exp_end: "ends_value r \<Longrightarrow> exp_part (s @ r) = exp_part s"
proof (cases s)
  case (Cons c cs)
  assume e: "ends_value r"
  show ?thesis
  proof (cases cs)
    case Nil
    with e Cons show ?thesis by (cases r) (auto simp: exp_part_def ends_value_def Let_def)
  next
    case (Cons d ds)
    with e \<open>s = c # cs\<close> show ?thesis
      using digits_end [OF e, of ds] digits_end [OF e, of cs] by (auto simp: exp_part_def Let_def)
  qed
qed (auto simp: exp_part_def ends_value_def Let_def split: list.splits)

lemma int_end: "ends_value r \<Longrightarrow> s \<noteq> [] \<Longrightarrow> int_part (s @ r) = int_part s"
  using digits_end [of r s] by (cases s) (auto simp: int_part_def)

lemma part_lengths:
  "int_part s = Some i \<Longrightarrow> length i \<le> length s" "length (frac_part s) \<le> length s" "length (exp_part s) \<le> length s"
  "int_part s = Some i \<Longrightarrow> i \<noteq> []"
     apply (auto simp: int_part_def split: list.splits if_splits)[1]
      apply (metis length_takeWhile_le takeWhile.simps(2) length_Cons)
     apply (auto simp: frac_part_def length_takeWhile_le split: list.splits)[1]
    apply (auto simp: exp_part_def Let_def length_takeWhile_le le_SucI split: list.splits)[1]
  apply (auto simp: int_part_def split: list.splits if_splits)
  done

lemma number_end:
  assumes "number_token s = Some (b, tok, [])" "ends_value r"
  shows "number_token (s @ r) = Some (b, tok, r)"
proof -
  let ?sg = "if starts_with ''-'' s then ''-'' else []"
  let ?r = "drop (length ?sg) s"
  obtain i where i: "int_part ?r = Some i" using assms(1) by (auto simp: number_token_def Let_def split: option.splits)
  then have ne: "?r \<noteq> []" by (auto simp: int_part_def)
  then have sgl: "length ?sg \<le> length s" "s \<noteq> []" by auto
  have sg: "starts_with ''-'' (s @ r) = starts_with ''-'' s" using sgl(2) by (cases s) (simp_all add: starts_with_def)
  let ?r1 = "drop (length i) ?r"
  let ?r2 = "drop (length (frac_part ?r1)) ?r1"
  have tok: "b = (frac_part ?r1 @ exp_part ?r2 \<noteq> [])" "tok = ?sg @ i @ frac_part ?r1 @ exp_part ?r2"
    "drop (length (exp_part ?r2)) ?r2 = []"
    using assms(1) i by (auto simp: number_token_def Let_def)
  have d0: "drop (length ?sg) (s @ r) = ?r @ r" using sgl by simp
  have d1: "drop (length i) (?r @ r) = ?r1 @ r" using part_lengths(1) [OF i] by simp
  have d2: "drop (length (frac_part ?r1)) (?r1 @ r) = ?r2 @ r" using part_lengths(2) [of ?r1] by simp
  have d3: "drop (length (exp_part ?r2)) (?r2 @ r) = r" using part_lengths(3) [of ?r2] tok(3) by simp
  show ?thesis
    unfolding number_token_def Let_def sg d0 int_end [OF assms(2) ne] i option.case d1 frac_end [OF assms(2)] d2
      exp_end [OF assms(2)] d3
    using tok by simp
qed

lemma number_head:
  "number_token s = Some x \<Longrightarrow> s \<noteq> [] \<and> (is_digit (hd s) \<or> hd s = CHR ''-'')"
  by (cases s) (auto simp: number_token_def Let_def int_part_def starts_with_def is_digit_def code_def split: if_splits option.splits)

lemma int_token: "number_token (show_int i) = Some (False, show_int i, [])"
proof -
  have n: "int_part (show_nat n) = Some (show_nat n)" for n
  proof (cases "n = 0")
    case True
    then show ?thesis by (simp add: show_nat_zero int_part_def)
  next
    case False
    then show ?thesis
      using show_nat_digits [of n] show_nat_head [of n]
      by (cases "show_nat n") (auto simp: int_part_def list_all_iff takeWhile_eq_all_conv)
  qed
  have "\<not> starts_with ''-'' (show_nat n)" for n
    using show_nat_digits [of n] by (cases "show_nat n") (auto simp: starts_with_def is_digit_def code_def)
  then show ?thesis
    by (auto simp: number_token_def show_int_def Let_def n frac_part_def exp_part_def starts_with_def)
qed

lemma split_at_none: "c \<notin> set s \<Longrightarrow> split_at c s = [s]"
  by (induction s) auto

lemma int_of_show:
  assumes "length (show_nat (nat \<bar>i\<bar>)) \<le> 4300"
  shows "int_of_text (show_int i) = Some i"
proof -
  have u: "unsigned_text (show_nat n) = Some n" if "length (show_nat n) \<le> 4300" for n
  proof -
    have "CHR ''_'' \<notin> set (show_nat n)"
      using show_nat_digits [of n] by (auto simp: list_all_iff is_digit_def code_def)
    then show ?thesis
      using that show_nat_digits [of n] by (simp add: unsigned_text_def split_at_none show_nat_value)
  qed
  have d: "\<not> is_space c \<and> c \<noteq> CHR ''-'' \<and> c \<noteq> CHR ''+''" if "is_digit c" for c
    using that by (auto simp: is_digit_def is_space_def code_def Let_def)
  have sp: "strip s = s" if "\<forall>c \<in> set s. \<not> is_space c" for s
  proof -
    have dw: "dropWhile is_space t = t" if "\<forall>c \<in> set t. \<not> is_space c" for t
      using that by (cases t) auto
    with that show ?thesis by (simp add: strip_def lstrip_def rstrip_while_def dw [of "rev s"])
  qed
  have all: "\<forall>c \<in> set (show_nat n). is_digit c" for n using show_nat_digits by (auto simp: list_all_iff)
  have "strip (show_int i) = show_int i"
    using all d by (intro sp) (auto simp: show_int_def is_space_def code_def Let_def)
  moreover obtain c cs where c: "show_nat (nat i) = c # cs" by (cases "show_nat (nat i)") auto
  with all d have "c \<noteq> CHR ''-'' \<and> c \<noteq> CHR ''+''" by (metis list.set_intros(1))
  ultimately show ?thesis
    using assms c u [of "nat i"] u [of "nat (- i)"]
    by (auto simp: int_of_text_def show_int_def)
qed

fun json_ok :: "(string \<Rightarrow> pyfloat) \<Rightarrow> json \<Rightarrow> bool" where
  "json_ok fl (JInt i) = (length (show_nat (nat \<bar>i\<bar>)) \<le> 4300)"
| "json_ok fl (JFloat f) =
     (case f of Finite q r \<Rightarrow> fl r = Finite q r \<and> number_token r = Some (True, r, []) | _ \<Rightarrow> False)"
| "json_ok fl (JList xs) = (\<forall>x \<in> set xs. json_ok fl x)"
| "json_ok fl (JObj d) = (distinct (map fst d) \<and> (\<forall>p \<in> set d. json_ok fl (snd p)))"
| "json_ok fl _ = True"

lemma reject_none: "distinct (map fst (a @ ps)) \<Longrightarrow> reject_duplicate_keys a ps = Some (a @ ps)"
proof (induction a ps rule: reject_duplicate_keys.induct)
  case (2 a k v ps)
  then have "map_of a k = None" by (auto simp: map_of_eq_None_iff)
  with 2 show ?case by simp
qed simp

lemma quote_simps [simp]:
  "CHR ''}'' \<noteq> char_of (34::nat)" "char_of (34::nat) \<noteq> CHR '']''" "char_of (34::nat) \<noteq> CHR ''}''" "\<not> json_space (char_of (34::nat))"
  by (code_simp, code_simp, code_simp, code_simp)

lemma dumps_head:
  assumes "json_ok fl v"
  shows "json_dumps v \<noteq> [] \<and> \<not> json_space (hd (json_dumps v)) \<and> hd (json_dumps v) \<noteq> CHR '']''"
proof -
  have num: "s \<noteq> [] \<and> \<not> json_space (hd s) \<and> hd s \<noteq> CHR '']''" if "number_token s = Some x" for s x
    using number_head [OF that] by (auto simp: json_space_def is_digit_def code_def)
  show ?thesis
  proof (cases v)
    case (JInt i)
    with num [OF int_token] show ?thesis by simp
  next
    case (JFloat f)
    with assms num show ?thesis by (cases f) auto
  qed (auto simp: json_dumps_str_def compact_object_def json_space_def code_def)
qed

definition reads_back :: "(string \<Rightarrow> pyfloat) \<Rightarrow> json \<Rightarrow> bool" where
  "reads_back fl v \<longleftrightarrow>
     (\<forall>r n. ends_value r \<longrightarrow> 2 * length (json_dumps v) < n \<longrightarrow>
        parse_value fl n (json_dumps v @ r) = Some (v, r))"

lemma skip_ws_id: "s \<noteq> [] \<Longrightarrow> \<not> json_space (hd s) \<Longrightarrow> skip_ws (s @ r) = s @ r"
  by (cases s) (simp_all add: skip_ws_def)

lemma skip_ws_sep [simp]:
  "skip_ws (CHR '','' # r) = CHR '','' # r" "skip_ws (CHR '']'' # r) = CHR '']'' # r"
  "skip_ws (CHR ''}'' # r) = CHR ''}'' # r" "skip_ws (CHR '':'' # r) = CHR '':'' # r"
  "skip_ws (char_of (34::nat) # r) = char_of (34::nat) # r"
  by (simp_all add: skip_ws_def json_space_def code_def)

lemma ends_sep [simp]: "ends_value (CHR '','' # r)" "ends_value (CHR '']'' # r)" "ends_value (CHR ''}'' # r)"
  by (simp_all add: ends_value_def)

lemma starts_simps [simp]: "starts_with [c] (d # s) \<longleftrightarrow> c = d" "\<not> starts_with [c] []"
  by (auto simp: starts_with_def)

lemma items_read_back:
  assumes "\<forall>v \<in> set xs. reads_back fl v \<and> json_ok fl v" "xs \<noteq> []"
    "2 * length (join_with '','' (map json_dumps xs)) + 1 < n"
  shows "parse_items fl n (join_with '','' (map json_dumps xs) @ CHR '']'' # r) = Some (xs, r)"
  using assms
proof (induction xs arbitrary: n)
  case (Cons x xs)
  then obtain m where n: "n = Suc m" by (cases n) auto
  have x: "reads_back fl x" using Cons.prems by simp
  show ?case
  proof (cases xs)
    case Nil
    with x Cons.prems(3) show ?thesis by (simp add: n reads_back_def)
  next
    case (Cons y ys)
    let ?j = "join_with '','' (map json_dumps xs)"
    have j: "join_with '','' (map json_dumps (x # xs)) = json_dumps x @ '','' @ ?j" by (simp add: Cons)
    have pv: "parse_value fl m (json_dumps x @ CHR '','' # ?j @ CHR '']'' # r) = Some (x, CHR '','' # ?j @ CHR '']'' # r)"
      using x Cons.prems(3) [unfolded j] by (simp add: n reads_back_def)
    have hd: "?j \<noteq> [] \<and> \<not> json_space (hd ?j)"
      using dumps_head [of fl y] Cons.prems(1) by (cases ys) (auto simp: \<open>xs = y # ys\<close>)
    have "parse_items fl m (?j @ CHR '']'' # r) = Some (xs, r)"
      using Cons.prems(1) Cons.prems(3) [unfolded j] \<open>xs = y # ys\<close> by (intro Cons.IH) (auto simp: n)
    with pv hd show ?thesis unfolding j by (simp add: n skip_ws_id)
  qed
qed simp

lemma member_text: "compact_member p = char_of (34::nat) # concat (map json_escape (fst p)) @ char_of (34::nat) # CHR '':'' # snd p"
  by (simp add: compact_member_def json_dumps_str_def)

lemma members_read_back:
  assumes "\<forall>p \<in> set d. reads_back fl (snd p) \<and> json_ok fl (snd p)" "d \<noteq> []"
    "2 * length (join_with '','' (map (\<lambda>p. compact_member (fst p, json_dumps (snd p))) d)) + 1 < n"
  shows "parse_members fl n (join_with '','' (map (\<lambda>p. compact_member (fst p, json_dumps (snd p))) d) @ CHR ''}'' # r)
    = Some (d, r)"
  using assms
proof (induction d arbitrary: n)
  case (Cons p d)
  let ?m = "\<lambda>p. compact_member (fst p, json_dumps (snd p))"
  let ?j = "join_with '','' (map ?m d)"
  obtain m where n: "n = Suc m" using Cons.prems(3) by (cases n) auto
  have p: "reads_back fl (snd p)" "json_ok fl (snd p)" using Cons.prems by auto
  have len: "2 * length (json_dumps (snd p)) < m"
    using Cons.prems(3) by (cases d) (auto simp: n member_text)
  have sk: "skip_ws (json_dumps (snd p) @ t) = json_dumps (snd p) @ t" for t
    using dumps_head [OF p(2)] by (simp add: skip_ws_id)
  have pv: "parse_value fl m (json_dumps (snd p) @ t) = Some (snd p, t)" if "ends_value t" for t
    using p(1) len that by (simp add: reads_back_def)
  show ?case
  proof (cases d)
    case Nil
    then show ?thesis by (simp add: n member_text scan_dumps sk pv)
  next
    case (Cons q qs)
    have j: "join_with '','' (map ?m (p # d)) = ?m p @ '','' @ ?j" by (simp add: Cons)
    have hd: "?j \<noteq> [] \<and> \<not> json_space (hd ?j)"
      by (cases qs) (auto simp: \<open>d = q # qs\<close> member_text)
    have "parse_members fl m (?j @ CHR ''}'' # r) = Some (d, r)"
      using Cons.prems(1) Cons.prems(3) [unfolded j] \<open>d = q # qs\<close> by (intro Cons.IH) (auto simp: n)
    with hd show ?thesis unfolding j by (simp add: n member_text scan_dumps sk pv skip_ws_id)
  qed
qed simp

lemma number_reads_back:
  assumes "number_token s = Some (b, tok, [])" "ends_value r"
  shows "parse_value fl (Suc n) (s @ r) = parse_number fl (s @ r)"
proof -
  obtain c cs where s: "s = c # cs" and c: "is_digit c \<or> c = CHR ''-''"
    using number_head [OF assms(1)] by (cases s) auto
  from c have "code c \<noteq> 34" "c \<noteq> CHR ''{''" "c \<noteq> CHR ''[''" "c \<noteq> CHR ''n''" "c \<noteq> CHR ''t''" "c \<noteq> CHR ''f''"
    by (auto simp: is_digit_def code_def)
  then show ?thesis by (simp add: s starts_with_def)
qed

lemma read_back: "json_ok fl v \<Longrightarrow> reads_back fl v"
proof (induction v rule: json_dumps.induct)
  case (3 i)
  have t: "number_token (show_int i @ r) = Some (False, show_int i, r)" if "ends_value r" for r
    using that by (rule number_end [OF int_token])
  show ?case unfolding reads_back_def
  proof (intro allI impI)
    fix r n assume "ends_value r" "2 * length (json_dumps (JInt i)) < n"
    with 3 show "parse_value fl n (json_dumps (JInt i) @ r) = Some (JInt i, r)"
      by (cases n) (simp_all del: parse_value.simps
          add: number_reads_back [OF int_token] parse_number_def t int_of_show)
  qed
next
  case (4 f)
  then obtain q s where f: "f = Finite q s" "fl s = Finite q s" and tok: "number_token s = Some (True, s, [])"
    by (cases f) auto
  show ?case unfolding reads_back_def
  proof (intro allI impI)
    fix r n assume r: "ends_value r" "2 * length (json_dumps (JFloat f)) < n"
    from r(1) have t: "number_token (s @ r) = Some (True, s, r)" by (rule number_end [OF tok])
    from r f show "parse_value fl n (json_dumps (JFloat f) @ r) = Some (JFloat f, r)"
      by (cases n) (simp_all del: parse_value.simps
          add: number_reads_back [OF tok] parse_number_def t lossless_float_def)
  qed
next
  case (5 s)
  show ?case unfolding reads_back_def
  proof (intro allI impI)
    fix r n assume "2 * length (json_dumps (JStr s)) < n"
    then show "parse_value fl n (json_dumps (JStr s) @ r) = Some (JStr s, r)"
      by (cases n) (simp_all add: json_dumps_str_def scan_dumps)
  qed
next
  case (6 xs)
  have ok: "\<forall>v \<in> set xs. reads_back fl v \<and> json_ok fl v" using 6 by auto
  show ?case unfolding reads_back_def
  proof (intro allI impI)
    fix r n assume n: "2 * length (json_dumps (JList xs)) < n"
    then obtain m where m: "n = Suc m" by (cases n) auto
    let ?j = "join_with '','' (map json_dumps xs)"
    show "parse_value fl n (json_dumps (JList xs) @ r) = Some (JList xs, r)"
    proof (cases xs)
      case Nil
      then show ?thesis by (simp add: m code_def)
    next
      case (Cons y ys)
      have "?j \<noteq> [] \<and> \<not> json_space (hd ?j) \<and> hd ?j \<noteq> CHR '']''"
        using dumps_head [of fl y] ok by (cases ys) (auto simp: Cons)
      then obtain c cs where j: "?j = c # cs" "\<not> json_space c" "CHR '']'' \<noteq> c" by (cases ?j) auto
      have "parse_items fl m (?j @ CHR '']'' # r) = Some (xs, r)"
        using ok n by (intro items_read_back) (auto simp: m Cons)
      then show ?thesis by (simp add: m j code_def skip_ws_def Let_def)
    qed
  qed
next
  case (7 d)
  have ok: "\<forall>p \<in> set d. reads_back fl (snd p) \<and> json_ok fl (snd p)" and dist: "distinct (map fst d)" using 7 by auto
  let ?j = "join_with '','' (map (\<lambda>p. compact_member (fst p, json_dumps (snd p))) d)"
  have t: "json_dumps (JObj d) = ''{'' @ ?j @ ''}''" by (simp add: compact_object_def comp_def)
  show ?case unfolding reads_back_def t
  proof (intro allI impI)
    fix r n assume n: "2 * length (''{'' @ ?j @ ''}'') < n"
    then obtain m where m: "n = Suc m" by (cases n) auto
    show "parse_value fl n ((''{'' @ ?j @ ''}'') @ r) = Some (JObj d, r)"
    proof (cases d)
      case Nil
      then show ?thesis by (simp add: m code_def)
    next
      case (Cons q qs)
      obtain cs where j: "?j = char_of (34::nat) # cs" by (cases qs) (auto simp: Cons member_text)
      have "parse_members fl m (?j @ CHR ''}'' # r) = Some (d, r)"
        using ok n by (intro members_read_back) (auto simp: m Cons)
      then show ?thesis using dist by (simp add: m j code_def reject_none Let_def)
    qed
  qed
next
  case 1
  have "parse_value fl n (''null'' @ r) = Some (JNull, r)" if "0 < n" for n r
    using that by (cases n) (simp_all add: starts_with_def code_def)
  then show ?case by (simp add: reads_back_def)
next
  case (2 b)
  have "parse_value fl n ((if b then ''true'' else ''false'') @ r) = Some (JBool b, r)" if "0 < n" for n r
    using that by (cases n) (simp_all add: starts_with_def code_def)
  then show ?case by (simp add: reads_back_def)
qed

text \<open>Encoding and decoding again gives the same value.\<close>

lemma loads_dumps: "json_ok fl v \<Longrightarrow> json_loads_exact fl (json_dumps v) = Some v"
proof -
  assume ok: "json_ok fl v"
  from dumps_head [OF ok] have "skip_ws (json_dumps v) = json_dumps v"
    using skip_ws_id [of "json_dumps v" "[]"] by simp
  moreover from read_back [OF ok] have "parse_value fl (2 * length (json_dumps v) + 1) (json_dumps v) = Some (v, [])"
    unfolding reads_back_def by (metis append_Nil2 ends_value_def less_add_one)
  ultimately show ?thesis by (simp add: json_loads_exact_def skip_ws_def)
qed

section \<open>Decoded values\<close>

text \<open>The documented law of \<open>repr\<close> on finite floats: it is a number with a fraction or an exponent, and
  reading it gives the float back.\<close>

definition repr_law :: "(string \<Rightarrow> pyfloat) \<Rightarrow> bool" where
  "repr_law fl \<longleftrightarrow>
     (\<forall>t q r. fl t = Finite q r \<longrightarrow> fl r = Finite q r \<and> number_token r = Some (True, r, []))"

lemma show_nat_length: "list_all is_digit ds \<Longrightarrow> ds \<noteq> [] \<Longrightarrow> length (show_nat (digits_value ds)) \<le> length ds"
proof (induction ds rule: rev_induct)
  case (snoc c ds)
  let ?d = "code c - 48"
  have d: "?d < 10" using snoc.prems by (auto simp: is_digit_def)
  show ?case
  proof (cases "digits_value ds = 0")
    case True
    with d show ?thesis by (subst show_nat.simps) (simp add: digits_value_snoc)
  next
    case False
    then have "ds \<noteq> []" by (auto simp: digits_value_def)
    with snoc have "length (show_nat (digits_value ds)) \<le> length ds" by simp
    with d False show ?thesis by (subst show_nat.simps) (simp add: digits_value_snoc)
  qed
qed simp

lemma digit_groups_digits: "digit_groups gs \<Longrightarrow> list_all is_digit (concat gs) \<and> concat gs \<noteq> []"
  by (induction gs rule: digit_groups.induct) auto

lemma int_of_text_ok: "int_of_text s = Some i \<Longrightarrow> length (show_nat (nat \<bar>i\<bar>)) \<le> 4300"
proof -
  have "unsigned_text t = Some n \<Longrightarrow> length (show_nat n) \<le> 4300" for t n
    using show_nat_length digit_groups_digits
    by (fastforce simp: unsigned_text_def Let_def split: if_splits)
  then show "int_of_text s = Some i \<Longrightarrow> length (show_nat (nat \<bar>i\<bar>)) \<le> 4300"
    by (auto simp: int_of_text_def split: list.splits if_splits)
qed

lemma parse_number_ok: "repr_law fl \<Longrightarrow> parse_number fl s = Some (v, r) \<Longrightarrow> json_ok fl v"
  by (auto simp: parse_number_def lossless_float_def repr_law_def dest!: int_of_text_ok
      split: option.splits if_splits pyfloat.splits)

lemma reject_distinct:
  "reject_duplicate_keys a ps = Some d \<Longrightarrow> distinct (map fst a) \<Longrightarrow> distinct (map fst d) \<and> d = a @ ps"
proof (induction a ps rule: reject_duplicate_keys.induct)
  case (2 a k v ps)
  have n: "map_of a k = None" using "2.prems"(1) by (cases "map_of a k") simp_all
  with "2.prems"(1) have r: "reject_duplicate_keys (a @ [(k, v)]) ps = Some d" by simp
  have "distinct (map fst (a @ [(k, v)]))" using n "2.prems"(2) by (simp add: map_of_eq_None_iff)
  with "2.IH" [OF _ r] n have "distinct (map fst d) \<and> d = (a @ [(k, v)]) @ ps" by blast
  then show ?case by (metis append.assoc append_Cons append_Nil)
qed simp

text \<open>What a successful call of the parser has read.\<close>

lemma parse_items_Some:
  "parse_items fl (Suc n) s = Some (xs, r) \<Longrightarrow>
     \<exists>v r1. parse_value fl n s = Some (v, r1) \<and>
       (xs = [v] \<and> r = tl (skip_ws r1)
        \<or> (\<exists>ws. parse_items fl n (skip_ws (tl (skip_ws r1))) = Some (ws, r) \<and> xs = v # ws))"
  by (auto simp: Let_def split: option.splits if_splits)

lemma parse_members_Some:
  "parse_members fl (Suc n) s = Some (d, r) \<Longrightarrow>
     \<exists>k r1 v r2. scan_string (tl s) = Some (k, r1) \<and> parse_value fl n (skip_ws (tl (skip_ws r1))) = Some (v, r2) \<and>
       (d = [(k, v)] \<and> r = tl (skip_ws r2)
        \<or> (\<exists>ps. parse_members fl n (skip_ws (tl (skip_ws r2))) = Some (ps, r) \<and> d = (k, v) # ps))"
  by (auto simp: Let_def split: option.splits if_splits)

lemma parse_value_Some:
  "parse_value fl (Suc n) s = Some (v, r) \<Longrightarrow> s \<noteq> [] \<and>
     ((\<exists>t. scan_string (tl s) = Some (t, r) \<and> v = JStr t)
      \<or> r = tl (skip_ws (tl s)) \<and> v \<in> {JObj [], JList []}
      \<or> (r = drop 4 s \<or> r = drop 5 s) \<and> v \<in> {JNull, JBool True, JBool False}
      \<or> (\<exists>ps d. parse_members fl n (skip_ws (tl s)) = Some (ps, r) \<and> reject_duplicate_keys [] ps = Some d \<and> v = JObj d)
      \<or> (\<exists>xs. parse_items fl n (skip_ws (tl s)) = Some (xs, r) \<and> v = JList xs)
      \<or> parse_number fl s = Some (v, r))"
  by (auto simp: Let_def split: option.splits if_splits)

lemma parsed_ok:
  assumes law: "repr_law fl"
  shows "(\<forall>s v r. parse_value fl n s = Some (v, r) \<longrightarrow> json_ok fl v)
    \<and> (\<forall>s xs r. parse_items fl n s = Some (xs, r) \<longrightarrow> (\<forall>x \<in> set xs. json_ok fl x))
    \<and> (\<forall>s d r. parse_members fl n s = Some (d, r) \<longrightarrow> (\<forall>p \<in> set d. json_ok fl (snd p)))"
proof (induction n)
  case (Suc n)
  note iv = Suc.IH [THEN conjunct1, rule_format]
  note ii = Suc.IH [THEN conjunct2, THEN conjunct1, rule_format]
  note im = Suc.IH [THEN conjunct2, THEN conjunct2, rule_format]
  have "json_ok fl v" if v: "parse_value fl (Suc n) s = Some (v, r)" for s v r
    using parse_value_Some [OF v, THEN conjunct2]
  proof (elim disjE exE conjE)
    fix ps d assume ps: "parse_members fl n (skip_ws (tl s)) = Some (ps, r)" "reject_duplicate_keys [] ps = Some d" "v = JObj d"
    with reject_distinct [OF ps(2)] im [OF ps(1)] show ?thesis by auto
  next
    fix xs assume "parse_items fl n (skip_ws (tl s)) = Some (xs, r)" "v = JList xs"
    with ii show ?thesis by simp
  qed (auto intro: parse_number_ok [OF law])
  moreover have "\<forall>x \<in> set xs. json_ok fl x" if i: "parse_items fl (Suc n) s = Some (xs, r)" for s xs r
    using parse_items_Some [OF i] by (elim exE conjE disjE) (simp_all add: iv ii)
  moreover have "\<forall>p \<in> set d. json_ok fl (snd p)" if m: "parse_members fl (Suc n) s = Some (d, r)" for s d r
    using parse_members_Some [OF m] by (elim exE conjE disjE) (simp_all add: iv im)
  ultimately show ?case by blast
qed simp

lemma loads_ok: "repr_law fl \<Longrightarrow> json_loads_exact fl s = Some v \<Longrightarrow> json_ok fl v"
  using parsed_ok unfolding json_loads_exact_def by (fastforce simp del: parse_value.simps split: option.splits if_splits)

section \<open>The bound on nested calls\<close>

lemma skip_ws_length: "length (skip_ws s) \<le> length s"
  by (simp add: skip_ws_def length_dropWhile_le)

lemma scan_shorter: "scan_string s = Some (t, r) \<Longrightarrow> length r < length s"
proof (induction s arbitrary: t rule: scan_string.induct)
  case (2 c cs)
  then show ?case
    by (auto split: if_splits option.splits dest!: unescape_shorter) fastforce+
qed simp

lemma number_shorter: "parse_number fl s = Some (v, r) \<Longrightarrow> length r < length s"
proof -
  assume "parse_number fl s = Some (v, r)"
  then obtain b tok where t: "number_token s = Some (b, tok, r)"
    by (auto simp: parse_number_def split: option.splits if_splits)
  then obtain i where i: "int_part (drop (length (if starts_with ''-'' s then ''-'' else [])) s) = Some i"
    by (auto simp: number_token_def Let_def split: option.splits)
  from part_lengths(4) [OF i] part_lengths(1) [OF i] t i show ?thesis
    by (auto simp: number_token_def Let_def length_greater_0_conv [symmetric] simp del: length_greater_0_conv)
qed

lemma tl_skip_length: "length (skip_ws (tl s)) \<le> length s - 1" "length (tl (skip_ws s)) \<le> length s - 1"
    using skip_ws_length [of "tl s"] skip_ws_length [of s] by simp_all

lemma parse_shorter:
  "(\<forall>s v r. parse_value fl n s = Some (v, r) \<longrightarrow> length r < length s)
   \<and> (\<forall>s xs r. parse_items fl n s = Some (xs, r) \<longrightarrow> length r < length s)
   \<and> (\<forall>s d r. parse_members fl n s = Some (d, r) \<longrightarrow> length r < length s)"
proof (induction n)
  case (Suc n)
  have v: "length r < length s" if "parse_value fl (Suc n) s = Some (v, r)" for s v r
  proof -
    have ne: "0 < length s" and t: "length (tl s) = length s - 1" using parse_value_Some [OF that] by auto
    have "length r \<le> length s - 1"
      using parse_value_Some [OF that, THEN conjunct2]
    proof (elim disjE exE conjE)
      fix t assume "scan_string (tl s) = Some (t, r)"
      from scan_shorter [OF this] show ?thesis by simp
    next
      fix ps assume "parse_members fl n (skip_ws (tl s)) = Some (ps, r)"
      with Suc.IH tl_skip_length(1) [of s] show ?thesis by (meson le_trans less_imp_le)
    next
      fix xs assume "parse_items fl n (skip_ws (tl s)) = Some (xs, r)"
      with Suc.IH tl_skip_length(1) [of s] show ?thesis by (meson le_trans less_imp_le)
    next
      assume "parse_number fl s = Some (v, r)"
      from number_shorter [OF this] show ?thesis by simp
    qed (use tl_skip_length(2) [of "tl s"] in \<open>auto intro: diff_le_mono2\<close>)
    with ne show ?thesis by linarith
  qed
  have i: "length r < length s" if i: "parse_items fl (Suc n) s = Some (xs, r)" for s xs r
  proof -
    from parse_items_Some [OF i] obtain v r1 where v: "parse_value fl n s = Some (v, r1)"
      and r: "r = tl (skip_ws r1) \<or> (\<exists>ws. parse_items fl n (skip_ws (tl (skip_ws r1))) = Some (ws, r))" by blast
    from v Suc.IH have "length r1 < length s" by blast
    moreover from r Suc.IH have "length r \<le> length r1"
      using tl_skip_length(2) [of r1] tl_skip_length(1) [of "skip_ws r1"] skip_ws_length [of r1] by fastforce
    ultimately show ?thesis by linarith
  qed
  have "length r < length s" if m: "parse_members fl (Suc n) s = Some (d, r)" for s d r
  proof -
    from parse_members_Some [OF m] obtain k r1 v r2 where k: "scan_string (tl s) = Some (k, r1)"
      and v: "parse_value fl n (skip_ws (tl (skip_ws r1))) = Some (v, r2)"
      and r: "r = tl (skip_ws r2) \<or> (\<exists>ws. parse_members fl n (skip_ws (tl (skip_ws r2))) = Some (ws, r))" by blast
    from scan_shorter [OF k] have "length r1 < length s" by simp
    moreover from v Suc.IH have "length r2 \<le> length r1"
      using tl_skip_length(1) [of "skip_ws r1"] skip_ws_length [of r1] by fastforce
    moreover from r Suc.IH have "length r \<le> length r2"
      using tl_skip_length(2) [of r2] tl_skip_length(1) [of "skip_ws r2"] skip_ws_length [of r2] by fastforce
    ultimately show ?thesis by linarith
  qed
  with v i show ?case by blast
qed simp

text \<open>A larger bound on the nesting changes nothing: the bound of \<^const>\<open>json_loads_exact\<close> is never reached.\<close>

lemma parse_enough:
  "(\<forall>s. 2 * length s < n \<longrightarrow> parse_value fl (Suc n) s = parse_value fl n s)
   \<and> (\<forall>s. 2 * length s + 1 < n \<longrightarrow> parse_items fl (Suc n) s = parse_items fl n s)
   \<and> (\<forall>s. 2 * length s + 1 < n \<longrightarrow> parse_members fl (Suc n) s = parse_members fl n s)"
proof (induction n)
  case (Suc n)
  note iv = Suc.IH [THEN conjunct1, rule_format]
  note ii = Suc.IH [THEN conjunct2, THEN conjunct1, rule_format]
  note im = Suc.IH [THEN conjunct2, THEN conjunct2, rule_format]
  have short: "length r < length s" if "parse_value fl n s = Some (v, r)" for s v r
    using parse_shorter that by blast
  have "parse_value fl (Suc (Suc n)) s = parse_value fl (Suc n) s" if l: "2 * length s < Suc n" for s
  proof (cases "s = []")
    case False
    with l tl_skip_length(1) [of s] have "2 * length (skip_ws (tl s)) + 1 < n" by (cases s) auto
    then show ?thesis
      unfolding parse_value.simps(2) [of fl "Suc n"] parse_value.simps(2) [of fl n] Let_def by (simp only: ii im)
  qed simp
  moreover have "parse_items fl (Suc (Suc n)) s = parse_items fl (Suc n) s" if l: "2 * length s + 1 < Suc n" for s
  proof -
    have "parse_value fl (Suc n) s = parse_value fl n s" using l by (intro iv) simp
    moreover have "2 * length (skip_ws (tl (skip_ws r))) + 1 < n" if "parse_value fl n s = Some (v, r)" for v r
      using l short [OF that] tl_skip_length(1) [of "skip_ws r"] skip_ws_length [of r] by linarith
    ultimately show ?thesis
      unfolding parse_items.simps(2) [of fl "Suc n" s] parse_items.simps(2) [of fl n s] Let_def
      by (auto simp: ii simp del: parse_value.simps parse_items.simps split: option.splits)
  qed
  moreover have "parse_members fl (Suc (Suc n)) s = parse_members fl (Suc n) s" if l: "2 * length s + 1 < Suc n" for s
  proof -
    have k: "length (skip_ws (tl (skip_ws r))) < length s" if "scan_string (tl s) = Some (k, r)" for k r
      using scan_shorter [OF that] tl_skip_length(1) [of "skip_ws r"] skip_ws_length [of r] by simp
    then have v: "parse_value fl (Suc n) (skip_ws (tl (skip_ws r))) = parse_value fl n (skip_ws (tl (skip_ws r)))"
      if "scan_string (tl s) = Some (k, r)" for k r
      using l that by (intro iv) fastforce
    have "2 * length (skip_ws (tl (skip_ws r2))) + 1 < n"
      if "scan_string (tl s) = Some (k, r)" "parse_value fl n (skip_ws (tl (skip_ws r))) = Some (v, r2)" for k r v r2
      using l k [OF that(1)] short [OF that(2)] tl_skip_length(1) [of "skip_ws r2"] skip_ws_length [of r2] by linarith
    with v show ?thesis
      unfolding parse_members.simps(2) [of fl "Suc n" s] parse_members.simps(2) [of fl n s] Let_def
      by (auto simp: im simp del: parse_value.simps parse_members.simps split: option.splits)
  qed
  ultimately show ?case by blast
qed simp

end
