(* ===== verification/Output_Compaction.thy ===== *)
theory Output_Compaction
  imports Py_Json Interfaces
begin

text \<open>
  Reversible compaction of tool results (\<open>nat_helpers/tool_output_compaction.py\<close>) and their exact
  retrieval (\<open>nat_helpers/tool_output_retriever.py\<close>).

  \<^item> SHA-256 (as hexadecimal text), zlib and the conversion of a decimal text to a float are arguments.
  \<^item> The cache is the part of Redis under the keys of this module. Whether a command of the client raises
    is an argument of every operation, and expiry is a step of the environment.
  \<^item> Quotients of lengths and the positions of the even sample are exact.
\<close>

section \<open>Search patterns\<close>

definition word_char :: "char \<Rightarrow> bool" where
  "word_char c = (is_lower_letter c \<or> is_upper_letter c \<or> is_digit c \<or> c = CHR ''_'')"

text \<open>\<open>(?:w1|w2|...)\b\<close> and \<open>(?:...)\s+(?:...)\b\<close> at the start of a lower-case text; then \<open>search\<close> with a
  \<open>\b\<close> in front.\<close>

definition words_here :: "string list \<Rightarrow> string \<Rightarrow> bool" where
  "words_here ws s =
     list_ex (\<lambda>w. starts_with w s \<and> (drop (length w) s = [] \<or> \<not> word_char (hd (drop (length w) s)))) ws"

definition pair_here :: "string list \<Rightarrow> string list \<Rightarrow> string \<Rightarrow> bool" where
  "pair_here firsts seconds s =
     list_ex (\<lambda>w. starts_with w s \<and>
        (let r = drop (length w) s in r \<noteq> [] \<and> is_space (hd r) \<and> words_here seconds (dropWhile is_space r))) firsts"

fun search_here :: "(string \<Rightarrow> bool) \<Rightarrow> bool \<Rightarrow> string \<Rightarrow> bool" where
  "search_here here inside [] = False"
| "search_here here inside (c # cs) = (\<not> inside \<and> here (c # cs) \<or> search_here here (word_char c) cs)"

definition error_signal :: "string \<Rightarrow> bool" where
  "error_signal s = search_here (words_here [''critical'', ''denied'', ''error'', ''exception'', ''failed'', ''failure'',
     ''fatal'', ''invalid'', ''missing'', ''notready'', ''not ready'', ''not-ready'', ''timeout'', ''unavailable'',
     ''unhealthy'', ''warning'']) False (lower s)"

definition complete_output_intent :: "string \<Rightarrow> bool" where
  "complete_output_intent s = search_here (words_here [''all'', ''complete'', ''count'', ''each'', ''entire'', ''every'',
     ''exact'', ''exhaustive'', ''full'', ''raw'', ''verbatim'', ''how many'', ''are there any'', ''are there no'',
     ''list all'', ''list every'']) False (lower s)"

definition research_complete_output_intent :: "string \<Rightarrow> bool" where
  "research_complete_output_intent s = search_here (\<lambda>t.
     words_here [''all'', ''complete'', ''count'', ''entire'', ''every'', ''exhaustive'', ''full'', ''raw'', ''verbatim'',
       ''how many'', ''are there any'', ''are there no''] t
     \<or> pair_here [''list'', ''enumerate'', ''extract'', ''report'', ''return''] [''each''] t
     \<or> pair_here [''each''] [''line'', ''word'', ''character'', ''byte'', ''paragraph'', ''sentence'', ''item'', ''entry'',
         ''record'', ''measurement'', ''fact'', ''detail''] t
     \<or> pair_here [''exact''] [''source'', ''content'', ''document'', ''text'', ''article'', ''code'', ''transcript'',
         ''output''] t) False (lower s)"

definition term_start :: "char \<Rightarrow> bool" where
  "term_start c = (is_lower_letter c \<or> is_upper_letter c \<or> is_digit c)"

definition term_char :: "char \<Rightarrow> bool" where
  "term_char c = (term_start c \<or> c \<in> {CHR ''_'', CHR ''.'', CHR '':'', CHR ''/'', CHR ''-''})"

text \<open>\<open>_WORD.findall\<close>: a start followed by at least two further characters.\<close>

function find_terms :: "string \<Rightarrow> string list" where
  "find_terms [] = []"
| "find_terms (c # cs) =
     (if term_start c \<and> length (takeWhile term_char cs) \<ge> 2
      then (c # takeWhile term_char cs) # find_terms (dropWhile term_char cs)
      else find_terms cs)"
  by pat_completeness auto
termination
  by (relation "measure length") (auto simp: le_imp_less_Suc length_dropWhile_le)

definition STOP_WORDS :: "string list" where
  "STOP_WORDS = [''about'', ''after'', ''also'', ''and'', ''are'', ''can'', ''could'', ''does'', ''for'', ''from'',
     ''have'', ''into'', ''latest'', ''list'', ''more'', ''please'', ''show'', ''that'', ''the'', ''their'', ''this'',
     ''tool'', ''what'', ''when'', ''where'', ''which'', ''with'', ''would'']"

definition query_terms :: "string \<Rightarrow> string list" where
  "query_terms query = remdups (filter (\<lambda>w. w \<notin> set STOP_WORDS) (map lower (find_terms query)))"

text \<open>\<open>text.count(t)\<close>.\<close>

function count_text :: "string \<Rightarrow> string \<Rightarrow> nat" where
  "count_text t s =
     (if t = [] then length s + 1
      else if s = [] then 0
      else if starts_with t s then 1 + count_text t (drop (length t) s)
      else count_text t (tl s))"
  by pat_completeness auto
termination
  by (relation "measure (\<lambda>(t, s). length s)") auto

declare count_text.simps [simp del]

definition term_score :: "string list \<Rightarrow> string \<Rightarrow> nat" where
  "term_score terms txt = sum_list (map (\<lambda>t. count_text t (lower txt)) terms)"

section \<open>Structured content\<close>

record compaction_settings =
  enabled :: bool
  min_chars :: int
  max_items :: int
  min_savings_chars :: int
  max_compacted_ratio :: rat
  max_original_chars :: int
  cache_ttl_seconds :: int
  article_excerpt_chars :: int

definition default_settings :: compaction_settings where
  "default_settings =
     \<lparr>enabled = True, min_chars = 8000, max_items = 16, min_savings_chars = 1500, max_compacted_ratio = 7 / 10,
      max_original_chars = 4000000, cache_ttl_seconds = 7200, article_excerpt_chars = 4000\<rparr>"

record parsed_json =
  parsed_value :: json
  prefix :: string
  suffix :: string

definition render :: "parsed_json \<Rightarrow> json \<Rightarrow> string" where
  "render p v = prefix p @ json_dumps v @ suffix p"

text \<open>\<open>_TAGGED_JSON\<close> and \<open>_FENCED_JSON\<close>: the text before the body, the body and the text after it.\<close>

definition tag_char :: "char \<Rightarrow> bool" where
  "tag_char c = (is_lower_letter c \<or> is_upper_letter c \<or> is_digit c \<or> c \<in> {CHR ''_'', CHR '':'', CHR ''-''})"

definition split_end :: "string \<Rightarrow> string \<Rightarrow> (string \<times> string) option" where
  "split_end mark s =
     (let t = rstrip_while is_space s; n = length t - length mark in
      if length mark \<le> length t \<and> drop n t = mark then Some (take n t, drop n s) else None)"

definition tagged_json :: "string \<Rightarrow> (string \<times> string \<times> string) option" where
  "tagged_json s =
     (let r = dropWhile is_space s; name = takeWhile tag_char (tl r); r1 = drop (length name) (tl r) in
      if \<not> starts_with ''<'' r \<or> name = [] \<or> \<not> (is_lower_letter (hd name) \<or> is_upper_letter (hd name))
        \<or> \<not> starts_with ''>'' r1 then None
      else (let body = dropWhile is_space (tl r1) in
            case split_end (''</'' @ name @ ''>'') body of
              None \<Rightarrow> None
            | Some (b, e) \<Rightarrow> Some (take (length s - length body) s, b, e)))"

definition fence :: string where
  "fence = replicate 3 (char_of (96::nat))"

definition fenced_json :: "string \<Rightarrow> (string \<times> string \<times> string) option" where
  "fenced_json s =
     (let r = dropWhile is_space s; r1 = drop 3 r;
          r2 = (if lower (take 4 r1) = ''json'' then drop 4 r1 else r1); body = dropWhile is_space r2 in
      if \<not> starts_with fence r then None
      else (case split_end fence body of
              None \<Rightarrow> None
            | Some (b, e) \<Rightarrow>
                let b' = rstrip_while is_space b in
                Some (take (length s - length body) s, b', drop (length b') body)))"

fun first_parsed :: "(string \<Rightarrow> pyfloat) \<Rightarrow> (string \<times> string \<times> string) list \<Rightarrow> parsed_json option" where
  "first_parsed fl [] = None"
| "first_parsed fl ((p, candidate, s) # rest) =
     (case json_loads_exact fl (strip candidate) of
        None \<Rightarrow> first_parsed fl rest
      | Some v \<Rightarrow> Some \<lparr>parsed_value = v, prefix = p, suffix = s\<rparr>)"

definition parse_structured_json :: "(string \<Rightarrow> pyfloat) \<Rightarrow> string \<Rightarrow> parsed_json option" where
  "parse_structured_json fl content =
     first_parsed fl
       ([([], strip content, [])]
        @ (case tagged_json content of None \<Rightarrow> [] | Some t \<Rightarrow> [t])
        @ (case fenced_json content of None \<Rightarrow> [] | Some t \<Rightarrow> [t]))"

section \<open>The cache\<close>

definition REFERENCE_PREFIX :: string where
  "REFERENCE_PREFIX = ''tor_''"

definition reference_pattern :: "string \<Rightarrow> bool" where
  "reference_pattern r =
     (length r = 36 \<and> starts_with REFERENCE_PREFIX r
      \<and> list_all (\<lambda>c. is_digit c \<or> (97 \<le> code c \<and> code c \<le> 102)) (drop 4 r))"

definition tool_output_reference :: "(string \<Rightarrow> string) \<Rightarrow> string \<Rightarrow> string" where
  "tool_output_reference sha content = REFERENCE_PREFIX @ take 32 (sha content)"

definition user_cache_key :: "(string \<Rightarrow> string) \<Rightarrow> string \<Rightarrow> string \<Rightarrow> string" where
  "user_cache_key sha user_id ref = ''daedalus:tool-output:v1:'' @ take 24 (sha user_id) @ '':'' @ ref"

record zlib =
  compress :: "string \<Rightarrow> string"
  decompress :: "string \<Rightarrow> string option"

record output_store =
  ttl_seconds :: int
  retry_after_seconds :: rat
  disabled_until :: rat
  cache :: "string \<Rightarrow> (string \<times> int) option"

definition new_output_store :: "int \<Rightarrow> rat \<Rightarrow> output_store" where
  "new_output_store ttl retry =
     \<lparr>ttl_seconds = max 1 ttl, retry_after_seconds = max 1 retry, disabled_until = 0, cache = (\<lambda>_. None)\<rparr>"

definition CACHE_VERSION :: string where
  "CACHE_VERSION = ''z1''"

definition put_output ::
  "(string \<Rightarrow> string) \<Rightarrow> zlib \<Rightarrow> rat \<Rightarrow> bool \<Rightarrow> string \<Rightarrow> string \<Rightarrow> string \<Rightarrow> output_store \<Rightarrow> bool \<times> output_store" where
  "put_output sha Z now raises user_id content ref st =
     (if user_id = [] \<or> \<not> reference_pattern ref then (False, st)
      else if now < disabled_until st then (False, st)
      else if raises then (False, st\<lparr>disabled_until := now + retry_after_seconds st\<rparr>)
      else (True, st\<lparr>cache := (cache st)(user_cache_key sha user_id ref \<mapsto>
              (CACHE_VERSION @ compress Z content, ttl_seconds st))\<rparr>))"

definition get_output ::
  "(string \<Rightarrow> string) \<Rightarrow> zlib \<Rightarrow> rat \<Rightarrow> bool \<Rightarrow> string \<Rightarrow> string \<Rightarrow> output_store \<Rightarrow> string option \<times> output_store" where
  "get_output sha Z now raises user_id ref st =
     (if user_id = [] \<or> \<not> reference_pattern ref then (None, st)
      else if now < disabled_until st then (None, st)
      else if raises then (None, st\<lparr>disabled_until := now + retry_after_seconds st\<rparr>)
      else (case cache st (user_cache_key sha user_id ref) of
              None \<Rightarrow> (None, st)
            | Some (payload, _) \<Rightarrow>
                if \<not> starts_with CACHE_VERSION payload then (None, st)
                else (case decompress Z (drop (length CACHE_VERSION) payload) of
                        None \<Rightarrow> (None, st\<lparr>disabled_until := now + retry_after_seconds st\<rparr>)
                      | Some content \<Rightarrow>
                          if tool_output_reference sha content \<noteq> ref then (None, st) else (Some content, st))))"

section \<open>Selection of rows\<close>

definition add_index :: "nat \<Rightarrow> nat list \<Rightarrow> nat list" where
  "add_index i selected = (if i \<in> set selected then selected else selected @ [i])"

text \<open>The loops that add indices until the budget is used.\<close>

fun add_while :: "nat \<Rightarrow> nat list \<Rightarrow> nat list \<Rightarrow> nat list" where
  "add_while budget [] selected = selected"
| "add_while budget (i # is) selected =
     (if length selected \<ge> budget then selected else add_while budget is (add_index i selected))"

text \<open>\<open>round(n / d)\<close>: to the nearest integer, to the even one of two.\<close>

definition round_quotient :: "nat \<Rightarrow> nat \<Rightarrow> nat" where
  "round_quotient n d =
     (let q = n div d; r = n mod d in
      if 2 * r < d then q else if 2 * r > d then q + 1 else if even q then q else q + 1)"

definition boundary_indices :: "nat \<Rightarrow> nat list" where
  "boundary_indices count = fold add_index [count - 2..<count] [0..<min 3 count]"

definition signal_indices :: "json list \<Rightarrow> nat list" where
  "signal_indices items = filter (\<lambda>i. error_signal (json_dumps (items ! i))) [0..<length items]"

definition signal_quota :: "nat \<Rightarrow> nat" where
  "signal_quota remaining = (if remaining = 0 then 0 else max 1 (remaining div 2))"

definition ranked_indices :: "string list \<Rightarrow> json list \<Rightarrow> nat list" where
  "ranked_indices terms items =
     (let score = (\<lambda>i. term_score terms (json_dumps (items ! i))) in
      sort_key (\<lambda>i. - int (score i)) (filter (\<lambda>i. score i \<noteq> 0) [0..<length items]))"

definition sample_indices :: "nat \<Rightarrow> nat \<Rightarrow> nat list" where
  "sample_indices count remaining =
     map (\<lambda>ordinal. min (count - 1) (round_quotient (ordinal * count) (remaining + 1))) [1..<remaining + 1]"

definition select_indices :: "json list \<Rightarrow> int \<Rightarrow> string \<Rightarrow> nat list" where
  "select_indices items row_limit query =
     (let count = length items; budget = min (nat (max 1 row_limit)) count;
          sel0 = boundary_indices count; signals = signal_indices items;
          quota = signal_quota (budget - length sel0);
          sel1 = add_while budget (take quota signals) sel0;
          terms = query_terms query;
          sel2 = (if terms \<noteq> [] \<and> length sel1 < budget
                  then add_while budget (take (max 1 (budget - length sel1)) (ranked_indices terms items)) sel1 else sel1);
          sel3 = (if length sel2 < budget then add_while budget (drop quota signals) sel2 else sel2);
          sel4 = (if length sel3 < budget then fold add_index (sample_indices count (budget - length sel3)) sel3 else sel3);
          sel5 = (if length sel4 < budget then add_while budget [0..<count] sel4 else sel4) in
      take budget (sort sel5))"

section \<open>Previews\<close>

text \<open>\<open>max(candidates, key=...)\<close>: the first of the longest arrays.\<close>

fun longest_array :: "string \<times> json list \<Rightarrow> (string \<times> json list) list \<Rightarrow> string \<times> json list" where
  "longest_array best [] = best"
| "longest_array best (c # cs) =
     longest_array (if length (json_dumps (JList (snd c))) > length (json_dumps (JList (snd best))) then c else best) cs"

definition array_candidates :: "dict \<Rightarrow> (string \<times> json list) list" where
  "array_candidates d =
     concat (map (\<lambda>(k, v). case v of JList xs \<Rightarrow> if xs \<noteq> [] then [(k, xs)] else [] | _ \<Rightarrow> []) d)"

definition array_target :: "json \<Rightarrow> (string \<times> json list) option" where
  "array_target v =
     (case v of
        JList xs \<Rightarrow> Some (''$'', xs)
      | JObj d \<Rightarrow>
          (case array_candidates d of
             [] \<Rightarrow> None
           | c # cs \<Rightarrow> (case longest_array c cs of (k, xs) \<Rightarrow> Some (''$.'' @ k, xs)))
      | _ \<Rightarrow> None)"

abbreviation JNat :: "nat \<Rightarrow> json" where
  "JNat n \<equiv> JInt (int n)"

definition preview_value :: "json \<Rightarrow> string \<Rightarrow> json list \<Rightarrow> nat list \<Rightarrow> json" where
  "preview_value v array_path items selected =
     (let array_preview = JObj
        [(''total_items'', JNat (length items)), (''shown_items'', JNat (length selected)),
         (''omitted_items'', JInt (int (length items) - int (length selected))),
         (''selection'', JStr ''first,last,errors,query_relevance,even_sample''),
         (''items'', JList (map (\<lambda>i. JObj [(''index'', JNat i), (''value'', items ! i)]) selected))] in
      if array_path = ''$'' then array_preview
      else (case v of JObj d \<Rightarrow> JObj (dict_set (drop 2 array_path) array_preview d) | _ \<Rightarrow> array_preview))"

definition estimated_tokens :: "string \<Rightarrow> nat" where
  "estimated_tokens content = max 1 ((length content + 3) div 4)"

definition COMPACTION_MARKER :: string where
  "COMPACTION_MARKER = ''_daedalus_compacted_tool_output''"

definition saves_enough :: "compaction_settings \<Rightarrow> string \<Rightarrow> string \<Rightarrow> bool" where
  "saves_enough settings content optimized =
     (int (length content) - int (length optimized) \<ge> min_savings_chars settings
      \<and> of_nat (length optimized) / of_nat (max 1 (length content)) \<le> max_compacted_ratio settings)"

definition ROWS_HINT :: string where
  "ROWS_HINT = ''Use tool_output_retriever_tool with this reference when omitted ''
     @ ''rows could affect the answer. Search by query first; page exact ''
     @ ''content when completeness matters.''"

definition EXCERPTS_HINT :: string where
  "EXCERPTS_HINT = ''Partial excerpts, not the complete source. Use ''
     @ ''tool_output_retriever_tool with this reference to read exact ''
     @ ''surrounding content when omitted context could affect a claim. ''
     @ ''Do not infer absence from this preview. ''
     @ ''Excerpt offsets refer to the decoded article, not its JSON ''
     @ ''wrapper. Recover this source by query or page the original ''
     @ ''JSON; do not use excerpt offsets as retrieval offsets.''"

definition reversible_preview ::
  "(string \<Rightarrow> string) \<Rightarrow> string \<Rightarrow> parsed_json \<Rightarrow> string \<Rightarrow> compaction_settings \<Rightarrow> (string \<times> string) option" where
  "reversible_preview sha content p query settings =
     (case array_target (parsed_value p) of
        None \<Rightarrow> None
      | Some (array_path, items) \<Rightarrow>
          if int (length items) \<le> max_items settings then None
          else
            let selected = select_indices items (max_items settings) query;
                ref = tool_output_reference sha content;
                envelope = JObj
                  [(COMPACTION_MARKER, JObj
                     [(''reference'', JStr ref), (''array_path'', JStr array_path),
                      (''original_chars'', JNat (length content)),
                      (''estimated_original_tokens'', JNat (estimated_tokens content)),
                      (''total_items'', JNat (length items)), (''shown_items'', JNat (length selected)),
                      (''omitted_items'', JInt (int (length items) - int (length selected))),
                      (''retrieval'', JStr ROWS_HINT)]),
                   (''preview'', preview_value (parsed_value p) array_path items selected)];
                optimized = render p envelope in
            if saves_enough settings content optimized then Some (optimized, ref) else None)"

text \<open>Excerpts of an article: its windows, the first and the last, then the cautionary and relevant ones
  that still fit.\<close>

definition windows_of :: "nat \<Rightarrow> string \<Rightarrow> (nat \<times> nat) list" where
  "windows_of window article =
     map (\<lambda>k. (k * window, min (k * window + window) (length article)))
       [0..<(length article + window - 1) div window]"

definition window_text :: "string \<Rightarrow> nat \<times> nat \<Rightarrow> string" where
  "window_text article w = take (snd w - fst w) (drop (fst w) article)"

definition window_size :: "nat \<times> nat \<Rightarrow> nat" where
  "window_size w = snd w - fst w"

definition ranked_windows :: "string list \<Rightarrow> string \<Rightarrow> (nat \<times> nat) list \<Rightarrow> nat list" where
  "ranked_windows terms article windows =
     sort_key (\<lambda>i. if error_signal (window_text article (windows ! i)) then 0 else (1::nat))
       (sort_key (\<lambda>i. - int (term_score terms (window_text article (windows ! i)))) [1..<length windows - 1])"

fun fit_windows :: "(nat \<times> nat) list \<Rightarrow> nat list \<Rightarrow> int \<Rightarrow> nat list \<Rightarrow> nat list" where
  "fit_windows windows [] remaining selected = selected"
| "fit_windows windows (i # is) remaining selected =
     (let sz = int (window_size (windows ! i)) in
      if sz > remaining then fit_windows windows is remaining selected
      else fit_windows windows is (remaining - sz) (add_index i selected))"

definition excerpt_windows :: "nat \<Rightarrow> string list \<Rightarrow> string \<Rightarrow> (nat \<times> nat) list" where
  "excerpt_windows budget terms article =
     (let windows = windows_of (min 800 (budget div 2)) article;
          ends = add_index (length windows - 1) [0];
          remaining = int budget - int (sum_list (map (\<lambda>i. window_size (windows ! i)) ends)) in
      map ((!) windows) (sort (fit_windows windows (ranked_windows terms article windows) remaining ends)))"

definition is_article :: "string \<Rightarrow> json \<Rightarrow> bool" where
  "is_article tool_name v =
     (tool_name = ''curated_feed_search_tool''
      \<or> tool_name = ''webscrape_tool'' \<and> (case v of JObj d \<Rightarrow> py_eq (dict_get d ''output_mode'') (JStr ''research'') | _ \<Rightarrow> False))"

definition article_preview ::
  "(string \<Rightarrow> string) \<Rightarrow> string \<Rightarrow> parsed_json option \<Rightarrow> string \<Rightarrow> string \<Rightarrow> compaction_settings \<Rightarrow>
     (string \<times> string) option" where
  "article_preview sha content parsed tool_name query settings =
     (case parsed of
        None \<Rightarrow> None
      | Some p \<Rightarrow>
          if \<not> is_article tool_name (parsed_value p) then None
          else (case parsed_value p of
                  JObj d \<Rightarrow>
                    (case (dict_get d ''success'', dict_get d ''content'', dict_get d ''source'') of
                       (JBool True, JStr article, JObj _) \<Rightarrow>
                         let budget = nat (max 800 (article_excerpt_chars settings));
                             terms = query_terms (query @ '' '' @ py_str (dict_get_default d ''query'' (JStr [])));
                             ws = excerpt_windows budget terms article;
                             excerpts = map (\<lambda>w. JObj [(''start_offset'', JNat (fst w)), (''end_offset'', JNat (snd w)),
                                                        (''text'', JStr (window_text article w))]) ws;
                             ref = tool_output_reference sha content;
                             envelope = JObj
                               [(COMPACTION_MARKER, JObj
                                  [(''reference'', JStr ref), (''content_path'', JStr ''$.content''),
                                   (''offset_basis'', JStr ''decoded_article''),
                                   (''original_chars'', JNat (length content)), (''article_chars'', JNat (length article)),
                                   (''omitted_chars'', JInt (int (length article)
                                      - int (sum_list (map (\<lambda>w. length (window_text article w)) ws)))),
                                   (''selection'', JStr ''verbatim_boundaries,cautions,query_relevance''),
                                   (''retrieval'', JStr EXCERPTS_HINT)]),
                                (''preview'', JObj (dict_set ''excerpts'' (JList excerpts) (dict_pop ''content'' d)))];
                             optimized = render p envelope in
                         if length article \<le> budget then None
                         else if saves_enough settings content optimized then Some (optimized, ref) else None
                     | _ \<Rightarrow> None)
                | _ \<Rightarrow> None))"

record optimized_content =
  content_text :: string
  mode :: string
  original_chars :: nat
  optimized_chars :: nat
  reference :: "string option"

definition unchanged_content :: "string \<Rightarrow> optimized_content" where
  "unchanged_content content =
     \<lparr>content_text = content, mode = ''unchanged'', original_chars = length content, optimized_chars = length content,
      reference = None\<rparr>"

definition lossless_content :: "string \<Rightarrow> parsed_json option \<Rightarrow> optimized_content" where
  "lossless_content content parsed =
     (case parsed of
        None \<Rightarrow> unchanged_content content
      | Some p \<Rightarrow>
          let minified = render p (parsed_value p) in
          if int (length content) - int (length minified) \<ge> 256
          then \<lparr>content_text = minified, mode = ''lossless_json'', original_chars = length content,
                optimized_chars = length minified, reference = None\<rparr>
          else unchanged_content content)"

definition is_research :: "string \<Rightarrow> parsed_json option \<Rightarrow> bool" where
  "is_research tool_name parsed =
     (tool_name = ''webscrape_tool''
      \<and> (case parsed of
           Some p \<Rightarrow>
             (case parsed_value p of
                JObj d \<Rightarrow> py_eq (dict_get d ''output_mode'') (JStr ''research'') \<and> dict_get d ''success'' = JBool True
                          \<and> is_str (dict_get d ''content'')
              | _ \<Rightarrow> False)
         | None \<Rightarrow> False))"

definition optimize_tool_content ::
  "(string \<Rightarrow> pyfloat) \<Rightarrow> (string \<Rightarrow> string) \<Rightarrow> zlib \<Rightarrow> rat \<Rightarrow> bool \<Rightarrow> string \<Rightarrow> string \<Rightarrow> string \<Rightarrow>
     string \<Rightarrow> compaction_settings \<Rightarrow> output_store \<Rightarrow> optimized_content \<times> output_store" where
  "optimize_tool_content fl sha Z now raises content tool_name query user_id settings st =
     (if \<not> enabled settings \<or> content = [] \<or> contains COMPACTION_MARKER content
        \<or> int (length content) > max_original_chars settings
      then (unchanged_content content, st)
      else
        let parsed = parse_structured_json fl content; lossless = lossless_content content parsed in
        if int (length content) < min_chars settings then (lossless, st)
        else if (if is_research tool_name parsed then research_complete_output_intent query else complete_output_intent query)
        then (lossless, st)
        else
          case (case article_preview sha content parsed tool_name query settings of
                  Some r \<Rightarrow> Some r
                | None \<Rightarrow> (case parsed of None \<Rightarrow> None
                             | Some p \<Rightarrow> reversible_preview sha content p query settings)) of
            None \<Rightarrow> (lossless, st)
          | Some (optimized, ref) \<Rightarrow>
              (case put_output sha Z now raises user_id content ref st of
                 (False, st') \<Rightarrow> (lossless, st')
               | (True, st') \<Rightarrow>
                   (\<lparr>content_text = optimized, mode = ''reversible_preview'', original_chars = length content,
                     optimized_chars = length optimized, reference = Some ref\<rparr>, st')))"

section \<open>Retrieval\<close>

definition page_payload :: "string \<Rightarrow> string \<Rightarrow> nat \<Rightarrow> nat \<Rightarrow> dict" where
  "page_payload content ref offset max_chars =
     (let o' = min offset (length content); e = min (length content) (o' + max_chars) in
      [(''reference'', JStr ref), (''mode'', JStr ''exact_page''), (''offset'', JNat o'), (''end_offset'', JNat e),
       (''total_chars'', JNat (length content)), (''complete'', JBool (e \<ge> length content)),
       (''next_offset'', if e \<ge> length content then JNull else JNat e),
       (''content'', JStr (take (e - o') (drop o' content)))])"

text \<open>\<open>pattern.search(content, cursor)\<close> for a literal without regard to case: the position of the match.\<close>

fun find_text :: "string \<Rightarrow> nat \<Rightarrow> string \<Rightarrow> nat option" where
  "find_text q pos [] = (if q = [] then Some pos else None)"
| "find_text q pos (c # cs) =
     (if starts_with (lower q) (lower (c # cs)) then Some pos else find_text q (Suc pos) cs)"

definition search_from :: "string \<Rightarrow> string \<Rightarrow> nat \<Rightarrow> nat option" where
  "search_from content query cursor = find_text query cursor (drop cursor content)"

fun search_loop :: "string \<Rightarrow> string \<Rightarrow> nat \<Rightarrow> nat \<Rightarrow> nat \<Rightarrow> (nat \<times> nat \<times> nat) list \<times> nat" where
  "search_loop content query context_chars 0 cursor = ([], cursor)"
| "search_loop content query context_chars (Suc n) cursor =
     (case search_from content query cursor of
        None \<Rightarrow> ([], cursor)
      | Some i \<Rightarrow>
          (case search_loop content query context_chars n (i + length query) of
             (ms, c) \<Rightarrow> ((i, i - context_chars, min (length content) (i + length query + context_chars)) # ms, c)))"

definition search_payload :: "string \<Rightarrow> string \<Rightarrow> string \<Rightarrow> nat \<Rightarrow> nat \<Rightarrow> dict" where
  "search_payload content ref query max_matches context_chars =
     (case search_loop content query context_chars max_matches 0 of
        (ms, cursor) \<Rightarrow>
          [(''reference'', JStr ref), (''mode'', JStr ''literal_search''), (''query'', JStr query),
           (''total_chars'', JNat (length content)),
           (''matches'', JList (map (\<lambda>(i, s, e). JObj
              [(''match_offset'', JNat i), (''start_offset'', JNat s), (''end_offset'', JNat e),
               (''content'', JStr (take (e - s) (drop s content)))]) ms)),
           (''matches_returned'', JNat (length ms)),
           (''more_matches'', JBool (search_from content query cursor \<noteq> None))])"

definition json_result :: "dict \<Rightarrow> string" where
  "json_result payload = json_dumps (JObj payload)"

definition page_content :: "string \<Rightarrow> string \<Rightarrow> nat \<Rightarrow> nat \<Rightarrow> string" where
  "page_content content ref offset max_chars = json_result (page_payload content ref offset max_chars)"

definition search_content :: "string \<Rightarrow> string \<Rightarrow> string \<Rightarrow> nat \<Rightarrow> nat \<Rightarrow> string" where
  "search_content content ref query max_matches context_chars =
     json_result (search_payload content ref query max_matches context_chars)"

record retriever_config =
  max_chunk_chars :: nat
  max_matches :: nat
  context_chars :: nat

record retriever_input =
  in_reference :: string
  in_query :: "string option"
  in_offset :: nat
  in_max_chars :: "nat option"

definition page_limit :: "retriever_config \<Rightarrow> retriever_input \<Rightarrow> nat" where
  "page_limit config i =
     min (case in_max_chars i of None \<Rightarrow> max_chunk_chars config | Some n \<Rightarrow> if n = 0 then max_chunk_chars config else n)
       (max_chunk_chars config)"

definition run_retriever ::
  "(string \<Rightarrow> string) \<Rightarrow> zlib \<Rightarrow> rat \<Rightarrow> bool \<Rightarrow> retriever_config \<Rightarrow> string result \<Rightarrow> retriever_input \<Rightarrow> output_store \<Rightarrow>
     string \<times> output_store" where
  "run_retriever sha Z now raises config user i st =
     (if \<not> reference_pattern (in_reference i) then (json_result [(''error'', JStr ''invalid_tool_output_reference'')], st)
      else case user of
        Inl _ \<Rightarrow> (json_result [(''error'', JStr ''tool_output_retrieval_denied'')], st)
      | Inr user_id \<Rightarrow>
          (case get_output sha Z now raises user_id (in_reference i) st of
             (None, st') \<Rightarrow>
               (json_result [(''error'', JStr ''tool_output_not_found''), (''reference'', JStr (in_reference i)),
                 (''message'', JStr (''The reference expired or belongs to a different user. ''
                    @ ''Repeat the source tool call if the data is still needed.''))], st')
           | (Some content, st') \<Rightarrow>
               (case in_query i of
                  Some q \<Rightarrow>
                    if q \<noteq> [] then (search_content content (in_reference i) q (max_matches config) (context_chars config), st')
                    else (page_content content (in_reference i) (in_offset i) (page_limit config i), st')
                | None \<Rightarrow> (page_content content (in_reference i) (in_offset i) (page_limit config i), st'))))"

section \<open>The selected rows\<close>

lemma add_index_simps [simp]:
  "set (add_index i s) = insert i (set s)" "distinct s \<Longrightarrow> distinct (add_index i s)"
  by (auto simp: add_index_def)

lemma add_index_length: "length (add_index i s) \<le> Suc (length s)"
  by (simp add: add_index_def)

text \<open>A step of the selection: it adds indices of the items, up to the budget.\<close>

definition extends :: "nat \<Rightarrow> nat \<Rightarrow> nat list \<Rightarrow> nat list \<Rightarrow> bool" where
  "extends count budget s t \<longleftrightarrow>
     (distinct s \<and> set s \<subseteq> {..<count} \<longrightarrow>
        distinct t \<and> set t \<subseteq> {..<count} \<and> set s \<subseteq> set t \<and> length t \<le> max (length s) budget)"

lemma extends_refl [simp]: "extends count budget s s"
  by (simp add: extends_def)

lemma extends_trans: "extends count budget s t \<Longrightarrow> extends count budget t u \<Longrightarrow> extends count budget s u"
  unfolding extends_def by (meson dual_order.trans max.boundedI max.cobounded2)

lemma add_while_extends: "set is \<subseteq> {..<count} \<Longrightarrow> extends count budget s (add_while budget is s)"
proof (induction "is" arbitrary: s)
  case (Cons i "is")
  show ?case
  proof (cases "length s \<ge> budget")
    case False
    have "extends count budget s (add_index i s)"
      using Cons.prems False add_index_length [of i s] unfolding extends_def
      by (auto simp: le_max_iff_disj)
    moreover have "extends count budget (add_index i s) (add_while budget is (add_index i s))"
      using Cons by simp
    ultimately show ?thesis using False extends_trans by simp
  qed simp
qed simp

lemma extends_if: "(P \<Longrightarrow> extends count budget s t) \<Longrightarrow> extends count budget s (if P then t else s)"
  by simp

lemma add_while_superset: "set s \<subseteq> set (add_while budget is s)"
proof (induction "is" arbitrary: s)
  case (Cons i "is")
  from Cons [of "add_index i s"] show ?case by auto
qed simp

lemma add_while_complete: "budget \<le> length (add_while budget is s) \<or> set is \<subseteq> set (add_while budget is s)"
proof (induction "is" arbitrary: s)
  case (Cons i "is")
  from add_while_superset [of "add_index i s" budget "is"] Cons [of "add_index i s"] show ?case by auto
qed simp

lemma fold_add_index:
  "set (fold add_index is s) = set is \<union> set s" "distinct s \<Longrightarrow> distinct (fold add_index is s)"
  "length (fold add_index is s) \<le> length is + length s"
proof (induction "is" arbitrary: s)
  case (Cons i "is")
  { case 3
    have "length (fold add_index (i # is) s) \<le> length is + length (add_index i s)"
      using Cons.IH(3) [of "add_index i s"] by simp
    also have "\<dots> \<le> length (i # is) + length s" using add_index_length [of i s] by simp
    finally show ?case . }
qed (simp_all)

lemma sample_length: "length (sample_indices count n) = n"
  by (simp add: sample_indices_def)

lemma sample_extends:
  assumes "0 < count" "length s \<le> budget"
  shows "extends count budget s (fold add_index (sample_indices count (budget - length s)) s)"
proof -
  have "length (fold add_index (sample_indices count (budget - length s)) s) \<le> budget"
    using fold_add_index(3) [of "sample_indices count (budget - length s)" s] assms(2)
    by (simp add: sample_length)
  moreover have "set (sample_indices count (budget - length s)) \<subseteq> {..<count}"
    using assms(1) by (auto simp: sample_indices_def)
  ultimately show ?thesis by (auto simp: extends_def fold_add_index)
qed

lemma boundary_facts:
  "distinct (boundary_indices count)" "set (boundary_indices count) = {0..<min 3 count} \<union> {count - 2..<count}"
  "length (boundary_indices count) \<le> 5"
  using fold_add_index(3) [of "[count - 2..<count]" "[0..<min 3 count]"]
  by (auto simp: boundary_indices_def fold_add_index)

text \<open>The list that the indices are cut from.\<close>

definition chosen_rows :: "json list \<Rightarrow> nat \<Rightarrow> string \<Rightarrow> nat list \<Rightarrow> bool" where
  "chosen_rows items budget query r \<longleftrightarrow>
     (\<exists>sel. r = take budget (sort sel) \<and> extends (length items) budget (boundary_indices (length items)) sel
        \<and> extends (length items) budget
            (add_while budget (take (signal_quota (budget - length (boundary_indices (length items)))) (signal_indices items))
               (boundary_indices (length items))) sel
        \<and> budget \<le> length sel)"

lemma select_indices_chosen:
  assumes "items \<noteq> []"
  shows "chosen_rows items (min (nat (max 1 row_limit)) (length items)) query (select_indices items row_limit query)"
proof -
  define c where "c = length items"
  define b where "b = min (nat (max 1 row_limit)) c"
  define s0 where "s0 = boundary_indices c"
  define g where "g = signal_indices items"
  define q where "q = signal_quota (b - length s0)"
  define s1 where "s1 = add_while b (take q g) s0"
  define ts where "ts = query_terms query"
  define s2 where "s2 = (if ts \<noteq> [] \<and> length s1 < b
    then add_while b (take (max 1 (b - length s1)) (ranked_indices ts items)) s1 else s1)"
  define s3 where "s3 = (if length s2 < b then add_while b (drop q g) s2 else s2)"
  define s4 where "s4 = (if length s3 < b then fold add_index (sample_indices c (b - length s3)) s3 else s3)"
  define s5 where "s5 = (if length s4 < b then add_while b [0..<c] s4 else s4)"
  note defs = c_def b_def s0_def g_def q_def s1_def ts_def s2_def s3_def s4_def s5_def
  have g: "set g \<subseteq> {..<c}" by (auto simp: g_def c_def signal_indices_def)
  have rk: "set (ranked_indices ts items) \<subseteq> {..<c}" by (auto simp: c_def ranked_indices_def Let_def)
  have e1: "extends c b s0 s1" unfolding s1_def using g by (intro add_while_extends) (auto dest: in_set_takeD)
  have e2: "extends c b s1 s2" unfolding s2_def using rk by (intro extends_if add_while_extends) (auto dest: in_set_takeD)
  have e3: "extends c b s2 s3" unfolding s3_def using g by (intro extends_if add_while_extends) (auto dest: in_set_dropD)
  have e4: "extends c b s3 s4" unfolding s4_def using assms by (intro extends_if sample_extends) (auto simp: c_def)
  have e5: "extends c b s4 s5" unfolding s5_def by (intro extends_if add_while_extends) auto
  have all: "extends c b s1 s5" using e2 e3 e4 e5 by (blast intro: extends_trans)
  note from0 = extends_trans [OF e1 all]
  have dist: "distinct s5 \<and> set s5 \<subseteq> {..<c}"
    using from0 boundary_facts(1,2) [of c] by (auto simp: extends_def s0_def)
  have "b \<le> length s5 \<or> {..<c} \<subseteq> set s5"
    using add_while_complete [of b "[0..<c]" s4] by (auto simp: s5_def)
  then have "b \<le> length s5"
    using dist by (metis b_def card_lessThan distinct_card equalityI min.cobounded2)
  moreover have "select_indices items row_limit query = take b (sort s5)"
    unfolding select_indices_def Let_def defs ..
  ultimately show ?thesis
    unfolding chosen_rows_def using all from0 unfolding s1_def q_def g_def s0_def b_def c_def by blast
qed

lemma add_while_all: "length s + length is \<le> budget \<Longrightarrow> set is \<subseteq> set (add_while budget is s)"
proof (induction "is" arbitrary: s)
  case (Cons i "is")
  have "length (add_index i s) + length is \<le> budget" using Cons.prems add_index_length [of i s] by simp
  from Cons.IH [OF this] add_while_superset [of "add_index i s" budget "is"] Cons.prems show ?case by auto
qed simp

lemma strictly_sorted: "distinct xs \<Longrightarrow> sorted_wrt (<) (sort xs :: nat list)"
  by (simp add: strict_sorted_iff)

lemma sort_head: "0 \<in> set xs \<Longrightarrow> xs \<noteq> [] \<Longrightarrow> hd (sort xs :: nat list) = 0"
proof -
  assume "0 \<in> set xs"
  then obtain y ys where s: "sort xs = y # ys" "0 \<in> set (y # ys)" by (cases "sort xs") (metis empty_iff list.set(1) set_sort, metis set_sort)
  with sorted_sort [of xs] show ?thesis by auto
qed

lemma sort_last: "m \<in> set xs \<Longrightarrow> \<forall>x \<in> set xs. x \<le> m \<Longrightarrow> last (sort xs :: nat list) = m"
proof -
  assume m: "m \<in> set xs" "\<forall>x \<in> set xs. x \<le> m"
  then have "sort xs \<noteq> []" by (metis empty_iff list.set(1) set_sort)
  then obtain ys z where s: "sort xs = ys @ [z]" by (metis rev_exhaust)
  then have "set xs = set (ys @ [z])" by (metis set_sort)
  with m sorted_sort [of xs] show ?thesis unfolding s by (auto simp: sorted_append)
qed

text \<open>The first rows with a sign of failure that the preview always has room for.\<close>

definition guaranteed_signals :: "nat \<Rightarrow> json list \<Rightarrow> nat list" where
  "guaranteed_signals budget items =
     take (signal_quota (budget - length (boundary_indices (length items)))) (signal_indices items)"

lemma rows_of_chosen:
  assumes "items \<noteq> []" "1 \<le> budget" "chosen_rows items budget query r"
  shows "sorted_wrt (<) r \<and> set r \<subseteq> {..<length items} \<and> length r = budget \<and> hd r = 0
    \<and> (5 \<le> budget \<longrightarrow> set (boundary_indices (length items)) \<union> set (guaranteed_signals budget items) \<subseteq> set r)"
proof -
  let ?c = "length items" and ?s0 = "boundary_indices (length items)" and ?g = "guaranteed_signals budget items"
  from assms(3) obtain sel where r: "r = take budget (sort sel)" and e0: "extends ?c budget ?s0 sel"
    and e1: "extends ?c budget (add_while budget ?g ?s0) sel" and len: "budget \<le> length sel"
    unfolding chosen_rows_def guaranteed_signals_def by blast
  note b = boundary_facts [of ?c]
  have sel: "distinct sel" "set sel \<subseteq> {..<?c}" "set ?s0 \<subseteq> set sel" "length sel \<le> max (length ?s0) budget"
    using e0 b by (auto simp: extends_def)
  have zero: "0 \<in> set sel" using sel(3) b(2) assms(1) by (cases items) auto
  have "sorted_wrt (<) r" using strictly_sorted [OF sel(1)] unfolding r by (rule sorted_wrt_take)
  moreover have "set r \<subseteq> {..<?c}" using sel(2) set_take_subset [of budget "sort sel"] unfolding r by auto
  moreover have "length r = budget" using len by (simp add: r)
  moreover have "hd r = 0" using sort_head [OF zero] assms(2) zero by (cases sel) (auto simp: r)
  moreover have "set ?s0 \<union> set ?g \<subseteq> set r" if "5 \<le> budget"
  proof -
    have "length sel = budget" using sel(4) b(3) that len by simp
    then have "set r = set sel" by (simp add: r)
    moreover have "length ?s0 + length ?g \<le> budget"
      using b(3) that by (auto simp: guaranteed_signals_def signal_quota_def)
    then have "set ?g \<subseteq> set (add_while budget ?g ?s0)" by (rule add_while_all)
    moreover have "set (add_while budget ?g ?s0) \<subseteq> set sel"
    proof -
      have "set ?g \<subseteq> {..<?c}" by (auto simp: guaranteed_signals_def signal_indices_def dest: in_set_takeD)
      from add_while_extends [OF this, of budget ?s0] e1 b(1,2) show ?thesis by (auto simp: extends_def)
    qed
    ultimately show ?thesis using sel(3) by auto
  qed
  ultimately show ?thesis by blast
qed

section \<open>Excerpts of an article\<close>

lemma window_count: "0 < w \<Longrightarrow> k < (n + w - 1) div w \<Longrightarrow> k * w < (n::nat)"
proof -
  assume w: "0 < w" and k: "k < (n + w - 1) div w"
  then have "Suc k \<le> (n + w - 1) div w" by simp
  then have "Suc k * w \<le> n + w - 1" using w by (simp only: less_eq_div_iff_mult_less_eq)
  then show ?thesis using w by simp
qed

lemma windows_simps:
  "length (windows_of w article) = (length article + w - 1) div w"
  "k < length (windows_of w article) \<Longrightarrow> windows_of w article ! k = (k * w, min (k * w + w) (length article))"
  by (simp_all add: windows_of_def)

lemma window_extent:
  assumes "0 < w" "k < length (windows_of w article)"
  defines "v \<equiv> windows_of w article ! k"
  shows "fst v < snd v \<and> snd v \<le> length article \<and> window_size v \<le> w \<and> length (window_text article v) = window_size v"
  using assms(1,2) window_count [of w k "length article"]
  by (auto simp: v_def windows_simps window_size_def window_text_def)

lemma windows_disjoint:
  assumes "i < j" "j < length (windows_of w article)"
  shows "snd (windows_of w article ! i) \<le> fst (windows_of w article ! j)"
proof -
  have "Suc i * w \<le> j * w" using assms(1) by (intro mult_le_mono1) simp
  then show ?thesis using assms by (simp add: windows_simps)
qed

lemma last_window:
  assumes "0 < w" "0 < length article"
  shows "0 < length (windows_of w article) \<and> snd (windows_of w article ! (length (windows_of w article) - 1)) = length article"
proof -
  let ?n = "(length article + w - 1) div w"
  have "1 * w \<le> length article + w - 1" using assms by (cases article) simp_all
  then have n: "1 \<le> ?n" using assms(1) by (simp only: less_eq_div_iff_mult_less_eq)
  have "\<not> Suc ?n * w \<le> length article + w - 1"
    using assms(1) by (simp only: less_eq_div_iff_mult_less_eq [symmetric])
  then have "length article \<le> ?n * w" by simp
  moreover have "(?n - 1) * w + w = ?n * w" using n by (cases ?n) simp_all
  ultimately show ?thesis using n by (simp add: windows_simps)
qed

lemma fit_windows_fits:
  fixes f :: "nat \<Rightarrow> nat" and windows :: "(nat \<times> nat) list"
  defines "f \<equiv> \<lambda>i. window_size (windows ! i)"
  assumes "0 \<le> remaining" "int (sum f (set sel)) + remaining \<le> B" "distinct sel"
    "set sel \<union> set is \<subseteq> {..<n}"
  shows "distinct (fit_windows windows is remaining sel) \<and> set sel \<subseteq> set (fit_windows windows is remaining sel)
    \<and> set (fit_windows windows is remaining sel) \<subseteq> {..<n} \<and> int (sum f (set (fit_windows windows is remaining sel))) \<le> B"
  using assms(2-5)
proof (induction "is" arbitrary: remaining sel)
  case (Cons i "is")
  show ?case
  proof (cases "int (f i) > remaining")
    case True
    with Cons show ?thesis by (simp add: f_def)
  next
    case False
    have "int (sum f (set (add_index i sel))) + (remaining - int (f i)) \<le> B"
      using Cons.prems(2) by (cases "i \<in> set sel") (auto simp: insert_absorb)
    with False Cons.prems Cons.IH [of "remaining - int (f i)" "add_index i sel"] show ?thesis by (simp add: f_def Let_def)
  qed
qed auto

text \<open>The selected windows as positions: the two ends are among them and they fit.\<close>

lemma excerpt_selection:
  fixes article :: string
  assumes "2 \<le> budget" "budget < length article"
  defines "W \<equiv> windows_of (min 800 (budget div 2)) article"
  obtains sel where "excerpt_windows budget terms article = map ((!) W) (sort sel)" "distinct sel"
    "{0, length W - 1} \<subseteq> set sel" "set sel \<subseteq> {..<length W}" "sum (\<lambda>i. window_size (W ! i)) (set sel) \<le> budget"
proof -
  define w where "w = min 800 (budget div 2)"
  define n where "n = length W"
  define f where "f = (\<lambda>i. window_size (W ! i))"
  define ends where "ends = add_index (n - 1) [0]"
  define sel where "sel = fit_windows W (ranked_windows terms article W) (int budget - int (sum_list (map f ends))) ends"
  have W: "W = windows_of w article" by (simp add: W_def w_def)
  have w: "0 < w" "2 * w \<le> budget" using assms(1) by (auto simp: w_def)
  have art: "0 < length article" using assms(2) by linarith
  have n: "0 < n" using last_window [OF w(1) art] unfolding n_def W by blast
  have size: "f i \<le> w" if "i < n" for i
    using window_extent [OF w(1), of i article] that by (simp add: f_def n_def W)
  have ends: "distinct ends" "set ends = {0, n - 1}" "set ends \<subseteq> {..<n}" using n by (auto simp: ends_def)
  have sum_ends: "sum_list (map f ends) = sum f (set ends)" using ends(1) by (rule sum_list_distinct_conv_sum_set)
  have "sum f (set ends) \<le> 2 * w"
    using size [of 0] size [of "n - 1"] n by (cases "n - 1 = 0") (auto simp: ends(2))
  with w(2) have room: "0 \<le> int budget - int (sum f (set ends))" by linarith
  have "set (ranked_windows terms article W) \<subseteq> {..<n}" by (auto simp: ranked_windows_def n_def)
  with ends(3) have idx: "set ends \<union> set (ranked_windows terms article W) \<subseteq> {..<n}" by blast
  have sel: "distinct sel" "set ends \<subseteq> set sel" "set sel \<subseteq> {..<n}" "sum f (set sel) \<le> budget"
    using fit_windows_fits [of "int budget - int (sum f (set ends))" W ends "int budget" "ranked_windows terms article W" n,
        folded f_def, OF room _ ends(1) idx]
    unfolding sel_def sum_ends by (simp_all del: of_nat_sum)
  have "excerpt_windows budget terms article = map ((!) W) (sort sel)"
    unfolding excerpt_windows_def Let_def sel_def ends_def f_def n_def W_def ..
  from that [OF this sel(1)] sel(2-4) ends(2) show ?thesis by (simp add: f_def n_def)
qed

lemma excerpts_fit:
  assumes "2 \<le> budget" "budget < length article"
  shows "let ws = excerpt_windows budget terms article in
    sum_list (map (\<lambda>w. length (window_text article w)) ws) \<le> budget
    \<and> sorted_wrt (\<lambda>v w. snd v \<le> fst w) ws \<and> list_all (\<lambda>w. fst w < snd w \<and> snd w \<le> length article) ws
    \<and> ws \<noteq> [] \<and> fst (hd ws) = 0 \<and> snd (last ws) = length article"
proof -
  define w where "w = min 800 (budget div 2)"
  define W where "W = windows_of w article"
  obtain sel where ws: "excerpt_windows budget terms article = map ((!) W) (sort sel)" and "distinct sel"
    and ends: "0 \<in> set sel" "length W - 1 \<in> set sel" and idx: "set sel \<subseteq> {..<length W}"
    and fit: "sum (\<lambda>i. window_size (W ! i)) (set sel) \<le> budget"
    using excerpt_selection [OF assms, of terms] unfolding W_def w_def by auto
  have w: "0 < w" using assms(1) by (auto simp: w_def)
  have art: "0 < length article" using assms(2) by linarith
  let ?s = "sort sel"
  have s: "sorted_wrt (<) ?s" "set ?s = set sel" using strictly_sorted [OF \<open>distinct sel\<close>] by auto
  have b: "fst (W ! i) < snd (W ! i) \<and> snd (W ! i) \<le> length article \<and> length (window_text article (W ! i)) = window_size (W ! i)"
    if "i \<in> set sel" for i
    using window_extent [OF w, of i article] that idx by (auto simp: W_def)
  have "sum_list (map (\<lambda>w. length (window_text article w)) (map ((!) W) ?s)) = sum_list (map (\<lambda>i. window_size (W ! i)) ?s)"
    using b by (auto intro!: arg_cong [where f = sum_list])
  with fit sum_list_distinct_conv_sum_set [of ?s "\<lambda>i. window_size (W ! i)"] \<open>distinct sel\<close>
  have total: "sum_list (map (\<lambda>w. length (window_text article w)) (map ((!) W) ?s)) \<le> budget" by simp
  have disj: "sorted_wrt (\<lambda>v w. snd v \<le> fst w) (map ((!) W) ?s)"
    unfolding sorted_wrt_map using s idx windows_disjoint [of _ _ w article]
    by (intro sorted_wrt_mono_rel [OF _ s(1)]) (auto simp: W_def)
  have "?s \<noteq> []" using ends(1) by (metis empty_iff list.set(1) set_sort)
  moreover have "hd ?s = 0" using sort_head [OF ends(1)] ends(1) by (cases sel) auto
  moreover have "last ?s = length W - 1" using idx by (intro sort_last ends(2)) auto
  moreover have "fst (W ! 0) = 0" using last_window [OF w art] by (simp add: W_def windows_simps)
  moreover have "snd (W ! (length W - 1)) = length article" using last_window [OF w art] unfolding W_def by blast
  moreover have "list_all (\<lambda>w. fst w < snd w \<and> snd w \<le> length article) (map ((!) W) ?s)"
    using b s(2) by (simp add: list_all_iff)
  ultimately show ?thesis
    unfolding Let_def ws using total disj by (simp add: hd_map last_map)
qed

section \<open>Recovery\<close>

text \<open>What a decision of the optimiser leaves behind.\<close>

lemma article_reference: "article_preview sha content parsed tool query settings = Some (t, ref) \<Longrightarrow> ref = tool_output_reference sha content"
  by (auto simp: article_preview_def Let_def split: option.splits if_splits json.splits bool.splits)

lemma rows_reference: "reversible_preview sha content p query settings = Some (t, ref) \<Longrightarrow> ref = tool_output_reference sha content"
  by (auto simp: reversible_preview_def Let_def split: option.splits if_splits)

lemma put_outcome:
  "put_output sha Z now raises user content ref st = (True, st') \<Longrightarrow>
     user \<noteq> [] \<and> reference_pattern ref \<and> \<not> now < disabled_until st
     \<and> st' = st\<lparr>cache := (cache st)(user_cache_key sha user ref \<mapsto> (CACHE_VERSION @ compress Z content, ttl_seconds st))\<rparr>"
  "put_output sha Z now raises user content ref st = (False, st') \<Longrightarrow> cache st' = cache st"
  by (auto simp: put_output_def split: if_splits)

lemma optimize_outcome:
  assumes "optimize_tool_content fl sha Z now raises content tool query user settings st = (r, st')"
  shows "(r = unchanged_content content \<or> r = lossless_content content (parse_structured_json fl content)) \<and> cache st' = cache st
    \<or> mode r = ''reversible_preview'' \<and> reference r = Some (tool_output_reference sha content)
      \<and> put_output sha Z now raises user content (tool_output_reference sha content) st = (True, st')"
proof -
  let ?p = "parse_structured_json fl content"
  let ?o = "case article_preview sha content ?p tool query settings of
      Some r \<Rightarrow> Some r
    | None \<Rightarrow> (case ?p of None \<Rightarrow> None | Some p \<Rightarrow> reversible_preview sha content p query settings)"
  have ref: "ref = tool_output_reference sha content" if "?o = Some (t, ref)" for t ref
    using that article_reference rows_reference by (fastforce split: option.splits)
  show ?thesis
  proof (cases ?o)
    case None
    with assms show ?thesis by (auto simp: optimize_tool_content_def Let_def split: if_splits)
  next
    case (Some tr)
    obtain t ref where tr: "tr = (t, ref)" by (cases tr)
    obtain b st1 where put: "put_output sha Z now raises user content (tool_output_reference sha content) st = (b, st1)"
      by (cases "put_output sha Z now raises user content (tool_output_reference sha content) st")
    from Some tr ref [of t ref] have o: "?o = Some (t, tool_output_reference sha content)" by simp
    show ?thesis
      using assms put put_outcome(2) unfolding optimize_tool_content_def Let_def o
      by (cases b) (auto split: if_splits)
  qed
qed

definition zlib_law :: "zlib \<Rightarrow> bool" where
  "zlib_law Z \<longleftrightarrow> (\<forall>x. decompress Z (compress Z x) = Some x)"

lemma get_after_put:
  assumes "zlib_law Z" "put_output sha Z now raises user content (tool_output_reference sha content) st = (True, st')" "now \<le> t"
  shows "get_output sha Z t False user (tool_output_reference sha content) st' = (Some content, st')"
  using put_outcome(1) [OF assms(2)] assms(1,3) by (auto simp: get_output_def zlib_law_def CACHE_VERSION_def starts_with_def)

text \<open>A client that decodes the pages and follows them.\<close>

definition decode_page :: "(string \<Rightarrow> pyfloat) \<Rightarrow> string \<Rightarrow> dict" where
  "decode_page fl txt = (case json_loads_exact fl txt of Some (JObj d) \<Rightarrow> d | _ \<Rightarrow> [])"

fun read_pages :: "(nat \<Rightarrow> dict) \<Rightarrow> nat \<Rightarrow> nat \<Rightarrow> string" where
  "read_pages page 0 pos = []"
| "read_pages page (Suc n) pos =
     (case (dict_get (page pos) ''content'', dict_get (page pos) ''next_offset'') of
        (JStr s, JInt k) \<Rightarrow> s @ read_pages page n (nat k)
      | (JStr s, _) \<Rightarrow> s
      | _ \<Rightarrow> [])"

lemma page_fields:
  "dict_get (page_payload content ref pos m) ''content''
     = JStr (take (min (length content) (min pos (length content) + m) - min pos (length content)) (drop (min pos (length content)) content))"
  "dict_get (page_payload content ref pos m) ''next_offset''
     = (if min (length content) (min pos (length content) + m) \<ge> length content then JNull
        else JNat (min (length content) (min pos (length content) + m)))"
  by (simp_all add: page_payload_def Let_def dict_get_def)

lemma pages_exact:
  assumes "0 < m" "pos \<le> length content" "length content \<le> pos + n * m"
  shows "read_pages (\<lambda>k. page_payload content ref k m) (Suc n) pos = drop pos content"
  using assms(2,3)
proof (induction n arbitrary: pos)
  case (Suc n)
  show ?case
  proof (cases "pos + m < length content")
    case True
    have "read_pages (\<lambda>k. page_payload content ref k m) (Suc n) (pos + m) = drop (pos + m) content"
      using True Suc.prems by (intro Suc.IH) auto
    moreover have "take m (drop pos content) @ drop (pos + m) content = drop pos content"
      by (metis append_take_drop_id drop_drop add.commute)
    moreover have "nat (int pos + int m) = pos + m" by simp
    ultimately show ?thesis using True Suc.prems(1)
      by (subst read_pages.simps) (simp add: page_fields del: read_pages.simps)
  next
    case False
    with Suc.prems(1) show ?thesis by (simp add: page_fields)
  qed
qed (simp add: page_fields)

lemma show_nat_bound: "n < 10 ^ k \<Longrightarrow> 0 < k \<Longrightarrow> length (show_nat n) \<le> k"
proof (induction n arbitrary: k rule: show_nat.induct)
  case (1 n)
  show ?case
  proof (cases "n < 10")
    case True
    with 1(3) show ?thesis by (subst show_nat.simps) simp
  next
    case False
    with 1(2) obtain j where k: "k = Suc j" by (cases k) auto
    with False 1(2) have "0 < j" by (cases j) auto
    moreover have "n div 10 < 10 ^ j" using 1(2) by (simp add: k div_less_iff_less_mult mult.commute)
    ultimately have "length (show_nat (n div 10)) \<le> j" using False by (intro 1(1))
    with False k show ?thesis by (subst show_nat.simps) simp
  qed
qed

lemma decode_page_content:
  assumes "length content < 10 ^ 4300"
  shows "decode_page fl (page_content content ref pos m) = page_payload content ref pos m"
proof -
  have d: "length (show_nat k) \<le> 4300" if "k \<le> length content" for k
    by (rule show_nat_bound [OF le_less_trans [OF that assms]]) simp
  have "json_ok fl (JObj (page_payload content ref pos m))" by (simp add: page_payload_def Let_def d)
  from loads_dumps [OF this] show ?thesis by (simp add: decode_page_def page_content_def json_result_def)
qed

lemma split_end_parts: "split_end mark s = Some (b, e) \<Longrightarrow> s = b @ e"
proof -
  assume a: "split_end mark s = Some (b, e)"
  let ?t = "rstrip_while is_space s"
  obtain u where u: "s = ?t @ u"
    unfolding rstrip_while_def by (metis rev_append rev_rev_ident takeWhile_dropWhile_id)
  let ?n = "length ?t - length mark"
  have "take ?n s = take ?n ?t" by (subst u) simp
  with a show ?thesis by (auto simp: split_end_def Let_def split: if_splits)
qed

lemma suffix_parts: "body = drop k s \<Longrightarrow> take (length s - length body) s @ body = s"
  by (cases "k \<le> length s") simp_all

lemma dropWhile_drop: "x = drop j s \<Longrightarrow> \<exists>k. dropWhile P x = drop k s"
  by (metis dropWhile_eq_drop drop_drop)

lemma tagged_parts: "tagged_json s = Some (p, b, e) \<Longrightarrow> s = p @ b @ e"
proof -
  assume a: "tagged_json s = Some (p, b, e)"
  let ?r = "dropWhile is_space s"
  let ?name = "takeWhile tag_char (tl ?r)"
  let ?body = "dropWhile is_space (tl (drop (length ?name) (tl ?r)))"
  from a have se: "split_end (''</'' @ ?name @ ''>'') ?body = Some (b, e)" and p: "p = take (length s - length ?body) s"
    by (auto simp: tagged_json_def Let_def split: if_splits option.splits)
  obtain k where "?body = drop k s" by (metis dropWhile_eq_drop drop_Suc drop_drop drop_0)
  from suffix_parts [OF this] split_end_parts [OF se] p show ?thesis by simp
qed

lemma fenced_parts: "fenced_json s = Some (p, b, e) \<Longrightarrow> s = p @ b @ e"
proof -
  assume a: "fenced_json s = Some (p, b, e)"
  let ?r1 = "drop 3 (dropWhile is_space s)"
  let ?r2 = "if lower (take 4 ?r1) = ''json'' then drop 4 ?r1 else ?r1"
  let ?body = "dropWhile is_space ?r2"
  from a obtain b0 e0 where se: "split_end fence ?body = Some (b0, e0)" and p: "p = take (length s - length ?body) s"
    and b: "b = rstrip_while is_space b0" "e = drop (length b) ?body"
    by (auto simp: fenced_json_def Let_def split: if_splits option.splits)
  obtain i where i: "?r1 = drop i s" by (metis dropWhile_eq_drop drop_drop)
  have "\<exists>j. ?r2 = drop j s" unfolding i by auto
  then have "\<exists>k. ?body = drop k s" by (elim exE) (rule dropWhile_drop)
  then obtain k where "?body = drop k s" by (elim exE)
  note s = suffix_parts [OF this]
  obtain u where "b0 = b @ u"
    unfolding b rstrip_while_def by (metis rev_append rev_rev_ident takeWhile_dropWhile_id)
  with split_end_parts [OF se] have "?body = b @ e" by (simp add: b(2))
  with s p show ?thesis by simp
qed

text \<open>What a structured content was read from.\<close>

lemma parsed_origin:
  assumes "parse_structured_json fl content = Some p"
  shows "\<exists>body. json_loads_exact fl (strip body) = Some (parsed_value p)
    \<and> (prefix p = [] \<and> suffix p = [] \<and> body = strip content \<or> content = prefix p @ body @ suffix p)"
proof -
  have first: "\<exists>q b e. (q, b, e) \<in> set cs \<and> json_loads_exact fl (strip b) = Some (parsed_value p) \<and> prefix p = q \<and> suffix p = e"
    if "first_parsed fl cs = Some p" for cs
    using that by (induction fl cs rule: first_parsed.induct) (auto split: option.splits)
  from first [OF assms [unfolded parse_structured_json_def]] show ?thesis
    by (auto split: option.splits dest: sym [THEN tagged_parts] sym [THEN fenced_parts])
qed

lemma pages_recovered:
  assumes "zlib_law Z" "put_output sha Z now raises user content (tool_output_reference sha content) st = (True, st')"
    "now \<le> t" "0 < max_chunk_chars config" "length content < 10 ^ 4300"
  shows "read_pages (\<lambda>pos. decode_page fl (fst (run_retriever sha Z t False config (Inr user)
      \<lparr>in_reference = tool_output_reference sha content, in_query = None, in_offset = pos, in_max_chars = chars\<rparr> st')))
      (length content + 1) 0 = content"
proof -
  let ?i = "\<lambda>pos. \<lparr>in_reference = tool_output_reference sha content, in_query = None, in_offset = pos, in_max_chars = chars\<rparr>"
  define m where "m = page_limit config (?i 0)"
  have lim: "page_limit config (?i pos) = m" for pos by (simp add: m_def page_limit_def)
  have m: "0 < m" using assms(4) by (auto simp: m_def page_limit_def split: option.splits)
  have "decode_page fl (fst (run_retriever sha Z t False config (Inr user) (?i pos) st'))
      = page_payload content (tool_output_reference sha content) pos m" for pos
    using put_outcome(1) [OF assms(2)] get_after_put [OF assms(1-3)] lim decode_page_content [OF assms(5)]
    by (simp add: run_retriever_def)
  moreover have "length content \<le> 0 + length content * m" using m by simp
  ultimately show ?thesis using pages_exact [OF m, of 0 content "length content"] by simp
  qed

section \<open>Isolation of users\<close>

text \<open>The cache under any sequence of results, reads and expiries; the log lists whose results were
  replaced by a preview.\<close>

type_synonym output_log = "(string \<times> string) list"

inductive output_step ::
  "(string \<Rightarrow> pyfloat) \<Rightarrow> (string \<Rightarrow> string) \<Rightarrow> zlib \<Rightarrow> output_store \<times> output_log \<Rightarrow> output_store \<times> output_log \<Rightarrow> bool"
  for fl sha Z where
  os_optimize: "optimize_tool_content fl sha Z now raises content tool query user settings st = (r, st') \<Longrightarrow>
     output_step fl sha Z (st, kept) (st', if mode r = ''reversible_preview'' then (user, content) # kept else kept)"
| os_get: "get_output sha Z now raises user ref st = (c, st') \<Longrightarrow> output_step fl sha Z (st, kept) (st', kept)"
| os_expire: "output_step fl sha Z (st, kept) (st\<lparr>cache := (cache st)(k := None)\<rparr>, kept)"

definition output_init :: "output_store \<times> output_log \<Rightarrow> bool" where
  "output_init s \<longleftrightarrow> cache (fst s) = (\<lambda>_. None) \<and> snd s = []"

definition output_inv :: "(string \<Rightarrow> string) \<Rightarrow> zlib \<Rightarrow> output_store \<times> output_log \<Rightarrow> bool" where
  "output_inv sha Z s \<longleftrightarrow>
     (\<forall>k p e. cache (fst s) k = Some (p, e) \<longrightarrow>
        (\<exists>(u, c) \<in> set (snd s). k = user_cache_key sha u (tool_output_reference sha c) \<and> p = CACHE_VERSION @ compress Z c))"

lemma get_cache: "get_output sha Z now raises user ref st = (c, st') \<Longrightarrow> cache st' = cache st"
  by (auto simp: get_output_def split: if_splits option.splits)

lemma modes_differ:
  "mode (unchanged_content c) \<noteq> ''reversible_preview''" "mode (lossless_content c p) \<noteq> ''reversible_preview''"
  by (auto simp: unchanged_content_def lossless_content_def Let_def split: option.splits)

interpretation outputs: invariant_system output_init "output_step fl sha Z" "output_inv sha Z" for fl sha Z
proof
  show "output_inv sha Z s" if "output_init s" for s
    using that by (simp add: output_init_def output_inv_def)
  show "output_inv sha Z t" if "output_inv sha Z s" "output_step fl sha Z s t" for s t
    using that(2,1)
  proof cases
    case (os_optimize now raises content tool query user settings st r st' kept)
    from optimize_outcome [OF os_optimize(3)] show ?thesis
    proof
      assume "(r = unchanged_content content \<or> r = lossless_content content (parse_structured_json fl content)) \<and> cache st' = cache st"
      with that(1) os_optimize(1,2) modes_differ show ?thesis by (auto simp: output_inv_def)
    next
      assume p: "mode r = ''reversible_preview'' \<and> reference r = Some (tool_output_reference sha content)
        \<and> put_output sha Z now raises user content (tool_output_reference sha content) st = (True, st')"
      with that(1) os_optimize(1,2) put_outcome(1) [of sha Z now raises user content _ st st'] show ?thesis
        by (fastforce simp: output_inv_def split: if_splits)
    qed
  next
    case (os_get now raises user ref st c st' kept)
    with that(1) get_cache show ?thesis by (fastforce simp: output_inv_def)
  next
    case (os_expire st kept k)
    with that(1) show ?thesis by (auto simp: output_inv_def)
  qed
qed

lemma cache_key_user:
  assumes "length (sha u) = length (sha v)" "user_cache_key sha u r = user_cache_key sha v q"
  shows "take 24 (sha u) = take 24 (sha v) \<and> r = q"
  using assms by (auto simp: user_cache_key_def)

section \<open>Properties\<close>

text \<open>C35. Compaction never loses information: the optimised text is the original itself, or the same value
  with the white space removed (reading it back gives the value that was read from the original, between
  the same wrapper), or a preview whose reference lets the same user read the whole original, character
  by character, by following the pages, at any later time at which the cache still has it.\<close>

theorem compaction_recoverable:
  assumes "repr_law fl" and "zlib_law Z" and "length content < 10 ^ 4300"
    and "optimize_tool_content fl sha Z now raises content tool query user settings st = (r, st')"
  shows "mode r = ''unchanged'' \<and> content_text r = content
    \<or> mode r = ''lossless_json'' \<and> (\<exists>p v e body. content_text r = p @ json_dumps v @ e \<and> json_loads_exact fl (json_dumps v) = Some v
        \<and> json_loads_exact fl (strip body) = Some v \<and> (p = [] \<and> e = [] \<and> body = strip content \<or> content = p @ body @ e))
    \<or> mode r = ''reversible_preview'' \<and> (\<exists>ref. reference r = Some ref
        \<and> (\<forall>t config chars. now \<le> t \<longrightarrow> 0 < max_chunk_chars config \<longrightarrow>
             read_pages (\<lambda>pos. decode_page fl (fst (run_retriever sha Z t False config (Inr user)
                \<lparr>in_reference = ref, in_query = None, in_offset = pos, in_max_chars = chars\<rparr> st'))) (length content + 1) 0
             = content))"
  using optimize_outcome [OF assms(4)]
proof (elim disjE conjE)
  assume "r = unchanged_content content"
  then show ?thesis by (simp add: unchanged_content_def)
next
  assume r: "r = lossless_content content (parse_structured_json fl content)"
  show ?thesis
  proof (cases "parse_structured_json fl content")
    case None
    with r show ?thesis by (simp add: lossless_content_def unchanged_content_def)
  next
    case (Some p)
    from parsed_origin [OF Some] obtain body where b: "json_loads_exact fl (strip body) = Some (parsed_value p)"
      "prefix p = [] \<and> suffix p = [] \<and> body = strip content \<or> content = prefix p @ body @ suffix p" by blast
    have "json_loads_exact fl (json_dumps (parsed_value p)) = Some (parsed_value p)"
      using loads_dumps loads_ok [OF assms(1) b(1)] by blast
    with b show ?thesis unfolding r Some
      by (auto simp: lossless_content_def unchanged_content_def render_def Let_def)
  qed
next
  assume p: "mode r = ''reversible_preview''" "reference r = Some (tool_output_reference sha content)"
    "put_output sha Z now raises user content (tool_output_reference sha content) st = (True, st')"
  from pages_recovered [OF assms(2) p(3) _ _ assms(3)] p(1,2) show ?thesis by blast
qed

definition sample_float :: "string \<Rightarrow> pyfloat" where
  "sample_float s = (if s = ''1.5'' then Finite (3 / 2) ''1.5'' else NaN)"

definition sample_sha :: "string \<Rightarrow> string" where
  "sample_sha s = replicate 64 (if s = ''alice'' then CHR ''a'' else CHR ''0'')"

definition sample_zlib :: zlib where
  "sample_zlib = \<lparr>compress = id, decompress = Some\<rparr>"

definition sample_settings :: compaction_settings where
  "sample_settings =
     \<lparr>enabled = True, min_chars = 0, max_items = 1, min_savings_chars = -1000, max_compacted_ratio = 1000,
      max_original_chars = 1000, cache_ttl_seconds = 7200, article_excerpt_chars = 800\<rparr>"

definition sample_store :: output_store where
  "sample_store = new_output_store 60 30"

lemma sample_laws: "repr_law sample_float" "zlib_law sample_zlib"
proof -
  have "number_token ''1.5'' = Some (True, ''1.5'', [])" by code_simp
  then show "repr_law sample_float" by (auto simp: repr_law_def sample_float_def split: if_splits)
  show "zlib_law sample_zlib" by (simp add: zlib_law_def sample_zlib_def)
qed

definition sample_run :: "optimized_content \<times> output_store" where
  "sample_run = optimize_tool_content sample_float sample_sha sample_zlib 0 False ''[1,1.5,2]'' ''t'' ''q'' ''alice''
     sample_settings sample_store"

lemma sample_run_result:
  "optimize_tool_content sample_float sample_sha sample_zlib 0 False ''[1,1.5,2]'' ''t'' ''q'' ''alice''
     sample_settings sample_store = (fst sample_run, snd sample_run)"
  by (simp only: prod.collapse sample_run_def)

lemma sample_preview: "mode (fst sample_run) = ''reversible_preview'' \<and> content_text (fst sample_run) \<noteq> ''[1,1.5,2]''"
  by code_simp

theorem compaction_recoverable_witness:
  "\<exists>ref. reference (fst sample_run) = Some ref \<and>
     read_pages (\<lambda>pos. decode_page sample_float (fst (run_retriever sample_sha sample_zlib 5 False
        \<lparr>max_chunk_chars = 4, max_matches = 1, context_chars = 50\<rparr> (Inr ''alice'')
        \<lparr>in_reference = ref, in_query = None, in_offset = pos, in_max_chars = None\<rparr> (snd sample_run)))) 10 0 = ''[1,1.5,2]''"
proof -
  have "length ''[1,1.5,2]'' < 10 ^ 1" by simp
  also have "\<dots> \<le> 10 ^ 4300" by (rule power_increasing) simp_all
  finally have short: "length ''[1,1.5,2]'' < 10 ^ 4300" .
  from compaction_recoverable [OF sample_laws short sample_run_result] sample_preview obtain ref
    where ref: "reference (fst sample_run) = Some ref"
      and pages: "\<forall>t config chars. 0 \<le> t \<longrightarrow> 0 < max_chunk_chars config \<longrightarrow>
        read_pages (\<lambda>pos. decode_page sample_float (fst (run_retriever sample_sha sample_zlib t False config (Inr ''alice'')
          \<lparr>in_reference = ref, in_query = None, in_offset = pos, in_max_chars = chars\<rparr> (snd sample_run)))) (length ''[1,1.5,2]'' + 1) 0
        = ''[1,1.5,2]''" by auto
  have len: "length ''[1,1.5,2]'' + 1 = 10" by simp
  show ?thesis
    by (intro exI [of _ ref] conjI ref, rule pages [unfolded len, rule_format]) simp_all
qed

text \<open>Cached results stay with their user: in every history of results, reads and expiries, a text that a
  retrieval returns to a user was produced as a result for that same user, under the reference asked for,
  as long as the hashes of the users differ.\<close>

theorem outputs_isolated:
  assumes "reach output_init (output_step fl sha Z) (st, kept)" and "zlib_law Z" and "\<forall>x. length (sha x) = 64"
    and "\<forall>u c. (u, c) \<in> set kept \<longrightarrow> u \<noteq> user \<longrightarrow> take 24 (sha u) \<noteq> take 24 (sha user)"
    and "get_output sha Z now raises user ref st = (Some c, st')"
  shows "(user, c) \<in> set kept \<and> ref = tool_output_reference sha c"
proof -
  from assms(5) obtain p e where p: "cache st (user_cache_key sha user ref) = Some (p, e)"
    "decompress Z (drop (length CACHE_VERSION) p) = Some c" "tool_output_reference sha c = ref"
    by (auto simp: get_output_def split: if_splits option.splits)
  from outputs.reach_inv [OF assms(1)] p(1) obtain u d where ud: "(u, d) \<in> set kept"
    "user_cache_key sha user ref = user_cache_key sha u (tool_output_reference sha d)" "p = CACHE_VERSION @ compress Z d"
    by (fastforce simp: output_inv_def)
  have "c = d" using p(2) ud(3) assms(2) by (simp add: zlib_law_def)
  moreover from cache_key_user [OF _ ud(2)] assms(3) have "take 24 (sha user) = take 24 (sha u)" by simp
  with assms(4) ud(1) have "u = user" by metis
  ultimately show ?thesis using ud(1) p(3) by simp
qed

theorem outputs_isolated_witness:
  "(''alice'', ''[1,1.5,2]'') \<in> set [(''alice'', ''[1,1.5,2]'')]
   \<and> fst (get_output sample_sha sample_zlib 1 False ''alice'' (tool_output_reference sample_sha ''[1,1.5,2]'') (snd sample_run))
     = Some ''[1,1.5,2]''"
proof -
  have init: "reach output_init (output_step sample_float sample_sha sample_zlib) (sample_store, [])"
    by (rule reach_start) (simp add: output_init_def sample_store_def new_output_store_def)
  from os_optimize [OF sample_run_result, of "[]"] sample_preview
  have st: "output_step sample_float sample_sha sample_zlib (sample_store, []) (snd sample_run, [(''alice'', ''[1,1.5,2]'')])"
    by simp
  have r: "reach output_init (output_step sample_float sample_sha sample_zlib) (snd sample_run, [(''alice'', ''[1,1.5,2]'')])"
    by (rule reach_next [where s = "(sample_store, [])", OF init st])
  have g: "get_output sample_sha sample_zlib 1 False ''alice'' (tool_output_reference sample_sha ''[1,1.5,2]'') (snd sample_run)
    = (Some ''[1,1.5,2]'', snd sample_run)"
  proof -
    have "fst (get_output sample_sha sample_zlib 1 False ''alice'' (tool_output_reference sample_sha ''[1,1.5,2]'') (snd sample_run))
      = Some ''[1,1.5,2]''" by code_simp
    then show ?thesis by (auto simp: get_output_def split: if_splits option.splits)
  qed
  from outputs_isolated [OF r sample_laws(2) _ _ g] show ?thesis by (auto simp: sample_sha_def g)
qed

text \<open>The rows of a preview: strictly increasing positions of the array, exactly as many as allowed (or
  all), starting with the first row; when five or more are allowed, the first three and last two rows and
  the first rows that show a failure are among them.\<close>

theorem preview_rows:
  assumes "items \<noteq> []" and "budget = min (nat (max 1 row_limit)) (length items)"
    and "r = select_indices items row_limit query"
  shows "sorted_wrt (<) r \<and> set r \<subseteq> {..<length items} \<and> length r = budget \<and> hd r = 0
    \<and> (5 \<le> budget \<longrightarrow> set (boundary_indices (length items)) \<union> set (guaranteed_signals budget items) \<subseteq> set r)"
proof -
  have "1 \<le> budget" using assms(1,2) by (cases items) auto
  from rows_of_chosen [OF assms(1) this] select_indices_chosen [OF assms(1), of row_limit query]
  show ?thesis unfolding assms(2,3) by blast
qed

definition sample_rows :: "json list" where
  "sample_rows = [JInt 0, JInt 0, JInt 0, JStr ''Error: x'', JInt 1, JInt 1, JInt 1, JInt 1]"

theorem preview_rows_witness: "3 \<in> set (select_indices sample_rows 6 ''q'') \<and> length (select_indices sample_rows 6 ''q'') = 6"
proof -
  have "3 \<in> set (guaranteed_signals 6 sample_rows)" by code_simp
  moreover have l: "length sample_rows = 8" by (simp add: sample_rows_def)
  then have ne: "sample_rows \<noteq> []" and b: "6 = min (nat (max 1 6)) (length sample_rows)" by auto
  moreover have "5 \<le> (6::nat)" by simp
  ultimately show ?thesis using preview_rows [OF ne b refl, of "''q''"] by blast
qed

text \<open>The excerpts of an article keep to their budget: they are disjoint, non-empty windows of the article
  in its order, their texts together have at most the allowed number of characters, and the beginning and
  the end of the article are always shown.\<close>

theorem excerpts_within_budget:
  assumes "800 \<le> budget" and "budget < length article" and "ws = excerpt_windows budget terms article"
  shows "sum_list (map (\<lambda>w. length (window_text article w)) ws) \<le> budget
    \<and> sorted_wrt (\<lambda>v w. snd v \<le> fst w) ws \<and> list_all (\<lambda>w. fst w < snd w \<and> snd w \<le> length article) ws
    \<and> ws \<noteq> [] \<and> fst (hd ws) = 0 \<and> snd (last ws) = length article"
  using excerpts_fit [of budget article terms] assms by (simp add: Let_def)

theorem excerpts_within_budget_witness:
  "sum_list (map (\<lambda>w. length (window_text (replicate 1000 CHR ''x'') w)) (excerpt_windows 800 [] (replicate 1000 CHR ''x''))) \<le> 800
   \<and> snd (last (excerpt_windows 800 [] (replicate 1000 CHR ''x''))) = 1000"
  using excerpts_within_budget [of 800 "replicate 1000 CHR ''x''", OF _ _ refl] by simp

end
