(* ===== verification/Request_Budgets.thy ===== *)
theory Request_Budgets
  imports Py_Values Interfaces
begin

text \<open>
  Budgets of one request: the inbound chat history (\<open>nat_helpers/history_budget.py\<close>) and the image
  inputs (\<open>nat_helpers/image_input_budget.py\<close>).

  The length of the serialised form of a message is an argument (\<open>bytes_of\<close>, \<open>json.dumps\<close> encoded in
  UTF-8). Messages are dictionaries, as the callers have validated.
\<close>

section \<open>Chat history\<close>

definition message_tokens :: "(dict \<Rightarrow> nat) \<Rightarrow> dict \<Rightarrow> nat" where
  "message_tokens bytes_of m = 8 + (bytes_of m + 3 - 1) div 3"

definition estimate_tokens :: "(dict \<Rightarrow> nat) \<Rightarrow> dict list \<Rightarrow> nat" where
  "estimate_tokens bytes_of messages = sum_list (map (message_tokens bytes_of) messages)"

definition message_role :: "dict \<Rightarrow> string" where
  "message_role m = lower (py_str (py_or (py_or (dict_get m ''role'') (dict_get m ''type'')) (JStr [])))"

definition START_ROLES :: "string list" where
  "START_ROLES = [''human'', ''system'', ''user'']"

text \<open>\<open>messages[-n:]\<close> for any integer \<open>n\<close>.\<close>

definition last_messages :: "int \<Rightarrow> 'a list \<Rightarrow> 'a list" where
  "last_messages n xs = (if 0 < n then drop (length xs - nat n) xs else drop (nat (- n)) xs)"

text \<open>The loop over the earlier messages, newest first: \<open>selected\<close> is kept in the order of the history.\<close>

fun select_loop :: "(dict \<Rightarrow> nat) \<Rightarrow> int \<Rightarrow> dict list \<Rightarrow> dict list \<Rightarrow> int \<Rightarrow> dict list" where
  "select_loop bytes_of max_tokens [] selected used = selected"
| "select_loop bytes_of max_tokens (m # older) selected used =
     (let t = int (estimate_tokens bytes_of [m]) in
      if used + t > max_tokens then selected
      else select_loop bytes_of max_tokens older (m # selected) (used + t))"

fun drop_until_start :: "dict list \<Rightarrow> dict list" where
  "drop_until_start [] = []"
| "drop_until_start [m] = [m]"
| "drop_until_start (m # n # ms) =
     (if message_role m \<notin> set START_ROLES then drop_until_start (n # ms) else m # n # ms)"

definition select_history_payloads :: "(dict \<Rightarrow> nat) \<Rightarrow> int \<Rightarrow> int \<Rightarrow> dict list \<Rightarrow> dict list" where
  "select_history_payloads bytes_of max_messages max_tokens messages =
     (let candidates = last_messages max_messages messages in
      if candidates = [] then []
      else drop_until_start (select_loop bytes_of max_tokens (rev (butlast candidates)) [last candidates]
             (int (estimate_tokens bytes_of [last candidates]))))"

section \<open>Image inputs\<close>

definition MAX_IMAGE_INPUT_BYTES :: int where
  "MAX_IMAGE_INPUT_BYTES = 50 * 1024 * 1024"

definition MAX_IMAGE_REQUEST_BYTES :: int where
  "MAX_IMAGE_REQUEST_BYTES = 64 * 1024 * 1024"

text \<open>\<open>base64.b64decode(value, validate=True)\<close>: whole groups of the alphabet, padding at the end only.\<close>

definition b64_value :: "char \<Rightarrow> nat option" where
  "b64_value c =
     (if is_upper_letter c then Some (code c - 65)
      else if is_lower_letter c then Some (code c - 71)
      else if is_digit c then Some (code c + 4)
      else if c = CHR ''+'' then Some 62 else if c = CHR ''/'' then Some 63 else None)"

fun b64decode :: "string \<Rightarrow> nat list option" where
  "b64decode [] = Some []"
| "b64decode (a # b # c # d # rest) =
     (case (b64_value a, b64_value b) of
        (Some x, Some y) \<Rightarrow>
          if c = CHR ''='' then (if d = CHR ''='' \<and> rest = [] then Some [x * 4 + y div 16] else None)
          else (case b64_value c of
                  None \<Rightarrow> None
                | Some z \<Rightarrow>
                    if d = CHR ''='' then (if rest = [] then Some [x * 4 + y div 16, y mod 16 * 16 + z div 4] else None)
                    else (case (b64_value d, b64decode rest) of
                            (Some w, Some bs) \<Rightarrow>
                              Some ([x * 4 + y div 16, y mod 16 * 16 + z div 4, z mod 4 * 64 + w] @ bs)
                          | _ \<Rightarrow> None))
      | _ \<Rightarrow> None)"
| "b64decode _ = None"

record image_budget =
  decoded_bytes :: int
  multipart_bytes :: int

definition new_budget :: image_budget where
  "new_budget = \<lparr>decoded_bytes = 0, multipart_bytes = 0\<rparr>"

definition over_budget :: py_error where
  "over_budget = ValueError ''image inputs exceed the 64 MiB request or 50 MiB file budget''"

definition decode_image :: "json \<Rightarrow> image_budget \<Rightarrow> nat list result \<times> image_budget" where
  "decode_image v b =
     (let remaining = min (MAX_IMAGE_INPUT_BYTES - 1) (MAX_IMAGE_REQUEST_BYTES - decoded_bytes b) in
      case v of
        JStr s \<Rightarrow>
          if int (length s) > 4 * ((remaining + 2) div 3) then (Inl over_budget, b)
          else (case b64decode s of
                  None \<Rightarrow> (Inl (ValueError ''image input is not valid base64''), b)
                | Some decoded \<Rightarrow>
                    if int (length decoded) > remaining then (Inl over_budget, b)
                    else (Inr decoded, b\<lparr>decoded_bytes := decoded_bytes b + int (length decoded)\<rparr>))
      | _ \<Rightarrow> (Inl over_budget, b))"

definition add_part :: "nat list \<Rightarrow> image_budget \<Rightarrow> unit result \<times> image_budget" where
  "add_part bytes b =
     (if multipart_bytes b + int (length bytes) > MAX_IMAGE_REQUEST_BYTES
      then (Inl (ValueError ''image inputs exceed the 64 MiB multipart request budget''), b)
      else (Inr (), b\<lparr>multipart_bytes := multipart_bytes b + int (length bytes)\<rparr>))"

section \<open>The history selection and its specification\<close>

text \<open>Reference: of all non-empty suffixes of the candidates, longest first, the first that is a single
  message or fits the token limit; then everything before the first message that may start a
  conversation is dropped, but never the last message.\<close>

definition fits :: "(dict \<Rightarrow> nat) \<Rightarrow> int \<Rightarrow> dict list \<Rightarrow> bool" where
  "fits bytes_of max_tokens s = (length s = 1 \<or> int (estimate_tokens bytes_of s) \<le> max_tokens)"

definition nonempty_suffixes :: "'a list \<Rightarrow> 'a list list" where
  "nonempty_suffixes xs = map (\<lambda>i. drop i xs) [0..<length xs]"

definition longest_fitting :: "(dict \<Rightarrow> nat) \<Rightarrow> int \<Rightarrow> dict list \<Rightarrow> dict list" where
  "longest_fitting bytes_of max_tokens candidates = hd (filter (fits bytes_of max_tokens) (nonempty_suffixes candidates))"

definition from_first_start :: "dict list \<Rightarrow> dict list" where
  "from_first_start s =
     dropWhile (\<lambda>m. message_role m \<notin> set START_ROLES) (butlast s) @ [last s]"

lemma estimate_simps [simp]:
  "estimate_tokens bytes_of [] = 0"
  "estimate_tokens bytes_of (m # ms) = message_tokens bytes_of m + estimate_tokens bytes_of ms"
  by (simp_all add: estimate_tokens_def)

lemma estimate_append:
  "estimate_tokens bytes_of (xs @ ys) = estimate_tokens bytes_of xs + estimate_tokens bytes_of ys"
  by (simp add: estimate_tokens_def)

lemma drop_until_start_spec: "s \<noteq> [] \<Longrightarrow> drop_until_start s = from_first_start s"
  by (induction s rule: drop_until_start.induct) (auto simp: from_first_start_def)

lemma filter_upt_nonempty:
  assumes "i < n" "P (f i)"
  shows "filter P (map f [0..<n]) \<noteq> []"
proof -
  from assms have "f i \<in> set (filter P (map f [0..<n]))" by auto
  then show ?thesis by force
qed

text \<open>The loop stops at the longest suffix that fits.\<close>

lemma select_loop_longest:
  assumes "selected \<noteq> []" "used = int (estimate_tokens bytes_of selected)"
    "length selected = 1 \<or> used \<le> max_tokens"
  shows "select_loop bytes_of max_tokens older selected used
    = hd (filter (fits bytes_of max_tokens) (map (\<lambda>i. drop i (rev older @ selected)) [0..<length older + 1]))"
  using assms
proof (induction older arbitrary: selected used)
  case Nil
  then show ?case by (simp add: fits_def)
next
  case (Cons m older)
  let ?all = "rev older @ m # selected"
  have upt: "[0..<length (m # older) + 1] = [0..<length older + 1] @ [length older + 1]" by simp
  have all: "rev (m # older) @ selected = ?all" by simp
  have last: "drop (length older + 1) ?all = selected" by simp
  let ?F = "\<lambda>is. filter (fits bytes_of max_tokens) (map (\<lambda>i. drop i ?all) is)"
  have split: "?F [0..<length (m # older) + 1] = ?F [0..<length older + 1] @ filter (fits bytes_of max_tokens) [selected]"
    unfolding upt map_append filter_append list.map last ..
  show ?case
  proof (cases "used + int (estimate_tokens bytes_of [m]) > max_tokens")
    case True
    have none: "\<not> fits bytes_of max_tokens (drop i ?all)" if "i < length older + 1" for i
    proof -
      have "drop i ?all = drop i (rev older) @ m # selected" using that by simp
      moreover have "int (estimate_tokens bytes_of (drop i (rev older) @ m # selected)) > max_tokens"
        using True Cons.prems(2) by (simp add: estimate_append)
      ultimately show ?thesis using Cons.prems(1) by (cases selected) (auto simp: fits_def)
    qed
    have "filter (fits bytes_of max_tokens) (map (\<lambda>i. drop i ?all) [0..<length older + 1]) = []"
      unfolding filter_empty_conv set_map set_upt using none by fastforce
    moreover have "fits bytes_of max_tokens selected" using Cons.prems by (auto simp: fits_def)
    ultimately show ?thesis unfolding all split using True by simp
  next
    case False
    have "select_loop bytes_of max_tokens older (m # selected) (used + int (estimate_tokens bytes_of [m]))
        = hd (filter (fits bytes_of max_tokens) (map (\<lambda>i. drop i (rev older @ m # selected)) [0..<length older + 1]))"
      using False Cons.prems by (intro Cons.IH) auto
    moreover have "fits bytes_of max_tokens (drop (length older) ?all)"
      using False Cons.prems(2) by (simp add: fits_def)
    then have "filter (fits bytes_of max_tokens) (map (\<lambda>i. drop i ?all) [0..<length older + 1]) \<noteq> []"
      using filter_upt_nonempty [of "length older" "length older + 1" "fits bytes_of max_tokens" "\<lambda>i. drop i ?all"]
      by simp
    ultimately show ?thesis unfolding all split using False by (simp add: Let_def del: upt_Suc drop_append)
  qed
qed

lemma longest_fitting_suffix:
  assumes "c \<noteq> []"
  shows "\<exists>i. longest_fitting bytes_of max_tokens c = drop i c \<and> i < length c
    \<and> fits bytes_of max_tokens (longest_fitting bytes_of max_tokens c)"
proof -
  have "filter (fits bytes_of max_tokens) (nonempty_suffixes c) \<noteq> []"
    using assms unfolding nonempty_suffixes_def
    by (intro filter_upt_nonempty [where i = "length c - 1"]) (auto simp: fits_def Suc_leI)
  then have "longest_fitting bytes_of max_tokens c \<in> set (filter (fits bytes_of max_tokens) (nonempty_suffixes c))"
    unfolding longest_fitting_def by (rule hd_in_set)
  then show ?thesis by (auto simp: nonempty_suffixes_def)
qed

lemma from_first_start_suffix:
  assumes "s \<noteq> []"
  shows "\<exists>k. from_first_start s = drop k s \<and> k < length s"
proof -
  let ?d = "dropWhile (\<lambda>m. message_role m \<notin> set START_ROLES) (butlast s)"
  obtain k where d: "?d = drop k (butlast s)" "k \<le> length (butlast s)"
    using dropWhile_eq_drop length_takeWhile_le by blast
  then have "from_first_start s = drop k (butlast s @ [last s])" unfolding from_first_start_def by simp
  moreover have "0 < length s" using assms by simp
  with d(2) have "k < length s" unfolding length_butlast by linarith
  ultimately show ?thesis using assms by auto
qed

lemma fits_suffix: "fits bytes_of max_tokens s \<Longrightarrow> k < length s \<Longrightarrow> fits bytes_of max_tokens (drop k s)"
  using estimate_append [of bytes_of "take k s" "drop k s"] by (auto simp: fits_def)

text \<open>What the selection is, and what it keeps.\<close>

lemma history_selection_parts:
  fixes bytes_of max_messages max_tokens messages
  defines "c \<equiv> last_messages max_messages messages" and "r \<equiv> select_history_payloads bytes_of max_messages max_tokens messages"
  assumes "last_messages max_messages messages \<noteq> []"
  shows "r = from_first_start (longest_fitting bytes_of max_tokens c)" "r \<noteq> []" "last r = last messages" "\<exists>older. messages = older @ r"
    "length r = 1 \<or> int (estimate_tokens bytes_of r) \<le> max_tokens"
proof -
  let ?l = "longest_fitting bytes_of max_tokens c"
  have ne0: "c \<noteq> []" using assms(3) by (simp add: c_def)
  have "select_loop bytes_of max_tokens (rev (butlast c)) [last c] (int (estimate_tokens bytes_of [last c])) = ?l"
    using select_loop_longest [of "[last c]" "int (estimate_tokens bytes_of [last c])" bytes_of max_tokens "rev (butlast c)"]
      ne0 by (simp add: longest_fitting_def nonempty_suffixes_def)
  moreover obtain i where l: "?l = drop i c" "i < length c" "fits bytes_of max_tokens ?l"
    using longest_fitting_suffix [OF ne0] by blast
  ultimately show r: "r = from_first_start ?l"
    using ne0 by (simp add: r_def c_def select_history_payloads_def Let_def drop_until_start_spec)
  have ne: "?l \<noteq> []" using l by simp
  obtain k where k: "r = drop k ?l" "k < length ?l" using from_first_start_suffix [OF ne] r by auto
  then show "r \<noteq> []" by simp
  obtain older where older: "messages = older @ c"
    unfolding c_def last_messages_def by (metis append_take_drop_id)
  have "last r = last c" using k l by simp
  moreover have "last c = last messages" using older ne0 by (metis last_appendR)
  ultimately show "last r = last messages" by simp
  show "\<exists>older. messages = older @ r"
    using k l older by (metis append.assoc append_take_drop_id)
  show "length r = 1 \<or> int (estimate_tokens bytes_of r) \<le> max_tokens"
    using fits_suffix [OF l(3) k(2)] unfolding k(1) fits_def .
qed

section \<open>Properties\<close>

text \<open>C34. The history selection computes its specification: the greedy loop returns the longest suffix of
  the newest messages that fits the token limit (or the last message alone), cut at the first message that
  may start a conversation. So the current request is never removed, messages are kept whole and in order,
  and unless the last message alone exceeds it the limit is kept.\<close>

theorem history_selection:
  assumes "last_messages max_messages messages \<noteq> []"
  shows "let c = last_messages max_messages messages;
             r = select_history_payloads bytes_of max_messages max_tokens messages in
    r = from_first_start (longest_fitting bytes_of max_tokens c)
    \<and> last r = last messages \<and> (\<exists>older. messages = older @ r)
    \<and> (length r = 1 \<or> int (estimate_tokens bytes_of r) \<le> max_tokens)"
  using history_selection_parts [OF assms] by (simp add: Let_def)

theorem history_selection_witness:
  "select_history_payloads (\<lambda>_. 3) 2 9 [[(''role'', JStr ''user'')], [(''role'', JStr ''assistant'')]]
     = from_first_start (longest_fitting (\<lambda>_. 3) 9 [[(''role'', JStr ''user'')], [(''role'', JStr ''assistant'')]])"
proof -
  let ?m = "[[(''role'', JStr ''user'')], [(''role'', JStr ''assistant'')]]"
  have c: "last_messages 2 ?m = ?m" by (simp add: last_messages_def)
  have "last_messages 2 ?m \<noteq> []" by (simp add: c)
  from history_selection [OF this, of "\<lambda>_. 3" 9] show ?thesis by (simp add: Let_def c)
qed

text \<open>Decoding: three bytes for every group of four characters at most.\<close>

lemma b64decode_length: "b64decode s = Some bs \<Longrightarrow> 4 * length bs \<le> 3 * length s"
proof (induction s arbitrary: bs rule: b64decode.induct)
  case (2 a b c d rest)
  then show ?case
    by (auto split: option.splits if_splits)
qed auto

text \<open>The budget of one request under any sequence of decodes and parts.\<close>

inductive budget_step :: "image_budget \<Rightarrow> image_budget \<Rightarrow> bool" where
  bs_decode: "decode_image v b = (r, b') \<Longrightarrow> budget_step b b'"
| bs_part: "add_part bytes b = (r, b') \<Longrightarrow> budget_step b b'"

definition budget_ok :: "image_budget \<Rightarrow> bool" where
  "budget_ok b = (0 \<le> decoded_bytes b \<and> decoded_bytes b \<le> MAX_IMAGE_REQUEST_BYTES
    \<and> 0 \<le> multipart_bytes b \<and> multipart_bytes b \<le> MAX_IMAGE_REQUEST_BYTES)"

lemma decode_result:
  assumes "decode_image v b = (r, b')"
  shows "(\<exists>e. r = Inl e \<and> b' = b) \<or>
    (\<exists>s bytes. v = JStr s \<and> b64decode s = Some bytes \<and> r = Inr bytes
       \<and> int (length bytes) < MAX_IMAGE_INPUT_BYTES
       \<and> decoded_bytes b + int (length bytes) \<le> MAX_IMAGE_REQUEST_BYTES
       \<and> b' = b\<lparr>decoded_bytes := decoded_bytes b + int (length bytes)\<rparr>)"
  using assms
  by (cases v) (auto simp: decode_image_def Let_def split: option.splits if_splits)

interpretation image_budgets: invariant_system "\<lambda>b. b = new_budget" budget_step budget_ok
proof
  show "budget_ok b" if "b = new_budget" for b
    using that by (simp add: budget_ok_def new_budget_def MAX_IMAGE_REQUEST_BYTES_def)
  show "budget_ok b'" if "budget_ok b" "budget_step b b'" for b b'
    using that(2,1)
  proof cases
    case (bs_decode v r)
    from decode_result [OF bs_decode] that(1) show ?thesis by (auto simp: budget_ok_def)
  next
    case (bs_part bytes r)
    with that(1) show ?thesis by (auto simp: add_part_def budget_ok_def split: if_splits)
  qed
qed

text \<open>Image inputs are bounded: in every request, whatever is decoded or attached, the decoded bytes and
  the multipart bytes never exceed 64 MiB and a decoded file is smaller than 50 MiB; a valid base64 text
  is refused only when what it decodes to, or could decode to by its length, exceeds what is left; and a
  refusal charges nothing.\<close>

theorem image_budget_kept:
  assumes "reach (\<lambda>b. b = new_budget) budget_step b" and "decode_image v b = (r, b')"
  shows "budget_ok b \<and> budget_ok b'
    \<and> (\<forall>bytes. r = Inr bytes \<longrightarrow> int (length bytes) < MAX_IMAGE_INPUT_BYTES
         \<and> decoded_bytes b' = decoded_bytes b + int (length bytes))
    \<and> (\<not> is_ok r \<longrightarrow> b' = b)
    \<and> (\<forall>s bytes. v = JStr s \<longrightarrow> b64decode s = Some bytes \<longrightarrow> \<not> is_ok r \<longrightarrow>
         3 * int (length s) > 4 * min (MAX_IMAGE_INPUT_BYTES - 1) (MAX_IMAGE_REQUEST_BYTES - decoded_bytes b))"
proof -
  have ok: "budget_ok b" using assms(1) by (rule image_budgets.reach_inv)
  have "budget_ok b'" by (rule image_budgets.trans_inv [OF ok bs_decode [OF assms(2)]])
  moreover have "3 * int (length s) > 4 * min (MAX_IMAGE_INPUT_BYTES - 1) (MAX_IMAGE_REQUEST_BYTES - decoded_bytes b)"
    if "v = JStr s" "b64decode s = Some bytes" "\<not> is_ok r" for s bytes
  proof -
    define m where "m = min (MAX_IMAGE_INPUT_BYTES - 1) (MAX_IMAGE_REQUEST_BYTES - decoded_bytes b)"
    from assms(2) that have "int (length s) > 4 * ((m + 2) div 3) \<or> int (length bytes) > m"
      by (auto simp: decode_image_def Let_def m_def split: if_splits)
    moreover have "3 * ((m + 2) div 3) \<ge> m" by presburger
    moreover have "4 * int (length bytes) \<le> 3 * int (length s)"
      using b64decode_length [OF that(2)] by linarith
    ultimately have "3 * int (length s) > 4 * m" by (smt (verit))
    then show ?thesis by (simp add: m_def)
  qed
  ultimately show ?thesis using ok decode_result [OF assms(2)] by auto
qed

theorem image_budget_kept_witness:
  "fst (decode_image (JStr ''QUJD'') new_budget) = Inr [65, 66, 67]
   \<and> budget_ok (snd (decode_image (JStr ''QUJD'') new_budget))"
proof -
  have d: "b64decode ''QUJD'' = Some [65, 66, 67]" by code_simp
  have r: "reach (\<lambda>b. b = new_budget) budget_step new_budget" by (rule reach_start) simp
  obtain x b' where e: "decode_image (JStr ''QUJD'') new_budget = (x, b')"
    by (cases "decode_image (JStr ''QUJD'') new_budget")
  have "x = Inr [65, 66, 67]"
    using e d by (simp add: decode_image_def Let_def new_budget_def MAX_IMAGE_INPUT_BYTES_def
        MAX_IMAGE_REQUEST_BYTES_def)
  with image_budget_kept [OF r e] e show ?thesis by simp
qed

end
