(* ===== verification/Model_Routing.thy ===== *)
theory Model_Routing
  imports Py_Values
begin

text \<open>
  The routing policy of the main agent (\<open>nat_helpers/model_routing.py\<close>): the validated mapping, the
  selection made for a request and its promotion when a skill is loaded. Field validation by the
  schema library is written out for the three fields that the model declares.
\<close>

section \<open>The configuration\<close>

definition MODEL_PROFILES :: "string list" where
  "MODEL_PROFILES = [''max'', ''xhigh'', ''high'', ''medium'', ''low'', ''instant'']"

record routing =
  model_routes :: "(string \<times> string) list"
  request_model_profiles :: "(string \<times> string) list"
  skill_model_profiles :: "(string \<times> string) list"

abbreviation invalid_routing :: py_error where
  "invalid_routing \<equiv> ValueError ''validation error for ModelRoutingConfig''"

text \<open>A mapping field: every key and value is checked; an alias is stripped and has 1 to 256 characters.\<close>

definition route_alias :: "json \<Rightarrow> string option" where
  "route_alias v =
     (case v of JStr s \<Rightarrow> if 1 \<le> length (strip s) \<and> length (strip s) \<le> 256 then Some (strip s) else None
      | _ \<Rightarrow> None)"

definition profile_name :: "json \<Rightarrow> string option" where
  "profile_name v = (case v of JStr s \<Rightarrow> if s \<in> set MODEL_PROFILES then Some s else None | _ \<Rightarrow> None)"

fun mapping_field :: "(string \<Rightarrow> bool) \<Rightarrow> (json \<Rightarrow> string option) \<Rightarrow> dict \<Rightarrow> (string \<times> string) list option" where
  "mapping_field key_ok read [] = Some []"
| "mapping_field key_ok read ((k, v) # d) =
     (case (read v, mapping_field key_ok read d) of
        (Some x, Some rest) \<Rightarrow> if key_ok k then Some ((k, x) # rest) else None
      | _ \<Rightarrow> None)"

definition read_mapping ::
  "dict \<Rightarrow> string \<Rightarrow> (string \<Rightarrow> bool) \<Rightarrow> (json \<Rightarrow> string option) \<Rightarrow> (string \<times> string) list result" where
  "read_mapping config field key_ok read =
     (case dict_get_default config field (JObj []) of
        JObj d \<Rightarrow> (case mapping_field key_ok read d of None \<Rightarrow> Inl invalid_routing | Some m \<Rightarrow> Inr m)
      | _ \<Rightarrow> Inl invalid_routing)"

definition validate_model_mappings :: "routing \<Rightarrow> routing result" where
  "validate_model_mappings c =
     (case find (\<lambda>p. map_of (model_routes c) p = None)
             (map snd (request_model_profiles c) @ map snd (skill_model_profiles c)) of
        Some p \<Rightarrow> Inl (ValueError (''Model mapping requires model_routes.'' @ p))
      | None \<Rightarrow> Inr c)"

definition model_validate :: "dict \<Rightarrow> routing result" where
  "model_validate config =
     bind_result (read_mapping config ''model_routes'' (\<lambda>k. k \<in> set MODEL_PROFILES) route_alias) (\<lambda>routes.
     bind_result (read_mapping config ''request_model_profiles'' (\<lambda>k. k = ''daily_summary'') profile_name) (\<lambda>requests.
     bind_result (read_mapping config ''skill_model_profiles'' (\<lambda>k. True) profile_name) (\<lambda>skills.
       validate_model_mappings \<lparr>model_routes = routes, request_model_profiles = requests,
         skill_model_profiles = skills\<rparr>)))"

definition requested_profile :: "json \<Rightarrow> string option result" where
  "requested_profile additional_props =
     (case additional_props of
        JNull \<Rightarrow> Inr None
      | JObj d \<Rightarrow>
          (case map_of d ''model_profile'' of
             None \<Rightarrow> Inr None
           | Some v \<Rightarrow>
               (case profile_name v of
                  None \<Rightarrow> Inl (ValueError (''model_profile must be one of: '' @ join_with '', '' MODEL_PROFILES))
                | Some p \<Rightarrow> Inr (Some p)))
      | _ \<Rightarrow> Inl (ValueError ''additional_props must be an object''))"

section \<open>The selection\<close>

record selection =
  requested :: "string option"
  effective :: "string option"
  source :: string
  promotion_count :: nat
  triggering_skill :: "string option"

definition resolve :: "routing \<Rightarrow> json \<Rightarrow> string \<Rightarrow> selection result" where
  "resolve config additional_props request_profile =
     bind_result (requested_profile additional_props) (\<lambda>req.
       case req of
         Some p \<Rightarrow>
           if map_of (model_routes config) p = None
           then Inl (ValueError (''model_profile '' @ [char_of (39::nat)] @ p @ [char_of (39::nat)] @ '' is not configured''))
           else Inr \<lparr>requested = Some p, effective = Some p, source = ''explicit'', promotion_count = 0,
                     triggering_skill = None\<rparr>
       | None \<Rightarrow>
           let mapped = map_of (request_model_profiles config) request_profile in
           Inr \<lparr>requested = None, effective = mapped,
                source = (if mapped \<noteq> None then ''request_profile'' else ''automatic''),
                promotion_count = 0, triggering_skill = None\<rparr>)"

definition explicit_selection :: "selection \<Rightarrow> bool" where
  "explicit_selection s = (requested s \<noteq> None \<or> source s = ''autonomous'')"

record skill_event =
  operation :: string
  skill_name :: string

definition skill_loaded :: "routing \<Rightarrow> skill_event \<Rightarrow> selection \<Rightarrow> selection" where
  "skill_loaded config e s =
     (if explicit_selection s \<or> effective s \<noteq> None \<or> operation e \<noteq> ''load_skill'' then s
      else (case map_of (skill_model_profiles config) (skill_name e) of
              None \<Rightarrow> s
            | Some mapped \<Rightarrow>
                s\<lparr>effective := Some mapped, source := ''skill_load'', promotion_count := promotion_count s + 1,
                  triggering_skill := Some (skill_name e)\<rparr>))"

definition selection_alias :: "routing \<Rightarrow> string \<Rightarrow> selection \<Rightarrow> string result" where
  "selection_alias config default_alias s =
     (case effective s of
        None \<Rightarrow> Inr default_alias
      | Some p \<Rightarrow> (case map_of (model_routes config) p of None \<Rightarrow> Inl KeyError | Some a \<Rightarrow> Inr a))"

definition metadata :: "selection \<Rightarrow> dict" where
  "metadata s =
     (let named = (\<lambda>p. case p of None \<Rightarrow> JStr ''automatic'' | Some x \<Rightarrow> JStr x) in
      [(''requested_model_profile'', named (requested s)), (''effective_model_profile'', named (effective s)),
       (''model_selection_source'', JStr (source s)), (''model_promotion_count'', JInt (int (promotion_count s))),
       (''model_triggering_skill'', case triggering_skill s of None \<Rightarrow> JNull | Some k \<Rightarrow> JStr k)])"

section \<open>Facts\<close>

definition routing_ok :: "routing \<Rightarrow> bool" where
  "routing_ok c \<longleftrightarrow>
     (\<forall>k p. map_of (request_model_profiles c) k = Some p \<longrightarrow> map_of (model_routes c) p \<noteq> None)
     \<and> (\<forall>k p. map_of (skill_model_profiles c) k = Some p \<longrightarrow> map_of (model_routes c) p \<noteq> None)"

lemma validated_ok: "model_validate d = Inr c \<Longrightarrow> routing_ok c"
proof -
  assume "model_validate d = Inr c"
  then have v: "find (\<lambda>p. map_of (model_routes c) p = None)
      (map snd (request_model_profiles c) @ map snd (skill_model_profiles c)) = None"
    by (auto simp: model_validate_def bind_result_Inr validate_model_mappings_def split: option.splits)
  have routed: "map_of (model_routes c) p \<noteq> None"
    if "(k, p) \<in> set (request_model_profiles c) \<union> set (skill_model_profiles c)" for k p
  proof -
    from that have "p \<in> set (map snd (request_model_profiles c) @ map snd (skill_model_profiles c))"
      by (auto intro: rev_image_eqI)
    with v show ?thesis unfolding find_None_iff by metis
  qed
  show ?thesis unfolding routing_ok_def using routed by (blast dest: map_of_SomeD)
qed

text \<open>The skills that a sequence of events would promote.\<close>

definition promotions :: "routing \<Rightarrow> skill_event list \<Rightarrow> (string \<times> string) list" where
  "promotions c events =
     concat (map (\<lambda>e. if operation e \<noteq> ''load_skill'' then []
        else (case map_of (skill_model_profiles c) (skill_name e) of
                None \<Rightarrow> [] | Some p \<Rightarrow> [(skill_name e, p)])) events)"

lemma settled: "explicit_selection s \<or> effective s \<noteq> None \<Longrightarrow> fold (skill_loaded c) events s = s"
  by (induction events) (auto simp: skill_loaded_def)

lemma open_selection:
  assumes "\<not> explicit_selection s" "effective s = None"
  shows "fold (skill_loaded c) events s =
    (case promotions c events of
       [] \<Rightarrow> s
     | (k, p) # _ \<Rightarrow> s\<lparr>effective := Some p, source := ''skill_load'', promotion_count := promotion_count s + 1,
                      triggering_skill := Some k\<rparr>)"
proof (induction events)
  case (Cons e events)
  show ?case
  proof (cases "operation e = ''load_skill'' \<and> map_of (skill_model_profiles c) (skill_name e) \<noteq> None")
    case True
    then obtain p where p: "map_of (skill_model_profiles c) (skill_name e) = Some p" by auto
    let ?s = "s\<lparr>effective := Some p, source := ''skill_load'', promotion_count := promotion_count s + 1,
      triggering_skill := Some (skill_name e)\<rparr>"
    have "fold (skill_loaded c) events ?s = ?s" by (rule settled) simp
    moreover from True p assms have "skill_loaded c e s = ?s" by (simp add: skill_loaded_def)
    ultimately show ?thesis using True p by (simp add: promotions_def)
  next
    case False
    then have "skill_loaded c e s = s" "promotions c (e # events) = promotions c events"
      by (auto simp: skill_loaded_def promotions_def split: option.splits)
    with Cons show ?thesis by simp
  qed
qed (simp add: promotions_def)

lemma promoted_routed: "routing_ok c \<Longrightarrow> (k, p) \<in> set (promotions c events) \<Longrightarrow> map_of (model_routes c) p \<noteq> None"
  by (auto simp: promotions_def routing_ok_def split: if_splits option.splits)

section \<open>Properties\<close>

text \<open>Routing of a request is settled once and never fails later: with a validated configuration, after
  any sequence of skill events the selection has a route (the alias lookup raises no error); a model that
  the caller asked for, or that the request profile maps, is never changed; otherwise the first loaded
  skill that has a mapping decides, exactly once.\<close>

theorem routing_settles:
  assumes "model_validate config = Inr c" and "resolve c props profile = Inr s0"
    and "s = fold (skill_loaded c) events s0"
  shows "is_ok (selection_alias c fallback s) \<and> promotion_count s \<le> 1
    \<and> (requested s0 \<noteq> None \<longrightarrow> s = s0 \<and> effective s = requested s0)
    \<and> (effective s0 \<noteq> None \<longrightarrow> s = s0)
    \<and> (effective s0 = None \<longrightarrow>
         effective s = (case promotions c events of [] \<Rightarrow> None | (k, p) # _ \<Rightarrow> Some p)
         \<and> triggering_skill s = (case promotions c events of [] \<Rightarrow> None | (k, p) # _ \<Rightarrow> Some k))"
proof -
  have ok: "routing_ok c" using assms(1) by (rule validated_ok)
  from assms(2) obtain req where req: "requested_profile props = Inr req"
    by (auto simp: resolve_def bind_result_Inr)
  have s0: "promotion_count s0 = 0" "triggering_skill s0 = None" "requested s0 = req"
    "req \<noteq> None \<longrightarrow> effective s0 = req" "effective s0 = None \<longrightarrow> \<not> explicit_selection s0"
    "\<forall>p. effective s0 = Some p \<longrightarrow> map_of (model_routes c) p \<noteq> None"
    using assms(2) req ok
    by (auto simp: resolve_def Let_def explicit_selection_def routing_ok_def split: option.splits if_splits)
  show ?thesis
  proof (cases "effective s0")
    case (Some p)
    then have "s = s0" using assms(3) settled by blast
    with Some s0 show ?thesis by (auto simp: selection_alias_def split: option.splits)
  next
    case None
    note o = open_selection [OF _ None, of c events, folded assms(3)]
    show ?thesis
    proof (cases "promotions c events")
      case Nil
      with o s0 None show ?thesis by (auto simp: selection_alias_def)
    next
      case (Cons kp rest)
      obtain k p where kp: "kp = (k, p)" by (cases kp)
      from Cons kp promoted_routed [OF ok, of k p events] have "map_of (model_routes c) p \<noteq> None" by simp
      with Cons kp o s0 None show ?thesis by (auto simp: selection_alias_def split: option.splits)
    qed
  qed
qed

definition sample_routing :: dict where
  "sample_routing = [(''model_routes'', JObj [(''high'', JStr ''big'')]),
     (''skill_model_profiles'', JObj [(''research'', JStr ''high'')])]"

theorem routing_settles_witness:
  "\<exists>c s0. model_validate sample_routing = Inr c \<and> resolve c JNull ''chat'' = Inr s0
     \<and> effective (fold (skill_loaded c) [\<lparr>operation = ''load_skill'', skill_name = ''research''\<rparr>] s0) = Some ''high''"
proof -
  have "case model_validate sample_routing of Inl e \<Rightarrow> False
      | Inr c \<Rightarrow> is_ok (resolve c JNull ''chat'') \<and> effective (case resolve c JNull ''chat'' of Inr s \<Rightarrow> s) = None
         \<and> promotions c [\<lparr>operation = ''load_skill'', skill_name = ''research''\<rparr>] = [(''research'', ''high'')]"
    by code_simp
  then obtain c s0 where c: "model_validate sample_routing = Inr c" "resolve c JNull ''chat'' = Inr s0"
    "effective s0 = None"
    "promotions c [\<lparr>operation = ''load_skill'', skill_name = ''research''\<rparr>] = [(''research'', ''high'')]"
    by (auto split: sum.splits)
  from routing_settles [OF c(1,2) refl, where events = "[\<lparr>operation = ''load_skill'', skill_name = ''research''\<rparr>]"] c
  show ?thesis by auto
qed

end
