(* ===== verification/Py_Url.thy ===== *)
theory Py_Url
  imports Prelude "HOL-Library.List_Lexorder" "HOL-Library.Char_ord" "HOL-Library.Product_Lexorder"
begin

text \<open>
  The parts of \<open>urllib.parse\<close> and \<open>ipaddress\<close> that the modelled modules use: splitting a URL,
  the host and port of a network location, query strings, and the textual form of IP addresses.
  Percent-decoded bytes are kept as single characters.
\<close>

section \<open>IP addresses as text\<close>

definition is_hex :: "char \<Rightarrow> bool" where
  "is_hex c = (is_digit c \<or> (97 \<le> code c \<and> code c \<le> 102) \<or> (65 \<le> code c \<and> code c \<le> 70))"

definition hex_value :: "char \<Rightarrow> nat" where
  "hex_value c = (if is_digit c then code c - 48
                  else if 97 \<le> code c then code c - 87 else code c - 55)"

definition ipv4_octet :: "string \<Rightarrow> nat option" where
  "ipv4_octet s =
     (if s \<noteq> [] \<and> list_all is_digit s \<and> length s \<le> 3 \<and> (s = ''0'' \<or> hd s \<noteq> CHR ''0'')
         \<and> digits_value s \<le> 255
      then Some (digits_value s) else None)"

definition ipv4_of_text :: "string \<Rightarrow> nat option" where
  "ipv4_of_text s =
     (case map ipv4_octet (split_at (CHR ''.'') s) of
        [Some a, Some b, Some c, Some d] \<Rightarrow> Some (((a * 256 + b) * 256 + c) * 256 + d)
      | _ \<Rightarrow> None)"

definition hextet :: "string \<Rightarrow> nat option" where
  "hextet s =
     (if s \<noteq> [] \<and> length s \<le> 4 \<and> list_all is_hex s
      then Some (foldl (\<lambda>n c. 16 * n + hex_value c) 0 s) else None)"

fun hextets :: "string list \<Rightarrow> nat list option" where
  "hextets [] = Some []"
| "hextets (p # ps) =
     (case (hextet p, hextets ps) of (Some h, Some hs) \<Rightarrow> Some (h # hs) | _ \<Rightarrow> None)"

text \<open>The interior positions of \<open>parts\<close> that are empty: where a double colon stands.\<close>

definition empty_interior :: "string list \<Rightarrow> nat list" where
  "empty_interior parts = filter (\<lambda>i. parts ! i = []) [1..<length parts - 1]"

definition ipv6_hextets :: "string list \<Rightarrow> nat list option" where
  "ipv6_hextets parts =
     (let n = length parts in
      if n < 3 \<or> 9 < n then None
      else case empty_interior parts of
        [] \<Rightarrow> if n \<noteq> 8 then None else hextets parts
      | [i] \<Rightarrow>
          (let hi0 = i; lo0 = n - i - 1;
               hi = (if hd parts = [] then hi0 - 1 else hi0);
               lo = (if last parts = [] then lo0 - 1 else lo0) in
           if hd parts = [] \<and> hi \<noteq> 0 then None
           else if last parts = [] \<and> lo \<noteq> 0 then None
           else if 8 \<le> hi + lo then None
           else (case (hextets (take hi parts), hextets (drop (n - lo) parts)) of
                   (Some h, Some l) \<Rightarrow> Some (h @ replicate (8 - (hi + lo)) 0 @ l)
                 | _ \<Rightarrow> None))
      | _ \<Rightarrow> None)"

text \<open>An address with an embedded dotted quad: the quad stands for the last two groups, written
  in hexadecimal before the groups are read.\<close>

definition hex_text :: "nat \<Rightarrow> string" where
  "hex_text n = map hex_digit [n div 4096 mod 16, n div 256 mod 16, n div 16 mod 16, n mod 16]"

definition ipv6_of_text :: "string \<Rightarrow> nat option" where
  "ipv6_of_text s =
     (let (addr, scope) = partition_at (CHR ''%'') s in
      if (case scope of None \<Rightarrow> False | Some z \<Rightarrow> z = [] \<or> CHR ''%'' \<in> set z) then None
      else
        let parts = split_at (CHR '':'') addr;
            parts' = (if length parts < 3 then None
                      else if CHR ''.'' \<in> set (last parts)
                      then (case ipv4_of_text (last parts) of
                              None \<Rightarrow> None
                            | Some v \<Rightarrow> Some (butlast parts @
                                [hex_text (v div 65536 mod 65536), hex_text (v mod 65536)]))
                      else Some parts)
        in case parts' of
             None \<Rightarrow> None
           | Some ps \<Rightarrow> map_option (foldl (\<lambda>n h. 65536 * n + h) 0) (ipv6_hextets ps))"

section \<open>Splitting URLs\<close>

record url_parts =
  scheme :: string
  netloc :: string
  path :: string
  query :: string
  fragment :: string

definition scheme_char :: "char \<Rightarrow> bool" where
  "scheme_char c = (is_digit c \<or> is_lower_letter c \<or> is_upper_letter c \<or> c \<in> set ''+-.'')"

definition after_last_at :: "string \<Rightarrow> string" where
  "after_last_at s = rev (takeWhile (\<lambda>c. c \<noteq> CHR ''@'') (rev s))"

definition bracketed_host_ok :: "string \<Rightarrow> bool" where
  "bracketed_host_ok h =
     (if starts_with ''v'' h
      then (case partition_at (CHR ''.'') (tl h) of
              (hex, Some rest) \<Rightarrow> hex \<noteq> [] \<and> list_all is_hex hex \<and> rest \<noteq> []
                 \<and> CHR ''\<newline>'' \<notin> set rest
            | _ \<Rightarrow> False)
      else ipv6_of_text h \<noteq> None)"

definition bracketed_netloc_ok :: "string \<Rightarrow> bool" where
  "bracketed_netloc_ok n =
     (let hp = after_last_at n in
      case partition_at (CHR ''['') hp of
        (pre, Some bracketed) \<Rightarrow>
          (case partition_at (CHR '']'') bracketed of
             (h, port) \<Rightarrow>
               pre = [] \<and> (case port of None \<Rightarrow> True | Some p \<Rightarrow> p = [] \<or> hd p = CHR '':'')
               \<and> bracketed_host_ok h)
      | (pre, None) \<Rightarrow> bracketed_host_ok (fst (partition_at (CHR '':'') hp)))"

definition netloc_ok :: "string \<Rightarrow> bool" where
  "netloc_ok n =
     (let open_br = CHR ''['' \<in> set n; close_br = CHR '']'' \<in> set n in
      open_br = close_br \<and> (open_br \<longrightarrow> bracketed_netloc_ok n))"

definition urlsplit :: "string \<Rightarrow> url_parts option" where
  "urlsplit url0 =
     (let url1 = filter (\<lambda>c. code c \<notin> {9, 10, 13}) (dropWhile (\<lambda>c. code c \<le> 32) url0);
          (sch, url2) =
            (case partition_at (CHR '':'') url1 of
               (a, Some b) \<Rightarrow>
                 if a \<noteq> [] \<and> (is_lower_letter (hd a) \<or> is_upper_letter (hd a)) \<and> list_all scheme_char a
                 then (lower a, b) else ([], url1)
             | _ \<Rightarrow> ([], url1));
          (net, url3) =
            (if starts_with ''//'' url2
             then (let rest = drop 2 url2; n = takeWhile (\<lambda>c. c \<notin> set ''/?#'') rest
                   in (n, drop (length n) rest))
             else ([], url2));
          (url4, frag) = partition_at (CHR ''#'') url3;
          (pth, qry) = partition_at (CHR ''?'') url4
      in if \<not> netloc_ok net then None
         else Some \<lparr>scheme = sch, netloc = net, path = pth,
                    query = (case qry of None \<Rightarrow> [] | Some q \<Rightarrow> q),
                    fragment = (case frag of None \<Rightarrow> [] | Some f \<Rightarrow> f)\<rparr>)"

definition host_port :: "string \<Rightarrow> string \<times> string" where
  "host_port n =
     (let hp = after_last_at n in
      case partition_at (CHR ''['') hp of
        (_, Some bracketed) \<Rightarrow>
          (case partition_at (CHR '']'') bracketed of
             (h, rest) \<Rightarrow>
               (h, case rest of None \<Rightarrow> []
                   | Some r \<Rightarrow> (case snd (partition_at (CHR '':'') r) of None \<Rightarrow> [] | Some p \<Rightarrow> p)))
      | (_, None) \<Rightarrow>
          (case partition_at (CHR '':'') hp of
             (h, p) \<Rightarrow> (h, case p of None \<Rightarrow> [] | Some q \<Rightarrow> q)))"

text \<open>\<open>parts.hostname\<close> (the empty string for \<open>None\<close>) and \<open>parts.port\<close>.\<close>

definition hostname :: "url_parts \<Rightarrow> string" where
  "hostname u =
     (case partition_at (CHR ''%'') (fst (host_port (netloc u))) of
        (h, None) \<Rightarrow> lower h
      | (h, Some z) \<Rightarrow> lower h @ ''%'' @ z)"

definition port :: "url_parts \<Rightarrow> nat option result" where
  "port u =
     (let p = snd (host_port (netloc u)) in
      if p = [] then Inr None
      else if \<not> list_all is_digit p then Inl (ValueError ''Port could not be cast to integer value'')
      else if 65535 < digits_value p then Inl (ValueError ''Port out of range 0-65535'')
      else Inr (Some (digits_value p)))"

section \<open>Query strings\<close>

fun unquote :: "string \<Rightarrow> string" where
  "unquote [] = []"
| "unquote [c] = [c]"
| "unquote [c, d] = [c, d]"
| "unquote (c # a # b # cs) =
     (if c = CHR ''%'' \<and> is_hex a \<and> is_hex b
      then char_of (16 * hex_value a + hex_value b) # unquote cs
      else c # unquote (a # b # cs))"

definition unquote_plus :: "string \<Rightarrow> string" where
  "unquote_plus s = unquote (map (\<lambda>c. if c = CHR ''+'' then CHR '' '' else c) s)"

definition parse_qsl :: "string \<Rightarrow> (string \<times> string) list" where
  "parse_qsl q =
     map (\<lambda>nv. case partition_at (CHR ''='') nv of
            (k, None) \<Rightarrow> (unquote_plus k, [])
          | (k, Some v) \<Rightarrow> (unquote_plus k, unquote_plus v))
       (filter (\<lambda>nv. nv \<noteq> []) (if q = [] then [] else split_at (CHR ''&'') q))"

definition upper_hex :: "nat \<Rightarrow> char" where
  "upper_hex d = (if d < 10 then char_of (48 + d) else char_of (55 + d))"

definition quote_char :: "char \<Rightarrow> string" where
  "quote_char c =
     (if is_digit c \<or> is_lower_letter c \<or> is_upper_letter c \<or> c \<in> set ''_.-~'' then [c]
      else if c = CHR '' '' then ''+''
      else [CHR ''%'', upper_hex (code c div 16), upper_hex (code c mod 16)])"

definition urlencode :: "(string \<times> string) list \<Rightarrow> string" where
  "urlencode kvs =
     join_with ''&'' (map (\<lambda>(k, v). concat (map quote_char k) @ ''='' @ concat (map quote_char v)) kvs)"

text \<open>\<open>urlunsplit(("", netloc, path, query, ""))\<close> with a non-empty network location.\<close>

definition urlunsplit_netloc :: "string \<Rightarrow> string \<Rightarrow> string \<Rightarrow> string" where
  "urlunsplit_netloc n p q =
     (let p' = (if p \<noteq> [] \<and> hd p \<noteq> CHR ''/'' then ''/'' @ p else p);
          u = ''//'' @ n @ p'
      in if q = [] then u else u @ ''?'' @ q)"

end
