(* ===== verification/Memory_Client.thy ===== *)
theory Memory_Client
  imports Py_Json Py_Url Internal_Auth
begin

text \<open>
  The client of the memory service (\<open>nat_helpers/hindsight_client.py\<close>): the bank of a user, the identifiers
  of documents and operations, the requests of every operation and how replies and failures are read.

  \<^item> The service is an argument: the reply to a request may depend on every request before it. A call takes
    the requests sent so far and returns its result with the requests sent after it.
  \<^item> UUID version 5 in the module's namespace and SHA-256 (as hexadecimal text) are arguments.
  \<^item> The timeout of a request is given in seconds where the code sets one.
\<close>

section \<open>Settings and identifiers\<close>

record memory_ids =
  uuid5 :: "string \<Rightarrow> string"
  sha256 :: "string \<Rightarrow> string"

definition memory_mode :: "string option \<Rightarrow> string result" where
  "memory_mode env =
     (let mode = lower (strip (if or_empty env = [] then ''hindsight'' else or_empty env)) in
      if mode \<notin> {''disabled'', ''hindsight''}
      then Inl (ValueError ''DAEDALUS_MEMORY_MODE must be disabled or hindsight'') else Inr mode)"

definition derive_bank_id :: "memory_ids \<Rightarrow> string \<Rightarrow> string result" where
  "derive_bank_id I user_id =
     (if strip user_id = [] then Inl (ValueError ''authenticated user identity is required'')
      else Inr (''du-'' @ uuid5 I (strip user_id)))"

text \<open>The digest of parts, each closed by a NUL byte.\<close>

definition digest_parts :: "memory_ids \<Rightarrow> string list \<Rightarrow> string" where
  "digest_parts I parts = sha256 I (concat (map (\<lambda>p. p @ [char_of (0::nat)]) parts))"

definition deterministic_document_id :: "memory_ids \<Rightarrow> string \<Rightarrow> string \<Rightarrow> string \<Rightarrow> string \<Rightarrow> string result" where
  "deterministic_document_id I user_id source request_id content =
     bind_result (derive_bank_id I user_id) (\<lambda>bank.
       Inr (''daedalus-'' @ source @ ''-'' @ digest_parts I [bank, source, request_id, content]))"

definition deterministic_operation_id :: "memory_ids \<Rightarrow> string \<Rightarrow> string" where
  "deterministic_operation_id I document_id = uuid5 I document_id"

record client_settings =
  base_url :: string
  api_key :: string
  client_timeout :: pyfloat

definition new_client ::
  "string option \<Rightarrow> string option \<Rightarrow> string option \<Rightarrow> client_settings result" where
  "new_client url_env key_env timeout_env =
     (let url = rstrip_while (\<lambda>c. c = CHR ''/'') (strip (if or_empty url_env = []
                  then ''http://hindsight-api.daedalus.svc.cluster.local:8888'' else or_empty url_env));
          key = strip (or_empty key_env) in
      bind_result (py_float (JStr (if or_empty timeout_env = [] then ''60.0'' else or_empty timeout_env))) (\<lambda>t.
        if \<not> starts_with ''http://'' url \<and> \<not> starts_with ''https://'' url
        then Inl (ValueError ''HINDSIGHT_API_URL must use http:// or https://'')
        else if key = [] then Inl (ValueError ''HINDSIGHT_API_KEY is required'')
        else Inr \<lparr>base_url = url, api_key = key, client_timeout = t\<rparr>))"

section \<open>Encoding\<close>

text \<open>\<open>urllib.parse.quote(text, safe="")\<close>.\<close>

definition unreserved :: "char \<Rightarrow> bool" where
  "unreserved c = (is_digit c \<or> is_lower_letter c \<or> is_upper_letter c \<or> c \<in> set ''_.-~'')"

definition quote_segment :: "string \<Rightarrow> string" where
  "quote_segment s =
     concat (map (\<lambda>c. if unreserved c then [c]
                      else [CHR ''%'', upper_hex (code c div 16), upper_hex (code c mod 16)]) s)"

text \<open>\<open>json.dumps(value, sort_keys=True, separators=(",", ":"))\<close>.\<close>

definition ascii_escape :: "char \<Rightarrow> string" where
  "ascii_escape c = (if code c = 127 then [char_of (92::nat)] @ ''u007f'' else json_escape c)"

definition ascii_json_str :: "string \<Rightarrow> string" where
  "ascii_json_str s = [char_of (34::nat)] @ concat (map ascii_escape s) @ [char_of (34::nat)]"

fun sorted_json :: "json \<Rightarrow> string" where
  "sorted_json (JStr s) = ascii_json_str s"
| "sorted_json (JList xs) = ''['' @ join_with '','' (map sorted_json xs) @ '']''"
| "sorted_json (JObj d) =
     ''{'' @ join_with '','' (map (\<lambda>p. ascii_json_str (fst p) @ '':'' @ snd p)
        (sort_key fst (map (\<lambda>p. (fst p, sorted_json (snd p))) d))) @ ''}''"
| "sorted_json v = json_dumps v"

definition metadata_strings :: "dict \<Rightarrow> dict" where
  "metadata_strings metadata =
     fold (\<lambda>p normalized. if strip (fst p) = [] then normalized
             else dict_set (strip (fst p)) (JStr (case snd p of JStr s \<Rightarrow> s | v \<Rightarrow> sorted_json v)) normalized) metadata []"

text \<open>\<open>_without_bank_fields\<close>.\<close>

fun without_bank_fields :: "json \<Rightarrow> json" where
  "without_bank_fields (JList xs) = JList (map without_bank_fields xs)"
| "without_bank_fields (JObj d) =
     JObj (filter (\<lambda>p. fst p \<notin> {''bank_id'', ''tenant_id''}) (map (\<lambda>p. (fst p, without_bank_fields (snd p))) d))"
| "without_bank_fields v = v"

section \<open>Requests\<close>

record request =
  verb :: string
  target :: string
  json_body :: "dict option"
  query_params :: "dict option"
  deadline_s :: "nat option"

datatype content = NoContent | NotJson | Parsed json

datatype reply = TransportFails | Reply nat content

type_synonym service = "request list \<Rightarrow> request \<Rightarrow> reply"

datatype memory_error =
    HindsightError string "nat option"
  | Raised py_error

type_synonym 'a call = "service \<Rightarrow> request list \<Rightarrow> (memory_error + 'a) \<times> request list"

definition give :: "'a \<Rightarrow> 'a call" where
  "give x S h = (Inr x, h)"

definition fail :: "memory_error \<Rightarrow> 'a call" where
  "fail e S h = (Inl e, h)"

definition and_then :: "'a call \<Rightarrow> ('a \<Rightarrow> 'b call) \<Rightarrow> 'b call" where
  "and_then m f S h = (case m S h of (Inl e, h') \<Rightarrow> (Inl e, h') | (Inr x, h') \<Rightarrow> f x S h')"

definition checked :: "'a result \<Rightarrow> 'a call" where
  "checked r = (case r of Inl e \<Rightarrow> fail (Raised e) | Inr x \<Rightarrow> give x)"

definition invalid_response :: memory_error where
  "invalid_response = HindsightError ''Hindsight returned an invalid response'' None"

fun object_of :: "json \<Rightarrow> dict" where
  "object_of (JObj d) = d"
| "object_of _ = []"

definition read_reply :: "reply \<Rightarrow> memory_error + dict" where
  "read_reply r =
     (case r of
        TransportFails \<Rightarrow> Inl (HindsightError ''Hindsight is unavailable'' None)
      | Reply status c \<Rightarrow>
          if 400 \<le> status
          then Inl (HindsightError (''Hindsight request failed with status '' @ show_nat status) (Some status))
          else if status = 204 then Inr []
          else (case c of
                  NoContent \<Rightarrow> Inr []
                | NotJson \<Rightarrow> Inl invalid_response
                | Parsed (JObj d) \<Rightarrow> Inr (object_of (without_bank_fields (JObj d)))
                | Parsed _ \<Rightarrow> Inl invalid_response))"

definition send_request :: "string \<Rightarrow> string \<Rightarrow> dict option \<Rightarrow> dict option \<Rightarrow> nat option \<Rightarrow> dict call" where
  "send_request method url body params wait S h =
     (let q = \<lparr>verb = method, target = url, json_body = body, query_params = params, deadline_s = wait\<rparr> in
      (read_reply (S h q), h @ [q]))"

definition bank_path :: "memory_ids \<Rightarrow> string \<Rightarrow> string \<Rightarrow> string result" where
  "bank_path I user_id rest =
     bind_result (derive_bank_id I user_id) (\<lambda>bank.
       Inr (''/v1/default/banks/'' @ quote_segment bank @ ''/'' @ dropWhile (\<lambda>c. c = CHR ''/'') rest))"

definition bank_request ::
  "memory_ids \<Rightarrow> string \<Rightarrow> string \<Rightarrow> string \<Rightarrow> dict option \<Rightarrow> dict option \<Rightarrow> nat option \<Rightarrow> dict call" where
  "bank_request I method user_id rest body params wait =
     and_then (checked (bank_path I user_id rest)) (\<lambda>p. send_request method p body params wait)"

section \<open>Operations\<close>

definition health :: "dict call" where
  "health = send_request ''GET'' ''/health'' None None (Some 3)"

definition MAX_RETAIN_CHARS :: nat where
  "MAX_RETAIN_CHARS = 12000"

definition too_long :: py_error where
  "too_long = ValueError (''memory content exceeds '' @ show_nat MAX_RETAIN_CHARS @ '' characters'')"

definition submit_retain :: "memory_ids \<Rightarrow> string \<Rightarrow> dict \<Rightarrow> bool \<Rightarrow> dict call" where
  "submit_retain I user_id body asynchronous =
     bank_request I ''POST'' user_id ''memories'' (Some body) None (Some (if asynchronous then 15 else 120))"

text \<open>A memory to retain, before it is normalised.\<close>

record memory_item =
  mi_content :: string
  mi_document :: string
  mi_context :: string
  mi_tags :: "string list"
  mi_metadata :: dict
  mi_timestamp :: "string option"

text \<open>\<open>list(dict.fromkeys(tags))\<close>.\<close>

definition from_keys :: "string list \<Rightarrow> string list" where
  "from_keys tags = rev (remdups (rev tags))"

definition retained_item :: "memory_item \<Rightarrow> string \<Rightarrow> dict" where
  "retained_item m clean_content =
     [(''content'', JStr clean_content), (''document_id'', JStr (mi_document m)), (''context'', JStr (mi_context m)),
      (''metadata'', JObj (metadata_strings (mi_metadata m))), (''tags'', JList (map JStr (from_keys (mi_tags m)))),
      (''observation_scopes'', JStr ''shared''), (''update_mode'', JStr ''replace'')]
     @ (if or_empty (mi_timestamp m) = [] then [] else [(''timestamp'', JStr (or_empty (mi_timestamp m)))])"

definition retain :: "memory_ids \<Rightarrow> string \<Rightarrow> memory_item \<Rightarrow> bool \<Rightarrow> dict call" where
  "retain I user_id m asynchronous =
     (let clean_content = strip (mi_content m) in
      if clean_content = [] then fail (Raised (ValueError ''memory content is required''))
      else if MAX_RETAIN_CHARS < length clean_content then fail (Raised too_long)
      else submit_retain I user_id
             ([(''items'', JList [JObj (retained_item m clean_content)]), (''async'', JBool asynchronous)]
              @ (if asynchronous then [(''operation_id'', JStr (deterministic_operation_id I (mi_document m)))] else []))
             asynchronous)"

fun normalized_items :: "string list \<Rightarrow> memory_item list \<Rightarrow> json list result" where
  "normalized_items document_ids [] = Inr []"
| "normalized_items document_ids (m # ms) =
     (let content = strip (mi_content m); document_id = strip (mi_document m) in
      if content = [] then Inl (ValueError ''memory content is required'')
      else if MAX_RETAIN_CHARS < length content then Inl too_long
      else if document_id = [] then Inl (ValueError ''document ID is required'')
      else if document_id \<in> set document_ids then Inl (ValueError ''batch memory document IDs must be unique'')
      else bind_result (normalized_items (document_id # document_ids) ms) (\<lambda>rest.
             Inr (JObj (retained_item (m\<lparr>mi_document := document_id\<rparr>) content) # rest)))"

definition retain_batch :: "memory_ids \<Rightarrow> string \<Rightarrow> memory_item list \<Rightarrow> string \<Rightarrow> bool \<Rightarrow> dict call" where
  "retain_batch I user_id items operation_id asynchronous =
     (if items = [] then fail (Raised (ValueError ''at least one memory item is required''))
      else and_then (checked (normalized_items [] items)) (\<lambda>normalized.
        submit_retain I user_id
          [(''items'', JList normalized), (''async'', JBool asynchronous), (''operation_id'', JStr operation_id)] asynchronous))"

definition retain_explicit ::
  "memory_ids \<Rightarrow> string \<Rightarrow> string \<Rightarrow> string list \<Rightarrow> dict \<Rightarrow> string \<Rightarrow> dict call" where
  "retain_explicit I user_id content tags metadata request_id =
     and_then (checked (deterministic_document_id I user_id ''explicit'' request_id content)) (\<lambda>document_id.
       retain I user_id
         \<lparr>mi_content = content, mi_document = document_id, mi_context = ''Daedalus verified explicit memory'',
          mi_tags = ''source:explicit'' # tags, mi_metadata = dict_merge [(''source'', JStr ''explicit'')] metadata,
          mi_timestamp = None\<rparr> False)"

text \<open>The dictionaries in a list of results.\<close>

definition result_dicts :: "dict \<Rightarrow> string \<Rightarrow> dict list result" where
  "result_dicts response k =
     bind_result (iterate (dict_get_default response k (JList []))) (\<lambda>xs.
       Inr (map object_of (filter is_dict xs)))"

definition clamped :: "int \<Rightarrow> int \<Rightarrow> int \<Rightarrow> int" where
  "clamped low high n = max low (min n high)"

definition fact_types :: json where
  "fact_types = JList [JStr ''world'', JStr ''experience'', JStr ''observation'']"

definition recall :: "memory_ids \<Rightarrow> string \<Rightarrow> string \<Rightarrow> string \<Rightarrow> int \<Rightarrow> dict list call" where
  "recall I user_id q budget max_tokens =
     (let clean_query = strip q in
      if clean_query = [] then give []
      else and_then (bank_request I ''POST'' user_id ''memories/recall''
             (Some [(''query'', JStr clean_query), (''budget'', JStr budget),
                    (''max_tokens'', JInt (clamped 128 4096 max_tokens)), (''types'', fact_types),
                    (''prefer_observations'', JBool True),
                    (''include'', JObj [(''entities'', JNull), (''chunks'', JNull), (''source_facts'', JNull)]),
                    (''trace'', JBool False)]) None None)
           (\<lambda>response. checked (result_dicts response ''results'')))"

definition reflect :: "memory_ids \<Rightarrow> string \<Rightarrow> string \<Rightarrow> int \<Rightarrow> string call" where
  "reflect I user_id q max_tokens =
     (let clean_query = strip q in
      if clean_query = [] then give []
      else and_then (bank_request I ''POST'' user_id ''reflect''
             (Some [(''query'', JStr clean_query), (''budget'', JStr ''low''),
                    (''max_tokens'', JInt (clamped 128 1200 max_tokens)),
                    (''include'', JObj [(''facts'', JNull), (''tool_calls'', JNull)]), (''fact_types'', fact_types)])
             None (Some 30))
           (\<lambda>response. give (strip (py_str (py_or (dict_get response ''text'') (JStr []))))))"

definition get_bank_config :: "memory_ids \<Rightarrow> string \<Rightarrow> dict call" where
  "get_bank_config I user_id = bank_request I ''GET'' user_id ''config'' None None None"

definition update_bank_config :: "memory_ids \<Rightarrow> string \<Rightarrow> dict \<Rightarrow> dict call" where
  "update_bank_config I user_id updates =
     (if updates = [] then get_bank_config I user_id
      else bank_request I ''PATCH'' user_id ''config'' (Some [(''updates'', JObj updates)]) None None)"

definition knowledge_tree :: "memory_ids \<Rightarrow> string \<Rightarrow> dict list call" where
  "knowledge_tree I user_id =
     and_then (bank_request I ''GET'' user_id ''knowledge-base/tree'' None None None)
       (\<lambda>response. checked (result_dicts response ''roots''))"

definition create_knowledge_page :: "memory_ids \<Rightarrow> string \<Rightarrow> string \<Rightarrow> string \<Rightarrow> dict call" where
  "create_knowledge_page I user_id name source_query =
     bank_request I ''POST'' user_id ''knowledge-base/pages''
       (Some [(''name'', JStr name), (''source_query'', JStr source_query)]) None (Some 30)"

definition search_knowledge_pages :: "memory_ids \<Rightarrow> string \<Rightarrow> string \<Rightarrow> int \<Rightarrow> dict list call" where
  "search_knowledge_pages I user_id q limit =
     (let clean_query = strip q in
      if clean_query = [] then give []
      else and_then (bank_request I ''GET'' user_id ''knowledge-base/search'' None
             (Some [(''q'', JStr clean_query), (''limit'', JInt (clamped 1 10 limit))]) None)
           (\<lambda>response. checked (result_dicts response ''results'')))"

definition get_knowledge_page :: "memory_ids \<Rightarrow> string \<Rightarrow> string \<Rightarrow> dict call" where
  "get_knowledge_page I user_id page_id =
     bank_request I ''GET'' user_id (''knowledge-base/pages/'' @ quote_segment page_id) None None None"

definition delete_knowledge_node :: "memory_ids \<Rightarrow> string \<Rightarrow> string \<Rightarrow> dict call" where
  "delete_knowledge_node I user_id node_id =
     bank_request I ''DELETE'' user_id (''knowledge-base/nodes/'' @ quote_segment node_id) None None None"

definition get_operation :: "memory_ids \<Rightarrow> string \<Rightarrow> string \<Rightarrow> dict call" where
  "get_operation I user_id operation_id =
     bank_request I ''GET'' user_id (''operations/'' @ quote_segment operation_id) None None None"

definition retry_operation :: "memory_ids \<Rightarrow> string \<Rightarrow> string \<Rightarrow> dict call" where
  "retry_operation I user_id operation_id =
     bank_request I ''POST'' user_id (''operations/'' @ quote_segment operation_id @ ''/retry'') (Some []) None None"

definition page_params :: "int \<Rightarrow> int \<Rightarrow> string \<Rightarrow> dict" where
  "page_params limit offset q =
     [(''limit'', JInt (clamped 1 100 limit)), (''offset'', JInt (max 0 offset))]
     @ (if strip q = [] then [] else [(''q'', JStr (strip q))])"

definition list_memories :: "memory_ids \<Rightarrow> string \<Rightarrow> string \<Rightarrow> string \<Rightarrow> int \<Rightarrow> int \<Rightarrow> dict call" where
  "list_memories I user_id q memory_type limit offset =
     bank_request I ''GET'' user_id ''memories/list'' None
       (Some (page_params limit offset q
          @ (if memory_type \<in> {''world'', ''experience'', ''observation''} then [(''type'', JStr memory_type)] else []))) None"

definition update_memory :: "memory_ids \<Rightarrow> string \<Rightarrow> string \<Rightarrow> string \<Rightarrow> dict call" where
  "update_memory I user_id memory_id new_text =
     (let clean_text = strip new_text in
      if clean_text = [] then fail (Raised (ValueError ''memory text is required''))
      else bank_request I ''PATCH'' user_id (''memories/'' @ quote_segment memory_id)
             (Some [(''text'', JStr clean_text)]) None None)"

definition invalidate_memory :: "memory_ids \<Rightarrow> string \<Rightarrow> string \<Rightarrow> string \<Rightarrow> dict call" where
  "invalidate_memory I user_id memory_id reason =
     bank_request I ''PATCH'' user_id (''memories/'' @ quote_segment memory_id)
       (Some [(''state'', JStr ''invalidated''),
              (''reason'', JStr (take 500 (strip (if reason = [] then ''user requested forget'' else reason))))]) None None"

definition list_documents :: "memory_ids \<Rightarrow> string \<Rightarrow> string \<Rightarrow> int \<Rightarrow> int \<Rightarrow> string list \<Rightarrow> dict call" where
  "list_documents I user_id q limit offset tags =
     bank_request I ''GET'' user_id ''documents'' None
       (Some (page_params limit offset q
          @ (if tags = [] then [] else [(''tags'', JList (map JStr tags)), (''tags_match'', JStr ''all_strict'')]))) None"

definition get_document :: "memory_ids \<Rightarrow> string \<Rightarrow> string \<Rightarrow> dict call" where
  "get_document I user_id document_id =
     bank_request I ''GET'' user_id (''documents/'' @ quote_segment document_id) None None None"

definition delete_document :: "memory_ids \<Rightarrow> string \<Rightarrow> string \<Rightarrow> dict call" where
  "delete_document I user_id document_id =
     bank_request I ''DELETE'' user_id (''documents/'' @ quote_segment document_id) None None None"

definition clear_memories :: "memory_ids \<Rightarrow> string \<Rightarrow> dict call" where
  "clear_memories I user_id = bank_request I ''DELETE'' user_id ''memories'' None None (Some 60)"

section \<open>Requests of a call\<close>

text \<open>Every request that a call adds satisfies \<open>P\<close>, and a call only ever adds requests.\<close>

named_theorems requests \<open>the requests of the client's operations\<close>

definition sends_only :: "(request \<Rightarrow> bool) \<Rightarrow> 'a call \<Rightarrow> bool" where
  "sends_only P m \<longleftrightarrow> (\<forall>S h. \<exists>rs. snd (m S h) = h @ rs \<and> list_all P rs)"

lemma sends_onlyI: "(\<And>S h. \<exists>rs. snd (m S h) = h @ rs \<and> list_all P rs) \<Longrightarrow> sends_only P m"
  by (simp add: sends_only_def)

lemma sends_give [requests]: "sends_only P (give x)"
  by (simp add: sends_only_def give_def)

lemma sends_fail [requests]: "sends_only P (fail e)"
  by (simp add: sends_only_def fail_def)

lemma sends_checked [requests]: "sends_only P (checked r)"
  by (cases r) (simp_all add: checked_def requests)

lemma sends_and_then [requests]:
  assumes "sends_only P m" "\<And>x. sends_only P (f x)"
  shows "sends_only P (and_then m f)"
proof (rule sends_onlyI)
  fix S h
  from assms(1) obtain rs where rs: "snd (m S h) = h @ rs" "list_all P rs" by (auto simp: sends_only_def)
  show "\<exists>rs. snd (and_then m f S h) = h @ rs \<and> list_all P rs"
  proof (cases "fst (m S h)")
    case (Inl e)
    with rs show ?thesis by (cases "m S h") (auto simp: and_then_def)
  next
    case (Inr x)
    from assms(2) [of x] obtain ss where "snd (f x S (h @ rs)) = (h @ rs) @ ss" "list_all P ss"
      unfolding sends_only_def by blast
    with rs Inr show ?thesis by (cases "m S h") (auto simp: and_then_def)
  qed
qed

lemma sends_send [requests]:
  "P \<lparr>verb = method, target = url, json_body = body, query_params = params, deadline_s = wait\<rparr> \<Longrightarrow>
   sends_only P (send_request method url body params wait)"
  by (simp add: sends_only_def send_request_def Let_def)

lemma sends_at: "sends_only P m \<Longrightarrow> m S h = (r, h') \<Longrightarrow> \<exists>rs. h' = h @ rs \<and> list_all P rs"
  unfolding sends_only_def by (metis snd_conv)

lemma sends_mono: "sends_only P m \<Longrightarrow> (\<And>q. P q \<Longrightarrow> Q q) \<Longrightarrow> sends_only Q m"
  unfolding sends_only_def by (meson list.pred_mono_strong)

section \<open>Confinement to a bank\<close>

text \<open>A path below the bank of the user, whose segments are neither empty nor \<open>.\<close> or \<open>..\<close> and hold nothing that
  ends a segment or the path.\<close>

definition plain_segment :: "string \<Rightarrow> bool" where
  "plain_segment s = (s \<noteq> [] \<and> s \<noteq> ''.'' \<and> s \<noteq> ''..'' \<and> list_all (\<lambda>c. unreserved c \<or> c = CHR ''%'') s)"

definition confined :: "memory_ids \<Rightarrow> string \<Rightarrow> request \<Rightarrow> bool" where
  "confined I user_id q \<longleftrightarrow>
     (\<exists>bank segs. derive_bank_id I user_id = Inr bank \<and> segs \<noteq> [] \<and> list_all plain_segment segs
        \<and> target q = ''/v1/default/banks/'' @ quote_segment bank @ ''/'' @ join_with ''/'' segs)"

definition resource_id :: "string \<Rightarrow> bool" where
  "resource_id s = (s \<noteq> [] \<and> s \<noteq> ''.'' \<and> s \<noteq> ''..'')"

lemma unreserved_hex: "n < 16 \<Longrightarrow> unreserved (upper_hex n)"
  by (auto simp: unreserved_def upper_hex_def is_digit_def is_upper_letter_def)

lemma slash_reserved: "\<not> unreserved (CHR ''/'')"
  by code_simp

lemma quote_chars: "list_all (\<lambda>c. unreserved c \<or> c = CHR ''%'') (quote_segment s)"
proof -
  have "unreserved (upper_hex (code c div 16)) \<and> unreserved (upper_hex (code c mod 16))" for c
    by (intro conjI unreserved_hex) (simp_all add: less_mult_imp_div_less)
  then show ?thesis by (induction s) (auto simp: quote_segment_def)
qed

lemma quote_dots: "quote_segment s = t \<Longrightarrow> list_all (\<lambda>c. c = CHR ''.'') t \<Longrightarrow> s = t"
proof (induction s arbitrary: t)
  case (Cons c s)
  from Cons.prems obtain u where "unreserved c" and t: "t = c # u" "quote_segment s = u"
    by (auto simp: quote_segment_def split: if_splits)
  with Cons.IH [of u] Cons.prems(2) show ?case by simp
qed (simp add: quote_segment_def)

lemma quote_plain [requests]: "resource_id s \<Longrightarrow> plain_segment (quote_segment s)"
  using quote_dots [of s "[]"] quote_dots [of s "''.''"] quote_dots [of s "''..''"] quote_chars [of s]
  by (auto simp: plain_segment_def resource_id_def)

lemma join_head: "plain_segment s \<Longrightarrow> dropWhile (\<lambda>c. c = CHR ''/'') (join_with ''/'' (s # segs)) = join_with ''/'' (s # segs)"
proof -
  assume "plain_segment s"
  then obtain c u where "s = c # u" "unreserved c \<or> c = CHR ''%''" by (cases s) (auto simp: plain_segment_def)
  then have "s = c # u" "c \<noteq> CHR ''/''" using slash_reserved by auto
  then show ?thesis by (cases segs) simp_all
qed

lemma confined_request:
  assumes "list_all plain_segment (s # segs)"
  shows "sends_only (confined I u) (bank_request I method u (join_with ''/'' (s # segs)) body params wait)"
proof (cases "derive_bank_id I u")
  case (Inl e)
  then show ?thesis
    by (simp add: bank_request_def bank_path_def sends_only_def and_then_def checked_def fail_def)
next
  case (Inr bank)
  have "sends_only (confined I u)
      (send_request method (''/v1/default/banks/'' @ quote_segment bank @ ''/'' @ join_with ''/'' (s # segs)) body params wait)"
  proof (rule sends_send)
    from Inr assms show "confined I u \<lparr>verb = method,
        target = ''/v1/default/banks/'' @ quote_segment bank @ ''/'' @ join_with ''/'' (s # segs),
        json_body = body, query_params = params, deadline_s = wait\<rparr>"
      unfolding confined_def by (intro exI [of _ bank] exI [of _ "s # segs"]) simp
  qed
  with assms show ?thesis
    unfolding sends_only_def and_then_def bank_request_def bank_path_def Inr checked_def
    by (simp add: give_def join_head)
qed

lemma plain_words [requests]:
  "list_all plain_segment [''memories'']" "list_all plain_segment [''memories'', ''list'']"
  "list_all plain_segment [''memories'', ''recall'']" "list_all plain_segment [''reflect'']"
  "list_all plain_segment [''config'']" "list_all plain_segment [''documents'']"
  "list_all plain_segment [''knowledge-base'', ''tree'']" "list_all plain_segment [''knowledge-base'', ''pages'']"
  "list_all plain_segment [''knowledge-base'', ''search'']"
  by (code_simp, code_simp, code_simp, code_simp, code_simp, code_simp, code_simp, code_simp, code_simp)

lemma plain_with_id [requests]:
  assumes "resource_id i"
  shows "list_all plain_segment [''memories'', quote_segment i]" "list_all plain_segment [''documents'', quote_segment i]"
    "list_all plain_segment [''operations'', quote_segment i]"
    "list_all plain_segment [''operations'', quote_segment i, ''retry'']"
    "list_all plain_segment [''knowledge-base'', ''pages'', quote_segment i]"
    "list_all plain_segment [''knowledge-base'', ''nodes'', quote_segment i]"
proof -
  have "list_all plain_segment [''memories'', ''documents'', ''operations'', ''retry'', ''knowledge-base'', ''pages'', ''nodes'']"
    by code_simp
  with quote_plain [OF assms]
  show "list_all plain_segment [''memories'', quote_segment i]" "list_all plain_segment [''documents'', quote_segment i]"
    "list_all plain_segment [''operations'', quote_segment i]"
    "list_all plain_segment [''operations'', quote_segment i, ''retry'']"
    "list_all plain_segment [''knowledge-base'', ''pages'', quote_segment i]"
    "list_all plain_segment [''knowledge-base'', ''nodes'', quote_segment i]"
    by simp_all
qed

lemmas confined_paths = plain_words [THEN confined_request, simplified join_with.simps append_Nil append_Cons]

lemmas confined_ids = plain_with_id [THEN confined_request, simplified join_with.simps append_Nil append_Cons]

lemma confined_if [requests]: "(b \<Longrightarrow> sends_only P m) \<Longrightarrow> (\<not> b \<Longrightarrow> sends_only P n) \<Longrightarrow> sends_only P (if b then m else n)"
  by simp

lemma confined_operations [requests]:
  "sends_only (confined I u) (retain I u m asynchronous)"
  "sends_only (confined I u) (retain_batch I u ms operation_id asynchronous)"
  "sends_only (confined I u) (retain_explicit I u content tags metadata request_id)"
  "sends_only (confined I u) (recall I u q budget tokens)"
  "sends_only (confined I u) (reflect I u q tokens)"
  "sends_only (confined I u) (get_bank_config I u)"
  "sends_only (confined I u) (update_bank_config I u updates)"
  "sends_only (confined I u) (knowledge_tree I u)"
  "sends_only (confined I u) (create_knowledge_page I u name sq)"
  "sends_only (confined I u) (search_knowledge_pages I u q limit)"
  "sends_only (confined I u) (list_memories I u q memory_type limit offset)"
  "sends_only (confined I u) (list_documents I u q limit offset tags)"
  "sends_only (confined I u) (clear_memories I u)"
  unfolding retain_def retain_batch_def retain_explicit_def submit_retain_def recall_def reflect_def get_bank_config_def
    update_bank_config_def knowledge_tree_def create_knowledge_page_def search_knowledge_pages_def list_memories_def
    list_documents_def clear_memories_def Let_def
  by (intro requests confined_paths)+

lemma confined_resources [requests]:
  assumes "resource_id i"
  shows "sends_only (confined I u) (get_knowledge_page I u i)"
    "sends_only (confined I u) (delete_knowledge_node I u i)"
    "sends_only (confined I u) (get_operation I u i)"
    "sends_only (confined I u) (retry_operation I u i)"
    "sends_only (confined I u) (update_memory I u i new_text)"
    "sends_only (confined I u) (invalidate_memory I u i reason)"
    "sends_only (confined I u) (get_document I u i)"
    "sends_only (confined I u) (delete_document I u i)"
  unfolding get_knowledge_page_def delete_knowledge_node_def get_operation_def retry_operation_def update_memory_def
    invalidate_memory_def get_document_def delete_document_def Let_def append_Cons append_Nil
  by (intro requests confined_ids [OF assms])+

end
