(* ===== verification/Idempotency.thy ===== *)
theory Idempotency
  imports Py_Values Interfaces
begin

text \<open>
  Idempotency reservations of the local write tools (\<open>nat_helpers/idempotency.py\<close>).

  The store maps a key to the stored bytes, to what \<open>json.loads\<close> makes of them and to the time to live
  that they were written with. Other clients act between the Redis calls of one reservation: \<open>world\<close>
  gives what they do before and in the middle of each attempt. SHA-256 and the canonical
  \<open>json.dumps\<close> of arbitrary arguments are arguments (\<open>hashing\<close>).
\<close>

record hashing =
  digest :: "string \<Rightarrow> string"
  dumps_any :: "json \<Rightarrow> string"

type_synonym bytes_read = "string \<times> json option"

type_synonym receipts = "string \<rightharpoonup> bytes_read \<times> int"

type_synonym world = "nat \<Rightarrow> bool \<Rightarrow> receipts \<Rightarrow> receipts"

section \<open>Keys and records\<close>

definition canonical_arguments_sha256 :: "hashing \<Rightarrow> json \<Rightarrow> string" where
  "canonical_arguments_sha256 H arguments = digest H (dumps_any H arguments)"

definition operation_key :: "hashing \<Rightarrow> string \<Rightarrow> string \<Rightarrow> string \<Rightarrow> string \<Rightarrow> string" where
  "operation_key H user_id execution_id operation arguments_sha256 =
     ''daedalus:idempotency:v1:'' @ digest H user_id @ '':'' @ digest H execution_id @ '':''
     @ digest H operation @ '':'' @ arguments_sha256"

record reservation =
  res_key :: string
  owner_token :: "string option"
  res_state :: string
  stored_result :: "string option"
  res_contract :: "string option"

definition acquired :: "reservation \<Rightarrow> bool" where
  "acquired r = (owner_token r \<noteq> None \<and> res_state r = ''in_progress'')"

definition ttl_seconds :: "string option \<Rightarrow> int result" where
  "ttl_seconds env =
     bind_result (py_int (JStr (case env of None \<Rightarrow> ''604800'' | Some t \<Rightarrow> t))) (\<lambda>configured.
       Inr (max 3600 configured))"

text \<open>The bytes that \<open>json.dumps(record, sort_keys=True)\<close> writes for members that are all texts.\<close>

definition text_record :: "(string \<times> string) list \<Rightarrow> bytes_read" where
  "text_record members =
     (compact_object (map (\<lambda>(k, v). (k, json_dumps_str v)) members),
      Some (JObj (map (\<lambda>(k, v). (k, JStr v)) members)))"

definition contract_member :: "string option \<Rightarrow> (string \<times> string) list" where
  "contract_member contract = (case contract of None \<Rightarrow> [] | Some c \<Rightarrow> [(''contract'', c)])"

definition contract_json :: "string option \<Rightarrow> json" where
  "contract_json contract = (case contract of None \<Rightarrow> JNull | Some c \<Rightarrow> JStr c)"

section \<open>One attempt\<close>

datatype attempt = Acquired | Seen string bytes_read | Vanished

text \<open>\<open>SET NX\<close>, and \<open>GET\<close> when that found the key taken.\<close>

definition attempt_plain ::
  "string \<Rightarrow> bytes_read \<times> int \<Rightarrow> (receipts \<Rightarrow> receipts) \<Rightarrow> receipts \<Rightarrow> attempt \<times> receipts" where
  "attempt_plain key payload others db =
     (if db key = None then (Acquired, db(key \<mapsto> payload))
      else let db' = others db in
        (case db' key of None \<Rightarrow> (Vanished, db') | Some (raw, ttl) \<Rightarrow> (Seen key raw, db')))"

definition legacy_script ::
  "string \<Rightarrow> string \<Rightarrow> bytes_read \<times> int \<Rightarrow> string \<Rightarrow> bool \<Rightarrow> receipts \<Rightarrow> attempt \<times> receipts" where
  "legacy_script key legacy_key payload inspected marked db =
     (case db key of
        Some (current, ttl) \<Rightarrow> (Seen key current, db)
      | None \<Rightarrow>
          (case db legacy_key of
             Some (legacy, ttl) \<Rightarrow>
               if \<not> marked \<or> fst legacy \<noteq> inspected then (Seen legacy_key legacy, db)
               else (Acquired, db(key \<mapsto> payload))
           | None \<Rightarrow> (Acquired, db(key \<mapsto> payload))))"

definition attempt_legacy ::
  "string \<Rightarrow> string \<Rightarrow> string option \<Rightarrow> bytes_read \<times> int \<Rightarrow> (receipts \<Rightarrow> receipts) \<Rightarrow> receipts \<Rightarrow>
   attempt \<times> receipts" where
  "attempt_legacy key legacy_key contract payload others db =
     (let inspected = (case db legacy_key of None \<Rightarrow> [] | Some (raw, ttl) \<Rightarrow> fst raw);
          marked = (case db legacy_key of
                      Some ((t, Some (JObj d)), ttl) \<Rightarrow> dict_get d ''contract'' = contract_json contract
                    | _ \<Rightarrow> False)
      in legacy_script key legacy_key payload inspected marked (others db))"

text \<open>What an existing receipt means; \<open>None\<close> stands for \<open>continue\<close>.\<close>

definition read_existing ::
  "string \<Rightarrow> string option \<Rightarrow> string \<Rightarrow> bytes_read \<Rightarrow> reservation option result" where
  "read_existing key contract existing_key raw =
     (if fst raw = [] then Inr None
      else case snd raw of
        None \<Rightarrow> Inr (Some \<lparr>res_key = existing_key, owner_token = None, res_state = ''invalid'',
                   stored_result = None, res_contract = None\<rparr>)
      | Some (JObj existing) \<Rightarrow>
          if existing_key \<noteq> key \<and> dict_get existing ''contract'' = contract_json contract then Inr None
          else Inr (Some \<lparr>res_key = existing_key, owner_token = None,
                 res_state = py_str (py_or (dict_get existing ''state'') (JStr ''invalid'')),
                 stored_result = (case dict_get existing ''result'' of JStr r \<Rightarrow> Some r | _ \<Rightarrow> None),
                 res_contract = None\<rparr>)
      | Some _ \<Rightarrow> Inl AttributeError)"

section \<open>Reserving and completing\<close>

record write_request =
  wr_user :: string
  wr_execution :: string
  wr_operation :: string
  wr_arguments :: json
  wr_contract :: "string option"
  wr_legacy :: "json option"

definition request_key :: "hashing \<Rightarrow> write_request \<Rightarrow> json \<Rightarrow> string" where
  "request_key H q arguments =
     operation_key H (wr_user q) (wr_execution q) (wr_operation q) (canonical_arguments_sha256 H arguments)"

definition reservation_record :: "hashing \<Rightarrow> write_request \<Rightarrow> string \<Rightarrow> bytes_read" where
  "reservation_record H q owner =
     text_record ([(''arguments_sha256'', canonical_arguments_sha256 H (wr_arguments q))]
       @ contract_member (wr_contract q) @ [(''owner'', owner), (''state'', ''in_progress'')])"

definition reserve_attempt ::
  "hashing \<Rightarrow> write_request \<Rightarrow> bytes_read \<times> int \<Rightarrow> (receipts \<Rightarrow> receipts) \<Rightarrow> receipts \<Rightarrow> attempt \<times> receipts" where
  "reserve_attempt H q payload others db =
     (case wr_legacy q of
        None \<Rightarrow> attempt_plain (request_key H q (wr_arguments q)) payload others db
      | Some legacy \<Rightarrow>
          attempt_legacy (request_key H q (wr_arguments q)) (request_key H q legacy) (wr_contract q)
            payload others db)"

fun reserve_loop ::
  "hashing \<Rightarrow> write_request \<Rightarrow> string \<Rightarrow> int \<Rightarrow> world \<Rightarrow> nat \<Rightarrow> receipts \<Rightarrow> reservation result \<times> receipts" where
  "reserve_loop H q owner ttl world 0 db =
     (Inr \<lparr>res_key = request_key H q (wr_arguments q), owner_token = None, res_state = ''in_progress'',
           stored_result = None, res_contract = None\<rparr>, db)"
| "reserve_loop H q owner ttl world (Suc n) db =
     (case reserve_attempt H q (reservation_record H q owner, ttl) (world n False) (world n True db) of
        (Acquired, db') \<Rightarrow>
          (Inr \<lparr>res_key = request_key H q (wr_arguments q), owner_token = Some owner,
                res_state = ''in_progress'', stored_result = None, res_contract = wr_contract q\<rparr>, db')
      | (Vanished, db') \<Rightarrow> reserve_loop H q owner ttl world n db'
      | (Seen existing_key raw, db') \<Rightarrow>
          (case read_existing (request_key H q (wr_arguments q)) (wr_contract q) existing_key raw of
             Inl e \<Rightarrow> (Inl e, db')
           | Inr None \<Rightarrow> reserve_loop H q owner ttl world n db'
           | Inr (Some r) \<Rightarrow> (Inr r, db')))"

definition reserve_operation ::
  "hashing \<Rightarrow> string option \<Rightarrow> write_request \<Rightarrow> string \<Rightarrow> world \<Rightarrow> receipts \<Rightarrow> reservation result \<times> receipts" where
  "reserve_operation H env q owner world db =
     (if wr_legacy q \<noteq> None \<and> (wr_contract q = None \<or> wr_contract q = Some [])
      then (Inl (ValueError ''A legacy reservation requires a contract marker''), db)
      else (case ttl_seconds env of
              Inl e \<Rightarrow> (Inl e, db)
            | Inr ttl \<Rightarrow> reserve_loop H q owner ttl world 2 db))"

text \<open>A field of a decoded value in the script: absent fields are \<open>nil\<close>, other scalars cannot be indexed.\<close>

definition lua_field :: "json \<Rightarrow> string \<Rightarrow> json result" where
  "lua_field v k =
     (case v of
        JObj d \<Rightarrow> Inr (dict_get d k)
      | JList xs \<Rightarrow> Inr JNull
      | JStr s \<Rightarrow> Inr JNull
      | _ \<Rightarrow> Inl (RuntimeError ''attempt to index a non-table value''))"

definition complete_receipt_script ::
  "string \<Rightarrow> string \<Rightarrow> bytes_read \<times> int \<Rightarrow> receipts \<Rightarrow> bool result \<times> receipts" where
  "complete_receipt_script key owner payload db =
     (case db key of
        None \<Rightarrow> (Inr False, db)
      | Some ((t, decoded), ttl) \<Rightarrow>
          (case decoded of
             None \<Rightarrow> (Inl (RuntimeError ''Expected value but found invalid token''), db)
           | Some v \<Rightarrow>
               (case (lua_field v ''state'', lua_field v ''owner'') of
                  (Inr state, Inr own) \<Rightarrow>
                    if state \<noteq> JStr ''in_progress'' \<or> own \<noteq> JStr owner then (Inr False, db)
                    else (Inr True, db(key \<mapsto> payload))
                | (Inl e, _) \<Rightarrow> (Inl e, db)
                | (_, Inl e) \<Rightarrow> (Inl e, db))))"

definition completed_record :: "string option \<Rightarrow> string \<Rightarrow> bytes_read" where
  "completed_record contract result =
     text_record (contract_member contract @ [(''result'', result), (''state'', ''completed'')])"

definition complete_operation ::
  "string option \<Rightarrow> reservation \<Rightarrow> string \<Rightarrow> receipts \<Rightarrow> bool result \<times> receipts" where
  "complete_operation env r result db =
     (case owner_token r of
        None \<Rightarrow> (Inr False, db)
      | Some owner \<Rightarrow>
          if \<not> acquired r \<or> owner = [] then (Inr False, db)
          else (case ttl_seconds env of
                  Inl e \<Rightarrow> (Inl e, db)
                | Inr ttl \<Rightarrow> complete_receipt_script (res_key r) owner (completed_record (res_contract r) result, ttl) db))"

section \<open>Facts\<close>

abbreviation own_key :: "hashing \<Rightarrow> write_request \<Rightarrow> string" where
  "own_key H q \<equiv> request_key H q (wr_arguments q)"

lemma ttl_bound: "ttl_seconds env = Inr ttl \<Longrightarrow> 3600 \<le> ttl"
  by (auto simp: ttl_seconds_def bind_result_Inr)

lemma default_ttl: "ttl_seconds None = Inr 604800"
  by (simp add: ttl_seconds_def int_of_text_def unsigned_text_def digits_value_def string_defs)

lemma legacy_script_acquired:
  "legacy_script key lk p i m db = (Acquired, db') \<Longrightarrow> db key = None \<and> db' = db(key \<mapsto> p)"
  by (auto simp: legacy_script_def split: option.splits if_splits)

lemma plain_acquired:
  "attempt_plain key p others db = (Acquired, db') \<Longrightarrow> db key = None \<and> db' = db(key \<mapsto> p)"
  by (auto simp: attempt_plain_def Let_def split: option.splits if_splits prod.splits)

lemma attempt_acquired:
  "reserve_attempt H q p others db = (Acquired, db') \<Longrightarrow>
     db' (own_key H q) = Some p"
  by (auto simp: reserve_attempt_def attempt_legacy_def Let_def split: option.splits
      dest!: plain_acquired legacy_script_acquired)

lemma read_existing_not_acquired:
  "read_existing key c k raw = Inr (Some r) \<Longrightarrow> owner_token r = None"
  by (auto simp: read_existing_def split: if_splits option.splits json.splits)

lemma reserve_loop_acquired:
  "reserve_loop H q owner ttl world n db = (Inr r, db') \<Longrightarrow> owner_token r \<noteq> None \<Longrightarrow>
     r = \<lparr>res_key = own_key H q, owner_token = Some owner, res_state = ''in_progress'',
          stored_result = None, res_contract = wr_contract q\<rparr>
     \<and> db' (own_key H q) = Some (reservation_record H q owner, ttl)"
proof (induction n arbitrary: db)
  case (Suc n)
  obtain a d where a: "reserve_attempt H q (reservation_record H q owner, ttl) (world n False) (world n True db) = (a, d)"
    by (cases "reserve_attempt H q (reservation_record H q owner, ttl) (world n False) (world n True db)")
  show ?case
  proof (cases a)
    case Acquired
    with a have "d (own_key H q) = Some (reservation_record H q owner, ttl)"
      by (simp add: attempt_acquired)
    with Suc.prems a Acquired show ?thesis by auto
  next
    case Vanished
    with Suc.prems a have "reserve_loop H q owner ttl world n d = (Inr r, db')" by simp
    from Suc.IH [OF this Suc.prems(2)] show ?thesis .
  next
    case (Seen k raw)
    show ?thesis
    proof (cases "read_existing (own_key H q) (wr_contract q) k raw")
      case (Inl e)
      with Suc.prems a Seen show ?thesis by simp
    next
      case (Inr o1)
      with Suc.prems a Seen have "o1 = None" by (cases o1) (auto dest: read_existing_not_acquired)
      with Inr Suc.prems a Seen have "reserve_loop H q owner ttl world n d = (Inr r, db')" by simp
      from Suc.IH [OF this Suc.prems(2)] show ?thesis .
    qed
  qed
qed auto

lemma reserve_operation_acquired:
  assumes "reserve_operation H env q owner world db = (Inr r, db')" and "acquired r"
  shows "\<exists>ttl. ttl_seconds env = Inr ttl
    \<and> db' (own_key H q) = Some (reservation_record H q owner, ttl)
    \<and> r = \<lparr>res_key = own_key H q, owner_token = Some owner, res_state = ''in_progress'',
            stored_result = None, res_contract = wr_contract q\<rparr>"
proof -
  from assms(1) obtain ttl where t: "ttl_seconds env = Inr ttl"
    and l: "reserve_loop H q owner ttl world 2 db = (Inr r, db')"
    by (auto simp: reserve_operation_def split: if_splits sum.splits)
  from assms(2) have "owner_token r \<noteq> None" by (simp add: acquired_def)
  from reserve_loop_acquired [OF l this] t show ?thesis by blast
qed

text \<open>The fields of the two records that the tool writes.\<close>

lemma reservation_decoded:
  "snd (reservation_record H q owner) = Some (JObj d) \<Longrightarrow>
     dict_get d ''state'' = JStr ''in_progress'' \<and> dict_get d ''owner'' = JStr owner"
  by (auto simp: reservation_record_def text_record_def contract_member_def dict_get_def split: option.splits)

lemma completed_decoded:
  "snd (completed_record c result) = Some (JObj d) \<Longrightarrow>
     dict_get d ''state'' = JStr ''completed'' \<and> dict_get d ''result'' = JStr result"
  by (auto simp: completed_record_def text_record_def contract_member_def dict_get_def split: option.splits)

lemma record_is_object:
  "\<exists>d. snd (reservation_record H q owner) = Some (JObj d)" "\<exists>d. snd (completed_record c result) = Some (JObj d)"
  by (simp_all add: reservation_record_def completed_record_def text_record_def)

lemma record_not_empty: "fst (completed_record c result) \<noteq> []"
  by (simp add: completed_record_def text_record_def compact_object_def)

lemma complete_script_owner:
  assumes "db key = Some (reservation_record H q owner, t)"
  shows "complete_receipt_script key o1 p db
    = (if o1 = owner then (Inr True, db(key \<mapsto> p)) else (Inr False, db))"
proof -
  obtain d where d: "snd (reservation_record H q owner) = Some (JObj d)" using record_is_object by blast
  with reservation_decoded [OF d] assms show ?thesis
    by (cases "reservation_record H q owner") (auto simp: complete_receipt_script_def lua_field_def)
qed

lemma reserve_after_completion:
  assumes db: "db (own_key H q) = Some (completed_record c result, t)"
  shows "reserve_loop H q owner ttl (\<lambda>_ _ d. d) (Suc n) db
    = (Inr \<lparr>res_key = own_key H q, owner_token = None, res_state = ''completed'',
           stored_result = Some result, res_contract = None\<rparr>, db)"
proof -
  obtain d where d: "snd (completed_record c result) = Some (JObj d)" using record_is_object by blast
  have a: "reserve_attempt H q p (\<lambda>d. d) db = (Seen (own_key H q) (completed_record c result), db)" for p
    using db by (auto simp: reserve_attempt_def attempt_plain_def attempt_legacy_def legacy_script_def Let_def
        split: option.splits)
  have "read_existing (own_key H q) (wr_contract q) (own_key H q) (completed_record c result)
      = Inr (Some \<lparr>res_key = own_key H q, owner_token = None, res_state = ''completed'',
           stored_result = Some result, res_contract = None\<rparr>)"
    using d completed_decoded [OF d] record_not_empty [of c result]
    by (simp add: read_existing_def py_str_def py_or_def)
  with a show ?thesis by simp
qed

text \<open>A loop that nobody disturbs.\<close>

definition legacy_free :: "hashing \<Rightarrow> write_request \<Rightarrow> receipts \<Rightarrow> bool" where
  "legacy_free H q db =
     (case wr_legacy q of
        None \<Rightarrow> True
      | Some legacy \<Rightarrow>
          (case db (request_key H q legacy) of
             None \<Rightarrow> True
           | Some ((t, Some (JObj d)), ttl) \<Rightarrow> dict_get d ''contract'' = contract_json (wr_contract q)
           | _ \<Rightarrow> False))"

lemma quiet_attempt:
  "reserve_attempt H q p (\<lambda>d. d) db = (a, db') \<Longrightarrow>
     (a = Acquired \<longleftrightarrow> db (own_key H q) = None \<and> legacy_free H q db)
     \<and> db' = (if a = Acquired then db(own_key H q \<mapsto> p) else db)"
  by (auto simp: reserve_attempt_def attempt_plain_def attempt_legacy_def legacy_script_def legacy_free_def Let_def
      split: option.splits if_splits prod.splits json.splits)

lemma reserve_loop_taken:
  "\<not> (db (own_key H q) = None \<and> legacy_free H q db) \<Longrightarrow>
   reserve_loop H q owner ttl (\<lambda>_ _ d. d) n db = (Inr r, db') \<Longrightarrow> \<not> acquired r \<and> db' = db"
proof (induction n)
  case 0
  then show ?case by (auto simp: acquired_def)
next
  case (Suc n)
  obtain a d where a: "reserve_attempt H q (reservation_record H q owner, ttl) (\<lambda>d. d) db = (a, d)"
    by (cases "reserve_attempt H q (reservation_record H q owner, ttl) (\<lambda>d. d) db")
  from quiet_attempt [OF a] Suc.prems(1) have n: "a \<noteq> Acquired" and d: "d = db" by auto
  show ?case
  proof (cases a)
    case Acquired
    with n show ?thesis by simp
  next
    case Vanished
    with Suc a d show ?thesis by simp
  next
    case (Seen k raw)
    show ?thesis
    proof (cases "read_existing (own_key H q) (wr_contract q) k raw")
      case (Inl e)
      with Suc.prems a Seen show ?thesis by simp
    next
      case (Inr o1)
      with Suc a d Seen show ?thesis
        by (cases o1) (auto simp: acquired_def dest: read_existing_not_acquired)
    qed
  qed
qed

lemma reserve_loop_quiet:
  assumes "reserve_loop H q owner ttl (\<lambda>_ _ d. d) (Suc n) db = (Inr r, db')"
  shows "(acquired r \<longleftrightarrow> db (own_key H q) = None \<and> legacy_free H q db)
     \<and> db' = (if acquired r then db(own_key H q \<mapsto> (reservation_record H q owner, ttl)) else db)"
proof (cases "db (own_key H q) = None \<and> legacy_free H q db")
  case True
  obtain a d where a: "reserve_attempt H q (reservation_record H q owner, ttl) (\<lambda>d. d) db = (a, d)"
    by (cases "reserve_attempt H q (reservation_record H q owner, ttl) (\<lambda>d. d) db")
  from quiet_attempt [OF a] True have "a = Acquired"
    "d = db(own_key H q \<mapsto> (reservation_record H q owner, ttl))" by auto
  with assms a True show ?thesis by (auto simp: acquired_def)
next
  case False
  from reserve_loop_taken [OF this assms] False show ?thesis by auto
qed

section \<open>Interleaved clients\<close>

text \<open>Every atomic step of every client, with ghost counts of the acquisitions and expiries of a key.
  What a client inspected before its script may be stale, so the script runs with arbitrary values.\<close>

record receipt_state =
  rdb :: receipts
  acquisitions :: "string \<Rightarrow> nat"
  lapses :: "string \<Rightarrow> nat"

definition count_acquired :: "string \<Rightarrow> attempt \<Rightarrow> receipt_state \<Rightarrow> receipt_state" where
  "count_acquired key a s =
     s\<lparr>acquisitions := (acquisitions s)(key := acquisitions s key + (if a = Acquired then 1 else 0))\<rparr>"

inductive receipt_step :: "hashing \<Rightarrow> receipt_state \<Rightarrow> receipt_state \<Rightarrow> bool" for H :: hashing where
  rs_plain: "attempt_plain (own_key H q) (reservation_record H q owner, ttl) (\<lambda>d. d) (rdb s) = (a, db) \<Longrightarrow>
     receipt_step H s (count_acquired (own_key H q) a (s\<lparr>rdb := db\<rparr>))"
| rs_legacy: "legacy_script (own_key H q) lk (reservation_record H q owner, ttl) inspected marked (rdb s) = (a, db) \<Longrightarrow>
     receipt_step H s (count_acquired (own_key H q) a (s\<lparr>rdb := db\<rparr>))"
| rs_complete: "complete_receipt_script key owner (completed_record c result, ttl) (rdb s) = (r, db) \<Longrightarrow>
     receipt_step H s (s\<lparr>rdb := db\<rparr>)"
| rs_lapse: "rdb s key \<noteq> None \<Longrightarrow>
     receipt_step H s (s\<lparr>rdb := (rdb s)(key := None), lapses := (lapses s)(key := Suc (lapses s key))\<rparr>)"

definition receipt_init :: "receipt_state \<Rightarrow> bool" where
  "receipt_init s = (rdb s = (\<lambda>_. None) \<and> acquisitions s = (\<lambda>_. 0) \<and> lapses s = (\<lambda>_. 0))"

definition receipt_inv :: "receipt_state \<Rightarrow> bool" where
  "receipt_inv s = (\<forall>k. acquisitions s k = lapses s k + (if rdb s k = None then 0 else 1))"

lemma complete_script_keys:
  "complete_receipt_script key owner p db = (r, db') \<Longrightarrow> (db' k = None \<longleftrightarrow> db k = None)"
  by (auto simp: complete_receipt_script_def split: option.splits sum.splits if_splits)

lemma plain_cases:
  "attempt_plain key p (\<lambda>d. d) db = (a, db') \<Longrightarrow>
     (if a = Acquired then db key = None \<and> db' = db(key \<mapsto> p) else db' = db)"
  by (auto simp: attempt_plain_def Let_def split: option.splits if_splits prod.splits)

lemma legacy_cases:
  "legacy_script key lk p i m db = (a, db') \<Longrightarrow>
     (if a = Acquired then db key = None \<and> db' = db(key \<mapsto> p) else db' = db)"
  by (auto simp: legacy_script_def split: option.splits if_splits prod.splits)

lemma count_acquired_inv:
  assumes "receipt_inv s"
    and "if a = Acquired then rdb s key = None \<and> db = (rdb s)(key \<mapsto> p) else db = rdb s"
  shows "receipt_inv (count_acquired key a (s\<lparr>rdb := db\<rparr>))"
  using assms by (auto simp: receipt_inv_def count_acquired_def split: if_splits)

interpretation receipts: invariant_system receipt_init "receipt_step H" receipt_inv for H
proof
  show "receipt_inv s" if "receipt_init s" for s
    using that by (simp add: receipt_init_def receipt_inv_def)
  show "receipt_inv t" if "receipt_inv s" "receipt_step H s t" for s t
    using that(2,1)
  proof cases
    case (rs_plain q owner ttl a db)
    with that(1) plain_cases [OF rs_plain(2)] show ?thesis by (simp only: count_acquired_inv)
  next
    case (rs_legacy q lk owner ttl inspected marked a db)
    with that(1) legacy_cases [OF rs_legacy(2)] show ?thesis by (simp only: count_acquired_inv)
  next
    case (rs_complete key owner c result ttl r db)
    with that(1) complete_script_keys [OF rs_complete(2)] show ?thesis by (simp add: receipt_inv_def)
  next
    case (rs_lapse key)
    with that(1) show ?thesis by (auto simp: receipt_inv_def)
  qed
qed

section \<open>What the receipts implement\<close>

text \<open>The abstract contract: an operation is free, held by one owner, or done with a result.\<close>

datatype claim = Free | Held string | Done string

inductive claim_step :: "(string \<Rightarrow> claim) \<Rightarrow> (string \<Rightarrow> claim) \<Rightarrow> bool" where
  cs_hold: "c k = Free \<Longrightarrow> claim_step c (c(k := Held owner))"
| cs_finish: "c k = Held owner \<Longrightarrow> claim_step c (c(k := Done result))"
| cs_lapse: "claim_step c (c(k := Free))"

inductive_cases claim_stepE: "claim_step c c'"

definition claim_of :: "(bytes_read \<times> int) option \<Rightarrow> claim" where
  "claim_of entry =
     (case entry of
        None \<Rightarrow> Free
      | Some ((t, Some (JObj d)), ttl) \<Rightarrow>
          if dict_get d ''state'' = JStr ''in_progress''
          then Held (case dict_get d ''owner'' of JStr o1 \<Rightarrow> o1 | _ \<Rightarrow> [])
          else Done (case dict_get d ''result'' of JStr r \<Rightarrow> r | _ \<Rightarrow> [])
      | Some _ \<Rightarrow> Done [])"

definition claims :: "receipt_state \<Rightarrow> string \<Rightarrow> claim" where
  "claims s k = claim_of (rdb s k)"

lemma claim_of_None [simp]: "claim_of None = Free"
  by (simp add: claim_of_def)

lemma claim_of_reservation: "claim_of (Some (reservation_record H q owner, ttl)) = Held owner"
proof -
  obtain d where d: "snd (reservation_record H q owner) = Some (JObj d)" using record_is_object by blast
  with reservation_decoded [OF d] show ?thesis
    by (cases "reservation_record H q owner") (auto simp: claim_of_def)
qed

lemma claim_of_completed: "claim_of (Some (completed_record c result, ttl)) = Done result"
proof -
  obtain d where d: "snd (completed_record c result) = Some (JObj d)" using record_is_object by blast
  with completed_decoded [OF d] show ?thesis
    by (cases "completed_record c result") (auto simp: claim_of_def)
qed

lemma complete_script_cases:
  assumes "complete_receipt_script key owner p db = (r, db')"
  shows "db' = db \<or> claim_of (db key) = Held owner \<and> db' = db(key \<mapsto> p)"
proof (cases "db key")
  case None
  with assms show ?thesis by (simp add: complete_receipt_script_def)
next
  case (Some e)
  obtain t decoded ttl where e: "e = ((t, decoded), ttl)" by (metis prod.exhaust)
  show ?thesis
  proof (cases decoded)
    case None
    with assms Some e show ?thesis by (simp add: complete_receipt_script_def)
  next
    case v: (Some v)
    with assms Some e show ?thesis
      by (cases v) (auto simp: complete_receipt_script_def lua_field_def claim_of_def split: if_splits)
  qed
qed

lemma claims_update:
  "claims (s\<lparr>rdb := (rdb s)(k := e)\<rparr>) = (claims s)(k := claim_of e)"
  by (auto simp: claims_def fun_eq_iff)

lemma claims_count [simp]: "claims (count_acquired key a s) = claims s"
  by (simp add: claims_def count_acquired_def fun_eq_iff)

lemma claims_attempt:
  assumes "if a = Acquired then rdb s key = None \<and> db = (rdb s)(key \<mapsto> (reservation_record H q owner, ttl)) else db = rdb s"
  shows "claims (s\<lparr>rdb := db\<rparr>) = claims s \<or> claim_step (claims s) (claims (s\<lparr>rdb := db\<rparr>))"
proof (cases "a = Acquired")
  case True
  with assms have "claims s key = Free" "claims (s\<lparr>rdb := db\<rparr>) = (claims s)(key := Held owner)"
    by (auto simp: claims_update claim_of_reservation) (simp add: claims_def)
  then show ?thesis by (auto intro: cs_hold)
next
  case False
  with assms show ?thesis by (simp add: claims_def fun_eq_iff)
qed

definition all_free :: "(string \<Rightarrow> claim) \<Rightarrow> bool" where
  "all_free c = (c = (\<lambda>_. Free))"

interpretation receipt_claims: refinement receipt_init "receipt_step H" all_free claim_step claims for H
proof
  show "all_free (claims s)" if "receipt_init s" for s
    using that by (simp add: receipt_init_def all_free_def claims_def claim_of_def fun_eq_iff)
  show "claims t = claims s \<or> claim_step (claims s) (claims t)" if "receipt_step H s t" for s t
    using that
  proof cases
    case (rs_plain q owner ttl a db)
    with claims_attempt [OF plain_cases [OF rs_plain(2)]] show ?thesis by simp
  next
    case (rs_legacy q lk owner ttl inspected marked a db)
    with claims_attempt [OF legacy_cases [OF rs_legacy(2)]] show ?thesis by simp
  next
    case (rs_complete key owner c result ttl r db)
    from complete_script_cases [OF rs_complete(2)] show ?thesis
    proof
      assume "db = rdb s"
      with rs_complete show ?thesis by (simp add: claims_def fun_eq_iff)
    next
      assume "claim_of (rdb s key) = Held owner \<and> db = (rdb s)(key \<mapsto> (completed_record c result, ttl))"
      then have "claims s key = Held owner" "claims t = (claims s)(key := Done result)"
        by (auto simp: rs_complete claims_update claim_of_completed claims_def)
      then show ?thesis by (auto intro: cs_finish)
    qed
  next
    case (rs_lapse key)
    have "claims t = (claims s)(key := Free)"
      by (auto simp: rs_lapse claims_def claim_of_def fun_eq_iff)
    then show ?thesis by (auto intro: cs_lapse)
  qed
qed

lemma claim_step_done: "claim_step c c' \<Longrightarrow> c k = Done r \<Longrightarrow> c' k = Done r \<or> c' k = Free"
  by (auto elim!: claim_stepE split: if_splits)

lemma claim_step_held:
  "claim_step c c' \<Longrightarrow> c k = Held o1 \<Longrightarrow> c' k = Held o1 \<or> c' k = Free \<or> (\<exists>r. c' k = Done r)"
  by (auto elim!: claim_stepE split: if_splits)

section \<open>Properties\<close>


definition sample_write :: write_request where
  "sample_write = \<lparr>wr_user = ''u'', wr_execution = ''e'', wr_operation = ''op'', wr_arguments = JNull,
     wr_contract = None, wr_legacy = None\<rparr>"

definition sample_hashing :: hashing where
  "sample_hashing = \<lparr>digest = (\<lambda>s. s), dumps_any = (\<lambda>v. ''null'')\<rparr>"

definition no_receipts :: receipt_state where
  "no_receipts = \<lparr>rdb = (\<lambda>_. None), acquisitions = (\<lambda>_. 0), lapses = (\<lambda>_. 0)\<rparr>"

lemma no_receipts_reached: "reach receipt_init (receipt_step H) no_receipts"
  by (rule reach_start) (simp add: receipt_init_def no_receipts_def)


text \<open>C16. However the Redis steps of concurrent clients interleave, and with any stale view of a legacy
  receipt, a write is acquired at most once more often than its receipt has expired: without an expiry
  the side effect of one operation with the same arguments is attempted at most once. Without
  interference a reservation acquires exactly when its own key is free and a receipt under the legacy
  arguments, if they are given, is absent or carries the same contract; it has then stored its receipt
  for at least an hour, and otherwise it has changed nothing.\<close>

theorem reservation_once:
  assumes "reach receipt_init (receipt_step H) s"
    and res: "reserve_operation H env q owner (\<lambda>_ _ d. d) db = (Inr r, db')"
  shows "acquisitions s (own_key H q) \<le> lapses s (own_key H q) + 1
    \<and> (acquired r \<longleftrightarrow> db (own_key H q) = None \<and> legacy_free H q db)
    \<and> (if acquired r then \<exists>ttl. 3600 \<le> ttl \<and> db' = db(own_key H q \<mapsto> (reservation_record H q owner, ttl))
       else db' = db)"
proof (intro conjI)
  show "acquisitions s (own_key H q) \<le> lapses s (own_key H q) + 1"
    using receipts.reach_inv [OF assms(1)] by (simp add: receipt_inv_def)
  from res obtain ttl where t: "ttl_seconds env = Inr ttl"
    and l: "reserve_loop H q owner ttl (\<lambda>_ _ d. d) 2 db = (Inr r, db')"
    by (auto simp: reserve_operation_def split: if_splits sum.splits)
  note q = reserve_loop_quiet [OF l [unfolded numeral_2_eq_2]]
  from q show "acquired r \<longleftrightarrow> db (own_key H q) = None \<and> legacy_free H q db" by simp
  from q ttl_bound [OF t] show "if acquired r
      then \<exists>ttl. 3600 \<le> ttl \<and> db' = db(own_key H q \<mapsto> (reservation_record H q owner, ttl)) else db' = db"
    by auto
qed

theorem reservation_once_witness:
  "\<exists>r db'. reserve_operation sample_hashing None sample_write ''o'' (\<lambda>_ _ d. d) (\<lambda>_. None) = (Inr r, db')
     \<and> acquired r \<and> db' (own_key sample_hashing sample_write) \<noteq> None"
proof -
  let ?e = "reserve_operation sample_hashing None sample_write ''o'' (\<lambda>_ _ d. d) (\<lambda>_. None)"
  obtain r db' where e: "?e = (Inr r, db')" "acquired r"
    by (simp add: reserve_operation_def sample_write_def default_ttl numeral_2_eq_2 reserve_attempt_def
        attempt_plain_def acquired_def)
  from reservation_once [OF no_receipts_reached e(1)] e show ?thesis by auto
qed

text \<open>Completion and replay: only the holder of the reservation can complete it; then every later
  reservation of the same operation and arguments, legacy or not, is refused the write and is given
  exactly the stored result.\<close>

theorem completed_replay:
  assumes res: "reserve_operation H env q owner world db = (Inr r, db1)" and acq: "acquired r"
    and own: "owner \<noteq> []" and ttl: "ttl_seconds env = Inr ttl"
  shows "complete_operation env r result db1
      = (Inr True, db1(own_key H q \<mapsto> (completed_record (wr_contract q) result, ttl)))
    \<and> (\<forall>o1. o1 \<noteq> owner \<longrightarrow> complete_operation env (r\<lparr>owner_token := Some o1\<rparr>) result db1 = (Inr False, db1))
    \<and> (\<forall>owner' q'. wr_user q' = wr_user q \<longrightarrow> wr_execution q' = wr_execution q \<longrightarrow>
         wr_operation q' = wr_operation q \<longrightarrow> wr_arguments q' = wr_arguments q \<longrightarrow>
         (wr_legacy q' \<noteq> None \<longrightarrow> wr_contract q' \<noteq> None \<and> wr_contract q' \<noteq> Some []) \<longrightarrow>
         reserve_operation H env q' owner' (\<lambda>_ _ d. d) (snd (complete_operation env r result db1))
           = (Inr \<lparr>res_key = own_key H q, owner_token = None, res_state = ''completed'',
                  stored_result = Some result, res_contract = None\<rparr>,
              snd (complete_operation env r result db1)))"
proof -
  from reserve_operation_acquired [OF res acq] ttl have
    at: "db1 (own_key H q) = Some (reservation_record H q owner, ttl)"
    and r: "r = \<lparr>res_key = own_key H q, owner_token = Some owner, res_state = ''in_progress'',
            stored_result = None, res_contract = wr_contract q\<rparr>" by auto
  note script = complete_script_owner [where db = db1 and key = "own_key H q", OF at]
  have first: "complete_operation env r result db1
      = (Inr True, db1(own_key H q \<mapsto> (completed_record (wr_contract q) result, ttl)))"
    using own ttl by (simp add: complete_operation_def r acquired_def script)
  moreover have "complete_operation env (r\<lparr>owner_token := Some o1\<rparr>) result db1 = (Inr False, db1)"
    if "o1 \<noteq> owner" for o1
    using that ttl by (simp add: complete_operation_def r acquired_def script)
  moreover have "reserve_operation H env q' owner' (\<lambda>_ _ d. d) (snd (complete_operation env r result db1))
      = (Inr \<lparr>res_key = own_key H q, owner_token = None, res_state = ''completed'',
             stored_result = Some result, res_contract = None\<rparr>, snd (complete_operation env r result db1))"
    if "wr_user q' = wr_user q" "wr_execution q' = wr_execution q" "wr_operation q' = wr_operation q"
      "wr_arguments q' = wr_arguments q" "wr_legacy q' \<noteq> None \<longrightarrow> wr_contract q' \<noteq> None \<and> wr_contract q' \<noteq> Some []"
    for owner' q'
  proof -
    have k: "own_key H q' = own_key H q" using that by (simp add: request_key_def)
    have "snd (complete_operation env r result db1) (own_key H q')
        = Some (completed_record (wr_contract q) result, ttl)" using first k by simp
    from reserve_after_completion [where db = "snd (complete_operation env r result db1)" and H = H and q = q',
        OF this, of owner' ttl 1] k ttl that(5) show ?thesis
      by (auto simp: reserve_operation_def numeral_2_eq_2)
  qed
  ultimately show ?thesis by blast
qed

theorem completed_replay_witness:
  "\<exists>r db1. acquired r \<and> complete_operation None r ''ok'' db1
     = (Inr True, db1(own_key sample_hashing sample_write \<mapsto> (completed_record None ''ok'', 604800)))"
proof -
  let ?e = "reserve_operation sample_hashing None sample_write ''o'' (\<lambda>_ _ d. d) (\<lambda>_. None)"
  obtain r db' where e: "?e = (Inr r, db')" "acquired r"
    by (simp add: reserve_operation_def sample_write_def default_ttl numeral_2_eq_2 reserve_attempt_def
        attempt_plain_def acquired_def)
  note t = default_ttl
  have c: "wr_contract sample_write = None" by (simp add: sample_write_def)
  from completed_replay [OF e _ t, of "''ok''"] e c show ?thesis by auto
qed

end
