(* ===== verification/Memory_Import.thy ===== *)
theory Memory_Import
  imports Memory_Client Idempotency
begin

text \<open>
  Bulk import of profile memories (\<open>builder/profile_import_api.py\<close>) and the memory tools of the agent
  (\<open>nat_helpers/daedalus_memory_tools.py\<close>).

  \<^item> The identifier of the requested operation (\<open>uuid.uuid4\<close>) and the time of the import are arguments.
  \<^item> The tools read the authenticated request from its headers. \<open>describe\<close> is the text of an exception.
\<close>

section \<open>Profile entries\<close>

record profile_entry =
  pe_label :: string
  pe_memory :: string
  pe_tags :: "string list"
  pe_metadata :: dict
  pe_pairs :: "dict option"

definition MAX_PROFILE_IMPORT_ENTRIES :: nat where
  "MAX_PROFILE_IMPORT_ENTRIES = 250"

fun normalize_tags :: "string list \<Rightarrow> string list \<Rightarrow> string list" where
  "normalize_tags known [] = []"
| "normalize_tags known (raw # tags) =
     (let tag = strip raw in
      if tag = [] \<or> tag \<in> set known then normalize_tags known tags
      else tag # normalize_tags (tag # known) tags)"

text \<open>The validators of \<open>ProfileEntry\<close>: bounds on the raw texts, then stripping.\<close>

definition validate_entry :: "profile_entry \<Rightarrow> profile_entry option" where
  "validate_entry e =
     (if pe_label e = [] \<or> 200 < length (pe_label e) \<or> pe_memory e = [] \<or> 4000 < length (pe_memory e)
         \<or> strip (pe_label e) = [] \<or> strip (pe_memory e) = []
      then None
      else Some (e\<lparr>pe_label := strip (pe_label e), pe_memory := strip (pe_memory e),
                   pe_tags := normalize_tags [] (pe_tags e)\<rparr>))"

fun validate_entries :: "profile_entry list \<Rightarrow> profile_entry list option" where
  "validate_entries [] = Some []"
| "validate_entries (e # es) =
     (case (validate_entry e, validate_entries es) of (Some x, Some xs) \<Rightarrow> Some (x # xs) | _ \<Rightarrow> None)"

record profile_request =
  pq_version :: "string option"
  pq_replace :: bool
  pq_entries :: "profile_entry list"

definition validate_profile :: "profile_request \<Rightarrow> profile_request option" where
  "validate_profile q =
     (case validate_entries (pq_entries q) of
        None \<Rightarrow> None
      | Some es \<Rightarrow>
          if es = [] \<or> MAX_PROFILE_IMPORT_ENTRIES < length es \<or> \<not> distinct (map pe_label es) then None
          else Some (q\<lparr>pq_entries := es\<rparr>))"

definition set_default :: "string \<Rightarrow> json \<Rightarrow> dict \<Rightarrow> dict" where
  "set_default k v d = (if k \<in> fst ` set d then d else dict_set k v d)"

definition merge_pairs :: "dict option \<Rightarrow> dict \<Rightarrow> dict" where
  "merge_pairs pairs d =
     (case pairs of
        None \<Rightarrow> d
      | Some ps \<Rightarrow>
          if ps = [] then d
          else dict_set ''key_value_pairs''
                 (JObj (case dict_get d ''key_value_pairs'' of JObj existing \<Rightarrow> dict_merge existing ps | _ \<Rightarrow> ps)) d)"

definition merge_metadata :: "profile_entry \<Rightarrow> string option \<Rightarrow> string \<Rightarrow> dict" where
  "merge_metadata e profile_version imported_at =
     (let m1 = set_default ''source'' (JStr ''profile_import'') (pe_metadata e);
          m2 = dict_set ''imported_at'' (JStr imported_at) (dict_set ''label'' (JStr (pe_label e)) m1);
          m3 = (if or_empty profile_version = [] then m2
                else set_default ''profile_version'' (JStr (or_empty profile_version)) m2) in
      merge_pairs (pe_pairs e) m3)"

definition memory_tags :: "profile_entry \<Rightarrow> string list" where
  "memory_tags e =
     (let tags = (if ''user_profile'' \<in> set (pe_tags e) then pe_tags e else ''user_profile'' # pe_tags e) in
      case dict_get (pe_metadata e) ''category'' of
        JStr category \<Rightarrow> if category \<noteq> [] \<and> category \<notin> set tags then tags @ [category] else tags
      | _ \<Rightarrow> tags)"

section \<open>The import\<close>

definition PAGE_SIZE :: nat where
  "PAGE_SIZE = 100"

definition INVENTORY_MAX_PAGES :: nat where
  "INVENTORY_MAX_PAGES = 1000"

definition runtime_failure :: "string \<Rightarrow> memory_error" where
  "runtime_failure m = Raised (RuntimeError m)"

text \<open>The documents of a page, added to those known.\<close>

fun add_documents :: "json list \<Rightarrow> string list \<Rightarrow> string list result" where
  "add_documents [] known = Inr known"
| "add_documents (item # items) known =
     (case item of
        JObj d \<Rightarrow>
          let i = py_str (py_or (dict_get d ''id'') (JStr [])) in
          if strip i = [] then Inl (RuntimeError ''Hindsight returned an invalid profile document'')
          else add_documents items (if i \<in> set known then known else known @ [i])
      | _ \<Rightarrow> Inl (RuntimeError ''Hindsight returned an invalid profile document''))"

fun inventory :: "memory_ids \<Rightarrow> string \<Rightarrow> nat \<Rightarrow> nat \<Rightarrow> string list \<Rightarrow> string list call" where
  "inventory I user_id 0 offset known = fail (runtime_failure ''Hindsight profile inventory exceeds its page limit'')"
| "inventory I user_id (Suc pages) offset known =
     and_then (list_documents I user_id [] (int PAGE_SIZE) (int offset) [''source:profile-import'']) (\<lambda>page.
       case dict_get_default page ''items'' (JList []) of
         JList items \<Rightarrow>
           and_then (checked (add_documents items known)) (\<lambda>known'.
             if length items < PAGE_SIZE \<or> length known' = length known then give known'
             else inventory I user_id pages (offset + length items) known')
       | _ \<Rightarrow> fail (runtime_failure ''Hindsight returned an invalid profile inventory''))"

definition import_item :: "memory_ids \<Rightarrow> string \<Rightarrow> profile_request \<Rightarrow> string \<Rightarrow> string \<Rightarrow> profile_entry \<Rightarrow> memory_item result" where
  "import_item I user_id q operation_id imported_at e =
     (let label_hash = sha256 I (pe_label e) in
      bind_result (deterministic_document_id I user_id ''profile''
                     (if pq_replace q then operation_id @ '':'' @ label_hash else label_hash) label_hash) (\<lambda>document_id.
        Inr \<lparr>mi_content = pe_memory e, mi_document = document_id, mi_context = ''Daedalus authenticated profile import'',
             mi_tags = ''source:profile-import'' # memory_tags e,
             mi_metadata = merge_metadata e (pq_version q) imported_at, mi_timestamp = Some ''unset''\<rparr>))"

fun import_items :: "(profile_entry \<Rightarrow> memory_item result) \<Rightarrow> profile_entry list \<Rightarrow> memory_item list result" where
  "import_items f [] = Inr []"
| "import_items f (e # es) = bind_result (f e) (\<lambda>x. bind_result (import_items f es) (\<lambda>xs. Inr (x # xs)))"

text \<open>The service confirmed that it retained the batch.\<close>

definition retention_confirmed :: "dict \<Rightarrow> bool result" where
  "retention_confirmed accepted =
     (if dict_get accepted ''success'' \<noteq> JBool True then Inr False
      else if \<not> hashable (dict_get accepted ''status'') then Inl TypeError
      else Inr (dict_get accepted ''status'' \<notin> {JStr ''pending'', JStr ''running'', JStr ''failed'', JStr ''error''}
           \<and> \<not> truthy (dict_get accepted ''error'') \<and> dict_get accepted ''async'' \<noteq> JBool True))"

fun delete_documents :: "memory_ids \<Rightarrow> string \<Rightarrow> string list \<Rightarrow> nat call" where
  "delete_documents I user_id [] = give 0"
| "delete_documents I user_id (d # ds) =
     and_then (delete_document I user_id d) (\<lambda>_. and_then (delete_documents I user_id ds) (\<lambda>n. give (Suc n)))"

record import_result =
  imported :: nat
  replaced :: nat
  queued :: nat
  operation :: "string option"

definition finish_replace :: "memory_ids \<Rightarrow> string \<Rightarrow> profile_request \<Rightarrow> string list \<Rightarrow> dict \<Rightarrow> import_result call" where
  "finish_replace I user_id q previous accepted =
     and_then (checked (retention_confirmed accepted)) (\<lambda>ok.
       if \<not> ok then fail (runtime_failure ''Hindsight did not confirm replacement profile retention'')
       else and_then (delete_documents I user_id (sort previous)) (\<lambda>n.
              give \<lparr>imported = length (pq_entries q), replaced = n, queued = 0, operation = None\<rparr>))"

definition finish_append :: "profile_request \<Rightarrow> dict \<Rightarrow> import_result call" where
  "finish_append q accepted =
     (let operation_id = strip (py_str (py_or (dict_get accepted ''operation_id'') (JStr []))) in
      if operation_id = [] then fail (runtime_failure ''Hindsight did not accept the profile import operation'')
      else give \<lparr>imported = length (pq_entries q), replaced = 0, queued = length (pq_entries q), operation = Some operation_id\<rparr>)"

definition import_profile_memories ::
  "memory_ids \<Rightarrow> string option \<Rightarrow> client_settings result \<Rightarrow> string \<Rightarrow> string \<Rightarrow> profile_request \<Rightarrow> string \<Rightarrow> import_result call" where
  "import_profile_memories I mode_env client operation_id imported_at q user_id =
     and_then (checked (memory_mode mode_env)) (\<lambda>m.
       if m = ''disabled'' then fail (runtime_failure ''Durable memory is disabled by the operator'')
       else and_then (checked client) (\<lambda>_.
         and_then (if pq_replace q then inventory I user_id INVENTORY_MAX_PAGES 0 [] else give []) (\<lambda>previous.
         and_then (checked (import_items (import_item I user_id q operation_id imported_at) (pq_entries q))) (\<lambda>items.
         and_then (retain_batch I user_id items operation_id (\<not> pq_replace q)) (\<lambda>accepted.
           if pq_replace q then finish_replace I user_id q previous accepted else finish_append q accepted)))))"

text \<open>The route: the status code and the result.\<close>

definition import_profile ::
  "memory_ids \<Rightarrow> string option \<Rightarrow> client_settings result \<Rightarrow> settings \<Rightarrow> string option \<Rightarrow> string option \<Rightarrow> string \<Rightarrow> string \<Rightarrow>
     profile_request \<Rightarrow> service \<Rightarrow> request list \<Rightarrow> (nat \<times> import_result) result \<times> request list" where
  "import_profile I mode_env client G x_user_id x_token operation_id imported_at raw S h =
     (case validate_profile raw of
        None \<Rightarrow> (Inl (HTTPException 422 ''Unprocessable Entity''), h)
      | Some q \<Rightarrow>
          (case require_trusted_user G x_user_id x_token of
             Inl e \<Rightarrow> (Inl e, h)
           | Inr user_id \<Rightarrow>
               (case import_profile_memories I mode_env client operation_id imported_at q user_id S h of
                  (Inl e, h') \<Rightarrow> (Inl (HTTPException 500 ''Profile import failed.''), h')
                | (Inr r, h') \<Rightarrow> (Inr (if operation r = None then 200 else 202, r), h'))))"

section \<open>The memory tools\<close>

record add_input =
  ai_memory :: string
  ai_tags :: "string list"
  ai_metadata :: dict
  ai_pairs :: "dict option"

definition add_arguments :: "add_input \<Rightarrow> json" where
  "add_arguments x =
     JObj [(''memory'', JStr (strip (ai_memory x))), (''tags'', JList (map JStr (ai_tags x))),
           (''metadata'', JObj (merge_pairs (ai_pairs x) (ai_metadata x)))]"

definition add_write :: "string \<Rightarrow> string \<Rightarrow> add_input \<Rightarrow> write_request" where
  "add_write user_id execution_id x =
     \<lparr>wr_user = user_id, wr_execution = execution_id, wr_operation = ''add_memory'', wr_arguments = add_arguments x,
      wr_contract = None, wr_legacy = None\<rparr>"

definition memory_added :: string where
  "memory_added = ''Memory added successfully. You can continue. Please respond to the user.''"

definition memory_not_repeated :: string where
  "memory_not_repeated = ''Memory write wasn't repeated because the same autonomous ''
     @ ''operation has an existing or ambiguous execution record.''"

text \<open>The write to the memory service, after the reservation: the answer, and whether the memory was retained.\<close>

definition write_memory ::
  "memory_ids \<Rightarrow> (py_error \<Rightarrow> string) \<Rightarrow> string option \<Rightarrow> client_settings result \<Rightarrow> string \<Rightarrow> string \<Rightarrow> add_input \<Rightarrow>
     service \<Rightarrow> request list \<Rightarrow> (string \<times> bool) \<times> request list" where
  "write_memory I describe mode_env client user_id request_id x S h =
     (case memory_mode mode_env of
        Inl e \<Rightarrow> ((''Error adding memory: '' @ describe e, False), h)
      | Inr m \<Rightarrow>
          if m = ''disabled'' then ((''Durable memory is disabled by the operator.'', False), h)
          else (case and_then (checked client) (\<lambda>_. retain_explicit I user_id (strip (ai_memory x)) (ai_tags x)
                          (merge_pairs (ai_pairs x) (ai_metadata x)) request_id) S h of
                  (Inl e, h') \<Rightarrow> ((''Error adding memory: durable memory is unavailable.'', False), h')
                | (Inr d, h') \<Rightarrow> ((memory_added, True), h')))"

text \<open>The tool. \<open>new_id\<close> is a random request identifier; \<open>others\<close> is what other clients do to the receipts during
  the write. A receipt that cannot be completed does not change the answer.\<close>

definition daedalus_add_memory ::
  "memory_ids \<Rightarrow> hashing \<Rightarrow> (py_error \<Rightarrow> string) \<Rightarrow> settings \<Rightarrow> headers option \<Rightarrow> string option \<Rightarrow> string option \<Rightarrow>
     client_settings result \<Rightarrow> string \<Rightarrow> string \<Rightarrow> world \<Rightarrow> (receipts \<Rightarrow> receipts) \<Rightarrow> add_input \<Rightarrow> receipts \<Rightarrow> service \<Rightarrow>
     request list \<Rightarrow> string \<times> receipts \<times> request list" where
  "daedalus_add_memory I H describe G ctx ttl_env mode_env client new_id owner world others x receipts S h =
     (if strip (ai_memory x) = [] then (''Error: memory is required.'', receipts, h)
      else case authenticated_user_id_from_headers G ctx of
        Inl e \<Rightarrow> (''Error: add_memory denied: '' @ describe e @ ''.'', receipts, h)
      | Inr user_id \<Rightarrow>
        (case execution_id_from_context_or_none ctx of
           None \<Rightarrow>
             (case write_memory I describe mode_env client user_id
                     (case request_id_from_context_or_none G ctx of Some r \<Rightarrow> r | None \<Rightarrow> new_id) x S h of
                ((answer, ok), h') \<Rightarrow> (answer, others receipts, h'))
         | Some execution_id \<Rightarrow>
             (case reserve_operation H ttl_env (add_write user_id execution_id x) owner world receipts of
                (Inl e, receipts') \<Rightarrow> (''Error: add_memory idempotency unavailable: '' @ describe e @ ''.'', receipts', h)
              | (Inr r, receipts') \<Rightarrow>
                  if \<not> acquired r
                  then (if res_state r = ''completed'' \<and> or_empty (stored_result r) \<noteq> [] then the (stored_result r)
                        else memory_not_repeated, receipts', h)
                  else (case write_memory I describe mode_env client user_id
                               (case request_id_from_context_or_none G ctx of Some i \<Rightarrow> i | None \<Rightarrow> execution_id) x S h of
                          ((answer, ok), h') \<Rightarrow>
                            (answer, if ok then snd (complete_operation ttl_env r answer (others receipts')) else others receipts', h')))))"

definition DAILY_BRIEFING_TRIGGERS :: "string list" where
  "DAILY_BRIEFING_TRIGGERS =
     [''daily summary'', ''daily summaries'', ''daily briefing'', ''daily briefings'', ''daily brief'', ''daily summry'',
      ''morning briefing'', ''morning brief'', ''catch me up on today'']"

definition DAILY_BRIEFING_QUERY_TERMS :: string where
  "DAILY_BRIEFING_QUERY_TERMS =
     ''daily summary daily briefing complete user profile complete interest inventory ''
     @ ''weather locale location timezone commute calendar commitments email work ''
     @ ''projects AI infrastructure NVIDIA LLM inference optimization robotics ''
     @ ''Kubernetes cluster status k8s_mcp_server read-only operations status sports ''
     @ ''teams leagues hobbies music culture media reading sources preferences routines ''
     @ ''priorities recommendations required live desks coverage ledger quiet unavailable ''
     @ ''fenced HTML code block standalone HTML skill resources validator llm_sandbox_tool ''
     @ ''load_skill agent_skills_tool''"

definition is_daily_briefing_query :: "string \<Rightarrow> bool" where
  "is_daily_briefing_query q =
     (let normalized = join_with '' '' (runs_of (\<lambda>c. \<not> is_space c) (lower q) []) in
      list_ex (\<lambda>t. contains t normalized) DAILY_BRIEFING_TRIGGERS)"

definition expand_memory_search :: "string \<Rightarrow> int \<Rightarrow> string \<times> int" where
  "expand_memory_search q top_k =
     (if \<not> is_daily_briefing_query q then (q, top_k)
      else (q @ '' '' @ DAILY_BRIEFING_QUERY_TERMS, max top_k 24))"

text \<open>\<open>json.dumps(value)\<close> with the default separators.\<close>

fun spaced_json :: "json \<Rightarrow> string" where
  "spaced_json (JStr s) = ascii_json_str s"
| "spaced_json (JList xs) = ''['' @ join_with '', '' (map spaced_json xs) @ '']''"
| "spaced_json (JObj d) = ''{'' @ join_with '', '' (map (\<lambda>p. ascii_json_str (fst p) @ '': '' @ spaced_json (snd p)) d) @ ''}''"
| "spaced_json v = json_dumps v"

definition memories_text :: "string \<Rightarrow> string" where
  "memories_text payload = ''Memories as a JSON: '' @ [char_of (10::nat)] @ payload"

definition daedalus_get_memory ::
  "memory_ids \<Rightarrow> (py_error \<Rightarrow> string) \<Rightarrow> settings \<Rightarrow> headers option \<Rightarrow> string option \<Rightarrow> client_settings result \<Rightarrow> int \<Rightarrow>
     string \<Rightarrow> int option \<Rightarrow> service \<Rightarrow> request list \<Rightarrow> string \<times> request list" where
  "daedalus_get_memory I describe G ctx mode_env client default_top_k raw_query asked_top_k S h =
     (let q = strip raw_query in
      if q = [] then (memories_text ''[]'', h)
      else case authenticated_user_id_from_headers G ctx of
        Inl e \<Rightarrow> (''Error: get_memory denied: '' @ describe e @ ''.'', h)
      | Inr user_id \<Rightarrow>
        (case expand_memory_search q (case asked_top_k of Some k \<Rightarrow> if k = 0 then default_top_k else k | None \<Rightarrow> default_top_k) of
           (search_query, top_k) \<Rightarrow>
             (case memory_mode mode_env of
                Inl e \<Rightarrow> (''Error retrieving memory: '' @ describe e, h)
              | Inr m \<Rightarrow>
                  if m = ''disabled'' then (memories_text ''[]'', h)
                  else (case and_then (checked client) (\<lambda>_. recall I user_id search_query
                                 (if 10 < top_k then ''mid'' else ''low'') (min 4096 (max 512 (top_k * 160)))) S h of
                          (Inl e, h') \<Rightarrow> (''Error retrieving memory: durable memory is unavailable.'', h')
                        | (Inr memories, h') \<Rightarrow>
                            (memories_text (spaced_json (JList (map JObj (take (nat top_k) memories)))), h')))))"

section \<open>Facts\<close>

definition no_delete :: "request \<Rightarrow> bool" where
  "no_delete q \<longleftrightarrow> verb q \<noteq> ''DELETE''"

lemma no_delete_bank [requests]: "method \<noteq> ''DELETE'' \<Longrightarrow> sends_only no_delete (bank_request I method u rest body params wait)"
  unfolding bank_request_def by (intro requests) (simp add: no_delete_def)

lemma inventory_no_delete: "sends_only no_delete (inventory I u pages offset known)"
proof (induction I u pages offset known rule: inventory.induct)
  case (2 I u pages offset known)
  show ?case unfolding inventory.simps
  proof (rule sends_and_then)
    show "sends_only no_delete (list_documents I u [] (int PAGE_SIZE) (int offset) [''source:profile-import''])"
      unfolding list_documents_def by (intro requests) simp
    fix page
    show "sends_only no_delete (case dict_get_default page ''items'' (JList []) of
         JList items \<Rightarrow>
           and_then (checked (add_documents items known)) (\<lambda>known'.
             if length items < PAGE_SIZE \<or> length known' = length known then give known'
             else inventory I u pages (offset + length items) known')
       | _ \<Rightarrow> fail (runtime_failure ''Hindsight returned an invalid profile inventory''))"
    proof (cases "dict_get_default page ''items'' (JList [])")
      case (JList items)
      then show ?thesis using 2 by (simp only: json.case) (intro requests, blast)
    qed (simp_all add: requests)
  qed
qed (simp add: requests)

lemma batch_no_delete: "sends_only no_delete (retain_batch I u items operation_id b)"
  unfolding retain_batch_def submit_retain_def by (intro requests) simp

text \<open>The requests that delete documents, up to the first that fails.\<close>

definition delete_of :: "memory_ids \<Rightarrow> string \<Rightarrow> request \<Rightarrow> string \<Rightarrow> bool" where
  "delete_of I u q d \<longleftrightarrow> verb q = ''DELETE'' \<and> bank_path I u (''documents/'' @ quote_segment d) = Inr (target q)"

definition deletes :: "memory_ids \<Rightarrow> string \<Rightarrow> string list \<Rightarrow> request list \<Rightarrow> bool" where
  "deletes I u ds rs \<longleftrightarrow> list_all2 (delete_of I u) rs ds"

lemma delete_document_sends:
  "delete_document I u d S h = (r, h') \<Longrightarrow> (\<exists>e. r = Inl e \<and> h' = h) \<or> (\<exists>q. h' = h @ [q] \<and> delete_of I u q d)"
  by (cases "bank_path I u (''documents/'' @ quote_segment d)")
    (auto simp: delete_document_def bank_request_def and_then_def checked_def give_def fail_def send_request_def Let_def delete_of_def)

lemma delete_documents_sends:
  "delete_documents I u ds S h = (r, h') \<Longrightarrow>
     \<exists>rs k. h' = h @ rs \<and> deletes I u (take k ds) rs \<and> (\<forall>n. r = Inr n \<longrightarrow> n = length ds \<and> length ds \<le> k)"
proof (induction ds arbitrary: h h' r)
  case Nil
  then show ?case by (intro exI [of _ "[]"] exI [of _ 0]) (auto simp: give_def deletes_def)
next
  case (Cons d ds)
  obtain x h1 where x: "delete_document I u d S h = (x, h1)" by force
  show ?case
  proof (cases x)
    case (Inl e)
    with Cons.prems x have r: "r = Inl e" "h' = h1" by (simp_all add: and_then_def)
    from delete_document_sends [OF x] consider "h1 = h" | q where "h1 = h @ [q]" "delete_of I u q d" by blast
    then show ?thesis
    proof cases
      case 1
      with r show ?thesis by (intro exI [of _ "[]"] exI [of _ 0]) (simp add: deletes_def)
    next
      case 2
      with r show ?thesis by (intro exI [of _ "[q]"] exI [of _ 1]) (simp add: deletes_def)
    qed
  next
    case (Inr y)
    with delete_document_sends [OF x] obtain q where q: "h1 = h @ [q]" "delete_of I u q d" by auto
    obtain z h2 where z: "delete_documents I u ds S h1 = (z, h2)" by force
    from Cons.IH [OF z] obtain rs k where rs: "h2 = h1 @ rs" "deletes I u (take k ds) rs"
      "\<forall>n. z = Inr n \<longrightarrow> n = length ds \<and> length ds \<le> k" by blast
    from Cons.prems x Inr z have h': "h' = h2" and r: "r = map_sum id Suc z"
      by (auto simp: and_then_def give_def split: sum.splits)
    have "\<forall>n. r = Inr n \<longrightarrow> n = length (d # ds) \<and> length (d # ds) \<le> Suc k"
      using rs(3) r by (cases z) auto
    moreover have "h' = h @ (q # rs)" using h' rs(1) q(1) by simp
    moreover have "deletes I u (take (Suc k) (d # ds)) (q # rs)" using q(2) rs(2) by (simp add: deletes_def)
    ultimately show ?thesis by blast
  qed
qed

text \<open>The guard before the requests.\<close>

lemma gate_closed:
  assumes "and_then (checked a) (\<lambda>m. if m = s then fail e else and_then (checked c) (\<lambda>_. f)) S h = (r, h')"
    and "\<not> ((\<exists>m. a = Inr m \<and> m \<noteq> s) \<and> (\<exists>x. c = Inr x))"
  shows "h' = h \<and> (\<nexists>x. r = Inr x)"
  using assms by (cases a; cases c) (auto simp: and_then_def checked_def give_def fail_def split: if_splits)

lemma gate_open:
  "a = Inr m \<Longrightarrow> m \<noteq> s \<Longrightarrow> c = Inr x \<Longrightarrow>
     and_then (checked a) (\<lambda>m. if m = s then fail e else and_then (checked c) (\<lambda>_. f)) S h = f S h"
  by (simp add: and_then_def checked_def give_def)

text \<open>A batch that is accepted is one request.\<close>

lemma batch_accepted:
  "retain_batch I u items operation_id b S h = (Inr accepted, h') \<Longrightarrow>
     \<exists>q. h' = h @ [q] \<and> verb q = ''POST'' \<and> read_reply (S h q) = Inr accepted"
  by (auto simp: retain_batch_def submit_retain_def bank_request_def and_then_def checked_def give_def fail_def send_request_def
      Let_def split: if_splits sum.splits)

text \<open>What follows the batch.\<close>

lemma finish_refused:
  "retention_confirmed accepted \<noteq> Inr True \<Longrightarrow> \<exists>e. finish_replace I u q previous accepted S h = (Inl e, h)"
  by (cases "retention_confirmed accepted") (auto simp: finish_replace_def and_then_def checked_def give_def fail_def)

lemma finish_run:
  "retention_confirmed accepted = Inr True \<Longrightarrow> delete_documents I u (sort previous) S h = (z, h') \<Longrightarrow>
     finish_replace I u q previous accepted S h
       = (case z of Inl e \<Rightarrow> (Inl e, h')
          | Inr n \<Rightarrow> (Inr \<lparr>imported = length (pq_entries q), replaced = n, queued = 0, operation = None\<rparr>, h'))"
  by (simp add: finish_replace_def and_then_def checked_def give_def split: sum.splits)

text \<open>What holds of the requests \<open>rs\<close> and the deletions \<open>dels\<close> after them: the last of \<open>rs\<close> is the batch, which the
  service confirmed, and the deletions are those of the first documents of the inventory, of all of them when the
  import succeeds.\<close>

definition confirmed_then_deleted ::
  "memory_ids \<Rightarrow> string \<Rightarrow> service \<Rightarrow> request list \<Rightarrow> memory_error + import_result \<Rightarrow> request list \<Rightarrow> request list \<Rightarrow> bool" where
  "confirmed_then_deleted I u S h r rs dels \<longleftrightarrow>
     (\<exists>before post accepted previous k. h @ rs = before @ [post] \<and> verb post = ''POST''
        \<and> read_reply (S before post) = Inr accepted \<and> retention_confirmed accepted = Inr True
        \<and> fst (inventory I u INVENTORY_MAX_PAGES 0 [] S h) = Inr previous
        \<and> deletes I u (take k (sort previous)) dels
        \<and> (\<forall>x. r = Inr x \<longrightarrow> length previous \<le> k \<and> replaced x = length previous))"

lemma replace_confirmed:
  assumes run: "(r, h') = finish_replace I u q previous accepted S h2"
    and inv: "fst (inventory I u INVENTORY_MAX_PAGES 0 [] S h) = Inr previous" and sent: "h2 = h @ rs"
    and batch: "retain_batch I u items operation_id b S h1 = (Inr accepted, h2)" and ok: "retention_confirmed accepted = Inr True"
  shows "\<exists>dels. h' = h2 @ dels \<and> confirmed_then_deleted I u S h r rs dels"
proof -
  from batch_accepted [OF batch] obtain post where post: "h2 = h1 @ [post]" "verb post = ''POST''"
    "read_reply (S h1 post) = Inr accepted" by blast
  obtain z h3 where z: "delete_documents I u (sort previous) S h2 = (z, h3)" by force
  from delete_documents_sends [OF z] obtain dels k where d: "h3 = h2 @ dels" "deletes I u (take k (sort previous)) dels"
    "\<forall>n. z = Inr n \<longrightarrow> n = length previous \<and> length previous \<le> k" by auto
  note fin = run [unfolded finish_run [OF ok z]]
  have "h' = h2 @ dels" using fin d(1) by (cases z) simp_all
  moreover have "\<forall>x. r = Inr x \<longrightarrow> length previous \<le> k \<and> replaced x = length previous"
    using fin d(3) by (cases z) simp_all
  moreover have "h @ rs = h1 @ [post]" using sent post(1) by simp
  ultimately show ?thesis using post(2,3) ok d(2) inv unfolding confirmed_then_deleted_def by blast
qed

lemma replace_refused:
  assumes "(r, h') = (case w of Inl e \<Rightarrow> (Inl e, h2) | Inr accepted \<Rightarrow> finish_replace I u q previous accepted S h2)"
    and "\<nexists>accepted. w = Inr accepted \<and> retention_confirmed accepted = Inr True"
  shows "h' = h2 \<and> (\<nexists>x. r = Inr x)"
proof (cases w)
  case (Inr accepted)
  with assms(2) have "retention_confirmed accepted \<noteq> Inr True" by simp
  from finish_refused [OF this, of I u q previous S h2] obtain e where "finish_replace I u q previous accepted S h2 = (Inl e, h2)" ..
  with assms(1) Inr show ?thesis by simp
qed (use assms(1) in simp)

section \<open>Properties\<close>


definition sample_memories :: service where
  "sample_memories h q =
     Reply 200 (Parsed (JObj (if verb q = ''GET'' then [(''items'', JList [JObj [(''id'', JStr ''d1'')]])]
                              else [(''success'', JBool True)])))"

definition sample_profile :: profile_request where
  "sample_profile = \<lparr>pq_version = None, pq_replace = True, pq_entries = [\<lparr>pe_label = ''l'', pe_memory = ''m'', pe_tags = [], pe_metadata = [],
     pe_pairs = None\<rparr>]\<rparr>"

definition sample_profile_ids :: memory_ids where
  "sample_profile_ids = \<lparr>uuid5 = \<lambda>s. s, sha256 = \<lambda>s. ''0''\<rparr>"


end
