(* ===== verification/Tool_Service.thy ===== *)
theory Tool_Service
  imports Tool_Runs Py_Url
begin

text \<open>
  The runs of the tool service (\<open>builder/daedalus_runtime/service.py\<close>): preparation, the context that a call
  finds, release with its tombstones, the checks of an explicit call and the end of its stream.

  \<^item> Preparation awaits the tool catalogue and the memory context in its middle: \<open>prepare_begin\<close> is what it
    does before, \<open>prepare_commit\<close> what it does afterwards, and the requests of other runs may come between.
  \<^item> The configuration is the part of \<open>workflow\<close> that is read here, already converted to numbers; the fields of
    the model besides its name, the spans and log lines are left out.
\<close>

section \<open>The model of autonomous runs\<close>

record autonomous_env =
  ae_base_url :: string
  ae_api_key :: string
  ae_model_name :: string

definition autonomous_fields :: "autonomous_env \<Rightarrow> (string \<times> string) list" where
  "autonomous_fields e =
     [(''AUTONOMOUS_LLM_MODEL_BASE_URL'', strip (ae_base_url e)), (''AUTONOMOUS_LLM_MODEL_API_KEY'', strip (ae_api_key e)),
      (''AUTONOMOUS_LLM_MODEL_MODEL'', strip (ae_model_name e))]"

definition user_info :: "string \<Rightarrow> string" where
  "user_info n = take (length n - length (after_last_at n) - 1) n"

definition base_url_ok :: "string \<Rightarrow> bool" where
  "base_url_ok url =
     (case urlsplit url of
        None \<Rightarrow> False
      | Some u \<Rightarrow>
          (url_parts.scheme u = ''http'' \<or> url_parts.scheme u = ''https'') \<and> hostname u \<noteq> []
          \<and> (user_info (netloc u) = [] \<or> user_info (netloc u) = '':'')
          \<and> url_parts.query u = [] \<and> url_parts.fragment u = [] \<and> is_ok (port u))"

definition autonomous_llm_config :: "autonomous_env \<Rightarrow> autonomous_env option result" where
  "autonomous_llm_config e =
     (let missing = map fst (filter (\<lambda>p. snd p = []) (autonomous_fields e)) in
      if length missing = 3 then Inr None
      else if missing \<noteq> [] then Inl (ValueError (''Autonomy model configuration requires '' @ join_with '', '' missing))
      else if \<not> base_url_ok (strip (ae_base_url e)) then Inl (ValueError ''AUTONOMOUS_LLM_MODEL_BASE_URL must be an HTTP(S) base URL'')
      else Inr (Some \<lparr>ae_base_url = strip (ae_base_url e), ae_api_key = strip (ae_api_key e), ae_model_name = strip (ae_model_name e)\<rparr>))"

section \<open>Preparation\<close>

record workflow =
  wf_history :: int
  wf_history_tokens :: int
  wf_tools :: "string list"
  wf_daily :: "string list option"
  wf_final :: "string list"
  wf_routing :: routing
  wf_groups :: "string list"
  wf_model :: string
  wf_autonomous :: "autonomous_env"

record run_service =
  live_runs :: "(string \<times> run_context) list"
  released :: "((string \<times> string) \<times> rat) list"

record prepared =
  pr_user :: string
  pr_query :: string
  pr_messages :: "dict list"
  pr_profile :: string
  pr_selection :: selection
  pr_alias :: string
  pr_local :: "string list"
  pr_groups :: "string list"

definition MESSAGES_ERROR :: py_error where
  "MESSAGES_ERROR = HTTPException 400 ''Messages require a user or assistant role and text content''"

text \<open>A role that is a list or an object cannot be looked up in a set.\<close>

fun check_messages :: "json list \<Rightarrow> dict list result" where
  "check_messages [] = Inr []"
| "check_messages (m # ms) =
     (case m of
        JObj d \<Rightarrow>
          (case dict_get d ''role'' of
             JList _ \<Rightarrow> Inl TypeError
           | JObj _ \<Rightarrow> Inl TypeError
           | role \<Rightarrow>
               if (role = JStr ''user'' \<or> role = JStr ''assistant'') \<and> is_str (dict_get d ''content'')
               then bind_result (check_messages ms) (\<lambda>ds. Inr (d # ds)) else Inl MESSAGES_ERROR)
      | _ \<Rightarrow> Inl MESSAGES_ERROR)"

definition from_user :: "dict \<Rightarrow> bool" where
  "from_user m = (dict_get m ''role'' = JStr ''user'')"

definition last_query :: "dict list \<Rightarrow> string" where
  "last_query messages =
     (case find from_user (rev messages) of
        Some m \<Rightarrow> (case dict_get m ''content'' of JStr s \<Rightarrow> s | _ \<Rightarrow> [])
      | None \<Rightarrow> [])"

definition request_profile_of :: "string \<Rightarrow> bool \<Rightarrow> string" where
  "request_profile_of user_text autonomous =
     (if autonomous then ''default'' else if is_daily_briefing_query user_text then ''daily_summary'' else ''default'')"

definition AUTONOMOUS_SELECTION :: selection where
  "AUTONOMOUS_SELECTION = \<lparr>requested = None, effective = None, source = ''autonomous'', promotion_count = 0, triggering_skill = None\<rparr>"

definition purge_released :: "rat \<Rightarrow> run_service \<Rightarrow> run_service" where
  "purge_released t S = S\<lparr>released := filter (\<lambda>e. t < snd e) (released S)\<rparr>"

text \<open>Everything before the catalogue is asked. \<open>bytes_of\<close> measures a message, \<open>autonomy\<close> is whether the
  request comes from the authenticated worker.\<close>

definition prepare_begin ::
  "workflow \<Rightarrow> (dict \<Rightarrow> nat) \<Rightarrow> bool \<Rightarrow> string \<Rightarrow> string \<Rightarrow> dict \<Rightarrow> rat \<Rightarrow> run_service \<Rightarrow> prepared result \<times> run_service" where
  "prepare_begin flow bytes_of autonomy run_id user body t S =
     (if run_id = [] then (Inl (HTTPException 400 ''Run identity is required''), S)
      else
        let S' = purge_released t S in
        if map_of (released S') (run_id, user) \<noteq> None
        then (Inl (HTTPException 409 ''Run was cancelled during preparation''), S')
        else
          ((case dict_get body ''messages'' of
              JList (m # ms) \<Rightarrow>
                bind_result (check_messages (m # ms)) (\<lambda>raw.
                  let messages = select_history_payloads bytes_of (wf_history flow) (wf_history_tokens flow) raw;
                      query = last_query messages;
                      profile = request_profile_of query autonomy in
                  bind_result (resolve (wf_routing flow) (dict_get body ''additional_props'') profile) (\<lambda>s.
                  bind_result (if autonomy then autonomous_llm_config (wf_autonomous flow) else Inr None) (\<lambda>own.
                    let s' = (if own \<noteq> None then AUTONOMOUS_SELECTION else s);
                        model = (case own of Some m \<Rightarrow> ae_model_name m | None \<Rightarrow> wf_model flow) in
                    bind_result (selection_alias (wf_routing flow) model s') (\<lambda>name.
                      let names = (if profile = ''daily_summary'' then (case wf_daily flow of Some xs \<Rightarrow> xs | None \<Rightarrow> wf_tools flow)
                                   else wf_tools flow) in
                      Inr \<lparr>pr_user = user, pr_query = query, pr_messages = messages, pr_profile = profile, pr_selection = s',
                           pr_alias = name, pr_local = filter (\<lambda>n. n \<notin> set (wf_groups flow)) names,
                           pr_groups = filter (\<lambda>n. n \<in> set (wf_groups flow)) names\<rparr>))))
            | _ \<Rightarrow> Inl (HTTPException 400 ''messages must be a nonempty array'')), S'))"

text \<open>The group whose complete catalogue a forced tool needs.\<close>

definition chosen_tool :: "json \<Rightarrow> json" where
  "chosen_tool choice =
     (case choice of
        JObj d \<Rightarrow>
          if dict_get d ''type'' = JStr ''function''
          then py_or (case dict_get d ''function'' of JObj f \<Rightarrow> dict_get f ''name'' | _ \<Rightarrow> JNull) (dict_get d ''name'')
          else JNull
      | _ \<Rightarrow> JNull)"

definition forced_group :: "json \<Rightarrow> string list \<Rightarrow> string option" where
  "forced_group choice group_names =
     (case chosen_tool choice of
        JStr n \<Rightarrow> find (\<lambda>g. starts_with (g @ ''__'') n \<and> n \<noteq> g @ ''__connect'') group_names
      | _ \<Rightarrow> None)"

definition run_tools :: "string list \<Rightarrow> string list \<Rightarrow> (string \<times> string list) option \<Rightarrow> string list" where
  "run_tools own remote forced =
     (case forced of
        None \<Rightarrow> own @ remote
      | Some (g, whole) \<Rightarrow> own @ filter (\<lambda>n. \<not> starts_with (g @ ''__'') n) remote @ whole)"

text \<open>The memory context goes before the last message of the user; without such a message it is dropped.\<close>

definition insert_context :: "string \<Rightarrow> dict list \<Rightarrow> dict list" where
  "insert_context c messages =
     (let k = length (takeWhile (\<lambda>m. \<not> from_user m) (rev messages)) in
      if c = [] \<or> length messages \<le> k then messages
      else (let i = length messages - k - 1 in
            take i messages @ [[(''role'', JStr ''user''), (''content'', JStr c)]] @ drop i messages))"

definition RUN_LIFETIME :: rat where
  "RUN_LIFETIME = 7200"

definition purge_runs :: "rat \<Rightarrow> run_service \<Rightarrow> run_service" where
  "purge_runs t S = S\<lparr>live_runs := filter (\<lambda>e. t - rc_created (snd e) < RUN_LIFETIME) (live_runs S)\<rparr>"

definition opened_run :: "prepared \<Rightarrow> string list \<Rightarrow> rat \<Rightarrow> run_context" where
  "opened_run p tools t =
     \<lparr>rc_user = pr_user p, rc_query = pr_query p, rc_tools = tools, rc_groups = pr_groups p, rc_selection = pr_selection p,
      rc_created = t, rc_artifact = None\<rparr>"

definition prepare_commit :: "string \<Rightarrow> prepared \<Rightarrow> string list \<Rightarrow> rat \<Rightarrow> run_service \<Rightarrow> run_context result \<times> run_service" where
  "prepare_commit run_id p tools t S =
     (let S' = purge_runs t S in
      if 128 \<le> length (live_runs S') then (Inl (HTTPException 429 ''Tool runtime capacity reached''), S')
      else if map_of (live_runs S') run_id \<noteq> None then (Inl (HTTPException 409 ''Run identity is already active''), S')
      else if map_of (released S') (run_id, pr_user p) \<noteq> None
      then (Inl (HTTPException 409 ''Run was cancelled during preparation''), S')
      else (Inr (opened_run p tools t), S'\<lparr>live_runs := live_runs S' @ [(run_id, opened_run p tools t)]\<rparr>))"

section \<open>Context and release\<close>

definition run_context_of :: "string \<Rightarrow> string \<Rightarrow> run_service \<Rightarrow> run_context result" where
  "run_context_of run_id user S =
     (case map_of (live_runs S) run_id of
        None \<Rightarrow> Inl (HTTPException 404 ''Run is unavailable'')
      | Some run \<Rightarrow> if rc_user run \<noteq> user then Inl (HTTPException 404 ''Run is unavailable'') else Inr run)"

definition TOMBSTONE_LIFETIME :: rat where
  "TOMBSTONE_LIFETIME = 180"

definition add_tombstone :: "string \<times> string \<Rightarrow> rat \<Rightarrow> ((string \<times> string) \<times> rat) list \<Rightarrow> ((string \<times> string) \<times> rat) list" where
  "add_tombstone k t ts = AList.update k (t + TOMBSTONE_LIFETIME) (if 256 \<le> length ts then tl ts else ts)"

definition release :: "string \<Rightarrow> string \<Rightarrow> rat \<Rightarrow> run_service \<Rightarrow> unit result \<times> run_service" where
  "release run_id user t S =
     (case map_of (live_runs S) run_id of
        Some run \<Rightarrow>
          if rc_user run \<noteq> user then (Inl (HTTPException 404 ''Run is unavailable''), S)
          else (Inr (), S\<lparr>live_runs := AList.delete run_id (live_runs S)\<rparr>)
      | None \<Rightarrow> (Inr (), S\<lparr>released := add_tombstone (run_id, user) t (released S)\<rparr>))"

section \<open>Explicit calls\<close>

definition configured_names :: "workflow \<Rightarrow> string list" where
  "configured_names flow = wf_tools flow @ (case wf_daily flow of Some xs \<Rightarrow> xs | None \<Rightarrow> []) @ wf_final flow"

definition explicit_run :: "workflow \<Rightarrow> string \<Rightarrow> string \<Rightarrow> string list \<Rightarrow> string \<Rightarrow> rat \<Rightarrow> run_context result" where
  "explicit_run flow user question available name t =
     (if name \<notin> set available
         \<or> name \<notin> set (configured_names flow) \<and> fst (split_name name) \<notin> set (configured_names flow)
      then Inl (HTTPException 400 ''Tool is not available in this run'')
      else Inr \<lparr>rc_user = user, rc_query = question, rc_tools = available, rc_groups = wf_groups flow,
               rc_selection = \<lparr>requested = None, effective = None, source = ''automatic'', promotion_count = 0, triggering_skill = None\<rparr>,
               rc_created = t, rc_artifact = None\<rparr>)"

definition catalog_allowed :: "workflow \<Rightarrow> string list \<Rightarrow> unit result" where
  "catalog_allowed flow names =
     (if set names \<subseteq> set (configured_names flow) then Inr () else Inl (HTTPException 400 ''Tool is not configured''))"

text \<open>What the stream delivers as its result event: a failure is a failed result that names its class only.\<close>

record stream_result =
  sr_content :: string
  sr_error :: bool
  sr_terminal :: bool

definition tool_failed :: "string \<Rightarrow> stream_result" where
  "tool_failed class =
     \<lparr>sr_content = ''Tool failed ('' @ class @ ''). Check its arguments and service availability.'', sr_error = True, sr_terminal = False\<rparr>"

definition stream_end :: "(py_error \<Rightarrow> string) \<Rightarrow> mcp_failure + call_result \<Rightarrow> stream_result" where
  "stream_end class_name outcome =
     (case outcome of
        Inr r \<Rightarrow> \<lparr>sr_content = cr_content r, sr_error = cr_error r, sr_terminal = cr_terminal r\<rparr>
      | Inl (mcp_failure.Failed e) \<Rightarrow> tool_failed (class_name e)
      | Inl CallCancelled \<Rightarrow> tool_failed ''RuntimeError'')"

section \<open>Requests as steps\<close>

datatype run_request =
    BeginRun "workflow \<times> (dict \<Rightarrow> nat) \<times> bool" string string dict rat
  | CommitRun string prepared "string list" rat
  | ReleaseRun string string rat
  | CallRun string string run_context

text \<open>A call changes the context of a live run of its user in place.\<close>

fun serve_run :: "run_request \<Rightarrow> run_service \<Rightarrow> run_service" where
  "serve_run (BeginRun (flow, bytes_of, autonomy) run_id user body t) S = snd (prepare_begin flow bytes_of autonomy run_id user body t S)"
| "serve_run (CommitRun run_id p tools t) S = snd (prepare_commit run_id p tools t S)"
| "serve_run (ReleaseRun run_id user t) S = snd (release run_id user t S)"
| "serve_run (CallRun run_id user run') S =
     (case run_context_of run_id user S of
        Inr run \<Rightarrow> if rc_user run' = user \<and> rc_created run' = rc_created run then S\<lparr>live_runs := AList.update run_id run' (live_runs S)\<rparr> else S
      | Inl _ \<Rightarrow> S)"

section \<open>Invariant\<close>

definition service_ok :: "run_service \<Rightarrow> bool" where
  "service_ok S \<longleftrightarrow> length (live_runs S) \<le> 128 \<and> distinct (map fst (live_runs S))
     \<and> length (released S) \<le> 256 \<and> distinct (map fst (released S))"

definition service_started :: "run_service \<Rightarrow> bool" where
  "service_started S \<longleftrightarrow> live_runs S = [] \<and> released S = []"

lemma distinct_keys_filter: "distinct (map fst xs) \<Longrightarrow> distinct (map fst (filter P xs))"
  by (simp add: distinct_map_filter)

lemma length_filter_bound: "length xs \<le> n \<Longrightarrow> length (filter P xs) \<le> n"
  by (rule le_trans [OF length_filter_le])

lemma update_length_bound: "length (AList.update k v xs) \<le> Suc (length xs)"
  by (induction xs) auto

lemma update_present: "map_of xs k \<noteq> None \<Longrightarrow> length (AList.update k v xs) = length xs"
  by (induction xs) auto

lemma add_tombstone_ok:
  assumes "distinct (map fst ts)" "length ts \<le> 256"
  shows "distinct (map fst (add_tombstone k t ts))" "length (add_tombstone k t ts) \<le> 256"
proof -
  let ?ts = "if 256 \<le> length ts then tl ts else ts"
  have "length ?ts \<le> 255" "distinct (map fst ?ts)"
    using assms by (auto simp: map_tl distinct_tl)
  with update_length_bound [of k "t + TOMBSTONE_LIFETIME" ?ts]
  show "distinct (map fst (add_tombstone k t ts))" "length (add_tombstone k t ts) \<le> 256"
    unfolding add_tombstone_def by (simp_all only: AList.distinct_update)
qed

lemma begin_released: "released (snd (prepare_begin flow b autonomy run_id user body t S)) = released S
    \<or> released (snd (prepare_begin flow b autonomy run_id user body t S)) = filter (\<lambda>e. t < snd e) (released S)"
  by (simp add: prepare_begin_def Let_def purge_released_def)

lemma begin_runs [simp]: "live_runs (snd (prepare_begin flow b autonomy run_id user body t S)) = live_runs S"
  by (simp add: prepare_begin_def Let_def purge_released_def)

lemma commit_cases:
  assumes "prepare_commit run_id p tools t S = (r, S')"
  shows "released S' = released S"
    and "(\<exists>e. r = Inl e) \<and> S' = purge_runs t S
      \<or> r = Inr (opened_run p tools t) \<and> length (live_runs (purge_runs t S)) < 128 \<and> map_of (live_runs (purge_runs t S)) run_id = None
        \<and> map_of (released S) (run_id, pr_user p) = None
        \<and> live_runs S' = live_runs (purge_runs t S) @ [(run_id, opened_run p tools t)]"
  using assms by (auto simp: prepare_commit_def Let_def purge_runs_def split: if_splits)

lemma purge_runs_ok: "service_ok S \<Longrightarrow> service_ok (purge_runs t S)"
  by (simp add: service_ok_def purge_runs_def distinct_keys_filter length_filter_bound)

lemma serve_run_ok:
  assumes "service_ok S"
  shows "service_ok (serve_run q S)"
proof (cases q)
  case (BeginRun x run_id user body t)
  obtain flow b autonomy where x: "x = (flow, b, autonomy)" by (cases x) auto
  from assms begin_released [of flow b autonomy run_id user body t S] show ?thesis
    by (auto simp: BeginRun x service_ok_def distinct_keys_filter length_filter_bound)
next
  case (CommitRun run_id p tools t)
  obtain r S' where c: "prepare_commit run_id p tools t S = (r, S')" by force
  from purge_runs_ok [OF assms] commit_cases [OF c] show ?thesis
    by (auto simp: CommitRun c service_ok_def map_of_eq_None_iff purge_runs_def)
next
  case (ReleaseRun run_id user t)
  with assms add_tombstone_ok show ?thesis
    by (auto simp: release_def service_ok_def AList.distinct_delete split: option.splits intro: le_trans [OF AList.length_delete_le])
next
  case (CallRun run_id user run')
  with assms show ?thesis
    by (auto simp: run_context_of_def service_ok_def AList.distinct_update update_present split: sum.splits option.splits if_splits)
qed

interpretation runs: invariant_system service_started "\<lambda>S S'. \<exists>q. S' = serve_run q S" service_ok
proof
  show "service_ok S" if "service_started S" for S using that by (simp add: service_ok_def service_started_def)
  show "service_ok S'" if "service_ok S" "\<exists>q. S' = serve_run q S" for S S' using that serve_run_ok by blast
qed

section \<open>A cancelled run does not come back\<close>

text \<open>The tombstone is there, and at most \<open>n\<close> younger ones follow it.\<close>

definition buried :: "string \<times> string \<Rightarrow> rat \<Rightarrow> nat \<Rightarrow> run_service \<Rightarrow> bool" where
  "buried k limit n S \<longleftrightarrow> (\<exists>xs until ys. released S = xs @ (k, until) # ys \<and> k \<notin> fst ` set xs \<and> length ys \<le> n \<and> limit \<le> until)"

definition not_live :: "string \<times> string \<Rightarrow> run_service \<Rightarrow> bool" where
  "not_live k S \<longleftrightarrow> (\<forall>(i, run) \<in> set (live_runs S). (i, rc_user run) \<noteq> k)"

lemma buried_released: "released S' = released S \<Longrightarrow> buried k limit n S' = buried k limit n S"
  by (simp add: buried_def)

lemma buried_found: "buried k limit n S \<Longrightarrow> map_of (released S) k \<noteq> None"
  by (auto simp: buried_def map_of_eq_None_iff)

lemma buried_filter: "buried k limit n S \<Longrightarrow> t < limit \<Longrightarrow> buried k limit n (S\<lparr>released := filter (\<lambda>e. t < snd e) (released S)\<rparr>)"
proof -
  assume "buried k limit n S" "t < limit"
  then obtain xs until ys where b: "released S = xs @ (k, until) # ys" "k \<notin> fst ` set xs" "length ys \<le> n" "limit \<le> until"
    by (auto simp: buried_def)
  with \<open>t < limit\<close> length_filter_bound [OF b(3)] show ?thesis
    unfolding buried_def by (intro exI [of _ "filter (\<lambda>e. t < snd e) xs"] exI [of _ until] exI [of _ "filter (\<lambda>e. t < snd e) ys"]) auto
qed

lemma update_append: "k \<notin> fst ` set xs \<Longrightarrow> AList.update k v (xs @ ys) = xs @ AList.update k v ys"
  by (induction xs) auto

lemma update_append_in: "k \<in> fst ` set xs \<Longrightarrow> AList.update k v (xs @ ys) = AList.update k v xs @ ys"
  by (induction xs) auto

lemma update_keys_in: "fst ` set (AList.update k v xs) = insert k (fst ` set xs)"
  using AList.dom_update [of k v xs] by (simp add: dom_map_of_conv_image_fst)

lemma buried_tombstone:
  assumes "buried k limit n S" "n < 255" "limit \<le> t + TOMBSTONE_LIFETIME"
  shows "buried k limit (Suc n) (S\<lparr>released := add_tombstone j t (released S)\<rparr>)"
proof -
  from assms(1) obtain xs until ys where b: "released S = xs @ (k, until) # ys" "k \<notin> fst ` set xs" "length ys \<le> n" "limit \<le> until"
    by (auto simp: buried_def)
  define xs' where "xs' = (if 256 \<le> length (released S) then tl xs else xs)"
  have "256 \<le> length (released S) \<Longrightarrow> xs \<noteq> []" using b(1,3) assms(2) by auto
  then have r: "add_tombstone j t (released S) = AList.update j (t + TOMBSTONE_LIFETIME) (xs' @ (k, until) # ys)"
    by (auto simp: add_tombstone_def xs'_def b(1) tl_append split: list.splits)
  have k: "k \<notin> fst ` set xs'" using b(2) by (cases xs) (auto simp: xs'_def)
  show ?thesis
  proof (cases "j \<in> fst ` set xs'")
    case True
    with r k b show ?thesis unfolding buried_def
      by (intro exI [of _ "AList.update j (t + TOMBSTONE_LIFETIME) xs'"] exI [of _ until] exI [of _ ys])
        (auto simp: update_append_in update_keys_in)
  next
    case False
    show ?thesis
    proof (cases "j = k")
      case True
      with r k b assms(3) show ?thesis unfolding buried_def
        by (intro exI [of _ xs'] exI [of _ "t + TOMBSTONE_LIFETIME"] exI [of _ ys]) (auto simp: update_append)
    next
      case False
      with r k b \<open>j \<notin> fst ` set xs'\<close> le_trans [OF update_length_bound, of ys "Suc n" j "t + TOMBSTONE_LIFETIME"] show ?thesis unfolding buried_def
        by (intro exI [of _ xs'] exI [of _ until] exI [of _ "AList.update j (t + TOMBSTONE_LIFETIME) ys"]) (auto simp: update_append)
    qed
  qed
qed

lemma buried_weaken: "buried k limit n S \<Longrightarrow> n \<le> m \<Longrightarrow> buried k limit m S"
  by (auto simp: buried_def intro: le_trans)

text \<open>The clock of the requests that purge tombstones, and the number of tombstones that a request can add.\<close>

fun request_times :: "run_request \<Rightarrow> rat list" where
  "request_times (BeginRun x run_id user body t) = [t]"
| "request_times (CommitRun run_id p tools t) = []"
| "request_times (ReleaseRun run_id user t) = [t]"
| "request_times (CallRun run_id user run') = []"

fun tombstones :: "run_request list \<Rightarrow> nat" where
  "tombstones [] = 0"
| "tombstones (ReleaseRun run_id user t # qs) = Suc (tombstones qs)"
| "tombstones (q # qs) = tombstones qs"

lemma update_subset: "set (AList.update k v xs) \<subseteq> insert (k, v) (set xs)"
  by (induction xs) auto

lemma delete_subset: "set (AList.delete k xs) \<subseteq> set xs"
  by (auto simp: AList.delete_eq)

lemma not_live_step:
  assumes "buried k limit n S" "not_live k S"
  shows "not_live k (serve_run q S)"
proof (cases q)
  case (BeginRun x run_id user body t)
  with assms(2) show ?thesis by (cases x) (auto simp: not_live_def)
next
  case (CommitRun run_id p tools t)
  obtain r S' where c: "prepare_commit run_id p tools t S = (r, S')" by force
  have purged: "not_live k (purge_runs t S)" using assms(2) by (auto simp: not_live_def purge_runs_def)
  from commit_cases(2) [OF c] show ?thesis
  proof (elim disjE conjE)
    assume n: "map_of (released S) (run_id, pr_user p) = None"
      "live_runs S' = live_runs (purge_runs t S) @ [(run_id, opened_run p tools t)]"
    from n(1) buried_found [OF assms(1)] have "(run_id, pr_user p) \<noteq> k" by auto
    with purged n(2) show ?thesis by (auto simp: not_live_def CommitRun c opened_run_def)
  qed (use purged in \<open>simp add: CommitRun c\<close>)
next
  case (ReleaseRun run_id user t)
  with assms(2) delete_subset [of run_id "live_runs S"] show ?thesis
    by (auto simp: not_live_def release_def split: option.splits)
next
  case (CallRun run_id user run')
  show ?thesis
  proof (cases "run_context_of run_id user S")
    case (Inr run)
    then have "(run_id, run) \<in> set (live_runs S)" "rc_user run = user"
      by (auto simp: run_context_of_def dest: map_of_SomeD split: option.splits if_splits)
    with assms(2) have "(run_id, user) \<noteq> k" by (auto simp: not_live_def)
    with assms(2) Inr CallRun update_subset [of run_id run' "live_runs S"] show ?thesis by (auto simp: not_live_def)
  qed (use CallRun assms(2) in simp)
qed

lemma buried_step:
  assumes "buried k limit n S" "n + tombstones [q] \<le> 255"
    and times: "\<forall>t \<in> set (request_times q). t < limit \<and> limit \<le> t + TOMBSTONE_LIFETIME"
  shows "buried k limit (n + tombstones [q]) (serve_run q S)"
proof (cases q)
  case (BeginRun x run_id user body t)
  obtain flow b autonomy where x: "x = (flow, b, autonomy)" by (cases x) auto
  let ?S = "snd (prepare_begin flow b autonomy run_id user body t S)"
  from begin_released [of flow b autonomy run_id user body t S] have "buried k limit n ?S"
  proof
    assume "released ?S = released S"
    from buried_released [OF this] assms(1) show ?thesis by blast
  next
    assume r: "released ?S = filter (\<lambda>e. t < snd e) (released S)"
    have "buried k limit n (S\<lparr>released := filter (\<lambda>e. t < snd e) (released S)\<rparr>)"
      using times by (intro buried_filter [OF assms(1)]) (simp add: BeginRun)
    with r show ?thesis by (simp add: buried_def)
  qed
  then show ?thesis by (simp add: BeginRun x)
next
  case (CommitRun run_id p tools t)
  obtain r S' where c: "prepare_commit run_id p tools t S = (r, S')" by force
  from assms(1) commit_cases(1) [OF c] show ?thesis by (simp add: CommitRun c buried_def)
next
  case (ReleaseRun run_id user t)
  show ?thesis
  proof (cases "map_of (live_runs S) run_id")
    case None
    with buried_tombstone [OF assms(1), of t "(run_id, user)"] assms(2) times show ?thesis
      by (simp add: ReleaseRun release_def)
  next
    case (Some run)
    have "released (serve_run q S) = released S" using Some by (simp add: ReleaseRun release_def)
    with buried_weaken [OF assms(1), of "Suc n"] show ?thesis by (simp add: ReleaseRun buried_def)
  qed
next
  case (CallRun run_id user run')
  with assms(1) show ?thesis by (auto simp: buried_def split: sum.splits)
qed

lemma tombstones_Cons: "tombstones (q # qs) = tombstones [q] + tombstones qs"
  by (cases q) auto

lemma buried_requests:
  assumes "buried k limit n S" "not_live k S" "n + tombstones qs \<le> 255"
    and "\<forall>q \<in> set qs. \<forall>t \<in> set (request_times q). t < limit \<and> limit \<le> t + TOMBSTONE_LIFETIME"
  shows "not_live k (fold serve_run qs S) \<and> buried k limit (n + tombstones qs) (fold serve_run qs S)"
  using assms
proof (induction qs arbitrary: n S)
  case (Cons q qs)
  note tombstones_Cons [of q qs, simp]
  have "not_live k (serve_run q S)" using not_live_step Cons.prems(1,2) by blast
  moreover have "buried k limit (n + tombstones [q]) (serve_run q S)"
    using Cons.prems by (intro buried_step) auto
  ultimately show ?case using Cons.IH [of "n + tombstones [q]" "serve_run q S"] Cons.prems by (simp add: add.assoc)
qed simp

lemma update_new: "map_of xs k = None \<Longrightarrow> AList.update k v xs = xs @ [(k, v)]"
  by (induction xs) (auto split: if_splits)

lemma map_of_tl_None: "map_of xs k = None \<Longrightarrow> map_of (tl xs) k = None"
  by (cases xs) (auto split: if_splits)

lemma buried_start:
  assumes "map_of (live_runs S) run_id = None" "map_of (released S) (run_id, user) = None"
  shows "buried (run_id, user) (t + TOMBSTONE_LIFETIME) 0 (snd (release run_id user t S))"
    and "not_live (run_id, user) (snd (release run_id user t S))"
proof -
  let ?ts = "if 256 \<le> length (released S) then tl (released S) else released S"
  have m: "map_of ?ts (run_id, user) = None" using assms(2) map_of_tl_None by auto
  with assms(1) have "released (snd (release run_id user t S)) = ?ts @ [((run_id, user), t + TOMBSTONE_LIFETIME)]"
    by (simp add: release_def add_tombstone_def update_new)
  moreover have "(run_id, user) \<notin> fst ` set ?ts" using m unfolding map_of_eq_None_iff .
  ultimately show "buried (run_id, user) (t + TOMBSTONE_LIFETIME) 0 (snd (release run_id user t S))"
    unfolding buried_def by (intro exI [of _ ?ts] exI [of _ "t + TOMBSTONE_LIFETIME"] exI [of _ "[]"]) simp
  show "not_live (run_id, user) (snd (release run_id user t S))"
  proof -
    have "live_runs (snd (release run_id user t S)) = live_runs S" using assms(1) by (simp add: release_def)
    with assms(1) show ?thesis by (auto simp: not_live_def map_of_eq_None_iff image_iff)
  qed
qed

section \<open>Properties\<close>

text \<open>C30. A run that its user gave up before it was prepared does not come to life: whatever requests are served
  afterwards, in any order, within the 180 seconds of the tombstone and with at most 255 further releases, a
  preparation of this run cannot begin, one that had begun cannot be committed, and a call finds no context.\<close>

theorem cancelled_run_stays_cancelled:
  assumes "map_of (live_runs S) run_id = None" "map_of (released S) (run_id, user) = None" "run_id \<noteq> []"
    and "tombstones qs \<le> 255" "\<forall>q \<in> set qs. \<forall>t' \<in> set (request_times q). t \<le> t' \<and> t' < t + 180"
    and "later = fold serve_run qs (snd (release run_id user t S))"
  shows "run_context_of run_id user later = Inl (HTTPException 404 ''Run is unavailable'')
    \<and> (\<forall>p tools t'. pr_user p = user \<longrightarrow> \<not> is_ok (fst (prepare_commit run_id p tools t' later)))
    \<and> (\<forall>flow bytes_of autonomy body t'. t' < t + 180 \<longrightarrow>
         fst (prepare_begin flow bytes_of autonomy run_id user body t' later) = Inl (HTTPException 409 ''Run was cancelled during preparation''))"
proof -
  let ?k = "(run_id, user)"
  have times: "\<forall>q \<in> set qs. \<forall>t' \<in> set (request_times q). t' < t + TOMBSTONE_LIFETIME \<and> t + TOMBSTONE_LIFETIME \<le> t' + TOMBSTONE_LIFETIME"
    using assms(5) by (simp add: TOMBSTONE_LIFETIME_def)
  from buried_requests [OF buried_start [OF assms(1,2)] _ times] assms(4)
  have l: "not_live ?k later" "buried ?k (t + TOMBSTONE_LIFETIME) (tombstones qs) later"
    unfolding assms(6) by simp_all
  have "run_context_of run_id user later = Inl (HTTPException 404 ''Run is unavailable'')"
    using l(1) by (auto simp: not_live_def run_context_of_def dest: map_of_SomeD split: option.splits)
  moreover have "\<not> is_ok (fst (prepare_commit run_id p tools t' later))" if "pr_user p = user" for p tools t'
  proof -
    obtain r S' where c: "prepare_commit run_id p tools t' later = (r, S')" by force
    with commit_cases(2) [OF c] buried_found [OF l(2)] that show ?thesis by auto
  qed
  moreover have "fst (prepare_begin flow bytes_of autonomy run_id user body t' later) = Inl (HTTPException 409 ''Run was cancelled during preparation'')"
    if "t' < t + 180" for flow bytes_of autonomy body t'
  proof -
    have "buried ?k (t + TOMBSTONE_LIFETIME) (tombstones qs) (purge_released t' later)"
      using buried_filter [OF l(2)] that by (simp add: purge_released_def TOMBSTONE_LIFETIME_def)
    from buried_found [OF this] assms(3) show ?thesis by (simp add: prepare_begin_def Let_def)
  qed
  ultimately show ?thesis by blast
qed

definition sample_prepared :: prepared where
  "sample_prepared = \<lparr>pr_user = ''ann'', pr_query = ''q'', pr_messages = [], pr_profile = ''default'',
     pr_selection = AUTONOMOUS_SELECTION, pr_alias = ''m'', pr_local = [], pr_groups = []\<rparr>"

definition sample_requests :: "run_request list" where
  "sample_requests = [CommitRun ''r'' sample_prepared [] 5, ReleaseRun ''s'' ''bob'' 6]"

theorem cancelled_run_stays_cancelled_witness:
  "run_context_of ''r'' ''ann'' (fold serve_run sample_requests (snd (release ''r'' ''ann'' 1 \<lparr>live_runs = [], released = []\<rparr>)))
     = Inl (HTTPException 404 ''Run is unavailable'')"
proof -
  have a: "map_of (live_runs \<lparr>live_runs = [], released = []\<rparr>) ''r'' = None"
    "map_of (released \<lparr>live_runs = [], released = []\<rparr>) (''r'', ''ann'') = None" "''r'' \<noteq> []" by simp_all
  have t: "tombstones sample_requests \<le> 255"
    "\<forall>q \<in> set sample_requests. \<forall>t' \<in> set (request_times q). 1 \<le> t' \<and> t' < 1 + 180"
    by (simp_all add: sample_requests_def)
  from cancelled_run_stays_cancelled [OF a t refl] show ?thesis by blast
qed

text \<open>At every moment at most 128 runs are live and at most 256 tombstones are kept, no run twice; a context is
  handed to the user of the run only, and a run that is committed is live for that user at once, with exactly the
  tools of its catalogue.\<close>

theorem runs_bounded:
  assumes "reach service_started (\<lambda>S S'. \<exists>q. S' = serve_run q S) S"
  shows "length (live_runs S) \<le> 128 \<and> length (released S) \<le> 256
    \<and> (\<forall>run_id user run. run_context_of run_id user S = Inr run \<longrightarrow> rc_user run = user \<and> (run_id, run) \<in> set (live_runs S))
    \<and> (\<forall>run_id p tools t run S'. prepare_commit run_id p tools t S = (Inr run, S') \<longrightarrow>
         run_context_of run_id (pr_user p) S' = Inr run \<and> rc_tools run = tools \<and> rc_groups run = pr_groups p)"
proof -
  from runs.reach_inv [OF assms] have ok: "service_ok S" .
  have "run_context_of run_id (pr_user p) S' = Inr run \<and> rc_tools run = tools \<and> rc_groups run = pr_groups p"
    if c: "prepare_commit run_id p tools t S = (Inr run, S')" for run_id p tools t run S'
    using commit_cases(2) [OF c] by (auto simp: run_context_of_def opened_run_def map_add_def)
  moreover have "rc_user run = user \<and> (run_id, run) \<in> set (live_runs S)" if "run_context_of run_id user S = Inr run" for run_id user run
    using that by (auto simp: run_context_of_def dest: map_of_SomeD split: option.splits if_splits)
  ultimately show ?thesis using ok by (auto simp: service_ok_def)
qed

lemma sample_service_reach: "reach service_started (\<lambda>S S'. \<exists>q. S' = serve_run q S) \<lparr>live_runs = [], released = []\<rparr>"
  by (rule reach_start) (simp add: service_started_def)

theorem runs_bounded_witness:
  "\<exists>run S'. prepare_commit ''r'' sample_prepared [''t''] 5 \<lparr>live_runs = [], released = []\<rparr> = (Inr run, S')
     \<and> run_context_of ''r'' ''ann'' S' = Inr run \<and> rc_tools run = [''t'']"
proof -
  have "is_ok (fst (prepare_commit ''r'' sample_prepared [''t''] 5 \<lparr>live_runs = [], released = []\<rparr>))"
    by (simp add: prepare_commit_def purge_runs_def)
  then obtain run S' where c: "prepare_commit ''r'' sample_prepared [''t''] 5 \<lparr>live_runs = [], released = []\<rparr> = (Inr run, S')"
    by (cases "prepare_commit ''r'' sample_prepared [''t''] 5 \<lparr>live_runs = [], released = []\<rparr>"; cases "fst (prepare_commit ''r'' sample_prepared [''t''] 5 \<lparr>live_runs = [], released = []\<rparr>)") auto
  have "pr_user sample_prepared = ''ann''" by (simp add: sample_prepared_def)
  with runs_bounded [OF sample_service_reach] c show ?thesis by metis
qed

lemma check_messages_ok:
  "check_messages ms = Inr ds \<Longrightarrow> ms = map JObj ds
     \<and> (\<forall>d \<in> set ds. (dict_get d ''role'' = JStr ''user'' \<or> dict_get d ''role'' = JStr ''assistant'') \<and> is_str (dict_get d ''content''))"
proof (induction ms arbitrary: ds)
  case (Cons m ms)
  then obtain d where m: "m = JObj d" by (cases m) auto
  with Cons.prems have ok: "(dict_get d ''role'' = JStr ''user'' \<or> dict_get d ''role'' = JStr ''assistant'') \<and> is_str (dict_get d ''content'')"
    "bind_result (check_messages ms) (\<lambda>ds. Inr (d # ds)) = Inr ds"
    by (cases "dict_get d ''role''"; auto split: if_splits)+
  then obtain rest where "check_messages ms = Inr rest" "ds = d # rest" by (auto simp: bind_result_Inr)
  with Cons.IH m ok(1) show ?case by auto
qed simp

lemma last_user_split:
  assumes "find from_user (rev ms) = Some u"
  obtains xs ys where "ms = xs @ u # ys" "from_user u" "\<forall>m \<in> set ys. \<not> from_user m"
    "length (takeWhile (\<lambda>m. \<not> from_user m) (rev ms)) = length ys"
proof -
  from assms obtain i where i: "i < length ms" "from_user (rev ms ! i)" "u = rev ms ! i" "\<forall>j < i. \<not> from_user (rev ms ! j)"
    by (auto simp: find_Some_iff)
  let ?ys = "rev (take i (rev ms))" and ?xs = "rev (drop (Suc i) (rev ms))"
  have r: "rev ms = take i (rev ms) @ u # drop (Suc i) (rev ms)"
    using i(1,3) id_take_nth_drop [of i "rev ms"] by simp
  then have "rev (rev ms) = ?xs @ u # ?ys" by (metis append.assoc append_Cons append_Nil rev.simps(2) rev_append)
  then have m: "ms = ?xs @ u # ?ys" by simp
  have none: "\<forall>m \<in> set (take i (rev ms)). \<not> from_user m" using i(1,4) by (auto simp: in_set_conv_nth)
  have "takeWhile (\<lambda>m. \<not> from_user m) (rev ms) = take i (rev ms)"
    by (subst r, subst takeWhile_append2) (use none i(2,3) in auto)
  then have "length (takeWhile (\<lambda>m. \<not> from_user m) (rev ms)) = length ?ys" by simp
  with m none i(2,3) that [of ?xs ?ys] show ?thesis by simp
qed

lemma insert_context_place:
  assumes "\<forall>m \<in> set ms. is_str (dict_get m ''content'')"
  shows "insert_context c ms = ms \<or>
    (\<exists>xs u ys. ms = xs @ u # ys \<and> from_user u \<and> (\<forall>m \<in> set ys. \<not> from_user m) \<and> dict_get u ''content'' = JStr (last_query ms)
       \<and> insert_context c ms = xs @ [(''role'', JStr ''user''), (''content'', JStr c)] # u # ys)"
proof (cases "find from_user (rev ms)")
  case None
  then have "\<forall>m \<in> set ms. \<not> from_user m" by (simp add: find_None_iff)
  then have "takeWhile (\<lambda>m. \<not> from_user m) (rev ms) = rev ms" by (intro takeWhile_eq_all_conv [THEN iffD2]) simp
  then have "length (takeWhile (\<lambda>m. \<not> from_user m) (rev ms)) = length (rev ms)" by (rule arg_cong)
  then have "insert_context c ms = ms" unfolding insert_context_def Let_def by simp
  then show ?thesis ..
next
  case (Some u)
  then obtain xs ys where u: "ms = xs @ u # ys" "from_user u" "\<forall>m \<in> set ys. \<not> from_user m"
    "length (takeWhile (\<lambda>m. \<not> from_user m) (rev ms)) = length ys" by (rule last_user_split)
  from assms u(1) obtain q where "dict_get u ''content'' = JStr q" by (cases "dict_get u ''content''") auto
  with Some have q: "dict_get u ''content'' = JStr (last_query ms)" by (simp add: last_query_def)
  have "insert_context c ms = ms \<or> insert_context c ms = xs @ [(''role'', JStr ''user''), (''content'', JStr c)] # u # ys"
    unfolding insert_context_def u(4) Let_def by (simp add: u(1))
  with u q show ?thesis by blast
qed


definition sample_flow :: workflow where
  "sample_flow = \<lparr>wf_history = 50, wf_history_tokens = 1000, wf_tools = [''k8s'', ''webscrape_tool''], wf_daily = None, wf_final = [],
     wf_routing = \<lparr>model_routes = [], request_model_profiles = [], skill_model_profiles = []\<rparr>, wf_groups = [''k8s''],
     wf_model = ''m'', wf_autonomous = \<lparr>ae_base_url = [], ae_api_key = [], ae_model_name = []\<rparr>\<rparr>"

definition sample_message :: dict where
  "sample_message = [(''role'', JStr ''user''), (''content'', JStr ''hello'')]"

lemma sample_prepare:
  "is_ok (fst (prepare_begin sample_flow (\<lambda>_. 3) False ''r'' ''ann'' [(''messages'', JList [JObj sample_message])] 0 \<lparr>live_runs = [], released = []\<rparr>))"
  by code_simp


end
