(* ===== verification/Google_OAuth.thy ===== *)
theory Google_OAuth
  imports Internal_Auth Py_Values Py_Url Interfaces "HOL-Library.AList"
begin

text \<open>
  The Google grants of a user (\<open>builder/daedalus_runtime/oauth.py\<close>): the keys, the use and refresh of a stored
  grant, the browser authorization with its state, the callback, invalidation and reset.

  \<^item> A stored text is represented by the value that it encodes, of the current or the legacy format; a text that
    is not of either is not modelled. SHA-256, the name-based UUID and the answer of the token endpoint are arguments.
  \<^item> An authorization waits for a person between \<open>access_token\<close> and \<open>finish_authorization\<close>; the lock of its key
    is held meanwhile (\<open>held\<close>), that of Redis is not. Within one phase Redis is locked, so a phase is one step.
  \<^item> \<open>issued\<close> and \<open>exchanged\<close> are ghosts: the states that were handed out, and the codes that were exchanged.
\<close>

section \<open>Grants\<close>

definition BUCKETS :: "(string \<times> string) list" where
  "BUCKETS = [(''gmail'', ''gmail-mcp-oauth-ro''), (''calendar'', ''calendar-mcp-oauth-rw''), (''docs'', ''docs-mcp-oauth-drive'')]"

definition AUTHORIZE_URL :: string where
  "AUTHORIZE_URL = ''https://accounts.google.com/o/oauth2/v2/auth''"

definition TOKEN_URL :: string where
  "TOKEN_URL = ''https://oauth2.googleapis.com/token''"

record identifiers =
  sha256_hex :: "string \<Rightarrow> string"
  toolkit_uuid :: "string \<Rightarrow> string"

definition token_key :: "identifiers \<Rightarrow> string \<Rightarrow> string \<Rightarrow> string" where
  "token_key I service user =
     (let session = ''daedalus-user-'' @ take 32 (sha256_hex I user) in
      ''nat/object_store/'' @ or_empty (map_of BUCKETS service) @ ''/tokens/'' @ sha256_hex I (toolkit_uuid I session))"

record grant =
  gr_access :: string
  gr_refresh :: json
  gr_scope :: json
  gr_expires :: pyfloat

text \<open>A legacy item: the tokens of the credentials that have one, the raw answer and the moment of expiry.\<close>

record legacy_item =
  li_tokens :: "string list"
  li_raw :: dict
  li_expiry :: "rat option"

datatype stored_grant = Version2 grant | Legacy legacy_item

definition dict_get_or :: "dict \<Rightarrow> string \<Rightarrow> json \<Rightarrow> json" where
  "dict_get_or d k v = (case map_of d k of None \<Rightarrow> v | Some x \<Rightarrow> x)"

definition decode_grant :: "stored_grant \<Rightarrow> grant" where
  "decode_grant g =
     (case g of
        Version2 x \<Rightarrow> x
      | Legacy l \<Rightarrow>
          \<lparr>gr_access = (case li_tokens l of [] \<Rightarrow> [] | x # _ \<Rightarrow> x),
           gr_refresh = dict_get_or (li_raw l) ''refresh_token'' (JStr []), gr_scope = dict_get_or (li_raw l) ''scope'' (JStr []),
           gr_expires = (case li_expiry l of None \<Rightarrow> Finite 0 [] | Some t \<Rightarrow> Finite t [])\<rparr>)"

definition after :: "rat \<Rightarrow> pyfloat \<Rightarrow> bool" where
  "after t e = (case e of Finite q _ \<Rightarrow> t < q | PosInf \<Rightarrow> True | _ \<Rightarrow> False)"

definition add_seconds :: "rat \<Rightarrow> pyfloat \<Rightarrow> pyfloat" where
  "add_seconds t e = (case e of Finite q _ \<Rightarrow> Finite (t + q) [] | x \<Rightarrow> x)"

section \<open>The service\<close>

record oauth_config =
  server_url :: string
  client_id :: string
  client_secret :: string
  redirect_uri :: string
  oauth_scopes :: "string list"

definition oauth_service :: "string \<Rightarrow> string result" where
  "oauth_service url =
     (case find (\<lambda>s. url = ''https://'' @ s @ ''mcp.googleapis.com/mcp'' \<or> url = ''https://'' @ s @ ''mcp.googleapis.com/mcp/v1'')
             (map fst BUCKETS) of
        Some s \<Rightarrow> Inr s
      | None \<Rightarrow> Inl (ValueError ''Unsupported OAuth resource''))"

record token_answer =
  an_success :: bool
  an_status :: nat
  an_json :: "json option"

datatype authorization_answer = Awaited | Granted string | Declined

record pending_authorization =
  pa_key :: string
  pa_created :: rat
  pa_answer :: authorization_answer

record oauth_state =
  grants :: "string \<Rightarrow> stored_grant option"
  pending :: "(string \<times> pending_authorization) list"
  held :: "string list"
  issued :: "(string \<times> string) list"
  exchanged :: "(string \<times> string \<times> string) list"

type_synonym token_endpoint = "(string \<times> string) list \<Rightarrow> token_answer"

text \<open>\<open>_save_token\<close>; the second argument is the grant that is superseded.\<close>

definition saved_token :: "rat \<Rightarrow> dict \<Rightarrow> grant option \<Rightarrow> (string \<times> grant) result" where
  "saved_token now token previous =
     (case dict_get token ''access_token'' of
        JStr access \<Rightarrow>
          if access = [] then Inl (RuntimeError ''OAuth response has no access token'')
          else bind_result (py_float (dict_get_or token ''expires_in'' (JInt 3600))) (\<lambda>seconds.
            Inr (access, \<lparr>gr_access = access,
              gr_refresh = py_or (dict_get token ''refresh_token'') (case previous of Some g \<Rightarrow> gr_refresh g | None \<Rightarrow> JStr []),
              gr_scope = py_or (dict_get token ''scope'') (case previous of Some g \<Rightarrow> gr_scope g | None \<Rightarrow> JStr []),
              gr_expires = add_seconds now seconds\<rparr>))
      | _ \<Rightarrow> Inl (RuntimeError ''OAuth response has no access token''))"

definition save_token :: "rat \<Rightarrow> string \<Rightarrow> dict \<Rightarrow> grant option \<Rightarrow> oauth_state \<Rightarrow> string result \<times> oauth_state" where
  "save_token now key token previous st =
     (case saved_token now token previous of
        Inl e \<Rightarrow> (Inl e, st)
      | Inr (access, g) \<Rightarrow> (Inr access, st\<lparr>grants := (grants st)(key := Some (Version2 g))\<rparr>))"

text \<open>The stored grant: its token while it is valid for another minute, otherwise what a refresh brings;
  \<^const>\<open>None\<close> where a person must authorize.\<close>

definition refresh_form :: "oauth_config \<Rightarrow> string \<Rightarrow> (string \<times> string) list" where
  "refresh_form cfg refresh =
     [(''grant_type'', ''refresh_token''), (''refresh_token'', refresh), (''client_id'', client_id cfg),
      (''client_secret'', client_secret cfg), (''resource'', server_url cfg)]"

definition answer_object :: "token_answer \<Rightarrow> dict option" where
  "answer_object a = (if an_success a \<or> an_status a = 400 then (case an_json a of Some (JObj d) \<Rightarrow> Some d | _ \<Rightarrow> None) else None)"

definition stored_access ::
  "token_endpoint \<Rightarrow> oauth_config \<Rightarrow> rat \<Rightarrow> string \<Rightarrow> oauth_state \<Rightarrow> string option result \<times> oauth_state" where
  "stored_access post cfg now key st =
     (case grants st key of
        None \<Rightarrow> (Inr None, st)
      | Some raw \<Rightarrow>
          let saved = decode_grant raw in
          if gr_access saved \<noteq> [] \<and> after (now + 60) (gr_expires saved) then (Inr (Some (gr_access saved)), st)
          else if \<not> truthy (gr_refresh saved) then (Inr None, st)
          else
            let a = post (refresh_form cfg (py_str (gr_refresh saved))) in
            (case answer_object a of
               Some token \<Rightarrow>
                 if an_success a
                 then (case save_token now key token (Some saved) st of (r, st') \<Rightarrow> (bind_result r (\<lambda>t. Inr (Some t)), st'))
                 else if dict_get token ''error'' = JStr ''invalid_grant''
                 then (Inr None, st\<lparr>grants := (grants st)(key := None)\<rparr>)
                 else (Inl (RuntimeError ''Google token refresh is temporarily unavailable''), st)
             | None \<Rightarrow> (Inl (RuntimeError ''Google token refresh is temporarily unavailable''), st)))"

section \<open>Authorization by a person\<close>

definition authorization_params :: "oauth_config \<Rightarrow> string \<Rightarrow> string \<Rightarrow> (string \<times> string) list" where
  "authorization_params cfg state challenge =
     [(''response_type'', ''code''), (''client_id'', client_id cfg), (''resource'', server_url cfg),
      (''redirect_uri'', redirect_uri cfg), (''scope'', join_with '' '' (oauth_scopes cfg)), (''state'', state),
      (''code_challenge'', challenge), (''code_challenge_method'', ''S256''), (''access_type'', ''offline''),
      (''include_granted_scopes'', ''true''), (''prompt'', ''consent'')]"

definition auth_url :: "oauth_config \<Rightarrow> string \<Rightarrow> string \<Rightarrow> string" where
  "auth_url cfg state challenge = AUTHORIZE_URL @ ''?'' @ urlencode (authorization_params cfg state challenge)"

datatype access_result = AccessToken string | NoToken | Asked string string | AccessFails py_error

text \<open>\<open>access_token\<close> up to the moment where it waits for a person. \<open>fresh\<close> and \<open>challenge\<close> are the random state
  and the hash of the random verifier.\<close>

definition access_token ::
  "identifiers \<Rightarrow> token_endpoint \<Rightarrow> oauth_config \<Rightarrow> bool \<Rightarrow> string \<Rightarrow> string \<Rightarrow> rat \<Rightarrow> rat \<Rightarrow> string \<Rightarrow> oauth_state \<Rightarrow>
     access_result \<times> oauth_state" where
  "access_token I post cfg interactive fresh challenge now clock user st =
     (case oauth_service (server_url cfg) of
        Inl e \<Rightarrow> (AccessFails e, st)
      | Inr service \<Rightarrow>
          (case stored_access post cfg now (token_key I service user) st of
             (Inl e, st') \<Rightarrow> (AccessFails e, st')
           | (Inr (Some t), st') \<Rightarrow> (AccessToken t, st')
           | (Inr None, st') \<Rightarrow>
               if \<not> interactive then (NoToken, st')
               else if client_id cfg = [] \<or> client_secret cfg = [] \<or> redirect_uri cfg = []
               then (AccessFails (RuntimeError ''Google OAuth is not configured''), st')
               else if 128 \<le> length (pending st') then (AccessFails (RuntimeError ''OAuth capacity reached''), st')
               else (Asked (auth_url cfg fresh challenge) fresh,
                     st'\<lparr>pending := AList.update fresh \<lparr>pa_key = token_key I service user, pa_created = clock, pa_answer = Awaited\<rparr> (pending st'),
                         held := token_key I service user # held st',
                         issued := (fresh, token_key I service user) # issued st'\<rparr>)))"

definition callback :: "string \<Rightarrow> string option \<Rightarrow> string option \<Rightarrow> rat \<Rightarrow> oauth_state \<Rightarrow> unit result \<times> oauth_state" where
  "callback state auth_code error clock st =
     (case map_of (pending st) state of
        None \<Rightarrow> (Inl (HTTPException 400 ''OAuth state is missing, expired, or already used''), st)
      | Some p \<Rightarrow>
          if pa_answer p \<noteq> Awaited \<or> 600 < clock - pa_created p
          then (Inl (HTTPException 400 ''OAuth state is missing, expired, or already used''), st)
          else (Inr (), st\<lparr>pending := AList.update state
                  (p\<lparr>pa_answer := (if or_empty error \<noteq> [] \<or> or_empty auth_code = [] then Declined else Granted (or_empty auth_code))\<rparr>)
                  (pending st)\<rparr>))"

text \<open>The rest of \<open>access_token\<close>, once the answer is there; without one the wait ends with a timeout or is
  cancelled (\<^const>\<open>None\<close>). The state is forgotten and the lock released in every case.\<close>

definition exchange_form :: "oauth_config \<Rightarrow> string \<Rightarrow> string \<Rightarrow> (string \<times> string) list" where
  "exchange_form cfg c verifier =
     [(''grant_type'', ''authorization_code''), (''code'', c), (''code_verifier'', verifier), (''client_id'', client_id cfg),
      (''client_secret'', client_secret cfg), (''resource'', server_url cfg), (''redirect_uri'', redirect_uri cfg)]"

definition close_authorization :: "string \<Rightarrow> string \<Rightarrow> oauth_state \<Rightarrow> oauth_state" where
  "close_authorization state key st = st\<lparr>pending := AList.delete state (pending st), held := remove1 key (held st)\<rparr>"

definition finish_authorization ::
  "token_endpoint \<Rightarrow> oauth_config \<Rightarrow> string \<Rightarrow> string \<Rightarrow> string \<Rightarrow> rat \<Rightarrow> oauth_state \<Rightarrow> string result option \<times> oauth_state" where
  "finish_authorization post cfg verifier state key now st =
     (case map_of (pending st) state of
        None \<Rightarrow> (None, st)
      | Some p \<Rightarrow>
          (case pa_answer p of
             Awaited \<Rightarrow> (None, close_authorization state key st)
           | Declined \<Rightarrow> (Some (Inl (RuntimeError ''Google authorization was declined'')), close_authorization state key st)
           | Granted c \<Rightarrow>
               let a = post (exchange_form cfg c verifier); st1 = st\<lparr>exchanged := (state, key, c) # exchanged st\<rparr> in
               if \<not> an_success a
               then (Some (Inl (RuntimeError ''Google authorization could not be completed'')), close_authorization state key st1)
               else (case an_json a of
                       Some (JObj token) \<Rightarrow>
                         (case save_token now key token None st1 of (r, st2) \<Rightarrow> (Some r, close_authorization state key st2))
                     | Some _ \<Rightarrow> (Some (Inl AttributeError), close_authorization state key st1)
                     | None \<Rightarrow> (Some (Inl (ValueError ''Expecting value'')), close_authorization state key st1))))"

section \<open>Invalidation and reset\<close>

definition invalidate_access :: "identifiers \<Rightarrow> string \<Rightarrow> oauth_config \<Rightarrow> string \<Rightarrow> oauth_state \<Rightarrow> unit result \<times> oauth_state" where
  "invalidate_access I user cfg rejected st =
     (case oauth_service (server_url cfg) of
        Inl e \<Rightarrow> (Inl e, st)
      | Inr service \<Rightarrow>
          let key = token_key I service user in
          (case grants st key of
             None \<Rightarrow> (Inr (), st)
           | Some raw \<Rightarrow>
               let g = decode_grant raw in
               if gr_access g \<noteq> rejected then (Inr (), st)
               else (Inr (), st\<lparr>grants := (grants st)(key := Some (Version2 (g\<lparr>gr_expires := Finite 0 []\<rparr>)))\<rparr>)))"

definition reset_grant :: "identifiers \<Rightarrow> string \<Rightarrow> string \<Rightarrow> oauth_state \<Rightarrow> bool result \<times> oauth_state" where
  "reset_grant I service user st =
     (if map_of BUCKETS service = None then (Inl (HTTPException 404 ''Unknown Google Workspace service''), st)
      else
        let key = token_key I service user in
        if key \<in> set (held st)
        then (Inl (HTTPException 409 ''Authorization is in use; wait for the current operation to finish''), st)
        else (Inr (grants st key \<noteq> None), st\<lparr>grants := (grants st)(key := None)\<rparr>))"

section \<open>Requests as steps\<close>

text \<open>An access waits while another one holds the lock of its key. A new state is not one that was handed out
  before (it has 256 random bits).\<close>

inductive oauth_step :: "identifiers \<Rightarrow> oauth_state \<Rightarrow> oauth_state \<Rightarrow> bool" for I where
  oa_access: "access_token I post cfg interactive fresh challenge now clock user st = (r, st') \<Longrightarrow>
     fresh \<notin> fst ` set (issued st) \<Longrightarrow>
     \<forall>service. oauth_service (server_url cfg) = Inr service \<longrightarrow> token_key I service user \<notin> set (held st) \<Longrightarrow> oauth_step I st st'"
| oa_callback: "callback state auth_code error clock st = (r, st') \<Longrightarrow> oauth_step I st st'"
| oa_finish: "map_of (pending st) state = Some p \<Longrightarrow> finish_authorization post cfg verifier state (pa_key p) now st = (r, st') \<Longrightarrow>
     oauth_step I st st'"
| oa_invalidate: "invalidate_access I user cfg rejected st = (r, st') \<Longrightarrow> oauth_step I st st'"
| oa_reset: "reset_grant I service user st = (r, st') \<Longrightarrow> oauth_step I st st'"

inductive_cases oauth_stepE: "oauth_step I st st'"

section \<open>Facts\<close>

lemma save_token_effect:
  assumes "save_token now key token previous st = (r, st')"
  shows "pending st' = pending st" "held st' = held st" "issued st' = issued st" "exchanged st' = exchanged st"
    and "k \<noteq> key \<Longrightarrow> grants st' k = grants st k"
    and "grants st' = grants st \<and> \<not> is_ok r \<or> (\<exists>access g. r = Inr access \<and> saved_token now token previous = Inr (access, g)
          \<and> grants st' = (grants st)(key \<mapsto> Version2 g))"
  using assms by (auto simp: save_token_def split: sum.splits prod.splits)

lemma saved_token_keeps:
  assumes "saved_token now token previous = Inr (access, g)"
  shows "access \<noteq> []" "gr_access g = access" "dict_get token ''access_token'' = JStr access"
    "\<not> truthy (dict_get token ''refresh_token'') \<Longrightarrow> previous = Some old \<Longrightarrow> gr_refresh g = gr_refresh old"
    "truthy (dict_get token ''refresh_token'') \<Longrightarrow> gr_refresh g = dict_get token ''refresh_token''"
  using assms by (auto simp: saved_token_def py_or_def bind_result_Inr split: json.splits if_splits)

text \<open>What the first phase can do to the grant.\<close>

definition refused_grant :: "token_answer \<Rightarrow> bool" where
  "refused_grant a \<longleftrightarrow> \<not> an_success a \<and> an_status a = 400
     \<and> (\<exists>d. an_json a = Some (JObj d) \<and> dict_get d ''error'' = JStr ''invalid_grant'')"

lemma stored_access_cases:
  assumes "stored_access post cfg now key st = (r, st')"
  shows "st' = st \<and> (\<forall>t. r = Inr (Some t) \<longrightarrow> (\<exists>raw. grants st key = Some raw \<and> gr_access (decode_grant raw) = t \<and> t \<noteq> []
            \<and> after (now + 60) (gr_expires (decode_grant raw))))
    \<or> (\<exists>raw a. grants st key = Some raw \<and> truthy (gr_refresh (decode_grant raw))
        \<and> \<not> (gr_access (decode_grant raw) \<noteq> [] \<and> after (now + 60) (gr_expires (decode_grant raw)))
        \<and> a = post (refresh_form cfg (py_str (gr_refresh (decode_grant raw))))
        \<and> (r = Inr None \<and> refused_grant a \<and> st' = st\<lparr>grants := (grants st)(key := None)\<rparr>
          \<or> (\<exists>t g d. r = Inr (Some t) \<and> an_success a \<and> an_json a = Some (JObj d) \<and> saved_token now d (Some (decode_grant raw)) = Inr (t, g)
              \<and> st' = st\<lparr>grants := (grants st)(key \<mapsto> Version2 g)\<rparr>)))"
proof (cases "grants st key")
  case None
  with assms show ?thesis by (auto simp: stored_access_def)
next
  case (Some raw)
  let ?g = "decode_grant raw" and ?a = "post (refresh_form cfg (py_str (gr_refresh (decode_grant raw))))"
  show ?thesis
  proof (cases "gr_access ?g \<noteq> [] \<and> after (now + 60) (gr_expires ?g)")
    case True
    with Some assms show ?thesis by (auto simp: stored_access_def Let_def)
  next
    case expired: False
    show ?thesis
    proof (cases "truthy (gr_refresh ?g) \<and> (\<exists>d. answer_object ?a = Some d)")
      case False
      with expired Some assms show ?thesis by (auto simp: stored_access_def Let_def split: if_splits option.splits)
    next
      case True
      then obtain d where d: "answer_object ?a = Some d" by blast
      then have json: "an_json ?a = Some (JObj d)" "an_success ?a \<or> an_status ?a = 400"
        by (auto simp: answer_object_def split: if_splits option.splits json.splits)
      show ?thesis
      proof (cases "an_success ?a")
        case success: True
        show ?thesis
        proof (cases "saved_token now d (Some ?g)")
          case (Inl e)
          with assms Some expired True d success have "st' = st" "\<forall>t. r \<noteq> Inr (Some t)"
            by (auto simp: stored_access_def save_token_def Let_def)
          then show ?thesis by blast
        next
          case (Inr tg)
          then obtain t g where tg: "saved_token now d (Some ?g) = Inr (t, g)" by (cases tg) auto
          with assms Some expired True d success have "st' = st\<lparr>grants := (grants st)(key \<mapsto> Version2 g)\<rparr>" "r = Inr (Some t)"
            by (auto simp: stored_access_def save_token_def Let_def)
          with Some True expired tg json success show ?thesis by blast
        qed
      next
        case failed: False
        show ?thesis
        proof (cases "dict_get d ''error'' = JStr ''invalid_grant''")
          case True
          with \<open>truthy _ \<and> _\<close> assms Some expired d failed have "st' = st\<lparr>grants := (grants st)(key := None)\<rparr>" "r = Inr None"
            by (auto simp: stored_access_def Let_def)
          moreover have "refused_grant ?a" using True failed json by (auto simp: refused_grant_def)
          ultimately show ?thesis using Some \<open>truthy _ \<and> _\<close> expired by blast
        next
          case False
          with \<open>truthy _ \<and> _\<close> assms Some expired d failed have "st' = st" "\<forall>t. r \<noteq> Inr (Some t)"
            by (auto simp: stored_access_def Let_def)
          then show ?thesis by blast
        qed
      qed
    qed
  qed
qed

section \<open>Invariant\<close>

definition oauth_ok :: "oauth_state \<Rightarrow> bool" where
  "oauth_ok st \<longleftrightarrow> distinct (map fst (pending st)) \<and> length (pending st) \<le> 128
     \<and> distinct (held st) \<and> set (held st) = (pa_key \<circ> snd) ` set (pending st)
     \<and> distinct (map (pa_key \<circ> snd) (pending st))
     \<and> distinct (map fst (issued st)) \<and> (\<forall>(s, p) \<in> set (pending st). (s, pa_key p) \<in> set (issued st))
     \<and> distinct (map fst (exchanged st))
     \<and> (\<forall>(s, k, c) \<in> set (exchanged st). (s, k) \<in> set (issued st) \<and> s \<notin> fst ` set (pending st))"

definition oauth_started :: "oauth_state \<Rightarrow> bool" where
  "oauth_started st \<longleftrightarrow> pending st = [] \<and> held st = [] \<and> issued st = [] \<and> exchanged st = []"

lemma oauth_ok_grants [simp]: "oauth_ok (st\<lparr>grants := g\<rparr>) = oauth_ok st"
  by (simp add: oauth_ok_def)

lemma stored_access_grants: "stored_access post cfg now key st = (r, st') \<Longrightarrow> \<exists>g. st' = st\<lparr>grants := g\<rparr>"
proof (drule stored_access_cases, elim disjE conjE exE)
  assume "st' = st"
  then have "st' = st\<lparr>grants := grants st\<rparr>" by simp
  then show ?thesis by (rule exI [of _ "grants st"])
qed blast+

lemma update_fresh_key: "k \<notin> fst ` set xs \<Longrightarrow> AList.update k v xs = xs @ [(k, v)]"
  by (induction xs) auto

lemma open_authorization_ok:
  assumes ok: "oauth_ok st" and fresh: "s \<notin> fst ` set (issued st)" and free: "k \<notin> set (held st)" and room: "length (pending st) < 128"
    and p: "pa_key p = k"
  shows "oauth_ok (st\<lparr>pending := AList.update s p (pending st), held := k # held st, issued := (s, k) # issued st\<rparr>)"
proof -
  from ok have o: "distinct (map fst (pending st))" "distinct (held st)" "set (held st) = (pa_key \<circ> snd) ` set (pending st)"
    "distinct (map (pa_key \<circ> snd) (pending st))" "distinct (map fst (issued st))" "distinct (map fst (exchanged st))"
    and i: "\<And>a q. (a, q) \<in> set (pending st) \<Longrightarrow> (a, pa_key q) \<in> set (issued st)"
    and e: "\<And>a b c. (a, b, c) \<in> set (exchanged st) \<Longrightarrow> (a, b) \<in> set (issued st) \<and> a \<notin> fst ` set (pending st)"
    unfolding oauth_ok_def by blast+
  have n: "s \<notin> fst ` set (pending st)" using i fresh by force
  have m: "(s, b, c) \<notin> set (exchanged st)" for b c using e fresh by force
  have "\<forall>(a, b, c) \<in> set (exchanged st). (a, b) \<in> set ((s, k) # issued st) \<and> a \<notin> fst ` set (pending st @ [(s, p)])"
  proof clarify
    fix a b c assume x: "(a, b, c) \<in> set (exchanged st)"
    with m have "a \<noteq> s" by blast
    with e [OF x] show "(a, b) \<in> set ((s, k) # issued st) \<and> a \<notin> fst ` set (pending st @ [(s, p)])" by auto
  qed
  moreover have "\<forall>(a, q) \<in> set (pending st @ [(s, p)]). (a, pa_key q) \<in> set ((s, k) # issued st)" using i p by auto
  moreover have "distinct (map fst (pending st @ [(s, p)]))" using o(1) n by simp
  moreover have "distinct (map (pa_key \<circ> snd) (pending st @ [(s, p)]))" using o(3,4) free p by simp
  moreover have "set (k # held st) = (pa_key \<circ> snd) ` set (pending st @ [(s, p)])" using o(3) p by simp
  moreover have "distinct (map fst ((s, k) # issued st))" "distinct (k # held st)" "length (pending st @ [(s, p)]) \<le> 128"
    using o(2,5) fresh free room by simp_all
  moreover define st2 where "st2 = st\<lparr>pending := AList.update s p (pending st), held := k # held st, issued := (s, k) # issued st\<rparr>"
  then have f: "pending st2 = pending st @ [(s, p)]" "held st2 = k # held st" "issued st2 = (s, k) # issued st" "exchanged st2 = exchanged st"
    using update_fresh_key [OF n] by simp_all
  ultimately have "oauth_ok st2" using o(6) unfolding oauth_ok_def f by blast
  then show ?thesis unfolding st2_def .
qed

lemma delete_append_key: "k \<notin> fst ` set xs \<Longrightarrow> AList.delete k (xs @ ys) = xs @ AList.delete k ys"
  by (induction xs) auto

lemma close_authorization_ok:
  assumes ok: "oauth_ok st" and p: "map_of (pending st) s = Some p"
  shows "oauth_ok (close_authorization s (pa_key p) st)"
    and "s \<notin> fst ` set (pending (close_authorization s (pa_key p) st))"
proof -
  from split_list [OF map_of_SomeD [OF p]] obtain xs ys where l: "pending st = xs @ (s, p) # ys" by blast
  with ok have n: "s \<notin> fst ` set xs" "s \<notin> fst ` set ys" by (auto simp: oauth_ok_def)
  have d: "AList.delete s (pending st) = xs @ ys"
    unfolding l delete_append_key [OF n(1)] using n(2) by (simp add: AList.delete_eq filter_id_conv) (force intro: filter_id_conv [THEN iffD2])
  define st2 where "st2 = close_authorization s (pa_key p) st"
  have f: "pending st2 = xs @ ys" "held st2 = remove1 (pa_key p) (held st)" "issued st2 = issued st" "exchanged st2 = exchanged st"
    by (simp_all add: st2_def close_authorization_def d)
  have keys: "pa_key p \<notin> (pa_key \<circ> snd) ` set (xs @ ys)" using ok unfolding oauth_ok_def l by auto
  have h: "set (held st2) = (pa_key \<circ> snd) ` set (pending st2)" "distinct (held st2)"
    using ok keys unfolding f oauth_ok_def l by (auto simp: set_remove1_eq distinct_remove1)
  have "oauth_ok st2"
    unfolding oauth_ok_def h(1) f(1,3,4) using ok h(2) unfolding oauth_ok_def l by auto
  then show "oauth_ok (close_authorization s (pa_key p) st)" by (simp add: st2_def)
  show "s \<notin> fst ` set (pending (close_authorization s (pa_key p) st))"
    unfolding st2_def [symmetric] f(1) using n by auto
qed

lemma callback_cases:
  assumes "callback s c e clock st = (r, st')"
  shows "(\<exists>x. r = Inl x) \<and> st' = st
    \<or> (\<exists>p a. r = Inr () \<and> map_of (pending st) s = Some p \<and> pa_answer p = Awaited \<and> clock - pa_created p \<le> 600 \<and> a \<noteq> Awaited
         \<and> st' = st\<lparr>pending := AList.update s (p\<lparr>pa_answer := a\<rparr>) (pending st)\<rparr>)"
proof (cases "map_of (pending st) s")
  case None
  with assms show ?thesis by (auto simp: callback_def)
next
  case (Some p)
  let ?a = "if or_empty e \<noteq> [] \<or> or_empty c = [] then Declined else Granted (or_empty c)"
  show ?thesis
  proof (cases "pa_answer p \<noteq> Awaited \<or> 600 < clock - pa_created p")
    case True
    with Some assms show ?thesis by (auto simp: callback_def)
  next
    case False
    with Some assms have "r = Inr ()" "st' = st\<lparr>pending := AList.update s (p\<lparr>pa_answer := ?a\<rparr>) (pending st)\<rparr>"
      by (auto simp: callback_def)
    moreover have "?a \<noteq> Awaited" by simp
    ultimately show ?thesis using Some False by (intro disjI2 exI [of _ p] exI [of _ ?a]) auto
  qed
qed

lemma answer_ok:
  assumes ok: "oauth_ok st" and p: "map_of (pending st) s = Some p"
  shows "oauth_ok (st\<lparr>pending := AList.update s (p\<lparr>pa_answer := a\<rparr>) (pending st)\<rparr>)"
proof -
  from split_list [OF map_of_SomeD [OF p]] obtain xs ys where l: "pending st = xs @ (s, p) # ys" by blast
  with ok have n: "s \<notin> fst ` set xs" by (auto simp: oauth_ok_def)
  have "AList.update s q (xs @ (s, p) # ys) = xs @ (s, q) # ys" for q using n by (induction xs) auto
  with ok show ?thesis unfolding oauth_ok_def l by (auto simp: image_iff)
qed

lemma finish_cases:
  assumes "finish_authorization post cfg verifier s k now st = (r, st')" "map_of (pending st) s = Some p"
  shows "st' = close_authorization s k st
    \<or> (\<exists>c g. pa_answer p = Granted c \<and> st' = (close_authorization s k st)\<lparr>grants := g, exchanged := (s, k, c) # exchanged st\<rparr>)"
proof (cases "pa_answer p")
  case (Granted c)
  have shape: "close_authorization s k (st\<lparr>exchanged := (s, k, c) # exchanged st\<rparr>)
      = (close_authorization s k st)\<lparr>grants := grants st, exchanged := (s, k, c) # exchanged st\<rparr>"
    "close_authorization s k (st\<lparr>exchanged := (s, k, c) # exchanged st, grants := g\<rparr>)
      = (close_authorization s k st)\<lparr>grants := g, exchanged := (s, k, c) # exchanged st\<rparr>" for g
    by (simp_all add: close_authorization_def)
  from assms Granted have "\<exists>g. st' = (close_authorization s k st)\<lparr>grants := g, exchanged := (s, k, c) # exchanged st\<rparr>"
    by (auto simp: finish_authorization_def Let_def save_token_def shape split: if_splits option.splits json.splits sum.splits prod.splits)
  with Granted show ?thesis by blast
qed (use assms in \<open>auto simp: finish_authorization_def\<close>)

lemma access_token_cases:
  assumes "access_token I post cfg interactive fresh challenge now clock user st = (r, st')"
  shows "(\<exists>g. st' = st\<lparr>grants := g\<rparr>)
    \<or> (\<exists>g service k. oauth_service (server_url cfg) = Inr service \<and> k = token_key I service user \<and> length (pending st) < 128
         \<and> st' = st\<lparr>grants := g, pending := AList.update fresh \<lparr>pa_key = k, pa_created = clock, pa_answer = Awaited\<rparr> (pending st),
                   held := k # held st, issued := (fresh, k) # issued st\<rparr>)"
proof (cases "oauth_service (server_url cfg)")
  case (Inl e)
  with assms have "st' = st\<lparr>grants := grants st\<rparr>" by (simp add: access_token_def)
  then show ?thesis by blast
next
  case (Inr service)
  obtain x st1 where x: "stored_access post cfg now (token_key I service user) st = (x, st1)" by force
  from stored_access_grants [OF x] obtain g where g: "st1 = st\<lparr>grants := g\<rparr>" by blast
  show ?thesis
  proof (cases "st' = st1")
    case True
    with g show ?thesis by blast
  next
    case False
    with assms Inr x g show ?thesis
      by (intro disjI2 exI [of _ g] exI [of _ service] exI [of _ "token_key I service user"])
        (auto simp: access_token_def split: sum.splits option.splits if_splits)
  qed
qed

lemma oauth_step_ok:
  assumes "oauth_step I st st'" "oauth_ok st"
  shows "oauth_ok st'"
  using assms(1)
proof cases
  case (oa_access post cfg interactive fresh challenge now clock user r)
  from access_token_cases [OF oa_access(1)] show ?thesis
  proof (elim disjE exE conjE)
    fix g service k
    assume k: "oauth_service (server_url cfg) = Inr service" "k = token_key I service user" "length (pending st) < 128"
      and st': "st' = st\<lparr>grants := g, pending := AList.update fresh \<lparr>pa_key = k, pa_created = clock, pa_answer = Awaited\<rparr> (pending st),
                   held := k # held st, issued := (fresh, k) # issued st\<rparr>"
    have "k \<notin> set (held st)" using oa_access(3) k(1,2) by blast
    from open_authorization_ok [OF _ oa_access(2) this k(3), of "\<lparr>pa_key = k, pa_created = clock, pa_answer = Awaited\<rparr>"] assms(2)
    show ?thesis by (simp add: st' oauth_ok_def)
  qed (use assms(2) in simp)
next
  case (oa_callback s c e clock r)
  from callback_cases [OF oa_callback] answer_ok [OF assms(2)] assms(2) show ?thesis by auto
next
  case (oa_finish s p post cfg verifier now r)
  note closed = close_authorization_ok [OF assms(2) oa_finish(1)]
  from finish_cases [OF oa_finish(2,1)] show ?thesis
  proof (elim disjE exE conjE)
    fix c g
    assume st': "st' = (close_authorization s (pa_key p) st)\<lparr>grants := g, exchanged := (s, pa_key p, c) # exchanged st\<rparr>"
    have "(s, pa_key p) \<in> set (issued st)" "s \<notin> fst ` set (exchanged st)"
      using assms(2) map_of_SomeD [OF oa_finish(1)] by (force simp: oauth_ok_def)+
    with closed st' show ?thesis by (auto simp: oauth_ok_def close_authorization_def)
  qed (use closed in simp)
next
  case (oa_invalidate user cfg rejected r)
  with assms(2) show ?thesis by (auto simp: invalidate_access_def Let_def split: sum.splits option.splits if_splits)
next
  case (oa_reset service user r)
  with assms(2) show ?thesis by (auto simp: reset_grant_def Let_def split: if_splits)
qed

interpretation authorizations: invariant_system oauth_started "oauth_step I" oauth_ok for I
proof
  show "oauth_ok st" if "oauth_started st" for st using that by (simp add: oauth_ok_def oauth_started_def)
  show "oauth_ok st'" if "oauth_ok st" "oauth_step I st st'" for st st' using oauth_step_ok that by blast
qed

section \<open>Properties\<close>


definition sample_identifiers :: identifiers where
  "sample_identifiers = \<lparr>sha256_hex = id, toolkit_uuid = id\<rparr>"

definition sample_oauth_config :: oauth_config where
  "sample_oauth_config = \<lparr>server_url = ''https://gmailmcp.googleapis.com/mcp'', client_id = ''i'', client_secret = ''x'',
     redirect_uri = ''u'', oauth_scopes = []\<rparr>"

definition sample_grant :: grant where
  "sample_grant = \<lparr>gr_access = ''old'', gr_refresh = JStr ''r'', gr_scope = JStr [], gr_expires = Finite 0 []\<rparr>"

definition sample_oauth :: oauth_state where
  "sample_oauth = \<lparr>grants = (\<lambda>_. Some (Version2 sample_grant)), pending = [], held = [], issued = [], exchanged = []\<rparr>"

definition sample_token_endpoint :: token_endpoint where
  "sample_token_endpoint _ = \<lparr>an_success = True, an_status = 200, an_json = Some (JObj [(''access_token'', JStr ''new'')])\<rparr>"

definition refreshed :: "string option result \<times> oauth_state" where
  "refreshed = stored_access sample_token_endpoint sample_oauth_config 5 ''k'' sample_oauth"


text \<open>C33. An authorization is used once. In every order of accesses, callbacks, timeouts, invalidations and resets, a
  code is exchanged at most once per state, for the key for which the state was handed out, and the state is gone
  then; a callback is accepted at most once per state; at most 128 authorizations wait; and the grant of a key
  cannot be reset while an authorization for it is waiting.\<close>

theorem authorization_used_once:
  assumes "reach oauth_started (oauth_step I) st"
  shows "distinct (map fst (exchanged st)) \<and> distinct (map fst (issued st)) \<and> length (pending st) \<le> 128
    \<and> (\<forall>s k c. (s, k, c) \<in> set (exchanged st) \<longrightarrow> (s, k) \<in> set (issued st) \<and> map_of (pending st) s = None)
    \<and> (\<forall>s c e clock st'. callback s c e clock st = (Inr (), st') \<longrightarrow> (\<forall>c' e' clock'. \<not> is_ok (fst (callback s c' e' clock' st'))))
    \<and> (\<forall>s p service user. (s, p) \<in> set (pending st) \<longrightarrow> pa_key p = token_key I service user \<longrightarrow>
         \<not> is_ok (fst (reset_grant I service user st)) \<and> snd (reset_grant I service user st) = st)"
proof -
  from authorizations.reach_inv [OF assms] have ok: "oauth_ok st" .
  then have o: "distinct (map fst (exchanged st))" "distinct (map fst (issued st))" "length (pending st) \<le> 128"
    "set (held st) = (pa_key \<circ> snd) ` set (pending st)"
    and e: "\<forall>(s, k, c) \<in> set (exchanged st). (s, k) \<in> set (issued st) \<and> s \<notin> fst ` set (pending st)"
    unfolding oauth_ok_def by simp_all
  have cb: "\<not> is_ok (fst (callback s c' e' clock' st'))" if "callback s c e clock st = (Inr (), st')" for s c e clock st' c' e' clock'
  proof -
    from callback_cases [OF that] obtain p a where "a \<noteq> Awaited" "st' = st\<lparr>pending := AList.update s (p\<lparr>pa_answer := a\<rparr>) (pending st)\<rparr>"
      by auto
    then show ?thesis by (simp add: callback_def AList.update_conv')
  qed
  have rs: "\<not> is_ok (fst (reset_grant I service user st)) \<and> snd (reset_grant I service user st) = st"
    if "(s, p) \<in> set (pending st)" "pa_key p = token_key I service user" for s p service user
  proof -
    from that have "token_key I service user \<in> (pa_key \<circ> snd) ` set (pending st)" by force
    then have "token_key I service user \<in> set (held st)" unfolding o(4) .
    then show ?thesis by (simp add: reset_grant_def Let_def)
  qed
  have ex: "(s, k) \<in> set (issued st) \<and> map_of (pending st) s = None" if "(s, k, c) \<in> set (exchanged st)" for s k c
    using e that unfolding map_of_eq_None_iff by blast
  show ?thesis by (intro conjI o(1-3)) ((use ex in blast), (use cb in blast), (use rs in blast))
qed

definition sample_nobody :: oauth_state where
  "sample_nobody = \<lparr>grants = (\<lambda>_. None), pending = [], held = [], issued = [], exchanged = []\<rparr>"

definition asked :: "access_result \<times> oauth_state" where
  "asked = access_token sample_identifiers sample_token_endpoint sample_oauth_config True ''s'' ''h'' 0 0 ''ann'' sample_nobody"

theorem authorization_used_once_witness:
  "\<exists>st'. callback ''s'' (Some ''c'') None 10 (snd asked) = (Inr (), st') \<and> \<not> is_ok (fst (callback ''s'' (Some ''d'') None 11 st'))"
proof -
  have start: "reach oauth_started (oauth_step sample_identifiers) sample_nobody"
    by (rule reach_start) (simp add: oauth_started_def sample_nobody_def)
  have "access_token sample_identifiers sample_token_endpoint sample_oauth_config True ''s'' ''h'' 0 0 ''ann'' sample_nobody
      = (fst asked, snd asked)" by (simp add: asked_def)
  then have "oauth_step sample_identifiers sample_nobody (snd asked)"
    by (rule oa_access) (simp_all add: sample_nobody_def)
  note once = authorization_used_once [OF reach_next [OF start this]]
  have "fst (callback ''s'' (Some ''c'') None 10 (snd asked)) = Inr ()" by code_simp
  then have c: "callback ''s'' (Some ''c'') None 10 (snd asked) = (Inr (), snd (callback ''s'' (Some ''c'') None 10 (snd asked)))"
    by (metis prod.collapse)
  with once show ?thesis by blast
qed

end
