(* ===== verification/Memory_Fence.thy ===== *)
theory Memory_Fence
  imports Memory_Context Interfaces
begin

text \<open>
  The cached session brief and its removal when a user clears memory
  (\<open>_session_brief\<close> and \<open>clear_user_memory_caches\<close> of \<open>nat_helpers/hindsight_memory_context.py\<close>,
  \<open>clear_user_memory\<close> of \<open>nat_helpers/memory_lifecycle.py\<close>), as steps of any number of requests and
  clears that interleave.

  \<^item> Redis is a map from keys to values; the scripts run atomically. Expiry removes any key that was
    written with a time to live.
  \<^item> A scan returns every key that was present from its start to its end (the guarantee of \<open>SCAN\<close>); it may
    return others with the prefix. The digests in the keys are hexadecimal, so the pattern is a prefix.
  \<^item> Random tokens (\<open>secrets.token_hex\<close>) never repeat.
  \<^item> A brief carries, as a ghost, how many times the durable memory of its user had been cleared when the
    memory service reflected on it.
\<close>

section \<open>Keys and values\<close>

datatype memory_value =
    Brief dict nat
  | Generation string
  | LockToken string
  | Initialised

type_synonym memory_redis = "string \<rightharpoonup> memory_value"

definition user_cache_id :: "memory_ids \<Rightarrow> string \<Rightarrow> string result" where
  "user_cache_id I user_id = bind_result (derive_bank_id I user_id) (\<lambda>bank. Inr (digest_parts I [bank]))"

definition session_prefix :: "string \<Rightarrow> string" where
  "session_prefix uc = ''daedalus:memory:session:v1:'' @ uc @ '':''"

definition lock_prefix :: "string \<Rightarrow> string" where
  "lock_prefix uc = ''daedalus:memory:session-lock:v1:'' @ uc @ '':''"

definition session_key :: "string \<Rightarrow> string \<Rightarrow> string" where
  "session_key uc cc = session_prefix uc @ cc"

definition lock_key :: "string \<Rightarrow> string \<Rightarrow> string" where
  "lock_key uc cc = lock_prefix uc @ cc"

definition generation_key :: "string \<Rightarrow> string" where
  "generation_key uc = ''daedalus:memory:generation:v1:'' @ uc"

definition bootstrap_key :: "string \<Rightarrow> string" where
  "bootstrap_key cache_id = ''daedalus:memory:bootstrap:'' @ cache_id"

section \<open>Commands and scripts\<close>

definition generation_of :: "memory_redis \<Rightarrow> string \<Rightarrow> string" where
  "generation_of db uc = (case db (generation_key uc) of Some (Generation t) \<Rightarrow> t | _ \<Rightarrow> [])"

definition cached_brief :: "memory_redis \<Rightarrow> string \<Rightarrow> (dict \<times> nat) option" where
  "cached_brief db k = (case db k of Some (Brief d e) \<Rightarrow> Some (d, e) | _ \<Rightarrow> None)"

definition cached_text :: "(dict \<times> nat) option \<Rightarrow> string" where
  "cached_text cached =
     (case cached of None \<Rightarrow> [] | Some (d, e) \<Rightarrow> py_str (py_or (dict_get d ''text'') (JStr [])))"

definition should_refresh :: "rat \<Rightarrow> (dict \<times> nat) option \<Rightarrow> bool result" where
  "should_refresh now cached =
     (let reflected_at = (case cached of None \<Rightarrow> JNull | Some (d, e) \<Rightarrow> dict_get d ''reflected_at'') in
      if \<not> truthy reflected_at then Inr True
      else bind_result (py_float (py_or reflected_at (JInt 0))) (\<lambda>t. Inr (float_le (Finite 600 ''600'') (float_sub now t))))"

definition set_nx :: "string \<Rightarrow> memory_value \<Rightarrow> memory_redis \<Rightarrow> bool \<times> memory_redis" where
  "set_nx k v db = (if db k = None then (True, db(k \<mapsto> v)) else (False, db))"

definition release_lock_script :: "string \<Rightarrow> string \<Rightarrow> memory_redis \<Rightarrow> memory_redis" where
  "release_lock_script k token db = (if db k = Some (LockToken token) then db(k := None) else db)"

definition store_brief_script ::
  "string \<Rightarrow> string \<Rightarrow> string \<Rightarrow> dict \<Rightarrow> nat \<Rightarrow> memory_redis \<Rightarrow> bool \<times> memory_redis" where
  "store_brief_script uc cache_key generation brief epoch db =
     (if generation_of db uc \<noteq> generation then (False, db) else (True, db(cache_key \<mapsto> Brief brief epoch)))"

text \<open>The record of a reflection; \<open>clock_text\<close> prints the time.\<close>

definition brief_record :: "string \<Rightarrow> rat \<Rightarrow> string \<Rightarrow> dict" where
  "brief_record bounded_text now clock_text =
     [(''text'', JStr bounded_text), (''reflected_at'', JFloat (Finite now clock_text))]"

section \<open>Requests and clears\<close>

text \<open>A request for a brief; \<open>seen\<close> is a ghost: the clears of this user that were finished when it started.\<close>

record brief_task =
  t_user :: string
  t_conversation :: string
  t_query :: string
  seen :: "nat set"

datatype reader =
    Idle
  | Reading brief_task
  | Deciding brief_task "(dict \<times> nat) option"
  | Fencing brief_task "(dict \<times> nat) option" rat
  | Locking brief_task "(dict \<times> nat) option" rat string
  | Reflecting brief_task "(dict \<times> nat) option" rat string string
  | Storing brief_task "(dict \<times> nat) option" rat string string string nat
  | Releasing brief_task string string "nat option"
  | Returned brief_task string "nat option"

datatype clearer =
    NotStarted
  | Listed string "string list"
  | Cleared string nat "string list"
  | Fenced string nat "string set"
  | Scanned string nat "string set"
  | Removed string nat
  | Acknowledged string nat
  | Aborted

record fence_state =
  redis_db :: memory_redis
  epochs :: "string \<Rightarrow> nat"
  tokens :: "string set"
  readers :: "nat \<Rightarrow> reader"
  clearers :: "nat \<Rightarrow> clearer"

definition acknowledged :: "fence_state \<Rightarrow> string \<Rightarrow> nat set" where
  "acknowledged s uc = {e. \<exists>c. clearers s c = Acknowledged uc e}"

definition goes :: "nat \<Rightarrow> reader \<Rightarrow> fence_state \<Rightarrow> fence_state" where
  "goes r x s = s\<lparr>readers := (readers s)(r := x)\<rparr>"

definition clears :: "nat \<Rightarrow> clearer \<Rightarrow> fence_state \<Rightarrow> fence_state" where
  "clears c x s = s\<lparr>clearers := (clearers s)(c := x)\<rparr>"

text \<open>Keys disappear: they are no longer among those that a running scan is bound to return.\<close>

fun forget :: "string set \<Rightarrow> clearer \<Rightarrow> clearer" where
  "forget K (Fenced uc e P) = Fenced uc e (P - K)"
| "forget K x = x"

definition remove_keys :: "string set \<Rightarrow> fence_state \<Rightarrow> fence_state" where
  "remove_keys K s = s\<lparr>redis_db := (\<lambda>k. if k \<in> K then None else redis_db s k), clearers := forget K \<circ> clearers s\<rparr>"

definition start_reader :: "memory_ids \<Rightarrow> string \<Rightarrow> string \<Rightarrow> string \<Rightarrow> fence_state \<Rightarrow> reader" where
  "start_reader I user_id conversation_id q s =
     (case user_cache_id I user_id of
        Inl e \<Rightarrow> Idle
      | Inr uc \<Rightarrow>
          if conversation_id = [] then Idle
          else Reading \<lparr>t_user = uc, t_conversation = digest_parts I [conversation_id], t_query = q, seen = acknowledged s uc\<rparr>)"

definition give_cached :: "brief_task \<Rightarrow> (dict \<times> nat) option \<Rightarrow> reader" where
  "give_cached t cached = Returned t (cached_text cached) (map_option snd cached)"

definition decide :: "brief_task \<Rightarrow> (dict \<times> nat) option \<Rightarrow> rat \<Rightarrow> reader" where
  "decide t cached now =
     (if \<not> synthesis_query (t_query t) then give_cached t cached
      else case should_refresh now cached of
             Inr True \<Rightarrow> Fencing t cached now
           | _ \<Rightarrow> give_cached t cached)"

definition try_lock :: "brief_task \<Rightarrow> (dict \<times> nat) option \<Rightarrow> rat \<Rightarrow> string \<Rightarrow> string \<Rightarrow> memory_redis \<Rightarrow> reader \<times> memory_redis" where
  "try_lock t cached now generation token db =
     (case set_nx (lock_key (t_user t) (t_conversation t)) (LockToken token) db of
        (True, db') \<Rightarrow> (Reflecting t cached now generation token, db')
      | (False, db') \<Rightarrow> (give_cached t cached, db'))"

definition store_brief ::
  "brief_task \<Rightarrow> rat \<Rightarrow> string \<Rightarrow> string \<Rightarrow> string \<Rightarrow> string \<Rightarrow> nat \<Rightarrow> memory_redis \<Rightarrow> reader \<times> memory_redis" where
  "store_brief t now clock_text generation token answer epoch db =
     (case store_brief_script (t_user t) (session_key (t_user t) (t_conversation t)) generation
             (brief_record (take 2400 answer) now clock_text) epoch db of
        (True, db') \<Rightarrow> (Releasing t token (take 2400 answer) (Some epoch), db')
      | (False, db') \<Rightarrow> (Releasing t token [] None, db'))"

text \<open>The keys that a clear deletes: the bootstrap record and what its scans returned.\<close>

definition clear_keys :: "string \<Rightarrow> string \<Rightarrow> string set \<Rightarrow> bool" where
  "clear_keys cache_id uc K \<longleftrightarrow>
     (\<forall>k \<in> K. k = bootstrap_key cache_id \<or> starts_with (session_prefix uc) k \<or> starts_with (lock_prefix uc) k)"

inductive brief_step :: "memory_ids \<Rightarrow> fence_state \<Rightarrow> fence_state \<Rightarrow> bool" for I where
  start: "readers s r = Idle \<Longrightarrow> brief_step I s (goes r (start_reader I user_id conversation_id q s) s)"
| read: "readers s r = Reading t \<Longrightarrow>
     brief_step I s (goes r (Deciding t (cached_brief (redis_db s) (session_key (t_user t) (t_conversation t)))) s)"
| choose: "readers s r = Deciding t cached \<Longrightarrow> brief_step I s (goes r (decide t cached now) s)"
| fence_read: "readers s r = Fencing t cached now \<Longrightarrow>
     brief_step I s (goes r (Locking t cached now (generation_of (redis_db s) (t_user t))) s)"
| lock: "readers s r = Locking t cached now generation \<Longrightarrow> token \<notin> tokens s \<Longrightarrow>
     try_lock t cached now generation token (redis_db s) = (x, db') \<Longrightarrow>
     brief_step I s (goes r x (s\<lparr>redis_db := db', tokens := insert token (tokens s)\<rparr>))"
| reflects: "readers s r = Reflecting t cached now generation token \<Longrightarrow>
     brief_step I s (goes r (Storing t cached now generation token answer (epochs s (t_user t))) s)"
| store: "readers s r = Storing t cached now generation token answer epoch \<Longrightarrow>
     store_brief t now clock_text generation token answer epoch (redis_db s) = (x, db') \<Longrightarrow>
     brief_step I s (goes r x (s\<lparr>redis_db := db'\<rparr>))"
| store_unanswered: "readers s r = Storing t cached now generation token answer epoch \<Longrightarrow>
     store_brief t now clock_text generation token answer epoch (redis_db s) = (x, db') \<Longrightarrow>
     brief_step I s (goes r (Releasing t token (cached_text cached) (map_option snd cached)) (s\<lparr>redis_db := db'\<rparr>))"
| release: "readers s r = Releasing t token answer epoch \<Longrightarrow>
     brief_step I s (goes r (Returned t answer epoch)
       (remove_keys {k. k = lock_key (t_user t) (t_conversation t) \<and> redis_db s k = Some (LockToken token)} s))"
| release_fails: "readers s r = Releasing t token answer epoch \<Longrightarrow> brief_step I s (goes r (Returned t answer epoch) s)"
| read_fails: "readers s r = Reading t \<Longrightarrow> brief_step I s (goes r (Returned t [] None) s)"
| late_failure: "readers s r \<in> {Deciding t cached, Fencing t cached now, Locking t cached now generation} \<Longrightarrow>
     brief_step I s (goes r (give_cached t cached) s)"
| reflect_fails: "readers s r \<in> {Reflecting t cached now generation token, Storing t cached now generation token answer epoch} \<Longrightarrow>
     brief_step I s (goes r (Releasing t token (cached_text cached) (map_option snd cached)) s)"

text \<open>Steps of a clear, of expiry and of a bootstrap that is recorded.\<close>

inductive wipe_step :: "memory_ids \<Rightarrow> fence_state \<Rightarrow> fence_state \<Rightarrow> bool" for I where
  expires: "\<forall>uc. k \<noteq> generation_key uc \<Longrightarrow> wipe_step I s (remove_keys {k} s)"
| list_tree: "clearers s c = NotStarted \<Longrightarrow> user_cache_id I user_id = Inr uc \<Longrightarrow>
     wipe_step I s (clears c (Listed uc nodes) s)"
| clear_durable: "clearers s c = Listed uc nodes \<Longrightarrow>
     wipe_step I s (clears c (Cleared uc (Suc (epochs s uc)) nodes) (s\<lparr>epochs := (epochs s)(uc := Suc (epochs s uc))\<rparr>))"
| delete_node: "clearers s c = Cleared uc e (node # nodes) \<Longrightarrow> wipe_step I s (clears c (Cleared uc e nodes) s)"
| new_generation: "clearers s c = Cleared uc e [] \<Longrightarrow> token \<notin> tokens s \<Longrightarrow>
     wipe_step I s (clears c (Fenced uc e {k. starts_with (session_prefix uc) k \<and> redis_db s k \<noteq> None})
       (s\<lparr>redis_db := (redis_db s)(generation_key uc \<mapsto> Generation token), tokens := insert token (tokens s)\<rparr>))"
| scan_keys: "clearers s c = Fenced uc e P \<Longrightarrow> P \<subseteq> K \<Longrightarrow> clear_keys cache_id uc K \<Longrightarrow>
     wipe_step I s (clears c (Scanned uc e K) s)"
| delete_keys: "clearers s c = Scanned uc e K \<Longrightarrow> wipe_step I s (clears c (Removed uc e) (remove_keys K s))"
| acknowledge: "clearers s c = Removed uc e \<Longrightarrow> wipe_step I s (clears c (Acknowledged uc e) s)"
| bootstrap_recorded: "wipe_step I s (s\<lparr>redis_db := (redis_db s)(bootstrap_key cache_id \<mapsto> Initialised)\<rparr>)"
| abort: "clearers s c \<noteq> NotStarted \<Longrightarrow> (\<forall>uc e. clearers s c \<noteq> Acknowledged uc e) \<Longrightarrow>
     wipe_step I s (clears c Aborted s)"

definition fence_step :: "memory_ids \<Rightarrow> fence_state \<Rightarrow> fence_state \<Rightarrow> bool" where
  "fence_step I s s' \<longleftrightarrow> brief_step I s s' \<or> wipe_step I s s'"

definition fence_init :: "fence_state \<Rightarrow> bool" where
  "fence_init s \<longleftrightarrow> redis_db s = (\<lambda>_. None) \<and> [] \<in> tokens s \<and> (\<forall>r. readers s r = Idle) \<and> (\<forall>c. clearers s c = NotStarted)"

section \<open>Facts about the keys\<close>

definition digest_law :: "memory_ids \<Rightarrow> bool" where
  "digest_law I \<longleftrightarrow> (\<forall>x. CHR '':'' \<notin> set (sha256 I x))"

abbreviation colon_free :: "string \<Rightarrow> bool" where
  "colon_free s \<equiv> CHR '':'' \<notin> set s"

lemma digest_colon_free: "digest_law I \<Longrightarrow> user_cache_id I u = Inr uc \<Longrightarrow> colon_free uc"
  by (auto simp: user_cache_id_def bind_result_Inr digest_parts_def digest_law_def)

lemma split_colon: "colon_free a \<Longrightarrow> colon_free b \<Longrightarrow> a @ '':'' @ x = b @ '':'' @ y \<Longrightarrow> a = b \<and> x = y"
proof (induction a arbitrary: b)
  case Nil
  then show ?case by (cases b) auto
next
  case (Cons c a)
  then show ?case by (cases b) auto
qed

lemma session_key_inject:
  "colon_free a \<Longrightarrow> colon_free b \<Longrightarrow> session_key a x = session_key b y \<longleftrightarrow> a = b \<and> x = y"
  using split_colon [of a b x y] by (auto simp: session_key_def session_prefix_def)

lemma keys_differ [simp]:
  "session_key a x \<noteq> generation_key b" "generation_key b \<noteq> session_key a x"
  "session_key a x \<noteq> lock_key b y" "lock_key b y \<noteq> session_key a x"
  "generation_key a \<noteq> lock_key b y" "lock_key b y \<noteq> generation_key a"
  "generation_key a \<noteq> bootstrap_key b" "session_key a x \<noteq> bootstrap_key b"
  "generation_key a = generation_key b \<longleftrightarrow> a = b"
  "starts_with (session_prefix a) (session_key a x)"
  "\<not> starts_with (session_prefix a) (generation_key b)" "\<not> starts_with (lock_prefix a) (generation_key b)"
  by (simp_all add: session_key_def session_prefix_def generation_key_def lock_key_def lock_prefix_def bootstrap_key_def
      starts_with_iff)

section \<open>The invariant\<close>

fun durable :: "clearer \<Rightarrow> (string \<times> nat) option" where
  "durable (Cleared uc e nodes) = Some (uc, e)"
| "durable (Fenced uc e P) = Some (uc, e)"
| "durable (Scanned uc e K) = Some (uc, e)"
| "durable (Removed uc e) = Some (uc, e)"
| "durable (Acknowledged uc e) = Some (uc, e)"
| "durable _ = None"

text \<open>The clears of a user that have replaced the generation.\<close>

fun past_fence :: "clearer \<Rightarrow> string \<Rightarrow> nat \<Rightarrow> bool" where
  "past_fence (Fenced uc e P) u k = (uc = u \<and> e = k)"
| "past_fence (Scanned uc e K) u k = (uc = u \<and> e = k)"
| "past_fence (Removed uc e) u k = (uc = u \<and> e = k)"
| "past_fence (Acknowledged uc e) u k = (uc = u \<and> e = k)"
| "past_fence _ u k = False"

definition fenced :: "fence_state \<Rightarrow> string \<Rightarrow> nat set" where
  "fenced s uc = {e. \<exists>c. past_fence (clearers s c) uc e}"

text \<open>A brief of epoch \<open>k\<close> under a key is newer than the clear, or the clear is going to delete the key.\<close>

fun covered :: "clearer \<Rightarrow> string \<Rightarrow> nat \<Rightarrow> bool" where
  "covered (Fenced uc e P) key k = (e \<le> k \<or> key \<in> P)"
| "covered (Scanned uc e K) key k = (e \<le> k \<or> key \<in> K)"
| "covered (Removed uc e) key k = (e \<le> k)"
| "covered (Acknowledged uc e) key k = (e \<le> k)"
| "covered _ key k = True"

fun user_of :: "clearer \<Rightarrow> string option" where
  "user_of (Listed uc nodes) = Some uc"
| "user_of x = map_option fst (durable x)"

definition spares_generations :: "string set \<Rightarrow> bool" where
  "spares_generations K \<longleftrightarrow> (\<forall>uc. generation_key uc \<notin> K)"

fun plan_ok :: "clearer \<Rightarrow> bool" where
  "plan_ok (Scanned uc e K) = spares_generations K"
| "plan_ok x = True"

definition clearer_ok :: "fence_state \<Rightarrow> clearer \<Rightarrow> bool" where
  "clearer_ok s x \<longleftrightarrow> plan_ok x \<and>
     (\<forall>uc. user_of x = Some uc \<longrightarrow> colon_free uc
        \<and> (\<forall>cc d k. redis_db s (session_key uc cc) = Some (Brief d k) \<longrightarrow> covered x (session_key uc cc) k))
     \<and> (\<forall>uc e. durable x = Some (uc, e) \<longrightarrow> e \<le> epochs s uc)"

definition task_ok :: "fence_state \<Rightarrow> brief_task \<Rightarrow> bool" where
  "task_ok s t \<longleftrightarrow> colon_free (t_user t) \<and> seen t \<subseteq> acknowledged s (t_user t)"

definition recent :: "brief_task \<Rightarrow> nat option \<Rightarrow> bool" where
  "recent t k \<longleftrightarrow> (\<forall>n. k = Some n \<longrightarrow> (\<forall>e \<in> seen t. e \<le> n))"

definition answer_ok :: "brief_task \<Rightarrow> string \<Rightarrow> nat option \<Rightarrow> bool" where
  "answer_ok t answer k \<longleftrightarrow> recent t k \<and> (k = None \<longrightarrow> answer = [])"

definition store_ok :: "fence_state \<Rightarrow> string \<Rightarrow> string \<Rightarrow> nat \<Rightarrow> bool" where
  "store_ok s uc generation k \<longleftrightarrow> (generation_of (redis_db s) uc = generation \<longrightarrow> (\<forall>e \<in> fenced s uc. e \<le> k))"

fun reader_ok :: "fence_state \<Rightarrow> reader \<Rightarrow> bool" where
  "reader_ok s Idle = True"
| "reader_ok s (Reading t) = task_ok s t"
| "reader_ok s (Deciding t c) = (task_ok s t \<and> recent t (map_option snd c))"
| "reader_ok s (Fencing t c now) = (task_ok s t \<and> recent t (map_option snd c))"
| "reader_ok s (Locking t c now g) = (task_ok s t \<and> recent t (map_option snd c) \<and> g \<in> tokens s)"
| "reader_ok s (Reflecting t c now g token) = (task_ok s t \<and> recent t (map_option snd c) \<and> g \<in> tokens s)"
| "reader_ok s (Storing t c now g token answer k) =
     (task_ok s t \<and> recent t (map_option snd c) \<and> g \<in> tokens s \<and> recent t (Some k) \<and> store_ok s (t_user t) g k)"
| "reader_ok s (Releasing t token answer k) = (task_ok s t \<and> answer_ok t answer k)"
| "reader_ok s (Returned t answer k) = (task_ok s t \<and> answer_ok t answer k)"

definition tokens_ok :: "fence_state \<Rightarrow> bool" where
  "tokens_ok s \<longleftrightarrow> [] \<in> tokens s \<and> (\<forall>uc. generation_of (redis_db s) uc \<in> tokens s)"

definition fence_inv :: "fence_state \<Rightarrow> bool" where
  "fence_inv s \<longleftrightarrow> tokens_ok s \<and> (\<forall>r. reader_ok s (readers s r)) \<and> (\<forall>c. clearer_ok s (clearers s c))"

lemma acknowledged_fenced: "acknowledged s uc \<subseteq> fenced s uc"
proof
  fix e
  assume "e \<in> acknowledged s uc"
  then obtain c where "clearers s c = Acknowledged uc e" by (auto simp: acknowledged_def)
  then have "past_fence (clearers s c) uc e" by simp
  then show "e \<in> fenced s uc" by (auto simp: fenced_def)
qed

lemma past_fence_durable: "past_fence x uc e \<Longrightarrow> durable x = Some (uc, e)"
  by (cases x) auto

lemma fenced_epochs: "fence_inv s \<Longrightarrow> e \<in> fenced s uc \<Longrightarrow> e \<le> epochs s uc"
  using past_fence_durable by (fastforce simp: fenced_def fence_inv_def clearer_ok_def)

section \<open>Steps of a request\<close>

lemma goes_simps [simp]:
  "redis_db (goes r x s) = redis_db s" "epochs (goes r x s) = epochs s" "tokens (goes r x s) = tokens s"
  "clearers (goes r x s) = clearers s" "readers (goes r x s) = (readers s)(r := x)"
  by (simp_all add: goes_def)

lemma same_clearers:
  "clearers s' = clearers s \<Longrightarrow> acknowledged s' = acknowledged s \<and> fenced s' = fenced s"
  by (simp add: acknowledged_def fenced_def fun_eq_iff)

text \<open>What a state keeps of a request: tokens and acknowledged clears only grow, and a generation that is in use
  never comes back after a newer clear.\<close>

definition reader_keeps :: "fence_state \<Rightarrow> fence_state \<Rightarrow> bool" where
  "reader_keeps s s' \<longleftrightarrow> tokens s \<subseteq> tokens s' \<and> (\<forall>uc. acknowledged s uc \<subseteq> acknowledged s' uc)
     \<and> (\<forall>uc. generation_of (redis_db s') uc \<in> tokens s \<longrightarrow>
          generation_of (redis_db s) uc = generation_of (redis_db s') uc \<and> fenced s' uc \<subseteq> fenced s uc)"

lemma reader_ok_mono: "reader_ok s x \<Longrightarrow> reader_keeps s s' \<Longrightarrow> reader_ok s' x"
  by (cases x) (auto simp: reader_keeps_def task_ok_def store_ok_def subset_iff)

definition clearer_keeps :: "fence_state \<Rightarrow> fence_state \<Rightarrow> bool" where
  "clearer_keeps s s' \<longleftrightarrow> (\<forall>uc. epochs s uc \<le> epochs s' uc)
     \<and> (\<forall>uc cc d k. colon_free uc \<longrightarrow> redis_db s' (session_key uc cc) = Some (Brief d k) \<longrightarrow>
          redis_db s (session_key uc cc) = Some (Brief d k) \<or> (\<forall>e \<in> fenced s uc. e \<le> k))"

lemma covered_recent: "past_fence x uc e \<and> e \<le> k \<or> (\<forall>e. \<not> past_fence x uc e) \<Longrightarrow> user_of x = Some uc \<Longrightarrow> covered x key k"
  by (cases x) auto

lemma clearer_ok_mono:
  assumes "clearer_ok s (clearers s c)" "clearer_keeps s s'"
  shows "clearer_ok s' (clearers s c)"
  unfolding clearer_ok_def
proof (intro conjI allI impI)
  show "plan_ok (clearers s c)" using assms(1) by (simp add: clearer_ok_def)
next
  fix uc
  assume u: "user_of (clearers s c) = Some uc"
  with assms(1) show cf: "colon_free uc" by (simp add: clearer_ok_def)
  fix cc d k
  assume "redis_db s' (session_key uc cc) = Some (Brief d k)"
  with assms(2) cf consider "redis_db s (session_key uc cc) = Some (Brief d k)" | "\<forall>e \<in> fenced s uc. e \<le> k"
    unfolding clearer_keeps_def by blast
  then show "covered (clearers s c) (session_key uc cc) k"
  proof cases
    case 1
    with assms(1) u show ?thesis by (simp add: clearer_ok_def)
  next
    case 2
    then have "past_fence (clearers s c) uc e \<Longrightarrow> e \<le> k" for e by (auto simp: fenced_def)
    with u show ?thesis using covered_recent by blast
  qed
next
  fix uc e
  assume "durable (clearers s c) = Some (uc, e)"
  with assms show "e \<le> epochs s' uc" unfolding clearer_ok_def clearer_keeps_def using le_trans by blast
qed

text \<open>A step of a request that keeps the clears.\<close>

lemma reader_step:
  assumes "fence_inv s" and "clearers s' = clearers s" and "readers s' = readers s" and "reader_keeps s s'" and "clearer_keeps s s'"
    and "tokens_ok s'" and "reader_ok s' x"
  shows "fence_inv (goes r x s')"
proof -
  have same: "reader_ok (goes r x s') y = reader_ok s' y" "clearer_ok (goes r x s') z = clearer_ok s' z" for y z
    using same_clearers [of "goes r x s'" s']
    by (cases y; simp add: task_ok_def store_ok_def clearer_ok_def)+
  have "\<forall>q. reader_ok s' (readers s q)" using assms(1,4) reader_ok_mono unfolding fence_inv_def by blast
  moreover have "\<forall>c. clearer_ok s' (clearers s c)" using assms(1,5) clearer_ok_mono unfolding fence_inv_def by blast
  ultimately show ?thesis
    using assms(2,3,6,7) by (simp add: fence_inv_def same) (simp add: tokens_ok_def)
qed

lemma keeps_refl: "reader_keeps s s" "clearer_keeps s s"
  by (simp_all add: reader_keeps_def clearer_keeps_def)

lemma plain_step: "fence_inv s \<Longrightarrow> reader_ok s x \<Longrightarrow> fence_inv (goes r x s)"
  using reader_step [OF _ refl refl keeps_refl] by (simp add: fence_inv_def)

lemma cached_recent:
  assumes "fence_inv s" and "task_ok s t"
  shows "recent t (map_option snd (cached_brief (redis_db s) (session_key (t_user t) (t_conversation t))))"
proof (cases "redis_db s (session_key (t_user t) (t_conversation t))")
  case (Some v)
  show ?thesis
  proof (cases v)
    case (Brief d k)
    have "e \<le> k" if "e \<in> seen t" for e
    proof -
      from assms(2) that obtain c where c: "clearers s c = Acknowledged (t_user t) e"
        by (auto simp: task_ok_def acknowledged_def)
      with assms(1) have "clearer_ok s (Acknowledged (t_user t) e)" unfolding fence_inv_def by metis
      with Some Brief show ?thesis by (simp add: clearer_ok_def)
    qed
    with Some Brief show ?thesis by (simp add: cached_brief_def recent_def)
  qed (use Some in \<open>simp_all add: cached_brief_def recent_def\<close>)
qed (simp add: cached_brief_def recent_def)

lemma give_cached_ok: "task_ok s t \<Longrightarrow> recent t (map_option snd c) \<Longrightarrow> reader_ok s (give_cached t c)"
  by (auto simp: give_cached_def answer_ok_def cached_text_def)

lemma decide_ok: "task_ok s t \<Longrightarrow> recent t (map_option snd c) \<Longrightarrow> reader_ok s (decide t c now)"
  by (auto simp: decide_def give_cached_ok split: sum.split bool.split)

lemma start_ok: "digest_law I \<Longrightarrow> reader_ok s (start_reader I u cid q s)"
  by (auto simp: start_reader_def task_ok_def digest_colon_free split: sum.split)

text \<open>A write to the key of a lock or to the key of the user's own brief.\<close>

lemma lock_write:
  assumes "fence_inv s" and "db' = redis_db s \<or> (\<exists>uc cc token. db' = (redis_db s)(lock_key uc cc \<mapsto> LockToken token))"
  shows "reader_keeps s (s\<lparr>redis_db := db', tokens := insert token (tokens s)\<rparr>)"
    "clearer_keeps s (s\<lparr>redis_db := db', tokens := insert token (tokens s)\<rparr>)"
    "tokens_ok (s\<lparr>redis_db := db', tokens := insert token (tokens s)\<rparr>)"
proof -
  have "generation_of db' uc = generation_of (redis_db s) uc" "db' (session_key uc cc) = redis_db s (session_key uc cc)" for uc cc
    using assms(2) by (auto simp: generation_of_def)
  with assms(1) same_clearers [of "s\<lparr>redis_db := db', tokens := insert token (tokens s)\<rparr>" s]
  show "reader_keeps s (s\<lparr>redis_db := db', tokens := insert token (tokens s)\<rparr>)"
    "clearer_keeps s (s\<lparr>redis_db := db', tokens := insert token (tokens s)\<rparr>)"
    "tokens_ok (s\<lparr>redis_db := db', tokens := insert token (tokens s)\<rparr>)"
    by (auto simp: reader_keeps_def clearer_keeps_def tokens_ok_def fence_inv_def)
qed

lemma lock_step:
  assumes inv: "fence_inv s" and x: "readers s r = Locking t c now g" and l: "try_lock t c now g token (redis_db s) = (y, db')"
  shows "fence_inv (goes r y (s\<lparr>redis_db := db', tokens := insert token (tokens s)\<rparr>))"
proof -
  let ?s = "s\<lparr>redis_db := db', tokens := insert token (tokens s)\<rparr>"
  have db': "db' = redis_db s \<or> (\<exists>uc cc token. db' = (redis_db s)(lock_key uc cc \<mapsto> LockToken token))"
    using l by (auto simp: try_lock_def set_nx_def split: if_splits)
  from inv x have "reader_ok s (Locking t c now g)" unfolding fence_inv_def by metis
  from reader_ok_mono [OF this lock_write(1) [OF inv db']]
  have "reader_ok ?s y" using l
    by (auto simp: try_lock_def set_nx_def give_cached_ok split: if_splits)
  then show ?thesis by (intro reader_step [OF inv] lock_write [OF inv db']) simp_all
qed

lemma store_write:
  assumes inv: "fence_inv s" and x: "readers s r = Storing t c now g token answer k"
    and st: "store_brief t now clock_text g token answer k (redis_db s) = (y, db')"
  shows "reader_keeps s (s\<lparr>redis_db := db'\<rparr>)" "clearer_keeps s (s\<lparr>redis_db := db'\<rparr>)" "tokens_ok (s\<lparr>redis_db := db'\<rparr>)"
    "reader_ok s y"
proof -
  from inv x have ok: "reader_ok s (Storing t c now g token answer k)" unfolding fence_inv_def by metis
  show "reader_ok s y"
    using ok st by (auto simp: store_brief_def store_brief_script_def answer_ok_def recent_def split: if_splits)
  have db': "db' = redis_db s \<or> generation_of (redis_db s) (t_user t) = g
      \<and> (\<exists>d. db' = (redis_db s)(session_key (t_user t) (t_conversation t) \<mapsto> Brief d k))"
    using st by (auto simp: store_brief_def store_brief_script_def split: if_splits)
  have gen: "generation_of db' uc = generation_of (redis_db s) uc" for uc using db' by (auto simp: generation_of_def)
  with inv same_clearers [of "s\<lparr>redis_db := db'\<rparr>" s]
  show "reader_keeps s (s\<lparr>redis_db := db'\<rparr>)" "tokens_ok (s\<lparr>redis_db := db'\<rparr>)"
    by (auto simp: reader_keeps_def tokens_ok_def fence_inv_def)
  show "clearer_keeps s (s\<lparr>redis_db := db'\<rparr>)"
    using db' ok by (auto simp: clearer_keeps_def session_key_inject task_ok_def store_ok_def split: if_splits)
qed

section \<open>Steps of a clear and of the environment\<close>

lemma clears_simps [simp]:
  "redis_db (clears c x s) = redis_db s" "epochs (clears c x s) = epochs s" "tokens (clears c x s) = tokens s"
  "readers (clears c x s) = readers s" "clearers (clears c x s) = (clearers s)(c := x)"
  by (simp_all add: clears_def)

lemma remove_simps [simp]:
  "redis_db (remove_keys K s) = (\<lambda>k. if k \<in> K then None else redis_db s k)" "epochs (remove_keys K s) = epochs s"
  "tokens (remove_keys K s) = tokens s" "readers (remove_keys K s) = readers s"
  "clearers (remove_keys K s) = forget K \<circ> clearers s"
  by (simp_all add: remove_keys_def)

lemma forget_simps [simp]:
  "past_fence (forget K x) uc e = past_fence x uc e" "user_of (forget K x) = user_of x" "durable (forget K x) = durable x"
  "plan_ok (forget K x) = plan_ok x" "forget K x = Acknowledged uc e \<longleftrightarrow> x = Acknowledged uc e"
  by (cases x; simp)+

lemma remove_sets [simp]: "fenced (remove_keys K s) = fenced s" "acknowledged (remove_keys K s) = acknowledged s"
  by (auto simp: fenced_def acknowledged_def fun_eq_iff)

lemma remove_generation: "spares_generations K \<Longrightarrow> generation_of (redis_db (remove_keys K s)) uc = generation_of (redis_db s) uc"
  by (simp add: generation_of_def spares_generations_def)

lemma clearer_ok_remove: "clearer_ok s x \<Longrightarrow> clearer_ok (remove_keys K s) (forget K x)"
proof -
  assume "clearer_ok s x"
  moreover have "covered x key k \<Longrightarrow> key \<notin> K \<Longrightarrow> covered (forget K x) key k" for key k by (cases x) auto
  ultimately show ?thesis by (auto simp: clearer_ok_def split: if_splits)
qed

lemma remove_step:
  assumes "fence_inv s" and "spares_generations K"
  shows "fence_inv (remove_keys K s)" "reader_keeps s (remove_keys K s)"
proof -
  show keeps: "reader_keeps s (remove_keys K s)"
    using remove_generation [OF assms(2), of s] by (simp add: reader_keeps_def del: remove_simps(1))
  have "\<forall>r. reader_ok (remove_keys K s) (readers s r)" using assms(1) reader_ok_mono keeps unfolding fence_inv_def by blast
  moreover have "\<forall>c. clearer_ok (remove_keys K s) (forget K (clearers s c))"
    using assms(1) clearer_ok_remove unfolding fence_inv_def by blast
  moreover have "tokens_ok (remove_keys K s)"
    using assms(1) remove_generation [OF assms(2), of s] by (simp add: tokens_ok_def fence_inv_def del: remove_simps(1))
  ultimately show "fence_inv (remove_keys K s)" by (simp add: fence_inv_def)
qed

lemma clear_step:
  assumes "fence_inv s" and "readers s' = readers s" and "clearers s' = clearers s" and "reader_keeps s (clears c x s')"
    and "clearer_keeps s s'" and "tokens_ok s'" and "clearer_ok s' x"
  shows "fence_inv (clears c x s')"
proof -
  have same: "clearer_ok (clears c x s') z = clearer_ok s' z" for z by (simp add: clearer_ok_def)
  have "\<forall>r. reader_ok (clears c x s') (readers s r)" using assms(1,4) reader_ok_mono unfolding fence_inv_def by blast
  moreover have "\<forall>c. clearer_ok s' (clearers s c)" using assms(1,5) clearer_ok_mono unfolding fence_inv_def by blast
  ultimately show ?thesis
    using assms(2,3,6,7) by (simp add: fence_inv_def same) (simp add: tokens_ok_def)
qed

lemma clears_sets:
  assumes "\<And>uc e. past_fence x uc e \<Longrightarrow> past_fence (clearers s c) uc e" and "\<And>uc e. clearers s c \<noteq> Acknowledged uc e"
    and "clearers s' = clearers s"
  shows "fenced (clears c x s') uc \<subseteq> fenced s uc" "acknowledged s uc \<subseteq> acknowledged (clears c x s') uc"
proof -
  show "fenced (clears c x s') uc \<subseteq> fenced s uc" using assms(1,3) by (auto simp: fenced_def split: if_splits)
  show "acknowledged s uc \<subseteq> acknowledged (clears c x s') uc" using assms(2,3) by (force simp: acknowledged_def)
qed

text \<open>A clear that moves on without touching Redis.\<close>

lemma moves_on:
  assumes "fence_inv s" and "\<And>uc e. past_fence x uc e \<Longrightarrow> past_fence (clearers s c) uc e"
    and "\<And>uc e. clearers s c \<noteq> Acknowledged uc e" and "clearer_ok s x"
  shows "fence_inv (clears c x s)"
proof (rule clear_step [OF assms(1) refl refl])
  show "reader_keeps s (clears c x s)" using clears_sets [OF assms(2,3) refl] by (simp add: reader_keeps_def)
  show "tokens_ok s" using assms(1) by (simp add: fence_inv_def)
qed (rule keeps_refl assms(4))+

lemma durable_step:
  assumes "fence_inv s" and "clearers s c = Listed uc nodes"
  shows "fence_inv (clears c (Cleared uc (Suc (epochs s uc)) nodes) (s\<lparr>epochs := (epochs s)(uc := Suc (epochs s uc))\<rparr>))"
    (is "fence_inv (clears c ?x ?s)")
proof (rule clear_step [OF assms(1)])
  show "reader_keeps s (clears c ?x ?s)"
    using clears_sets [of ?x s c ?s] assms(2) by (simp add: reader_keeps_def)
  show "tokens_ok ?s" using assms(1) by (simp add: fence_inv_def tokens_ok_def)
  from assms have "clearer_ok s (Listed uc nodes)" unfolding fence_inv_def by metis
  then show "clearer_ok ?s ?x" by (simp add: clearer_ok_def)
qed (simp_all add: clearer_keeps_def)

lemma generation_step:
  assumes inv: "fence_inv s" and c: "clearers s c = Cleared uc e []" and new: "token \<notin> tokens s"
  shows "fence_inv (clears c (Fenced uc e {k. starts_with (session_prefix uc) k \<and> redis_db s k \<noteq> None})
       (s\<lparr>redis_db := (redis_db s)(generation_key uc \<mapsto> Generation token), tokens := insert token (tokens s)\<rparr>))"
    (is "fence_inv (clears c ?x ?s)")
proof (rule clear_step [OF inv])
  have gen: "generation_of (redis_db ?s) u = (if u = uc then token else generation_of (redis_db s) u)" for u
    by (simp add: generation_of_def)
  have "acknowledged s u \<subseteq> acknowledged (clears c ?x ?s) u" for u
    using c by (force simp: acknowledged_def)
  moreover have "u \<noteq> uc \<Longrightarrow> fenced (clears c ?x ?s) u \<subseteq> fenced s u" for u
    by (auto simp: fenced_def split: if_splits)
  ultimately show "reader_keeps s (clears c ?x ?s)"
    using new by (auto simp: reader_keeps_def gen [simplified] split: if_splits)
  show "tokens_ok ?s" using inv gen by (simp add: fence_inv_def tokens_ok_def)
  from inv c have "clearer_ok s (Cleared uc e [])" unfolding fence_inv_def by metis
  then show "clearer_ok ?s ?x" by (simp add: clearer_ok_def)
qed (simp_all add: clearer_keeps_def)

lemma clear_keys_spare: "clear_keys cache_id uc K \<Longrightarrow> spares_generations K"
  by (auto simp: clear_keys_def spares_generations_def)

lemma delete_step:
  assumes inv: "fence_inv s" and c: "clearers s c = Scanned uc e K"
  shows "fence_inv (clears c (Removed uc e) (remove_keys K s))"
proof (rule moves_on)
  from inv c have ok: "clearer_ok s (Scanned uc e K)" unfolding fence_inv_def by metis
  then have "spares_generations K" by (simp add: clearer_ok_def)
  from remove_step(1) [OF inv this] show "fence_inv (remove_keys K s)" .
  show "clearer_ok (remove_keys K s) (Removed uc e)" using ok by (auto simp: clearer_ok_def split: if_splits)
qed (use c in simp_all)

lemma clearer_at: "fence_inv s \<Longrightarrow> clearers s c = x \<Longrightarrow> clearer_ok s x"
  unfolding fence_inv_def by blast

lemma reader_at: "fence_inv s \<Longrightarrow> readers s r = x \<Longrightarrow> reader_ok s x"
  unfolding fence_inv_def by blast

lemma recorded_step: "fence_inv s \<Longrightarrow> fence_inv (s\<lparr>redis_db := (redis_db s)(bootstrap_key cache_id \<mapsto> Initialised)\<rparr>)"
  (is "_ \<Longrightarrow> fence_inv ?s")
proof -
  assume inv: "fence_inv s"
  have gen: "generation_of (redis_db ?s) uc = generation_of (redis_db s) uc" for uc by (simp add: generation_of_def)
  then have "reader_keeps s ?s" "tokens_ok ?s" using inv same_clearers [of ?s s]
    by (simp_all add: reader_keeps_def tokens_ok_def fence_inv_def)
  moreover have "clearer_keeps s ?s" by (simp add: clearer_keeps_def)
  ultimately show ?thesis using inv reader_ok_mono clearer_ok_mono [of s _ ?s] by (simp add: fence_inv_def) blast
qed

lemma brief_step_inv: "digest_law I \<Longrightarrow> fence_inv s \<Longrightarrow> brief_step I s s' \<Longrightarrow> fence_inv s'"
proof -
  assume law: "digest_law I" and inv: "fence_inv s" and step: "brief_step I s s'"
  note at = reader_at [OF inv]
  from step show ?thesis
  proof cases
    case start
    with plain_step [OF inv start_ok [OF law]] show ?thesis by simp
  next
    case (read r t)
    then show ?thesis using at [OF read(2)] cached_recent [OF inv] by (auto intro!: plain_step [OF inv])
  next
    case (choose r t cached now)
    then show ?thesis using at [OF choose(2)] by (auto intro!: plain_step [OF inv] decide_ok)
  next
    case (fence_read r t cached now)
    moreover have "generation_of (redis_db s) (t_user t) \<in> tokens s" using inv by (simp add: fence_inv_def tokens_ok_def)
    ultimately show ?thesis using at [OF fence_read(2)] by (auto intro!: plain_step [OF inv])
  next
    case (lock r t cached now g token x db')
    then show ?thesis using lock_step [OF inv] by simp
  next
    case (reflects r t cached now g token answer)
    then have "task_ok s t" "reader_ok s (Reflecting t cached now g token)" using at by fastforce+
    moreover have "recent t (Some (epochs s (t_user t)))" "store_ok s (t_user t) g (epochs s (t_user t))"
      using fenced_epochs [OF inv] acknowledged_fenced [of s "t_user t"] calculation(1)
      by (auto simp: recent_def store_ok_def task_ok_def)
    ultimately show ?thesis using reflects by (auto intro!: plain_step [OF inv])
  next
    case (store r t cached now g token answer k clock_text x db')
    note w = store_write [OF inv store(2,3)]
    show ?thesis unfolding store(1)
      by (intro reader_step [OF inv] w(1-3) reader_ok_mono [OF w(4) w(1)]) simp_all
  next
    case (store_unanswered r t cached now g token answer k clock_text x db')
    note w = store_write [OF inv store_unanswered(2,3)]
    have "reader_ok s (Releasing t token (cached_text cached) (map_option snd cached))"
      using at [OF store_unanswered(2)] by (auto simp: answer_ok_def cached_text_def)
    from reader_ok_mono [OF this w(1)] show ?thesis unfolding store_unanswered(1)
      by (intro reader_step [OF inv] w(1-3)) simp_all
  next
    case (release r t token answer k)
    have "spares_generations {k. k = lock_key (t_user t) (t_conversation t) \<and> redis_db s k = Some (LockToken token)}"
      by (simp add: spares_generations_def)
    note rm = remove_step [OF inv this]
    have "reader_ok s (Returned t answer k)" using at [OF release(2)] by simp
    from reader_ok_mono [OF this rm(2)] show ?thesis unfolding release(1) by (rule plain_step [OF rm(1)])
  next
    case (release_fails r t token answer k)
    then show ?thesis using at [OF release_fails(2)] by (auto intro!: plain_step [OF inv])
  next
    case (read_fails r t)
    then show ?thesis using at [OF read_fails(2)] by (auto intro!: plain_step [OF inv] simp: answer_ok_def recent_def)
  next
    case (late_failure r t cached now g)
    then have "task_ok s t \<and> recent t (map_option snd cached)" using at [OF refl, of r] by auto
    then show ?thesis unfolding late_failure(1) by (auto intro!: plain_step [OF inv] give_cached_ok)
  next
    case (reflect_fails r t cached now g token answer k)
    then have "task_ok s t \<and> recent t (map_option snd cached)" using at [OF refl, of r] by auto
    then show ?thesis unfolding reflect_fails(1)
      by (auto intro!: plain_step [OF inv] simp: answer_ok_def cached_text_def)
  qed
qed

lemma wipe_step_inv: "digest_law I \<Longrightarrow> fence_inv s \<Longrightarrow> wipe_step I s s' \<Longrightarrow> fence_inv s'"
proof -
  assume law: "digest_law I" and inv: "fence_inv s" and step: "wipe_step I s s'"
  note cat = clearer_at [OF inv]
  from step show ?thesis
  proof cases
    case (expires k)
    then have "spares_generations {k}" by (auto simp: spares_generations_def)
    from remove_step(1) [OF inv this] show ?thesis unfolding expires(1) .
  next
    case (list_tree c user_id uc nodes)
    then show ?thesis using digest_colon_free [OF law] by (auto intro!: moves_on [OF inv] simp: clearer_ok_def)
  next
    case (clear_durable c uc nodes)
    then show ?thesis using durable_step [OF inv] by simp
  next
    case (delete_node c uc e node nodes)
    then show ?thesis using cat [OF delete_node(2)] by (auto intro!: moves_on [OF inv] simp: clearer_ok_def)
  next
    case (new_generation c uc e token)
    then show ?thesis using generation_step [OF inv] by simp
  next
    case (scan_keys c uc e P K cache_id)
    then have "clearer_ok s (Scanned uc e K)"
      using cat [OF scan_keys(2)] clear_keys_spare [OF scan_keys(4)] by (simp add: clearer_ok_def) blast
    then show ?thesis unfolding scan_keys(1) by (rule moves_on [OF inv, rotated -1]) (simp_all add: scan_keys(2))
  next
    case (delete_keys c uc e K)
    then show ?thesis using delete_step [OF inv] by simp
  next
    case (acknowledge c uc e)
    then show ?thesis using cat [OF acknowledge(2)] by (auto intro!: moves_on [OF inv] simp: clearer_ok_def)
  next
    case (bootstrap_recorded cache_id)
    then show ?thesis using recorded_step [OF inv] by simp
  next
    case (abort c)
    then show ?thesis by (auto intro!: moves_on [OF inv] simp: clearer_ok_def)
  qed
qed

section \<open>Properties\<close>

definition fence_safe :: "memory_ids \<Rightarrow> fence_state \<Rightarrow> bool" where
  "fence_safe I s \<longleftrightarrow> (digest_law I \<longrightarrow> fence_inv s)"

interpretation fences: invariant_system fence_init "fence_step I" "fence_safe I" for I
proof
  fix s
  assume init: "fence_init s"
  then have "tokens_ok s" by (simp add: fence_init_def tokens_ok_def generation_of_def)
  with init show "fence_safe I s" by (simp add: fence_init_def fence_safe_def fence_inv_def clearer_ok_def)
next
  fix s s'
  assume "fence_safe I s" "fence_step I s s'"
  then show "fence_safe I s'"
    using brief_step_inv [of I s s'] wipe_step_inv [of I s s'] unfolding fence_safe_def fence_step_def by blast
qed

text \<open>C20. Cleared memory stays cleared: once a clear is acknowledged, no cached brief of that user reflects memories
  from before it, however requests, reflections and other clears interleave, fail or lose their answers. A
  request that starts afterwards never returns text from such memories either.\<close>

theorem cleared_memory_stays_cleared:
  assumes "reach fence_init (fence_step I) s" and "digest_law I" and "clearers s c = Acknowledged uc e"
  shows "(\<forall>cc d k. redis_db s (session_key uc cc) = Some (Brief d k) \<longrightarrow> e \<le> k)
    \<and> (\<forall>r t answer k. readers s r = Returned t answer k \<and> t_user t = uc \<and> e \<in> seen t \<longrightarrow>
         (case k of None \<Rightarrow> answer = [] | Some n \<Rightarrow> e \<le> n))"
proof -
  from fences.reach_inv [OF assms(1)] assms(2) have inv: "fence_inv s" by (simp add: fence_safe_def)
  from clearer_at [OF inv assms(3)] have "\<forall>cc d k. redis_db s (session_key uc cc) = Some (Brief d k) \<longrightarrow> e \<le> k"
    by (simp add: clearer_ok_def)
  moreover have "case k of None \<Rightarrow> answer = [] | Some n \<Rightarrow> e \<le> n"
    if "readers s r = Returned t answer k" "e \<in> seen t" for r t answer k
    using reader_at [OF inv that(1)] that(2) by (auto simp: answer_ok_def recent_def split: option.split)
  ultimately show ?thesis by blast
qed

text \<open>A request reflects, a clear runs to its end, and only then the request tries to store its brief.\<close>

definition fence_ids :: memory_ids where
  "fence_ids = \<lparr>uuid5 = (\<lambda>s. s), sha256 = (\<lambda>s. ''ab'')\<rparr>"

definition fence_task :: brief_task where
  "fence_task = \<lparr>t_user = ''ab'', t_conversation = ''ab'', t_query = ''what patterns'', seen = {}\<rparr>"

definition fence_start :: fence_state where
  "fence_start = \<lparr>redis_db = (\<lambda>_. None), epochs = (\<lambda>_. 0), tokens = {[]}, readers = (\<lambda>_. Idle), clearers = (\<lambda>_. NotStarted)\<rparr>"

definition fence_reflected :: fence_state where
  "fence_reflected = fence_start\<lparr>redis_db := [lock_key ''ab'' ''ab'' \<mapsto> LockToken ''1''], tokens := {''1'', []},
     readers := (\<lambda>_. Idle)(0 := Storing fence_task None 0 [] ''1'' ''old'' 0)\<rparr>"

definition fence_cleared :: fence_state where
  "fence_cleared = fence_reflected\<lparr>redis_db := [generation_key ''ab'' \<mapsto> Generation ''2''],
     epochs := (\<lambda>_. 0)(''ab'' := 1), tokens := {''2'', ''1'', []}, clearers := (\<lambda>_. NotStarted)(0 := Acknowledged ''ab'' 1)\<rparr>"

lemma reach_brief: "reach fence_init (fence_step I) s \<Longrightarrow> brief_step I s t \<Longrightarrow> reach fence_init (fence_step I) t"
  using reach_next [of fence_init "fence_step I" s t] by (simp add: fence_step_def)

lemma reach_wipe: "reach fence_init (fence_step I) s \<Longrightarrow> wipe_step I s t \<Longrightarrow> reach fence_init (fence_step I) t"
  using reach_next [of fence_init "fence_step I" s t] by (simp add: fence_step_def)

lemmas fence_samples = fence_ids_def fence_task_def fence_start_def fence_reflected_def fence_cleared_def

lemma reflected_reached: "reach fence_init (fence_step fence_ids) fence_reflected"
proof -
  let ?R = "reach fence_init (fence_step fence_ids)" and ?at = "\<lambda>x. goes 0 x fence_start"
  have "?R fence_start" by (rule reach_start) (simp add: fence_init_def fence_start_def)
  from reach_brief [OF this brief_step.start [where r = 0 and user_id = "''ann''" and conversation_id = "''c1''" and q = "''what patterns''"]]
  have "?R (?at (Reading fence_task))"
    by (simp add: start_reader_def user_cache_id_def derive_bank_id_def digest_parts_def acknowledged_def fence_samples string_defs)
  from reach_brief [OF this brief_step.read [where r = 0 and t = fence_task]]
  have "?R (?at (Deciding fence_task None))" by (simp add: cached_brief_def fence_start_def goes_def)
  then have "?R (goes 0 (decide fence_task None 0) (?at (Deciding fence_task None)))"
    by (rule reach_brief [OF _ brief_step.choose]) simp
  moreover have "decide fence_task None 0 = Fencing fence_task None 0" by code_simp
  ultimately have "?R (?at (Fencing fence_task None 0))" by (simp add: goes_def)
  from reach_brief [OF this brief_step.fence_read [where r = 0 and t = fence_task and cached = None and now = 0]]
  have "?R (?at (Locking fence_task None 0 []))" by (simp add: generation_of_def fence_start_def goes_def)
  from reach_brief [OF this brief_step.lock [where r = 0 and t = fence_task and cached = None and now = 0 and generation = "[]" and token = "''1''"]]
  have "?R (goes 0 (Reflecting fence_task None 0 [] ''1'') (fence_start\<lparr>redis_db := [lock_key ''ab'' ''ab'' \<mapsto> LockToken ''1''], tokens := {''1'', []}\<rparr>))"
    by (simp add: try_lock_def set_nx_def fence_samples goes_def)
  from reach_brief [OF this brief_step.reflects [where r = 0 and t = fence_task and cached = None and now = 0
        and generation = "[]" and token = "''1''" and answer = "''old''"]]
  show ?thesis by (simp add: fence_samples goes_def)
qed

lemma cleared_reached: "reach fence_init (fence_step fence_ids) fence_cleared"
proof -
  let ?R = "reach fence_init (fence_step fence_ids)"
    and ?c = "clears 0 (Cleared ''ab'' 1 []) (fence_reflected\<lparr>epochs := (\<lambda>_. 0)(''ab'' := 1)\<rparr>)"
    and ?s = "fence_reflected\<lparr>redis_db := [lock_key ''ab'' ''ab'' \<mapsto> LockToken ''1'', generation_key ''ab'' \<mapsto> Generation ''2''],
     epochs := (\<lambda>_. 0)(''ab'' := 1), tokens := {''2'', ''1'', []}\<rparr>"
  have uc: "user_cache_id fence_ids ''ann'' = Inr ''ab''"
    by (simp add: user_cache_id_def derive_bank_id_def digest_parts_def fence_ids_def string_defs)
  from reach_wipe [OF reflected_reached wipe_step.list_tree [where c = 0 and nodes = "[]", OF _ uc]]
  have "?R (clears 0 (Listed ''ab'' []) fence_reflected)" by (simp add: fence_reflected_def fence_start_def)
  from reach_wipe [OF this wipe_step.clear_durable [where c = 0]]
  have "?R (clears 0 (Cleared ''ab'' 1 []) (fence_reflected\<lparr>epochs := (\<lambda>_. 0)(''ab'' := 1)\<rparr>))"
    by (simp add: fence_reflected_def fence_start_def clears_def)
  then have "?R (clears 0 (Fenced ''ab'' 1 {k. starts_with (session_prefix ''ab'') k \<and> redis_db ?c k \<noteq> None})
      (?c\<lparr>redis_db := (redis_db ?c)(generation_key ''ab'' \<mapsto> Generation ''2''), tokens := insert ''2'' (tokens ?c)\<rparr>))"
    by (rule reach_wipe [OF _ wipe_step.new_generation]) (simp_all add: fence_reflected_def)
  moreover have "{k. starts_with (session_prefix ''ab'') k \<and> redis_db ?c k \<noteq> None} = {}"
    by (auto simp: fence_reflected_def session_prefix_def lock_key_def lock_prefix_def starts_with_iff split: if_splits)
  ultimately have "?R (clears 0 (Fenced ''ab'' 1 {}) ?s)"
    by (simp only:) (simp add: fence_reflected_def fence_start_def clears_def)
  moreover have "clear_keys [] ''ab'' {lock_key ''ab'' ''ab''}" by (simp add: clear_keys_def lock_key_def)
  ultimately have "?R (clears 0 (Scanned ''ab'' 1 {lock_key ''ab'' ''ab''}) ?s)"
    using reach_wipe [OF _ wipe_step.scan_keys [where c = 0 and s = "clears 0 (Fenced ''ab'' 1 {}) ?s" and I = fence_ids]]
    by (fastforce simp: clears_def)
  from reach_wipe [OF this wipe_step.delete_keys [where c = 0]]
  have "?R (clears 0 (Removed ''ab'' 1) (remove_keys {lock_key ''ab'' ''ab''} (clears 0 (Scanned ''ab'' 1 {lock_key ''ab'' ''ab''}) ?s)))"
    by simp
  from reach_wipe [OF this wipe_step.acknowledge [where c = 0]]
  have "?R (clears 0 (Acknowledged ''ab'' 1) (clears 0 (Removed ''ab'' 1)
      (remove_keys {lock_key ''ab'' ''ab''} (clears 0 (Scanned ''ab'' 1 {lock_key ''ab'' ''ab''}) ?s))))" by simp
  moreover have "clears 0 (Acknowledged ''ab'' 1) (clears 0 (Removed ''ab'' 1)
      (remove_keys {lock_key ''ab'' ''ab''} (clears 0 (Scanned ''ab'' 1 {lock_key ''ab'' ''ab''}) ?s))) = fence_cleared"
    by (rule fence_state.equality) (auto simp: fence_cleared_def fence_reflected_def fence_start_def fun_eq_iff)
  ultimately show ?thesis by simp
qed

theorem cleared_memory_stays_cleared_witness:
  "\<exists>s. reach fence_init (fence_step fence_ids) s \<and> clearers s 0 = Acknowledged ''ab'' 1
     \<and> readers s 0 = Releasing fence_task ''1'' [] None
     \<and> (\<forall>cc d k. redis_db s (session_key ''ab'' cc) = Some (Brief d k) \<longrightarrow> 1 \<le> k)"
proof -
  let ?s = "goes 0 (Releasing fence_task ''1'' [] None) fence_cleared"
  have "store_brief fence_task 0 ''0'' [] ''1'' ''old'' 0 (redis_db fence_cleared) = (Releasing fence_task ''1'' [] None, redis_db fence_cleared)"
    by (simp add: store_brief_def store_brief_script_def generation_of_def fence_cleared_def fence_task_def)
  from reach_brief [OF cleared_reached brief_step.store [where r = 0, OF _ this]]
  have reached: "reach fence_init (fence_step fence_ids) ?s"
    by (simp add: fence_cleared_def fence_reflected_def fence_start_def)
  have law: "digest_law fence_ids" by (simp add: digest_law_def fence_ids_def)
  have ack: "clearers ?s 0 = Acknowledged ''ab'' 1" by (simp add: fence_cleared_def)
  from cleared_memory_stays_cleared [OF reached law ack] reached ack show ?thesis
    by (intro exI [of _ ?s]) simp
qed

end
