(* ===== verification/Memory_Turns.thy ===== *)
theory Memory_Turns
  imports Memory_Client "HOL-Library.Sublist"
begin

text \<open>
  What is retained of a completed turn (\<open>builder/memory_api.py\<close>): the removal of control blocks, embedded
  data and internal references, the bounded turn document, and the report of a retain operation.
\<close>

section \<open>Sanitising\<close>

definition newline :: char where
  "newline = char_of (10::nat)"

definition CONTROL_TAGS :: "string list" where
  "CONTROL_TAGS = [''[identity]'', ''[memory_context]'', ''[source_policy]'']"

text \<open>The length of a control tag at the start of a text, in any case.\<close>

definition control_tag :: "string \<Rightarrow> nat option" where
  "control_tag s = map_option length (find (\<lambda>t. starts_with t (lower s)) CONTROL_TAGS)"

definition section_char :: "char \<Rightarrow> bool" where
  "section_char c = (is_lower_letter c \<or> is_upper_letter c \<or> c = CHR ''_'')"

text \<open>\<open>\n\[[A-Z_]+\]\<close> at the start of a text.\<close>

definition section_start :: "string \<Rightarrow> bool" where
  "section_start s =
     (case s of
        n # b # rest \<Rightarrow> n = newline \<and> b = CHR ''['' \<and> takeWhile section_char rest \<noteq> []
          \<and> starts_with '']'' (dropWhile section_char rest)
      | _ \<Rightarrow> False)"

fun after_block :: "string \<Rightarrow> string" where
  "after_block [] = []"
| "after_block (c # cs) = (if section_start (c # cs) then c # cs else after_block cs)"

lemma after_block_length: "length (after_block s) \<le> length s"
  by (induction s rule: after_block.induct) auto

lemma control_tag_bound: "control_tag s = Some n \<Longrightarrow> 0 < n"
  by (auto simp: control_tag_def CONTROL_TAGS_def find_Some_iff split: if_splits)

text \<open>\<open>_CONTROL_BLOCK.sub("", value)\<close>.\<close>

function remove_blocks :: "string \<Rightarrow> string" where
  "remove_blocks [] = []"
| "remove_blocks (c # cs) =
     (case control_tag (c # cs) of
        Some n \<Rightarrow> remove_blocks (after_block (drop n (c # cs)))
      | None \<Rightarrow> c # remove_blocks cs)"
  by pat_completeness auto
termination
proof (relation "measure length")
  fix c cs n
  assume "control_tag (c # cs) = Some n"
  with control_tag_bound have "0 < n" by blast
  with after_block_length [of "drop n (c # cs)"]
  show "(after_block (drop n (c # cs)), c # cs) \<in> measure length" by simp
qed simp_all

definition reference_char :: "char \<Rightarrow> bool" where
  "reference_char c = (\<not> is_space c \<and> c \<noteq> CHR '')'' \<and> c \<noteq> CHR '']'')"

text \<open>The length of a reference with one of the schemes at the start of a text.\<close>

definition reference_at :: "string list \<Rightarrow> string \<Rightarrow> nat option" where
  "reference_at schemes s =
     (case find (\<lambda>p. starts_with p (lower s) \<and> takeWhile reference_char (drop (length p) s) \<noteq> []) schemes of
        None \<Rightarrow> None
      | Some p \<Rightarrow> Some (length p + length (takeWhile reference_char (drop (length p) s))))"

lemma reference_bound: "reference_at schemes s = Some n \<Longrightarrow> 0 < n"
  by (auto simp: reference_at_def find_Some_iff split: option.splits)

function replace_references :: "string list \<Rightarrow> string \<Rightarrow> string \<Rightarrow> string" where
  "replace_references schemes rep [] = []"
| "replace_references schemes rep (c # cs) =
     (case reference_at schemes (c # cs) of
        Some n \<Rightarrow> rep @ replace_references schemes rep (drop n (c # cs))
      | None \<Rightarrow> c # replace_references schemes rep cs)"
  by pat_completeness auto
termination
  by (relation "measure (\<lambda>(schemes, rep, s). length s)") (auto dest: reference_bound)

definition DATA_SCHEMES :: "string list" where
  "DATA_SCHEMES = [''data:'']"

definition REDIS_SCHEMES :: "string list" where
  "REDIS_SCHEMES = [''redis://'', ''rediss://'']"

definition MAX_TURN_CHARS :: nat where
  "MAX_TURN_CHARS = 12000"

definition sanitize_turn_part :: "string \<Rightarrow> string" where
  "sanitize_turn_part v =
     take 5500 (strip (replace_references REDIS_SCHEMES ''[internal reference omitted]''
       (replace_references DATA_SCHEMES ''[embedded data omitted]'' (remove_blocks v))))"

section \<open>The turn document\<close>

definition turn_message :: "string \<Rightarrow> string \<Rightarrow> json" where
  "turn_message role content = JObj [(''role'', JStr role), (''content'', JStr content)]"

definition turn_json :: "string \<Rightarrow> string \<Rightarrow> json" where
  "turn_json user_text assistant_text =
     JObj [(''schema'', JStr ''daedalus.completed-turn.v1''), (''status'', JStr ''completed''),
           (''messages'', JList (turn_message ''user'' user_text
              # (if assistant_text = [] then [] else [turn_message ''assistant'' assistant_text])))]"

definition turn_document :: "string \<Rightarrow> string \<Rightarrow> string" where
  "turn_document user_text assistant_text = json_dumps (turn_json user_text assistant_text)"

lemma escape_bound: "length (json_escape c) \<le> 6"
  by (simp add: json_escape_def Let_def)

lemma document_length:
  "length (turn_document u []) = length (turn_document [] []) + length (concat (map json_escape u))"
  by (simp add: turn_document_def turn_json_def turn_message_def json_dumps_str_def compact_object_def compact_member_def)

lemma empty_document: "length (turn_document [] []) \<le> 120"
  by code_simp

lemma short_document: "length u \<le> 1 \<Longrightarrow> length (turn_document u []) \<le> MAX_TURN_CHARS"
proof -
  assume "length u \<le> 1"
  then have "length (concat (map json_escape u)) \<le> 6"
    using escape_bound by (cases u) auto
  with empty_document document_length [of u] show ?thesis unfolding MAX_TURN_CHARS_def by linarith
qed

text \<open>The loop of \<open>_completed_turn_document\<close>: the two texts it ends with.\<close>

function shrink_turn :: "string \<Rightarrow> string \<Rightarrow> string \<times> string" where
  "shrink_turn user_text assistant_text =
     (let len = length (turn_document user_text assistant_text); overflow = len - MAX_TURN_CHARS in
      if len \<le> MAX_TURN_CHARS then (user_text, assistant_text)
      else if assistant_text \<noteq> []
      then shrink_turn user_text (take (length assistant_text - overflow - 1) assistant_text)
      else shrink_turn (take (max 1 (length user_text - overflow - 1)) user_text) assistant_text)"
  by pat_completeness auto
termination
proof (relation "measure (\<lambda>(u, a). length u + length a)")
  fix u a :: string and len overflow
  assume len: "len = length (turn_document u a)" and ov: "overflow = len - MAX_TURN_CHARS" and big: "\<not> len \<le> MAX_TURN_CHARS"
  show "((u, take (length a - overflow - 1) a), (u, a)) \<in> measure (\<lambda>(u, a). length u + length a)" if "a \<noteq> []"
    using that by (cases a) auto
  show "((take (max 1 (length u - overflow - 1)) u, a), (u, a)) \<in> measure (\<lambda>(u, a). length u + length a)" if "\<not> a \<noteq> []"
  proof -
    from that len big short_document [of u] have "1 < length u" by fastforce
    then show ?thesis by auto
  qed
qed simp

declare shrink_turn.simps [simp del]

definition completed_turn_document :: "string \<Rightarrow> string \<Rightarrow> string result" where
  "completed_turn_document user_content assistant_content =
     (let user_text = sanitize_turn_part user_content; assistant_text = sanitize_turn_part assistant_content in
      if user_text = [] then Inl (ValueError ''user content is empty after sanitization'')
      else case shrink_turn user_text assistant_text of (u, a) \<Rightarrow> Inr (turn_document u a))"

section \<open>The report of an operation\<close>

definition OPERATION_STATUSES :: "string list" where
  "OPERATION_STATUSES = [''pending'', ''processing'', ''completed'', ''failed'', ''cancelled'', ''not_found'']"

text \<open>\<open>int(value or 0)\<close> where a \<open>TypeError\<close> or \<open>ValueError\<close> counts as zero.\<close>

definition count_or_zero :: "json \<Rightarrow> int result" where
  "count_or_zero v =
     (case py_int (py_or v (JInt 0)) of
        Inl TypeError \<Rightarrow> Inr 0
      | Inl (ValueError m) \<Rightarrow> Inr 0
      | r \<Rightarrow> r)"

definition normalized_operation :: "dict \<Rightarrow> dict result" where
  "normalized_operation d =
     (let raw_status = py_str (py_or (dict_get d ''status'') (JStr ''not_found''));
          outcome = (case dict_get d ''result_metadata'' of JObj m \<Rightarrow> m | _ \<Rightarrow> []) in
      bind_result (count_or_zero (dict_get outcome ''unit_ids_count'')) (\<lambda>unit_ids_count.
      bind_result (count_or_zero (dict_get outcome ''extraction_errors_count'')) (\<lambda>extraction_errors_count.
      bind_result (py_int (py_or (dict_get d ''retry_count'') (JInt 0))) (\<lambda>retry_count.
        Inr [(''operation_id'', JStr (py_str (py_or (dict_get d ''operation_id'') (JStr [])))),
             (''status'', JStr (if raw_status = ''completed'' \<and> unit_ids_count = 0 then ''zero_fact''
                                else if raw_status \<notin> set OPERATION_STATUSES then ''not_found'' else raw_status)),
             (''unit_ids_count'', JInt unit_ids_count), (''extraction_errors_count'', JInt extraction_errors_count),
             (''retry_count'', JInt retry_count), (''created_at'', dict_get d ''created_at''),
             (''updated_at'', dict_get d ''updated_at''), (''completed_at'', dict_get d ''completed_at'')]))))"

section \<open>Facts\<close>

text \<open>No position of a text starts with one of the patterns.\<close>

definition free_of :: "(string \<Rightarrow> bool) \<Rightarrow> string \<Rightarrow> bool" where
  "free_of P s \<longleftrightarrow> (\<forall>n. \<not> P (drop n s))"

lemma free_of_Cons: "free_of P (c # s) \<longleftrightarrow> \<not> P (c # s) \<and> free_of P s"
proof
  assume "free_of P (c # s)"
  then have "\<not> P (drop 0 (c # s))" "\<not> P (drop (Suc n) (c # s))" for n unfolding free_of_def by blast+
  then show "\<not> P (c # s) \<and> free_of P s" by (simp add: free_of_def)
next
  assume *: "\<not> P (c # s) \<and> free_of P s"
  have "\<not> P (drop n (c # s))" for n using * by (cases n) (simp_all add: free_of_def)
  then show "free_of P (c # s)" by (simp add: free_of_def)
qed

lemma free_of_drop: "free_of P s \<Longrightarrow> free_of P (drop n s)"
  by (simp add: free_of_def)

text \<open>A pattern that needs no more than the characters it matches.\<close>

definition prefix_closed :: "(string \<Rightarrow> bool) \<Rightarrow> bool" where
  "prefix_closed P \<longleftrightarrow> (\<forall>s t. P s \<longrightarrow> P (s @ t))"

lemma free_of_take: "prefix_closed P \<Longrightarrow> free_of P s \<Longrightarrow> free_of P (take n s)"
proof -
  assume P: "prefix_closed P" "free_of P s"
  have "\<not> P (drop k (take n s))" for k
  proof
    assume "P (drop k (take n s))"
    with P(1) have "P (take (n - k) (drop k s) @ drop (n - k) (drop k s))"
      unfolding prefix_closed_def drop_take by blast
    then have "P (drop k s)" by (simp only: append_take_drop_id)
    with P(2) show False by (simp add: free_of_def)
  qed
  then show ?thesis by (simp add: free_of_def)
qed

lemma strip_part: "\<exists>j k. strip s = take k (drop j s)"
proof -
  have l: "\<exists>j. lstrip t = drop j t" for t by (metis dropWhile_eq_drop lstrip_def)
  have "rstrip_while is_space t = take (length (rstrip_while is_space t)) t" for t
  proof -
    have "t = rstrip_while is_space t @ rev (takeWhile is_space (rev t))"
      unfolding rstrip_while_def by (metis rev_append rev_rev_ident takeWhile_dropWhile_id)
    then show ?thesis by (metis append_eq_conv_conj)
  qed
  with l show ?thesis unfolding strip_def by metis
qed

lemma free_of_strip: "prefix_closed P \<Longrightarrow> free_of P s \<Longrightarrow> free_of P (strip s)"
  using strip_part [of s] free_of_drop free_of_take by metis

lemma starts_with_split:
  "starts_with t (a @ b) \<Longrightarrow> b = [] \<or> hd b \<notin> set (drop (length a) t) \<Longrightarrow> starts_with t a"
proof (cases "length t \<le> length a")
  case True
  then show "starts_with t (a @ b) \<Longrightarrow> ?thesis" by (simp add: starts_with_def)
next
  case False
  assume st: "starts_with t (a @ b)" and b: "b = [] \<or> hd b \<notin> set (drop (length a) t)"
  from st False obtain x where x: "a @ b = t @ x" by (auto simp: starts_with_iff)
  with False have "drop (length a) t @ x = b" by (metis append_eq_append_conv_if append_eq_conv_conj less_imp_le_nat not_le)
  moreover from False have "drop (length a) t \<noteq> []" by simp
  ultimately have "b \<noteq> []" "hd b \<in> set (drop (length a) t)" by (auto simp: hd_append)
  with b show ?thesis by simp
qed

lemma starts_with_both: "starts_with t (a @ b) \<Longrightarrow> starts_with t a \<or> starts_with a t"
  unfolding starts_with_iff by (metis append_eq_append_conv2)

lemma lower_append [simp]: "lower (a @ b) = lower a @ lower b"
  by (simp add: lower_def)

lemma length_lower [simp]: "length (lower s) = length s"
  by (simp add: lower_def)

definition tagged :: "string \<Rightarrow> bool" where
  "tagged s \<longleftrightarrow> (\<exists>t \<in> set CONTROL_TAGS. starts_with t (lower s))"

definition referring :: "string list \<Rightarrow> string \<Rightarrow> bool" where
  "referring schemes s \<longleftrightarrow>
     (\<exists>p \<in> set schemes. starts_with p (lower s) \<and> drop (length p) s \<noteq> [] \<and> reference_char (hd (drop (length p) s)))"

lemma control_tag_tagged: "control_tag s = None \<longleftrightarrow> \<not> tagged s"
  by (auto simp: control_tag_def tagged_def find_None_iff)

lemma run_nonempty: "takeWhile P xs \<noteq> [] \<longleftrightarrow> xs \<noteq> [] \<and> P (hd xs)"
  by (cases xs) auto

lemma find_found: "find Q xs = Some x \<Longrightarrow> Q x \<and> x \<in> set xs"
  by (induction xs) (auto split: if_splits)

lemma reference_referring: "reference_at schemes s = None \<longleftrightarrow> \<not> referring schemes s"
  unfolding reference_at_def referring_def run_nonempty
  by (auto simp: find_None_iff split: option.split dest!: find_found)

lemma prefix_closed_patterns: "prefix_closed tagged" "prefix_closed (referring schemes)"
proof -
  have sw: "starts_with p (lower s) \<Longrightarrow> starts_with p (lower (s @ t))" for p s t :: string
    by (auto simp: starts_with_iff)
  then show "prefix_closed tagged" by (auto simp: prefix_closed_def tagged_def)
  have "p \<in> set schemes \<Longrightarrow> starts_with p (lower s) \<Longrightarrow> drop (length p) s \<noteq> [] \<Longrightarrow> reference_char (hd (drop (length p) s))
      \<Longrightarrow> referring schemes (s @ t)" for p s t
    unfolding referring_def using sw by (intro bexI [of _ p]) auto
  then show "prefix_closed (referring schemes)" unfolding prefix_closed_def referring_def [of schemes "_"] by blast
qed

text \<open>Removing blocks leaves no tag: what follows a removed block starts on a new line.\<close>

lemma newline_facts: "lower_char newline = newline" "\<forall>t \<in> set CONTROL_TAGS. newline \<notin> set t"
  by code_simp+

lemma untagged_newline: "\<not> tagged (newline # s)"
proof
  assume "tagged (newline # s)"
  then obtain t where t: "t \<in> set CONTROL_TAGS" "starts_with t (newline # lower s)"
    by (auto simp: tagged_def lower_def newline_facts(1))
  then have "t \<noteq> []" by (auto simp: CONTROL_TAGS_def)
  with t(2) have "newline \<in> set t" by (cases t) (auto simp: starts_with_iff)
  with newline_facts(2) t(1) show False by blast
qed

lemma section_newline: "section_start (c # cs) \<Longrightarrow> c = newline"
  by (cases cs) (simp_all add: section_start_def)

lemma after_block_head: "after_block s = [] \<or> (\<exists>r. after_block s = newline # r)"
proof (induction s)
  case (Cons c s)
  then show ?case using section_newline [of c s] by (cases "section_start (c # s)") simp_all
qed simp

lemma remove_common:
  "\<exists>u v w. remove_blocks s = u @ v \<and> s = u @ w \<and> (v = [] \<or> hd v = newline)"
proof (induction s rule: remove_blocks.induct)
  case (2 c cs)
  show ?case
  proof (cases "control_tag (c # cs)")
    case None
    with 2 obtain u v w where "remove_blocks cs = u @ v" "cs = u @ w" "v = [] \<or> hd v = newline" by blast
    with None show ?thesis by (intro exI [of _ "c # u"] exI [of _ v] exI [of _ w]) simp
  next
    case (Some n)
    have "control_tag (newline # r) = None" for r by (simp add: control_tag_tagged untagged_newline)
    with after_block_head [of "drop n (c # cs)"] Some
    have "remove_blocks (c # cs) = [] \<or> hd (remove_blocks (c # cs)) = newline" by auto
    then show ?thesis by (intro exI [of _ "[]"] exI) simp
  qed
qed simp

lemma tagged_prefix: "tagged (u @ v) \<Longrightarrow> v = [] \<or> hd v = newline \<Longrightarrow> tagged u"
proof -
  assume "tagged (u @ v)" and v: "v = [] \<or> hd v = newline"
  then obtain t where t: "t \<in> set CONTROL_TAGS" "starts_with t (lower u @ lower v)" by (auto simp: tagged_def)
  have "lower v = [] \<or> hd (lower v) \<notin> set (drop (length (lower u)) t)"
    using v newline_facts t(1) by (cases v) (auto simp: lower_def dest: in_set_dropD)
  with starts_with_split [OF t(2)] t(1) show ?thesis by (auto simp: tagged_def)
qed

lemma removed_untagged: "free_of tagged (remove_blocks s)"
proof (induction s rule: remove_blocks.induct)
  case 1
  then show ?case by (auto simp: free_of_def tagged_def CONTROL_TAGS_def starts_with_def lower_def)
next
  case (2 c cs)
  show ?case
  proof (cases "control_tag (c # cs)")
    case None
    obtain u v w where uv: "remove_blocks (c # cs) = u @ v" "c # cs = u @ w" "v = [] \<or> hd v = newline"
      using remove_common by blast
    have "\<not> tagged (u @ v)"
      using tagged_prefix [OF _ uv(3)] None control_tag_tagged uv(2) prefix_closed_patterns(1) unfolding prefix_closed_def by metis
    moreover have step: "remove_blocks (c # cs) = c # remove_blocks cs" using None by simp
    ultimately show ?thesis unfolding step free_of_Cons using 2(1) [OF None] uv(1) step by simp
  qed (use 2 in simp)
qed

text \<open>Replacing references: a pattern that survives would have been there before.\<close>

definition survives_only :: "(string \<Rightarrow> bool) \<Rightarrow> bool" where
  "survives_only P \<longleftrightarrow> \<not> P [] \<and> (\<forall>u v w. P (u @ v) \<longrightarrow> u \<noteq> [] \<longrightarrow>
     v = w \<or> v \<noteq> [] \<and> w \<noteq> [] \<and> hd v = CHR ''['' \<and> reference_char (hd w) \<longrightarrow> P (u @ w))"

definition never_in :: "(string \<Rightarrow> bool) \<Rightarrow> string \<Rightarrow> bool" where
  "never_in P rep \<longleftrightarrow> (\<forall>k < length rep. \<forall>b. \<not> P (drop k rep @ b))"

lemma free_of_append: "never_in P a \<Longrightarrow> free_of P b \<Longrightarrow> free_of P (a @ b)"
proof -
  assume a: "never_in P a" and b: "free_of P b"
  have "\<not> P (drop n (a @ b))" for n
    using a b by (cases "n < length a") (simp_all add: never_in_def free_of_def)
  then show ?thesis by (simp add: free_of_def)
qed

definition plain_schemes :: "string list \<Rightarrow> bool" where
  "plain_schemes schemes \<longleftrightarrow> (\<forall>p \<in> set schemes. p \<noteq> [] \<and> CHR ''['' \<notin> set p \<and> (\<forall>c. lower_char c = hd p \<longrightarrow> reference_char c))"

lemma reference_head: "plain_schemes schemes \<Longrightarrow> referring schemes w \<Longrightarrow> w \<noteq> [] \<and> reference_char (hd w)"
proof -
  assume "plain_schemes schemes" "referring schemes w"
  then obtain p where p: "p \<noteq> []" "\<forall>c. lower_char c = hd p \<longrightarrow> reference_char c" "starts_with p (lower w)"
      "drop (length p) w \<noteq> []"
    unfolding referring_def plain_schemes_def by blast
  then have "w \<noteq> []" by auto
  with p have "hd p = lower_char (hd w)" by (cases p; cases w) (auto simp: starts_with_iff lower_def)
  with p \<open>w \<noteq> []\<close> show ?thesis by simp
qed

lemma replace_common:
  assumes "plain_schemes schemes" "rep = CHR ''['' # rest"
  shows "\<exists>u v w. replace_references schemes rep s = u @ v \<and> s = u @ w
    \<and> (v = w \<or> v \<noteq> [] \<and> w \<noteq> [] \<and> hd v = CHR ''['' \<and> reference_char (hd w)) \<and> (reference_at schemes s = None \<and> s \<noteq> [] \<longrightarrow> u \<noteq> [])"
  using assms
proof (induction schemes rep s rule: replace_references.induct)
  case (2 schemes rep c cs)
  show ?case
  proof (cases "reference_at schemes (c # cs)")
    case None
    with 2 obtain u v w where "replace_references schemes rep cs = u @ v" "cs = u @ w"
      "v = w \<or> v \<noteq> [] \<and> w \<noteq> [] \<and> hd v = CHR ''['' \<and> reference_char (hd w)" by blast
    with None show ?thesis by (intro exI [of _ "c # u"] exI [of _ v] exI [of _ w]) simp
  next
    case (Some n)
    with reference_head [OF 2(3)] reference_referring have "reference_char c" by (metis list.sel(1) option.distinct(1))
    with Some 2(4) show ?thesis
      by (intro exI [of _ "[]"] exI [of _ "replace_references schemes rep (c # cs)"] exI [of _ "c # cs"]) simp
  qed
qed simp

lemma replaced_free:
  assumes "survives_only P" "plain_schemes schemes" "rep = CHR ''['' # rest" "never_in P rep"
    and "\<forall>n. reference_at schemes (drop n s) = None \<longrightarrow> \<not> P (drop n s)"
  shows "free_of P (replace_references schemes rep s)"
  using assms
proof (induction schemes rep s rule: replace_references.induct)
  case (1 schemes rep)
  then show ?case by (simp add: free_of_def survives_only_def)
next
  case (2 schemes rep c cs)
  have rest: "\<forall>n. reference_at schemes (drop n (drop m (c # cs))) = None \<longrightarrow> \<not> P (drop n (drop m (c # cs)))" for m
    using "2.prems"(5) by simp
  show ?case
  proof (cases "reference_at schemes (c # cs)")
    case None
    obtain u v w where uv: "replace_references schemes rep (c # cs) = u @ v" "c # cs = u @ w"
      "v = w \<or> v \<noteq> [] \<and> w \<noteq> [] \<and> hd v = CHR ''['' \<and> reference_char (hd w)" "u \<noteq> []"
      using replace_common [OF "2.prems"(2,3), of "c # cs"] None by blast
    have "\<not> P (u @ w)" using "2.prems"(5) [rule_format, of 0] None uv(2) by simp
    with "2.prems"(1) uv(3,4) have "\<not> P (u @ v)" unfolding survives_only_def by blast
    moreover have "free_of P (replace_references schemes rep cs)"
      using "2.IH"(1) [OF None "2.prems"(1-4)] rest [of 1] by simp
    moreover have step: "replace_references schemes rep (c # cs) = c # replace_references schemes rep cs" using None by simp
    ultimately show ?thesis unfolding step free_of_Cons using uv(1) step by simp
  next
    case (Some n)
    with "2.IH"(2) [OF Some "2.prems"(1-4) rest] "2.prems"(4) show ?thesis by (simp add: free_of_append)
  qed
qed

lemma tagged_local: "survives_only tagged"
  unfolding survives_only_def
proof (intro conjI allI impI)
  show "\<not> tagged []" by (auto simp: tagged_def CONTROL_TAGS_def starts_with_def lower_def)
next
  fix u v w
  assume t: "tagged (u @ v)" "u \<noteq> []" and "v = w \<or> v \<noteq> [] \<and> w \<noteq> [] \<and> hd v = CHR ''['' \<and> reference_char (hd w)"
  then consider "v = w" | "v \<noteq> []" "hd v = CHR ''[''" by blast
  then show "tagged (u @ w)"
  proof cases
    case 2
    from t obtain p where p: "p \<in> set CONTROL_TAGS" "starts_with p (lower u @ lower v)" by (auto simp: tagged_def)
    have heads: "\<forall>p \<in> set CONTROL_TAGS. CHR ''['' \<notin> set (tl p)" by code_simp
    have bracket: "lower_char (CHR ''['') = CHR ''[''" by code_simp
    from t(2) p(1) heads have "CHR ''['' \<notin> set (drop (length (lower u)) p)"
      by (cases u) (simp, metis drop_Suc in_set_dropD length_Cons length_lower)
    with 2 bracket have "lower v = [] \<or> hd (lower v) \<notin> set (drop (length (lower u)) p)"
      by (cases v) (simp_all add: lower_def)
    from starts_with_split [OF p(2) this] p(1) have "tagged u" by (auto simp: tagged_def)
    then show ?thesis using prefix_closed_patterns(1) by (simp add: prefix_closed_def)
  qed (use t in simp)
qed

lemma referring_local: "plain_schemes schemes \<Longrightarrow> survives_only (referring schemes)"
  unfolding survives_only_def
proof (intro conjI allI impI)
  show "\<not> referring schemes []" by (auto simp: referring_def)
next
  fix u v w
  assume plain: "plain_schemes schemes" and t: "referring schemes (u @ v)"
    and "v = w \<or> v \<noteq> [] \<and> w \<noteq> [] \<and> hd v = CHR ''['' \<and> reference_char (hd w)"
  then consider "v = w" | "v \<noteq> []" "hd v = CHR ''[''" "w \<noteq> []" "reference_char (hd w)" by blast
  then show "referring schemes (u @ w)"
  proof cases
    case 2
    from t obtain p where p: "p \<in> set schemes" "starts_with p (lower u @ lower v)" "drop (length p) (u @ v) \<noteq> []"
      "reference_char (hd (drop (length p) (u @ v)))" by (auto simp: referring_def)
    have bracket: "lower_char (CHR ''['') = CHR ''[''" by code_simp
    from plain p(1) have "CHR ''['' \<notin> set (drop (length (lower u)) p)" by (auto simp: plain_schemes_def dest: in_set_dropD)
    with 2 bracket have "lower v = [] \<or> hd (lower v) \<notin> set (drop (length (lower u)) p)"
      by (cases v) (simp_all add: lower_def)
    from starts_with_split [OF p(2) this] have fits: "starts_with p (lower u)" .
    then have len: "length p \<le> length u" by (auto simp: starts_with_iff dest: arg_cong [where f = length])
    have "starts_with p (lower (u @ w))" using fits by (auto simp: starts_with_iff)
    moreover have "drop (length p) (u @ w) \<noteq> [] \<and> reference_char (hd (drop (length p) (u @ w)))"
      using 2 len p(4) by (cases "length p = length u") (simp_all add: hd_append)
    ultimately show ?thesis using p(1) by (auto simp: referring_def)
  qed (use t in simp)
qed

lemma schemes_plain: "plain_schemes DATA_SCHEMES" "plain_schemes REDIS_SCHEMES"
proof -
  have d: "reference_char c" if "lower_char c = CHR ''d''" for c
    using that by (auto simp: reference_char_def char_defs split: if_splits)
  have r: "reference_char c" if "lower_char c = CHR ''r''" for c
    using that by (auto simp: reference_char_def char_defs split: if_splits)
  show "plain_schemes DATA_SCHEMES" "plain_schemes REDIS_SCHEMES"
    using d r by (simp_all add: plain_schemes_def DATA_SCHEMES_def REDIS_SCHEMES_def)
qed

text \<open>No pattern starts inside a replacement.\<close>

fun clashes :: "string \<Rightarrow> string \<Rightarrow> bool" where
  "clashes [] t = True"
| "clashes (c # cs) t =
     (if lower_char c \<noteq> hd t then clashes cs t
      else \<not> starts_with t (lower (c # cs)) \<and> \<not> starts_with (lower (c # cs)) t \<and> clashes cs t)"

lemma clashes_never: "clashes rep t \<Longrightarrow> t \<noteq> [] \<Longrightarrow> k < length rep \<Longrightarrow> \<not> starts_with t (lower (drop k rep @ b))"
proof (induction rep arbitrary: k)
  case (Cons c cs)
  show ?case
  proof (cases k)
    case 0
    have "lower_char c \<noteq> hd t \<Longrightarrow> \<not> starts_with t (lower (c # cs @ b))"
      using Cons.prems(2) by (cases t) (auto simp: starts_with_iff lower_def)
    with Cons.prems(1) 0 starts_with_both [of t "lower (c # cs)" "lower b"] show ?thesis
      by (auto simp: lower_def split: if_splits)
  qed (use Cons in \<open>auto split: if_splits\<close>)
qed simp

lemma replacements_clash:
  "list_all (clashes ''[embedded data omitted]'') (CONTROL_TAGS @ DATA_SCHEMES @ REDIS_SCHEMES)"
  "list_all (clashes ''[internal reference omitted]'') (CONTROL_TAGS @ DATA_SCHEMES @ REDIS_SCHEMES)"
  by code_simp+

lemma replacements_never:
  assumes "rep \<in> {''[embedded data omitted]'', ''[internal reference omitted]''}"
  shows "never_in tagged rep" "never_in (referring DATA_SCHEMES) rep" "never_in (referring REDIS_SCHEMES) rep"
proof -
  have "clashes rep t" if "t \<in> set CONTROL_TAGS \<union> set DATA_SCHEMES \<union> set REDIS_SCHEMES" for t
    using assms that replacements_clash unfolding list_all_iff set_append by blast
  moreover have "t \<noteq> []" if "t \<in> set CONTROL_TAGS \<union> set DATA_SCHEMES \<union> set REDIS_SCHEMES" for t
    using that by (auto simp: CONTROL_TAGS_def DATA_SCHEMES_def REDIS_SCHEMES_def)
  ultimately show "never_in tagged rep" "never_in (referring DATA_SCHEMES) rep" "never_in (referring REDIS_SCHEMES) rep"
    unfolding never_in_def tagged_def referring_def using clashes_never by blast+
qed

lemma sanitized_clean:
  "free_of tagged (sanitize_turn_part v)" "free_of (referring DATA_SCHEMES) (sanitize_turn_part v)"
  "free_of (referring REDIS_SCHEMES) (sanitize_turn_part v)"
proof -
  let ?a = "remove_blocks v" and ?d = "''[embedded data omitted]''" and ?r = "''[internal reference omitted]''"
  let ?b = "replace_references DATA_SCHEMES ?d ?a"
  let ?c = "replace_references REDIS_SCHEMES ?r ?b"
  have keep: "\<forall>n. reference_at schemes (drop n s) = None \<longrightarrow> \<not> P (drop n s)" if "free_of P s" for P schemes s
    using that by (simp add: free_of_def)
  have own: "\<forall>n. reference_at schemes (drop n s) = None \<longrightarrow> \<not> referring schemes (drop n s)" for schemes s
    by (simp add: reference_referring)
  note d = replaced_free [OF _ schemes_plain(1), of _ ?d] and r = replaced_free [OF _ schemes_plain(2), of _ ?r]
  have b: "free_of tagged ?b" "free_of (referring DATA_SCHEMES) ?b"
    by (rule d [OF tagged_local refl _ keep [OF removed_untagged]], simp add: replacements_never)
      (rule d [OF referring_local [OF schemes_plain(1)] refl _ own], simp add: replacements_never)
  have "free_of tagged ?c" "free_of (referring DATA_SCHEMES) ?c" "free_of (referring REDIS_SCHEMES) ?c"
    by (rule r [OF tagged_local refl _ keep [OF b(1)]], simp add: replacements_never)
      (rule r [OF referring_local [OF schemes_plain(1)] refl _ keep [OF b(2)]], simp add: replacements_never,
       rule r [OF referring_local [OF schemes_plain(2)] refl _ own], simp add: replacements_never)
  then show "free_of tagged (sanitize_turn_part v)" "free_of (referring DATA_SCHEMES) (sanitize_turn_part v)"
    "free_of (referring REDIS_SCHEMES) (sanitize_turn_part v)"
    unfolding sanitize_turn_part_def using prefix_closed_patterns by (auto intro: free_of_take free_of_strip)
qed

text \<open>The loop keeps prefixes, and it only shortens the user's text when nothing is left of the answer.\<close>

lemma shrunk_turn:
  assumes "shrink_turn u a = (u', a')"
  shows "length (turn_document u' a') \<le> MAX_TURN_CHARS \<and> (\<exists>n. u' = take n u) \<and> (\<exists>m. a' = take m a)
    \<and> (u \<noteq> [] \<longrightarrow> u' \<noteq> []) \<and> (a' = [] \<or> u' = u)"
  using assms
proof (induction u a rule: shrink_turn.induct)
  case (1 u a)
  let ?len = "length (turn_document u a)"
  show ?case
  proof (cases "?len \<le> MAX_TURN_CHARS")
    case True
    with "1.prems" show ?thesis by (auto simp: shrink_turn.simps [of u a] Let_def intro: exI [of _ "length u"] exI [of _ "length a"])
  next
    case big: False
    show ?thesis
    proof (cases "a = []")
      case True
      let ?v = "take (max 1 (length u - (?len - MAX_TURN_CHARS) - 1)) u"
      have "shrink_turn ?v a = (u', a')"
        using "1.prems" big True by (simp add: shrink_turn.simps [of u "[]"] Let_def)
      from "1.IH"(2) [OF refl refl big _ this] True
      have *: "length (turn_document u' a') \<le> MAX_TURN_CHARS" "\<exists>n. u' = take n ?v" "a' = []" "?v \<noteq> [] \<longrightarrow> u' \<noteq> []"
        by auto
      moreover have "u \<noteq> [] \<Longrightarrow> ?v \<noteq> []" by (cases u) auto
      moreover have "\<exists>n. u' = take n u" using *(2) by (metis take_take)
      ultimately show ?thesis by auto
    next
      case False
      let ?b = "take (length a - (?len - MAX_TURN_CHARS) - 1) a"
      have "shrink_turn u ?b = (u', a')"
        using "1.prems" big False by (simp add: shrink_turn.simps [of u a] Let_def)
      from "1.IH"(1) [OF refl refl big False this]
      have *: "length (turn_document u' a') \<le> MAX_TURN_CHARS" "\<exists>n. u' = take n u" "\<exists>m. a' = take m ?b" "u \<noteq> [] \<longrightarrow> u' \<noteq> []"
        "a' = [] \<or> u' = u" by auto
      moreover have "\<exists>m. a' = take m a" using *(3) by (metis take_take)
      ultimately show ?thesis by blast
    qed
  qed
qed

lemma turn_readable: "json_ok fl (turn_json u a)"
  by (simp add: turn_json_def turn_message_def)

lemma contains_drop: "contains p s \<longleftrightarrow> (\<exists>n. starts_with p (drop n s))"
proof (induction s)
  case Nil
  then show ?case by (auto simp: starts_with_def)
next
  case (Cons c s)
  have "(\<exists>n. starts_with p (drop n (c # s))) \<longleftrightarrow> starts_with p (c # s) \<or> (\<exists>n. starts_with p (drop n s))"
    by (metis drop0 drop_Suc_Cons not0_implies_Suc)
  with Cons show ?case by simp
qed

section \<open>Properties\<close>

text \<open>C24. Nothing injected or internal is retained: whatever a turn contains, the part that is kept holds no control
  tag in any case, no \<open>data:\<close> URL and no Redis reference, not even one that the removal of another would have
  put together, and it has at most 5500 characters.\<close>

theorem retained_part_clean:
  "list_all (\<lambda>t. \<not> contains t (lower (sanitize_turn_part v))) CONTROL_TAGS
   \<and> free_of (referring [''data:'', ''redis://'', ''rediss://'']) (sanitize_turn_part v)
   \<and> length (sanitize_turn_part v) \<le> 5500"
proof (intro conjI)
  have "\<not> tagged (drop n (sanitize_turn_part v))" for n using sanitized_clean(1) [of v] by (simp add: free_of_def)
  then show "list_all (\<lambda>t. \<not> contains t (lower (sanitize_turn_part v))) CONTROL_TAGS"
    by (auto simp: list_all_iff contains_drop tagged_def lower_def simp flip: drop_map)
  have "referring [''data:'', ''redis://'', ''rediss://''] s \<Longrightarrow> referring DATA_SCHEMES s \<or> referring REDIS_SCHEMES s" for s
    by (auto simp: referring_def DATA_SCHEMES_def REDIS_SCHEMES_def)
  with sanitized_clean(2,3) [of v]
  show "free_of (referring [''data:'', ''redis://'', ''rediss://'']) (sanitize_turn_part v)"
    unfolding free_of_def by blast
  show "length (sanitize_turn_part v) \<le> 5500" by (simp add: sanitize_turn_part_def)
qed

text \<open>C25. The turn document is bounded and faithful: its loop ends for every turn whose user text is not empty, the
  document has at most 12000 characters and decodes to the two texts, each cut at the end if at all, the user's
  never to nothing, and cut only after nothing of the answer is left.\<close>

theorem turn_document_faithful:
  assumes "sanitize_turn_part user_content \<noteq> []"
  shows "\<exists>d u a. completed_turn_document user_content assistant_content = Inr d \<and> length d \<le> 12000
    \<and> json_loads_exact fl d = Some (turn_json u a)
    \<and> prefix u (sanitize_turn_part user_content) \<and> u \<noteq> [] \<and> prefix a (sanitize_turn_part assistant_content)
    \<and> (a = [] \<or> u = sanitize_turn_part user_content)"
proof -
  let ?U = "sanitize_turn_part user_content" and ?A = "sanitize_turn_part assistant_content"
  obtain u a where s: "shrink_turn ?U ?A = (u, a)" by force
  from shrunk_turn [OF this] assms have f: "length (turn_document u a) \<le> 12000" "prefix u ?U" "u \<noteq> []" "prefix a ?A" "a = [] \<or> u = ?U"
    by (auto simp: MAX_TURN_CHARS_def take_is_prefix)
  moreover have "json_loads_exact fl (turn_document u a) = Some (turn_json u a)"
    unfolding turn_document_def by (rule loads_dumps [OF turn_readable])
  moreover have "completed_turn_document user_content assistant_content = Inr (turn_document u a)"
    using assms s by (simp add: completed_turn_document_def)
  ultimately show ?thesis by blast
qed

theorem turn_document_faithful_witness:
  "sanitize_turn_part ''note [IDENTITY] root'' = ''note'' \<and>
   (\<exists>d u a. completed_turn_document ''note [IDENTITY] root'' ''see redis://db/1 now'' = Inr d \<and> u \<noteq> []
      \<and> json_loads_exact (\<lambda>_. NaN) d = Some (turn_json u a))"
proof -
  have s: "sanitize_turn_part ''note [IDENTITY] root'' = ''note''" by code_simp
  then have "sanitize_turn_part ''note [IDENTITY] root'' \<noteq> []" by simp
  from turn_document_faithful [OF this, of "''see redis://db/1 now''" "\<lambda>_. NaN"] s show ?thesis by auto
qed

text \<open>C27. The report of an operation is well typed whatever the memory service answers: its eight fields in order, a
  status of the closed set, whole numbers as counts, and \<open>completed\<close> only when facts were extracted.\<close>

theorem operation_report_typed:
  assumes "normalized_operation d = Inr r"
  shows "\<exists>i status n m k. map fst r = [''operation_id'', ''status'', ''unit_ids_count'', ''extraction_errors_count'',
       ''retry_count'', ''created_at'', ''updated_at'', ''completed_at'']
    \<and> dict_get r ''operation_id'' = JStr i \<and> dict_get r ''status'' = JStr status
    \<and> status \<in> set (''zero_fact'' # OPERATION_STATUSES) \<and> dict_get r ''unit_ids_count'' = JInt n
    \<and> dict_get r ''extraction_errors_count'' = JInt m \<and> dict_get r ''retry_count'' = JInt k
    \<and> (status = ''completed'' \<longrightarrow> n \<noteq> 0)"
proof -
  from assms obtain n m k where r: "r = [(''operation_id'', JStr (py_str (py_or (dict_get d ''operation_id'') (JStr [])))),
      (''status'', JStr (if py_str (py_or (dict_get d ''status'') (JStr ''not_found'')) = ''completed'' \<and> n = 0 then ''zero_fact''
                         else if py_str (py_or (dict_get d ''status'') (JStr ''not_found'')) \<notin> set OPERATION_STATUSES then ''not_found''
                         else py_str (py_or (dict_get d ''status'') (JStr ''not_found'')))),
      (''unit_ids_count'', JInt n), (''extraction_errors_count'', JInt m), (''retry_count'', JInt k),
      (''created_at'', dict_get d ''created_at''), (''updated_at'', dict_get d ''updated_at''),
      (''completed_at'', dict_get d ''completed_at'')]"
    unfolding normalized_operation_def Let_def bind_result_Inr by blast
  have "''not_found'' \<in> set OPERATION_STATUSES" "''not_found'' \<noteq> ''completed''" by (simp_all add: OPERATION_STATUSES_def)
  then show ?thesis unfolding r by (simp add: dict_get_def)
qed

theorem operation_report_typed_witness:
  "\<exists>r. normalized_operation [(''status'', JStr ''completed''), (''result_metadata'', JObj [(''unit_ids_count'', JStr ''x'')])] = Inr r
     \<and> dict_get r ''status'' = JStr ''zero_fact'' \<and> map fst r \<noteq> []"
proof -
  let ?d = "[(''status'', JStr ''completed''), (''result_metadata'', JObj [(''unit_ids_count'', JStr ''x'')])]"
  have "py_int (JStr ''x'') = Inl (ValueError ''invalid literal for int()'')"
    by (simp add: int_of_text_def unsigned_text_def string_defs)
  then obtain r where r: "normalized_operation ?d = Inr r" "dict_get r ''status'' = JStr ''zero_fact''"
    by (simp add: normalized_operation_def count_or_zero_def dict_get_def py_or_def py_str_def OPERATION_STATUSES_def del: py_int.simps(4))
  from operation_report_typed [OF r(1)] r show ?thesis by force
qed

section \<open>Two findings\<close>

text \<open>The pattern for data URLs is not anchored: a label that ends in \<open>data:\<close> is taken for one.\<close>

lemma label_taken_for_data_url: "sanitize_turn_part ''metadata:owner'' = ''meta[embedded data omitted]''"
  by code_simp

text \<open>Only the two extraction counts are guarded: another count that is no number raises.\<close>

lemma retry_count_raises:
  "normalized_operation [(''retry_count'', JStr ''x'')] = Inl (ValueError ''invalid literal for int()'')"
proof -
  have "py_int (JStr ''x'') = Inl (ValueError ''invalid literal for int()'')"
    by (simp add: int_of_text_def unsigned_text_def string_defs)
  then show ?thesis
    by (simp add: normalized_operation_def count_or_zero_def dict_get_def py_or_def py_str_def del: py_int.simps(4))
qed

end
