(* ===== verification/Memory_Api.thy ===== *)
theory Memory_Api
  imports Memory_Turns Memory_Context
begin

text \<open>
  The memory routes (\<open>builder/memory_api.py\<close>) and the deletion lifecycle
  (\<open>nat_helpers/memory_lifecycle.py\<close>).

  \<^item> A request reaches a handler with its two identity headers. A raised \<open>HTTPException\<close> is a left value.
  \<^item> Clearing the caches is the outcome of the steps of \<open>Memory_Fence\<close>, here an argument. The shared client,
    the reading of the clock and the bootstrap world are arguments too.
  \<^item> FastAPI answers 422 to a body or a query parameter that its declared bounds refuse.
\<close>

section \<open>Identifiers, identity and errors\<close>

definition id_char :: "char \<Rightarrow> bool" where
  "id_char c = (is_digit c \<or> is_lower_letter c \<or> is_upper_letter c \<or> c \<in> set ''._:-'')"

definition id_pattern :: "string \<Rightarrow> bool" where
  "id_pattern s =
     (case s of
        [] \<Rightarrow> False
      | c # cs \<Rightarrow> (is_digit c \<or> is_lower_letter c \<or> is_upper_letter c) \<and> length cs \<le> 255 \<and> list_all id_char cs)"

definition validate_resource_id :: "string \<Rightarrow> string \<Rightarrow> string result" where
  "validate_resource_id v label =
     (let cleaned = strip v in
      if \<not> id_pattern cleaned then Inl (HTTPException 400 (''invalid '' @ label)) else Inr cleaned)"

definition identity_headers :: "string option \<Rightarrow> string option \<Rightarrow> headers" where
  "identity_headers x_user_id x_token =
     (if or_empty x_user_id = [] then [] else [(''x-user-id'', or_empty x_user_id)])
     @ (if or_empty x_token = [] then [] else [(''x-daedalus-internal-token'', or_empty x_token)])"

definition authenticated_user :: "settings \<Rightarrow> string option \<Rightarrow> string option \<Rightarrow> string result" where
  "authenticated_user G x_user_id x_token =
     (case authenticated_user_id_from_headers G (Some (identity_headers x_user_id x_token)) of
        Inl (ValueError m) \<Rightarrow> Inl (HTTPException 401 m)
      | r \<Rightarrow> r)"

definition require_hindsight :: "string option \<Rightarrow> unit result" where
  "require_hindsight mode_env =
     (case memory_mode mode_env of
        Inl e \<Rightarrow> Inl (HTTPException 503 ''memory is misconfigured'')
      | Inr m \<Rightarrow>
          if m \<noteq> ''hindsight'' then Inl (HTTPException 503 ''Hindsight memory is not enabled'') else Inr ())"

text \<open>\<open>_call\<close>.\<close>

definition api_error :: "memory_error \<Rightarrow> py_error" where
  "api_error e =
     (case e of
        Raised (ValueError m) \<Rightarrow> HTTPException 400 m
      | Raised e' \<Rightarrow> e'
      | HindsightError m (Some n) \<Rightarrow>
          if n = 400 then HTTPException 400 ''Memory service rejected this request.''
          else if n = 404 then HTTPException 404 ''Memory resource was not found. Refresh and try again.''
          else HTTPException 502 ''memory service unavailable''
      | HindsightError m None \<Rightarrow> HTTPException 502 ''memory service unavailable'')"

type_synonym 'a answer = "service \<Rightarrow> request list \<Rightarrow> 'a result \<times> request list"

definition api_call :: "'a call \<Rightarrow> ('a \<Rightarrow> 'b result) \<Rightarrow> 'b answer" where
  "api_call m f S h = (case m S h of (Inl e, h') \<Rightarrow> (Inl (api_error e), h') | (Inr x, h') \<Rightarrow> (f x, h'))"

section \<open>Requests\<close>

record turn_request =
  rt_request_id :: string
  rt_conversation :: "string option"
  rt_assistant_message :: "string option"
  rt_user_content :: "string option"
  rt_assistant_content :: "string option"
  rt_content :: "string option"

definition at_most :: "nat \<Rightarrow> string option \<Rightarrow> bool" where
  "at_most n s = (length (or_empty s) \<le> n)"

text \<open>The bounds of \<open>RetainTurnRequest\<close> and its validator.\<close>

definition valid_turn_request :: "turn_request \<Rightarrow> bool" where
  "valid_turn_request b =
     (1 \<le> length (rt_request_id b) \<and> length (rt_request_id b) \<le> 256 \<and> at_most 256 (rt_conversation b)
      \<and> at_most 256 (rt_assistant_message b) \<and> at_most MAX_TURN_CHARS (rt_user_content b)
      \<and> at_most MAX_TURN_CHARS (rt_assistant_content b) \<and> at_most MAX_TURN_CHARS (rt_content b)
      \<and> (or_empty (rt_user_content b) \<noteq> [] \<or> or_empty (rt_content b) \<noteq> []))"

datatype memory_request =
    RetainTurn turn_request
  | GetOperation string
  | RetryOperation string
  | ListPages
  | GetPage string
  | ListMemories string string int int
  | UpdateMemory string string
  | InvalidateMemory string string
  | ListSources string int int
  | GetSource string
  | DeleteSource string
  | ClearMemories string

definition valid_request :: "memory_request \<Rightarrow> bool" where
  "valid_request q =
     (case q of
        RetainTurn b \<Rightarrow> valid_turn_request b
      | ListMemories s t limit offset \<Rightarrow> 1 \<le> limit \<and> limit \<le> 100 \<and> 0 \<le> offset
      | ListSources s limit offset \<Rightarrow> 1 \<le> limit \<and> limit \<le> 100 \<and> 0 \<le> offset
      | UpdateMemory i new_text \<Rightarrow> 1 \<le> length new_text \<and> length new_text \<le> MAX_TURN_CHARS
      | InvalidateMemory i reason \<Rightarrow> length reason \<le> 500
      | _ \<Rightarrow> True)"

definition CLEAR_CONFIRMATION :: string where
  "CLEAR_CONFIRMATION = ''DELETE ALL MY MEMORIES''"

section \<open>Handlers\<close>

record memory_env =
  me_ids :: memory_ids
  me_guidance :: string
  me_mode :: "string option"
  me_auth :: settings
  me_client :: "client_settings result"
  me_boot :: boot_world
  me_now :: string
  me_clear_caches :: "py_error option"

definition turn_content :: "turn_request \<Rightarrow> string result" where
  "turn_content b =
     (case completed_turn_document
             (if or_empty (rt_user_content b) \<noteq> [] then or_empty (rt_user_content b) else or_empty (rt_content b))
             (or_empty (rt_assistant_content b)) of
        Inl (ValueError m) \<Rightarrow> Inl (HTTPException 400 m)
      | r \<Rightarrow> r)"

definition turn_metadata :: "turn_request \<Rightarrow> string \<Rightarrow> dict" where
  "turn_metadata b request_id =
     [(''source'', JStr ''interactive-turn''), (''schema'', JStr ''daedalus.completed-turn.v1''),
      (''status'', JStr ''completed''), (''request_id'', JStr request_id),
      (''conversation_id'', JStr (or_empty (rt_conversation b))),
      (''assistant_message_id'', JStr (or_empty (rt_assistant_message b)))]"

definition retain_turn_for_user ::
  "memory_env \<Rightarrow> turn_request \<Rightarrow> string \<Rightarrow> boot_state \<Rightarrow> service \<Rightarrow> request list \<Rightarrow> json result \<times> boot_state \<times> request list" where
  "retain_turn_for_user E b user_id st S h =
     (case validate_resource_id (rt_request_id b) ''request ID'' of
        Inl e \<Rightarrow> (Inl e, st, h)
      | Inr request_id \<Rightarrow>
        (case turn_content b of
           Inl e \<Rightarrow> (Inl e, st, h)
         | Inr doc \<Rightarrow>
           (case me_client E of
              Inl e \<Rightarrow> (Inl e, st, h)
            | Inr _ \<Rightarrow>
              (case ensure_bank_initialized (me_ids E) (me_guidance E) (me_boot E) user_id st S h of
                 (_, st', h') \<Rightarrow>
                   (case deterministic_document_id (me_ids E) user_id ''turn'' request_id doc of
                      Inl e \<Rightarrow> (Inl e, st', h')
                    | Inr document_id \<Rightarrow>
                        (case api_call (retain (me_ids E) user_id
                                 \<lparr>mi_content = doc, mi_document = document_id, mi_context = ''Daedalus completed interactive turn'',
                                  mi_tags = [''source:interactive-turn''], mi_metadata = turn_metadata b request_id,
                                  mi_timestamp = Some (me_now E)\<rparr> True)
                               (\<lambda>r. Inr (JObj [(''status'', JStr ''accepted''), (''operation_id'', dict_get r ''operation_id''),
                                              (''document_id'', JStr document_id)])) S h' of
                           (r, h'') \<Rightarrow> (r, st', h''))))))) "

definition select_fields :: "string list \<Rightarrow> dict \<Rightarrow> json" where
  "select_fields ks d = JObj (map (\<lambda>k. (k, dict_get d k)) ks)"

text \<open>\<open>_flatten_knowledge_pages\<close>: the pages of the tree, with six fields.\<close>

definition page_items :: "dict list \<Rightarrow> json" where
  "page_items nodes =
     (let items = map (select_fields [''id'', ''name'', ''description'', ''tags'', ''timestamp'', ''is_stale''])
                      (flatten_pages nodes) in
      JObj [(''items'', JList items), (''total'', JInt (int (length items)))])"

text \<open>\<open>clear_user_memory\<close>, with the outcome of clearing the caches.\<close>

fun delete_roots :: "memory_ids \<Rightarrow> string \<Rightarrow> dict list \<Rightarrow> unit call" where
  "delete_roots I user_id [] = give ()"
| "delete_roots I user_id (root_node # nodes) =
     (if strip (id_text root_node) = [] then delete_roots I user_id nodes
      else and_then (delete_knowledge_node I user_id (id_text root_node)) (\<lambda>_. delete_roots I user_id nodes))"

definition clear_user_memory :: "memory_ids \<Rightarrow> string \<Rightarrow> py_error option \<Rightarrow> dict call" where
  "clear_user_memory I user_id clear_caches =
     and_then (knowledge_tree I user_id) (\<lambda>tree.
     and_then (clear_memories I user_id) (\<lambda>r.
     and_then (delete_roots I user_id tree) (\<lambda>_.
       case clear_caches of Some e \<Rightarrow> fail (Raised e) | None \<Rightarrow> give r)))"

definition boot_failure :: "boot_error \<Rightarrow> py_error" where
  "boot_failure e = (case e of Failed (Raised e') \<Rightarrow> e' | _ \<Rightarrow> RuntimeError ''memory bank initialization failed'')"

definition clear_memories_for_user ::
  "memory_env \<Rightarrow> string \<Rightarrow> string \<Rightarrow> boot_state \<Rightarrow> service \<Rightarrow> request list \<Rightarrow> json result \<times> boot_state \<times> request list" where
  "clear_memories_for_user E confirmation user_id st S h =
     (if confirmation \<noteq> CLEAR_CONFIRMATION then (Inl (HTTPException 400 ''confirmation phrase does not match''), st, h)
      else case me_client E of
        Inl e \<Rightarrow> (Inl e, st, h)
      | Inr _ \<Rightarrow>
          (case clear_user_memory (me_ids E) user_id (me_clear_caches E) S h of
             (Inl e, h') \<Rightarrow> (Inl (HTTPException 503 ''memory deletion did not finish; cleanup must be retried''), st, h')
           | (Inr r, h') \<Rightarrow>
               (case ensure_bank_initialized (me_ids E) (me_guidance E) (me_boot E) user_id st S h' of
                  (Some e, st', h'') \<Rightarrow> (Inl (boot_failure e), st', h'')
                | (None, st', h'') \<Rightarrow>
                    (Inr (JObj [(''status'', JStr ''cleared''), (''result'', JObj r)]), st', h''))))"

text \<open>A handler that validates one identifier and makes one call. Where \<open>late\<close> holds the client is built before the
  identifier is checked.\<close>

definition by_id :: "memory_env \<Rightarrow> string \<Rightarrow> string \<Rightarrow> bool \<Rightarrow> (string \<Rightarrow> 'a call) \<Rightarrow> (string \<Rightarrow> 'a \<Rightarrow> json result) \<Rightarrow> json answer" where
  "by_id E v label late m f S h =
     (case (me_client E, validate_resource_id v label) of
        (Inl e, Inr _) \<Rightarrow> (Inl e, h)
      | (Inl e, Inl e') \<Rightarrow> (Inl (if late then e else e'), h)
      | (Inr _, Inl e') \<Rightarrow> (Inl e', h)
      | (Inr _, Inr i) \<Rightarrow> api_call (m i) (f i) S h)"

definition with_client :: "memory_env \<Rightarrow> json answer \<Rightarrow> json answer" where
  "with_client E m S h = (case me_client E of Inl e \<Rightarrow> (Inl e, h) | Inr _ \<Rightarrow> m S h)"

definition PAGE_FIELDS :: "string list" where
  "PAGE_FIELDS = [''id'', ''name'', ''type'', ''description'', ''tags'', ''timestamp'', ''body'', ''markdown'']"

definition as_object :: "dict \<Rightarrow> json result" where
  "as_object d = Inr (JObj d)"

text \<open>The routes for the authenticated user that leave the bootstrap alone.\<close>

definition plain_request :: "memory_env \<Rightarrow> string \<Rightarrow> memory_request \<Rightarrow> json answer" where
  "plain_request E user q =
     (let I = me_ids E in
      case q of
        GetOperation i \<Rightarrow> by_id E i ''operation ID'' True (get_operation I user) (\<lambda>_ d. map_sum id JObj (normalized_operation d))
      | RetryOperation i \<Rightarrow> by_id E i ''operation ID'' False (retry_operation I user)
          (\<lambda>clean _. Inr (JObj [(''operation_id'', JStr clean), (''status'', JStr ''pending'')]))
      | GetPage i \<Rightarrow> by_id E i ''page ID'' True (get_knowledge_page I user) (\<lambda>_ d. Inr (select_fields PAGE_FIELDS d))
      | ListMemories s t limit offset \<Rightarrow> with_client E (api_call (list_memories I user s t limit offset) as_object)
      | UpdateMemory i new_text \<Rightarrow> by_id E i ''memory ID'' True (\<lambda>m. update_memory I user m new_text) (\<lambda>_. as_object)
      | InvalidateMemory i reason \<Rightarrow> by_id E i ''memory ID'' True (\<lambda>m. invalidate_memory I user m reason) (\<lambda>_. as_object)
      | ListSources s limit offset \<Rightarrow> with_client E (api_call (list_documents I user s limit offset []) as_object)
      | GetSource i \<Rightarrow> by_id E i ''document ID'' True (get_document I user) (\<lambda>_. as_object)
      | DeleteSource i \<Rightarrow> by_id E i ''document ID'' True (delete_document I user) (\<lambda>_. as_object)
      | _ \<Rightarrow> (\<lambda>S h. (Inr JNull, h)))"

definition list_pages :: "memory_env \<Rightarrow> string \<Rightarrow> boot_state \<Rightarrow> service \<Rightarrow> request list \<Rightarrow> json result \<times> boot_state \<times> request list" where
  "list_pages E user st S h =
     (case me_client E of
        Inl e \<Rightarrow> (Inl e, st, h)
      | Inr _ \<Rightarrow>
          (case ensure_bank_initialized (me_ids E) (me_guidance E) (me_boot E) user st S h of
             (_, st', h') \<Rightarrow>
               (case api_call (knowledge_tree (me_ids E) user) (\<lambda>nodes. Inr (page_items nodes)) S h' of
                  (r, h'') \<Rightarrow> (r, st', h''))))"

definition memory_route ::
  "memory_env \<Rightarrow> string option \<Rightarrow> string option \<Rightarrow> memory_request \<Rightarrow> boot_state \<Rightarrow> service \<Rightarrow> request list \<Rightarrow>
     json result \<times> boot_state \<times> request list" where
  "memory_route E x_user_id x_token q st S h =
     (if \<not> valid_request q then (Inl (HTTPException 422 ''Unprocessable Entity''), st, h)
      else case require_hindsight (me_mode E) of
        Inl e \<Rightarrow> (Inl e, st, h)
      | Inr _ \<Rightarrow>
          (case q of
             ClearMemories confirmation \<Rightarrow>
               if confirmation \<noteq> CLEAR_CONFIRMATION then (Inl (HTTPException 400 ''confirmation phrase does not match''), st, h)
               else (case authenticated_user (me_auth E) x_user_id x_token of
                       Inl e \<Rightarrow> (Inl e, st, h)
                     | Inr user \<Rightarrow> clear_memories_for_user E confirmation user st S h)
           | _ \<Rightarrow>
               (case authenticated_user (me_auth E) x_user_id x_token of
                  Inl e \<Rightarrow> (Inl e, st, h)
                | Inr user \<Rightarrow>
                    (case q of
                       RetainTurn b \<Rightarrow> retain_turn_for_user E b user st S h
                     | ListPages \<Rightarrow> list_pages E user st S h
                     | _ \<Rightarrow> (case plain_request E user q S h of (r, h') \<Rightarrow> (r, st, h'))))))"

section \<open>Facts\<close>

lemma pattern_resource: "id_pattern s \<Longrightarrow> resource_id s"
  by (cases s) (auto simp: id_pattern_def resource_id_def char_defs)

lemma validated_resource: "validate_resource_id v label = Inr i \<Longrightarrow> resource_id i"
  by (auto simp: validate_resource_id_def pattern_resource Let_def split: if_splits)

lemma bootstrap_confined: "sends_only (confined I u) (bootstrap_bank I guidance u)"
proof -
  have "sends_only (confined I u) (create_missing I u existing pages)" for existing pages
    by (induction I u existing pages rule: create_missing.induct) (auto intro!: requests)
  then show ?thesis unfolding bootstrap_bank_def Let_def by (intro requests)
qed

lemma prefix_of_run:
  assumes "sends_only P m" "m S h = (r, h')"
  shows "\<exists>rs. take (length h + n) h' = h @ rs \<and> list_all P rs"
  using sends_at [OF assms] in_set_takeD by (fastforce simp: list_all_iff)

text \<open>The requests of an answer.\<close>

definition adds :: "(request \<Rightarrow> bool) \<Rightarrow> request list \<Rightarrow> request list \<Rightarrow> bool" where
  "adds P h h' \<longleftrightarrow> (\<exists>rs. h' = h @ rs \<and> list_all P rs)"

lemma adds_refl [requests, simp]: "adds P h h"
  by (simp add: adds_def)

lemma adds_trans: "adds P h h1 \<Longrightarrow> adds P h1 h2 \<Longrightarrow> adds P h h2"
  by (auto simp: adds_def)

lemma adds_sent: "sends_only P m \<Longrightarrow> m S h = (r, h') \<Longrightarrow> adds P h h'"
  using sends_at by (fastforce simp: adds_def)

lemma bootstrap_run_adds: "run_bootstrap I guidance u interrupt S h = (r, h') \<Longrightarrow> adds (confined I u) h h'"
proof -
  assume run: "run_bootstrap I guidance u interrupt S h = (r, h')"
  obtain x k where b: "bootstrap_bank I guidance u S h = (x, k)" by force
  show ?thesis
  proof (cases interrupt)
    case None
    with run b have "h' = k" by (simp add: run_bootstrap_def)
    with adds_sent [OF bootstrap_confined b] show ?thesis by simp
  next
    case (Some n)
    with run b have "h' = take (length h + n) k" by (simp add: run_bootstrap_def)
    with prefix_of_run [OF bootstrap_confined b] show ?thesis by (simp add: adds_def)
  qed
qed

lemma ensure_adds:
  assumes "ensure_bank_initialized I guidance W u st S h = (r, st', h')"
  shows "adds (confined I u) h h'"
proof -
  obtain x k where b: "run_bootstrap I guidance u (cancelled W) S h = (x, k)" by force
  from bootstrap_run_adds [OF b] have "h' = h \<or> h' = k \<Longrightarrow> ?thesis" by auto
  moreover have "h' = h \<or> h' = k"
    using assms b by (auto simp: ensure_bank_initialized_def Let_def split: sum.splits if_splits coordination.splits option.splits)
  ultimately show ?thesis by blast
qed

lemma api_adds: "sends_only P m \<Longrightarrow> api_call m f S h = (r, h') \<Longrightarrow> adds P h h'"
  using adds_sent [of P m S h] by (cases "m S h") (auto simp: api_call_def split: sum.splits)

lemma by_id_adds:
  assumes "by_id E v label late m f S h = (r, h')" and "\<And>i. resource_id i \<Longrightarrow> sends_only P (m i)"
  shows "adds P h h'"
  using assms validated_resource api_adds
  by (cases "me_client E"; cases "validate_resource_id v label") (fastforce simp: by_id_def)+

lemma with_client_adds: "sends_only P m \<Longrightarrow> with_client E (api_call m f) S h = (r, h') \<Longrightarrow> adds P h h'"
  by (cases "me_client E") (auto simp: with_client_def dest: api_adds)

lemma plain_adds: "plain_request E user q S h = (r, h') \<Longrightarrow> adds (confined (me_ids E) user) h h'"
  unfolding plain_request_def Let_def
  by (cases q) (auto elim!: by_id_adds with_client_adds [rotated] intro: confined_operations confined_resources)

lemma retain_turn_adds:
  "retain_turn_for_user E b user st S h = (r, st', h') \<Longrightarrow> adds (confined (me_ids E) user) h h'"
  unfolding retain_turn_for_user_def
  by (auto split: sum.splits prod.splits
      dest!: ensure_adds api_adds [OF confined_operations(1)] intro: adds_trans)

lemma list_pages_adds: "list_pages E user st S h = (r, st', h') \<Longrightarrow> adds (confined (me_ids E) user) h h'"
  unfolding list_pages_def
  by (auto split: sum.splits prod.splits dest!: ensure_adds api_adds [OF confined_operations(8)] intro: adds_trans)

text \<open>A request of a call was sent and answered without an error.\<close>

definition answered :: "service \<Rightarrow> request list \<Rightarrow> string \<Rightarrow> string \<Rightarrow> bool" where
  "answered S h' method url \<longleftrightarrow>
     (\<exists>before q rest d. h' = before @ q # rest \<and> verb q = method \<and> target q = url \<and> read_reply (S before q) = Inr d)"

lemma answered_adds: "answered S h method url \<Longrightarrow> adds P h h' \<Longrightarrow> answered S h' method url"
  unfolding answered_def adds_def by (metis append_Cons append_assoc)

lemma bank_request_answered:
  assumes "bank_request I method u rest body params wait S h = (Inr d, h')"
  shows "\<exists>url. bank_path I u rest = Inr url \<and> answered S h' method url"
proof (cases "bank_path I u rest")
  case (Inl e)
  with assms show ?thesis by (simp add: bank_request_def and_then_def checked_def fail_def)
next
  case (Inr url)
  let ?q = "\<lparr>verb = method, target = url, json_body = body, query_params = params, deadline_s = wait\<rparr>"
  from assms Inr have "read_reply (S h ?q) = Inr d" "h' = h @ [?q]"
    by (simp_all add: bank_request_def and_then_def checked_def give_def send_request_def Let_def)
  with Inr show ?thesis unfolding answered_def by (intro exI [of _ url] conjI exI [of _ h] exI [of _ ?q] exI [of _ "[]"] exI [of _ d]) simp_all
qed

lemma delete_roots_sends: "sends_only (\<lambda>_. True) (delete_roots I u ks)"
proof (induction ks)
  case (Cons k ks)
  have "sends_only (\<lambda>_. True) (delete_knowledge_node I u i)" for i
    unfolding delete_knowledge_node_def bank_request_def by (intro requests) simp
  with Cons show ?case by (auto intro!: requests)
qed (simp add: requests)

lemma delete_roots_answered:
  assumes "delete_roots I u nodes S h = (Inr (), h')" and "n \<in> set nodes" and "strip (id_text n) \<noteq> []"
  shows "\<exists>url. bank_path I u (''knowledge-base/nodes/'' @ quote_segment (id_text n)) = Inr url \<and> answered S h' ''DELETE'' url"
  using assms
proof (induction nodes arbitrary: h)
  case (Cons m nodes)
  show ?case
  proof (cases "strip (id_text m) = []")
    case True
    with Cons show ?thesis by auto
  next
    case False
    with Cons.prems(1) obtain d h1 where del: "delete_knowledge_node I u (id_text m) S h = (Inr d, h1)"
      and rest: "delete_roots I u nodes S h1 = (Inr (), h')"
      by (auto simp: and_then_def split: prod.splits sum.splits)
    show ?thesis
    proof (cases "n = m")
      case True
      from bank_request_answered [OF del [unfolded delete_knowledge_node_def]] True adds_sent [OF delete_roots_sends rest]
      show ?thesis using answered_adds by blast
    qed (use Cons rest in auto)
  qed
qed simp

section \<open>Properties\<close>


definition sample_memory_env :: memory_env where
  "sample_memory_env = \<lparr>me_ids = sample_ids, me_guidance = ''g'', me_mode = None,
     me_auth = \<lparr>token_env = Some ''secret'', insecure_env = None\<rparr>,
     me_client = Inr \<lparr>base_url = ''http://h'', api_key = ''k'', client_timeout = Finite 60 ''60.0''\<rparr>,
     me_boot = Memory_Context.sample_world, me_now = ''now'', me_clear_caches = None\<rparr>"


text \<open>C23. A clear is acknowledged only when it is complete: the phrase and the identity were right, and the memory
  service accepted the deletion of the user's memories and of every root of the knowledge tree read before; the
  user's caches are cleared as well.\<close>

theorem clear_complete:
  assumes "memory_route E x_user_id x_token (ClearMemories phrase) st S h = (Inr v, st', h')"
  shows "phrase = ''DELETE ALL MY MEMORIES'' \<and> me_clear_caches E = None
    \<and> (\<exists>user nodes url. authenticated_user (me_auth E) x_user_id x_token = Inr user
         \<and> fst (knowledge_tree (me_ids E) user S h) = Inr nodes
         \<and> bank_path (me_ids E) user ''memories'' = Inr url \<and> answered S h' ''DELETE'' url
         \<and> (\<forall>n \<in> set nodes. strip (id_text n) \<noteq> [] \<longrightarrow>
              (\<exists>url. bank_path (me_ids E) user (''knowledge-base/nodes/'' @ quote_segment (id_text n)) = Inr url
                 \<and> answered S h' ''DELETE'' url)))"
proof -
  from assms obtain user where user: "authenticated_user (me_auth E) x_user_id x_token = Inr user"
    and phrase: "phrase = CLEAR_CONFIRMATION" and c: "clear_memories_for_user E phrase user st S h = (Inr v, st', h')"
    by (auto simp: memory_route_def split: if_splits sum.splits)
  from c phrase obtain d h1 where clr: "clear_user_memory (me_ids E) user (me_clear_caches E) S h = (Inr d, h1)"
    and boot: "ensure_bank_initialized (me_ids E) (me_guidance E) (me_boot E) user st S h1 = (None, st', h')"
    by (auto simp: clear_memories_for_user_def split: sum.splits prod.splits option.splits)
  from clr obtain nodes h2 d2 h3 where tree: "knowledge_tree (me_ids E) user S h = (Inr nodes, h2)"
    and mem: "clear_memories (me_ids E) user S h2 = (Inr d2, h3)"
    and del: "delete_roots (me_ids E) user nodes S h3 = (Inr (), h1)" and caches: "me_clear_caches E = None"
    by (auto simp: clear_user_memory_def and_then_def fail_def give_def split: prod.splits sum.splits option.splits)
  note more = ensure_adds [OF boot]
  from bank_request_answered [OF mem [unfolded clear_memories_def]] obtain url where
    url: "bank_path (me_ids E) user ''memories'' = Inr url" "answered S h3 ''DELETE'' url" by blast
  from answered_adds [OF answered_adds [OF url(2) adds_sent [OF delete_roots_sends del]] more] have "answered S h' ''DELETE'' url" .
  moreover have "\<forall>n \<in> set nodes. strip (id_text n) \<noteq> [] \<longrightarrow>
      (\<exists>url. bank_path (me_ids E) user (''knowledge-base/nodes/'' @ quote_segment (id_text n)) = Inr url \<and> answered S h' ''DELETE'' url)"
    using delete_roots_answered [OF del] answered_adds [OF _ more] by blast
  ultimately show ?thesis using user tree url(1) caches phrase by (auto simp: CLEAR_CONFIRMATION_def)
qed

definition sample_tree :: service where
  "sample_tree h q =
     Reply 200 (Parsed (JObj (if verb q = ''GET'' then [(''roots'', JList [JObj [(''id'', JStr ''r1'')]])] else [])))"

theorem clear_complete_witness:
  "\<exists>v st h'. memory_route (sample_memory_env\<lparr>me_boot := Memory_Context.sample_world\<lparr>coordinate := Busy\<rparr>\<rparr>) (Some ''ann'') (Some ''secret'')
         (ClearMemories ''DELETE ALL MY MEMORIES'') \<lparr>boot_cache = [], boot_locks = []\<rparr> sample_tree [] = (Inr v, st, h')
     \<and> map verb h' = [''GET'', ''DELETE'', ''DELETE'']
     \<and> answered sample_tree h' ''DELETE'' ''/v1/default/banks/du-ann/knowledge-base/nodes/r1''"
proof -
  let ?E = "sample_memory_env\<lparr>me_boot := Memory_Context.sample_world\<lparr>coordinate := Busy\<rparr>\<rparr>"
  let ?m = "memory_route ?E (Some ''ann'') (Some ''secret'') (ClearMemories ''DELETE ALL MY MEMORIES'')
    \<lparr>boot_cache = [], boot_locks = []\<rparr> sample_tree []"
  have v: "is_ok (fst ?m)" "map verb (snd (snd ?m)) = [''GET'', ''DELETE'', ''DELETE'']" by (code_simp, code_simp)
  have user: "authenticated_user (me_auth ?E) (Some ''ann'') (Some ''secret'') = Inr ''ann''" by code_simp
  have nodes: "fst (knowledge_tree (me_ids ?E) ''ann'' sample_tree []) = Inr [[(''id'', JStr ''r1'')]]" by code_simp
  have url: "bank_path (me_ids ?E) ''ann'' (''knowledge-base/nodes/'' @ quote_segment (id_text [(''id'', JStr ''r1'')]))
      = Inr ''/v1/default/banks/du-ann/knowledge-base/nodes/r1''" "strip (id_text [(''id'', JStr ''r1'')]) \<noteq> []" by (code_simp, code_simp)
  obtain x st h' where m: "?m = (Inr x, st, h')" using v(1) by (cases ?m; cases "fst ?m") auto
  from clear_complete [OF this] user nodes url
  have "answered sample_tree h' ''DELETE'' ''/v1/default/banks/du-ann/knowledge-base/nodes/r1''" by auto
  with m v(2) show ?thesis by auto
qed

end
