(* ===== verification/Document_Collections.thy ===== *)
theory Document_Collections
  imports Internal_Auth Py_Values "HOL-Library.List_Lexorder" "HOL-Library.Char_ord" "HOL-Library.Sublist"
begin

text \<open>
  The Milvus collections of uploaded documents (\<open>nat_nv_ingest/nat_nv_ingest.py\<close>): how names are
  normalised, which collection a request may use, the plan that moves collections to owner-specific names,
  the test that decides who may use a stored upload and the removal of repeated references.

  SHA-256, as lower-case hexadecimal text, is an argument (\<open>sha\<close>); that its texts are 64 hexadecimal
  digits is the hypothesis \<open>hex_digest\<close>.
\<close>

definition ends_with :: "string \<Rightarrow> string \<Rightarrow> bool" where
  "ends_with q s = (length q \<le> length s \<and> drop (length s - length q) s = q)"

section \<open>Names\<close>

definition SHARED_COLLECTION_NAMES :: "string list" where
  "SHARED_COLLECTION_NAMES = [''kubernetes'', ''mentalhealth'', ''nvidia'', ''semianalysis'', ''vetpartner'']"

definition collection_char :: "char \<Rightarrow> bool" where
  "collection_char c = (is_lower_letter c \<or> is_upper_letter c \<or> is_digit c \<or> c = CHR ''_'')"

text \<open>\<open>re.sub("[...]+", "_", s)\<close>; \<open>inside\<close> tells that the character before was replaced.\<close>

fun sub_runs :: "(char \<Rightarrow> bool) \<Rightarrow> bool \<Rightarrow> string \<Rightarrow> string" where
  "sub_runs P inside [] = []"
| "sub_runs P inside (c # cs) =
     (if P c then (if inside then sub_runs P True cs else CHR ''_'' # sub_runs P True cs)
      else c # sub_runs P False cs)"

definition underscore :: "char \<Rightarrow> bool" where
  "underscore c = (c = CHR ''_'')"

definition strip_underscores :: "string \<Rightarrow> string" where
  "strip_underscores s = rstrip_while underscore (dropWhile underscore s)"

text \<open>What the two functions share: everything before the cut.\<close>

definition collection_text :: "string option \<Rightarrow> string \<Rightarrow> string" where
  "collection_text value fallback =
     (let raw = (if strip (or_empty value) = [] then fallback else strip (or_empty value));
          normalized = lower (strip_underscores
            (sub_runs underscore False (sub_runs (\<lambda>c. \<not> collection_char c) False raw)));
          named = (if normalized = [] then fallback else normalized) in
      if named \<noteq> [] \<and> is_digit (hd named) then ''u_'' @ named else named)"

definition normalize_collection_part :: "string option \<Rightarrow> string \<Rightarrow> string" where
  "normalize_collection_part value fallback = take 64 (collection_text value fallback)"

definition normalize_collection_name :: "string option \<Rightarrow> string \<Rightarrow> string" where
  "normalize_collection_name value fallback = take 255 (collection_text value fallback)"

definition collection_subject :: "string option \<Rightarrow> string" where
  "collection_subject username =
     (if strip (or_empty username) = [] then ''anonymous'' else strip (or_empty username))"

definition private_user_collection_part :: "(string \<Rightarrow> string) \<Rightarrow> string option \<Rightarrow> string" where
  "private_user_collection_part sha username =
     take 24 (normalize_collection_part (Some (collection_subject username)) ''anonymous'')
     @ ''_'' @ sha (collection_subject username)"

definition legacy_user_upload_collection_name :: "string option \<Rightarrow> string option \<Rightarrow> string" where
  "legacy_user_upload_collection_name username base_collection_name =
     (let base = normalize_collection_part base_collection_name ''user_uploads'';
          user = normalize_collection_part username ''anonymous'' in
      if base = user \<or> ends_with (''_'' @ user) base then base else base @ ''_'' @ user)"

definition user_upload_collection_name :: "(string \<Rightarrow> string) \<Rightarrow> string option \<Rightarrow> string option \<Rightarrow> string" where
  "user_upload_collection_name sha username base_collection_name =
     normalize_collection_part base_collection_name ''user_uploads'' @ ''_'' @ private_user_collection_part sha username"

definition resolve_user_collection_name ::
  "(string \<Rightarrow> string) \<Rightarrow> string option \<Rightarrow> string option \<Rightarrow> string option \<Rightarrow> string" where
  "resolve_user_collection_name sha collection_name username default_collection_name =
     (if or_empty collection_name = [] then user_upload_collection_name sha username default_collection_name
      else
        let collection = normalize_collection_name collection_name ''user_uploads'';
            user_part = private_user_collection_part sha username;
            legacy_user = normalize_collection_part username ''anonymous'' in
        if collection \<in> set SHARED_COLLECTION_NAMES then collection
        else if collection = user_part \<or> ends_with (''_'' @ user_part) collection then collection
        else if collection = legacy_user then user_upload_collection_name sha username (Some collection)
        else if ends_with (''_'' @ legacy_user) collection
        then user_upload_collection_name sha username (Some (take (length collection - length (''_'' @ legacy_user)) collection))
        else user_upload_collection_name sha username (Some collection))"

section \<open>Scopes\<close>

datatype collection_scope = Shared | User

definition scope_text :: "collection_scope \<Rightarrow> string" where
  "scope_text s = (case s of Shared \<Rightarrow> ''shared'' | User \<Rightarrow> ''user'')"

definition classify_collection_scope :: "string option \<Rightarrow> collection_scope" where
  "classify_collection_scope collection_name =
     (if normalize_collection_name collection_name [] \<in> set SHARED_COLLECTION_NAMES then Shared else User)"

abbreviation apos :: string where
  "apos \<equiv> [char_of (39::nat)]"

definition validate_collection_scope :: "string \<Rightarrow> string option \<Rightarrow> collection_scope result" where
  "validate_collection_scope collection_name requested_scope =
     (let actual_scope = classify_collection_scope (Some collection_name);
          normalized_scope = lower (strip (or_empty requested_scope)) in
      if or_empty requested_scope = [] then Inr actual_scope
      else if normalized_scope \<notin> {''shared'', ''user''}
      then Inl (ValueError (''collection_scope must be '' @ apos @ ''shared'' @ apos @ '' or '' @ apos @ ''user'' @ apos @ ''.''))
      else if normalized_scope \<noteq> scope_text actual_scope
      then Inl (ValueError (''collection_scope '' @ apos @ normalized_scope @ apos @ '' does not match ''
             @ ''collection '' @ apos @ collection_name @ apos @ '' ('' @ scope_text actual_scope @ '').''))
      else Inr actual_scope)"

definition shared_write_error :: string where
  "shared_write_error = ''Shared collection writes are not permitted through user-facing ''
     @ ''document ingestion. Ingest into your private collection instead.''"

definition validate_user_collection_write_scope :: "string \<Rightarrow> string option \<Rightarrow> collection_scope result" where
  "validate_user_collection_write_scope collection_name requested_scope =
     bind_result (validate_collection_scope collection_name requested_scope) (\<lambda>actual_scope.
       if actual_scope = Shared then Inl (ValueError shared_write_error) else Inr User)"

section \<open>Migration to owner-specific names\<close>

definition user_collection_migration_names ::
  "(string \<Rightarrow> string) \<Rightarrow> string option \<Rightarrow> string option \<Rightarrow> string \<times> string" where
  "user_collection_migration_names sha username base_collection_name =
     (legacy_user_upload_collection_name username base_collection_name,
      user_upload_collection_name sha username base_collection_name)"

definition ambiguous_legacy :: "string \<Rightarrow> py_error" where
  "ambiguous_legacy legacy_name = ValueError (''legacy collection '' @ apos @ legacy_name @ apos
     @ '' maps to multiple subjects; '' @ ''ownership must be resolved before migration'')"

fun migration_loop ::
  "(string \<Rightarrow> string) \<Rightarrow> string option \<Rightarrow> string list \<Rightarrow> (string \<rightharpoonup> string) \<Rightarrow> (string \<rightharpoonup> string) result" where
  "migration_loop sha base [] plan = Inr plan"
| "migration_loop sha base (subject # subjects) plan =
     (case user_collection_migration_names sha (Some subject) base of
        (legacy_name, current_name) \<Rightarrow>
          if plan legacy_name \<noteq> None \<and> plan legacy_name \<noteq> Some current_name
          then Inl (ambiguous_legacy legacy_name)
          else migration_loop sha base subjects (plan(legacy_name \<mapsto> current_name)))"

definition plan_user_collection_migrations ::
  "(string \<Rightarrow> string) \<Rightarrow> string list \<Rightarrow> string option \<Rightarrow> (string \<rightharpoonup> string) result" where
  "plan_user_collection_migrations sha authenticated_subjects base = migration_loop sha base authenticated_subjects Map.empty"

section \<open>Stored uploads and references\<close>

definition can_access_stored_document :: "dict \<Rightarrow> string option \<Rightarrow> bool" where
  "can_access_stored_document document_record username =
     (let document_user_id = strip (py_str (py_or (dict_get document_record ''userId'') (JStr [])));
          requester = strip (or_empty username) in
      if document_user_id \<noteq> [] then document_user_id = requester
      else requester = [] \<or> lower requester = ''anonymous'')"

text \<open>The identifiers are kept in a set, so an identifier that cannot be hashed raises.\<close>

fun dedup_loop :: "json list \<Rightarrow> json list \<Rightarrow> json list result" where
  "dedup_loop seen [] = Inr []"
| "dedup_loop seen (ref # refs) =
     (let doc_id = (case ref of JObj d \<Rightarrow> dict_get d ''documentId'' | _ \<Rightarrow> JNull) in
      if \<not> truthy doc_id then map_sum id ((#) ref) (dedup_loop seen refs)
      else if \<not> hashable doc_id then Inl TypeError
      else if list_ex (py_eq doc_id) seen then dedup_loop seen refs
      else map_sum id ((#) ref) (dedup_loop (doc_id # seen) refs))"

definition dedup_document_refs :: "json list \<Rightarrow> json list result" where
  "dedup_document_refs document_refs = dedup_loop [] document_refs"

text \<open>The tool's \<open>list_collections\<close>; \<open>collections\<close> is the answer of Milvus, \<^const>\<open>None\<close> a client that raises.\<close>

definition list_collections ::
  "(string \<Rightarrow> string) \<Rightarrow> string option \<Rightarrow> string option \<Rightarrow> string list option \<Rightarrow> string" where
  "list_collections sha default_collection username collections =
     (case collections of
        None \<Rightarrow> ''Error listing Milvus collections.''
      | Some cs \<Rightarrow>
          let private_collection = resolve_user_collection_name sha None username default_collection;
              visible = sort (filter (\<lambda>c. c \<in> set SHARED_COLLECTION_NAMES \<or> c = private_collection) cs) in
          if visible = [] then ''No collections found.''
          else ''Available collections:'' @ [char_of (10::nat)] @ join_with [char_of (10::nat)] visible)"

section \<open>Facts\<close>

definition hex_digest :: "(string \<Rightarrow> string) \<Rightarrow> bool" where
  "hex_digest sha = (\<forall>s. length (sha s) = 64 \<and> list_all (\<lambda>c. is_digit c \<or> (97 \<le> code c \<and> code c \<le> 102)) (sha s))"

definition name_char :: "char \<Rightarrow> bool" where
  "name_char c = (is_lower_letter c \<or> is_digit c \<or> underscore c)"

text \<open>Names as every cut of a normalised text has them.\<close>

definition name_start :: "string \<Rightarrow> bool" where
  "name_start s = (s \<noteq> [] \<and> list_all name_char s \<and> \<not> underscore (hd s) \<and> \<not> is_digit (hd s))"

lemma underscore_code: "underscore c \<longleftrightarrow> code c = 95"
proof
  assume "code c = 95"
  then have "code c = code (CHR ''_'')" by (simp add: code_def)
  then have "(char_of (code c) :: char) = char_of (code (CHR ''_''))" by (rule arg_cong)
  then show "underscore c" unfolding code_def char_of_char by (simp add: underscore_def)
qed (simp add: underscore_def code_def)

lemma name_char_code: "name_char c \<longleftrightarrow> 97 \<le> code c \<and> code c \<le> 122 \<or> 48 \<le> code c \<and> code c \<le> 57 \<or> code c = 95"
  by (simp add: name_char_def is_lower_letter_def is_digit_def underscore_code)

lemma name_char_not_space: "name_char c \<Longrightarrow> \<not> is_space c"
  by (auto simp: name_char_code is_space_def Let_def)

lemma code_lower: "code (lower_char c) = (if 65 \<le> code c \<and> code c \<le> 90 then code c + 32 else code c)"
  by (simp add: lower_char_def is_upper_letter_def code_def)

lemma lower_name_char: "collection_char c \<Longrightarrow> name_char (lower_char c)"
  by (auto simp: collection_char_def name_char_code code_lower is_lower_letter_def is_upper_letter_def is_digit_def
      simp flip: underscore_def simp: underscore_code)

lemma name_char_lower: "name_char c \<Longrightarrow> lower_char c = c"
  by (auto simp: lower_char_def is_upper_letter_def name_char_code)

lemma underscore_lower: "underscore (lower_char c) \<longleftrightarrow> underscore c"
  by (auto simp: underscore_code code_lower)

lemma name_char_collection: "name_char c \<Longrightarrow> collection_char c"
  by (auto simp: name_char_def collection_char_def underscore_def)

lemma sub_runs_chars: "\<forall>c \<in> set s. P c \<or> Q c \<Longrightarrow> Q (CHR ''_'') \<Longrightarrow> list_all Q (sub_runs P inside s)"
  by (induction P inside s rule: sub_runs.induct) auto

lemma sub_runs_none: "\<forall>c \<in> set s. \<not> P c \<Longrightarrow> sub_runs P inside s = s"
  by (induction P inside s rule: sub_runs.induct) auto

lemma sub_runs_single:
  "\<not> contains ''__'' s \<Longrightarrow> (inside \<longrightarrow> s = [] \<or> \<not> underscore (hd s)) \<Longrightarrow> sub_runs underscore inside s = s"
proof (induction s arbitrary: inside)
  case (Cons c s)
  have "\<not> contains ''__'' s" using Cons.prems by simp
  moreover have "s = [] \<or> \<not> underscore (hd s)" if "underscore c"
    using Cons.prems(1) that by (cases s) (auto simp: starts_with_def underscore_def)
  ultimately show ?case using Cons.IH [of True] Cons.IH [of False] Cons.prems by (auto simp: underscore_def)
qed simp

lemma drop_while_hd: "s = [] \<or> \<not> P (hd s) \<Longrightarrow> dropWhile P s = s"
  by (cases s) auto

lemma trim_ends: "s = [] \<or> (\<not> P (hd s) \<and> \<not> P (last s)) \<Longrightarrow> rstrip_while P (dropWhile P s) = s"
  by (cases s rule: rev_cases) (auto simp: rstrip_while_def drop_while_hd hd_append split: if_splits)

lemma strip_names: "list_all name_char s \<Longrightarrow> strip s = s"
  unfolding strip_def lstrip_def
  by (rule trim_ends) (auto simp: list_all_iff name_char_not_space last_in_set)

lemma collection_text_name:
  assumes s: "name_start s" and n: "\<not> contains ''__'' s" and l: "\<not> underscore (last s)"
  shows "collection_text (Some s) fb = s"
proof -
  from s have ne: "s \<noteq> []" and all: "list_all name_char s" and h: "\<not> underscore (hd s)" "\<not> is_digit (hd s)"
    by (auto simp: name_start_def)
  from all have c: "sub_runs (\<lambda>c. \<not> collection_char c) False s = s"
    by (auto intro!: sub_runs_none simp: list_all_iff name_char_collection)
  from n have u: "sub_runs underscore False s = s" by (rule sub_runs_single) simp
  have t: "strip_underscores s = s"
    unfolding strip_underscores_def using h l by (intro trim_ends) simp
  from all have lo: "lower s = s"
    by (auto simp: lower_def list_all_iff name_char_lower intro: map_idI)
  show ?thesis
    using ne h strip_names [OF all] by (simp add: collection_text_def or_empty_def c u t lo)
qed

lemma rstrip_while_take: "\<exists>n. rstrip_while P s = take n s"
  unfolding rstrip_while_def
  by (metis append_eq_conv_conj rev_append rev_rev_ident takeWhile_dropWhile_id)

lemma strip_underscores_hd: "strip_underscores s \<noteq> [] \<Longrightarrow> \<not> underscore (hd (strip_underscores s))"
proof -
  assume ne: "strip_underscores s \<noteq> []"
  obtain n where n: "strip_underscores s = take n (dropWhile underscore s)"
    using rstrip_while_take unfolding strip_underscores_def by blast
  with ne have "dropWhile underscore s \<noteq> []" "n \<noteq> 0" by auto
  with n show ?thesis using hd_dropWhile [of underscore s] by (cases "dropWhile underscore s"; cases n) auto
qed

lemma strip_underscores_set: "set (strip_underscores s) \<subseteq> set s"
  unfolding strip_underscores_def
  using rstrip_while_take [of underscore "dropWhile underscore s"] by (metis set_dropWhileD set_take_subset subset_iff)

lemma collection_text_start: "name_start fb \<Longrightarrow> name_start (collection_text v fb)"
proof -
  assume fb: "name_start fb"
  define raw where "raw = (if strip (or_empty v) = [] then fb else strip (or_empty v))"
  define t where "t = strip_underscores (sub_runs underscore False (sub_runs (\<lambda>c. \<not> collection_char c) False raw))"
  have "list_all collection_char (sub_runs (\<lambda>c. \<not> collection_char c) False raw)"
    by (rule sub_runs_chars) (auto simp: collection_char_def)
  then have "list_all collection_char (sub_runs underscore False (sub_runs (\<lambda>c. \<not> collection_char c) False raw))"
    by (intro sub_runs_chars) (auto simp: collection_char_def list_all_iff)
  then have all: "list_all name_char (lower t)"
    using strip_underscores_set unfolding t_def by (fastforce simp: lower_def list_all_iff lower_name_char)
  have hd: "lower t \<noteq> [] \<Longrightarrow> \<not> underscore (hd (lower t))"
    using strip_underscores_hd unfolding t_def [symmetric]
    by (auto simp: lower_def hd_map underscore_lower t_def)
  define w where "w = (if lower t = [] then fb else lower t)"
  have ct: "collection_text v fb = (if w \<noteq> [] \<and> is_digit (hd w) then ''u_'' @ w else w)"
    by (simp add: collection_text_def w_def t_def raw_def)
  have "w \<noteq> []" "list_all name_char w" "\<not> underscore (hd w)"
    using fb all hd by (auto simp: w_def name_start_def)
  then show ?thesis
    by (auto simp: ct name_start_def name_char_def underscore_def is_lower_letter_def is_digit_def code_def)
qed

lemma name_start_take: "name_start s \<Longrightarrow> 0 < n \<Longrightarrow> name_start (take n s)"
  by (auto simp: name_start_def list_all_iff hd_take dest: in_set_takeD)

lemma name_start_append: "name_start s \<Longrightarrow> list_all name_char t \<Longrightarrow> name_start (s @ t)"
  by (simp add: name_start_def)

lemma fallback_names: "name_start ''user_uploads''" "name_start ''anonymous''"
  by code_simp+

lemma hex_name_char: "hex_digest sha \<Longrightarrow> list_all name_char (sha s)" "hex_digest sha \<Longrightarrow> length (sha s) = 64"
proof -
  have "name_char c" if "is_digit c \<or> (97 \<le> code c \<and> code c \<le> 102)" for c
    using that by (auto simp: name_char_code is_digit_def)
  then show "hex_digest sha \<Longrightarrow> list_all name_char (sha s)" "hex_digest sha \<Longrightarrow> length (sha s) = 64"
    by (simp_all add: hex_digest_def list_all_iff)
qed

text \<open>The part of a name that tells its owner.\<close>

definition owner_of :: "string \<Rightarrow> string" where
  "owner_of n = drop (length n - 64) n"

lemma owner_of_append: "length h = 64 \<Longrightarrow> owner_of (s @ h) = h"
  by (simp add: owner_of_def)

lemma private_part_form:
  assumes "hex_digest sha"
  shows "\<exists>r. name_start r \<and> length r \<le> 25 \<and> private_user_collection_part sha u = r @ sha (collection_subject u)"
proof -
  let ?r = "take 24 (normalize_collection_part (Some (collection_subject u)) ''anonymous'') @ ''_''"
  have "name_start ?r"
    unfolding normalize_collection_part_def
    by (intro name_start_append name_start_take collection_text_start fallback_names) code_simp+
  then show ?thesis
    by (intro exI [of _ ?r]) (simp add: private_user_collection_part_def)
qed

lemma ends_with_append: "ends_with q s \<longleftrightarrow> (\<exists>p. s = p @ q)"
proof
  assume "ends_with q s"
  then have "s = take (length s - length q) s @ q" unfolding ends_with_def by (metis append_take_drop_id)
  then show "\<exists>p. s = p @ q" by blast
qed (auto simp: ends_with_def)

text \<open>Every name that is not shared has the form of a name, fits the limit and ends in the owner's digest.\<close>

definition owned_name :: "(string \<Rightarrow> string) \<Rightarrow> string option \<Rightarrow> string \<Rightarrow> bool" where
  "owned_name sha u n =
     (name_start n \<and> length n \<le> 255 \<and>
      (n = private_user_collection_part sha u \<or> ends_with (''_'' @ private_user_collection_part sha u) n))"

lemma upload_name_owned: "hex_digest sha \<Longrightarrow> owned_name sha u (user_upload_collection_name sha u base)"
proof -
  assume h: "hex_digest sha"
  from private_part_form [OF h, of u] obtain r where r: "name_start r" "length r \<le> 25"
    "private_user_collection_part sha u = r @ sha (collection_subject u)" by blast
  have b: "name_start (normalize_collection_part base ''user_uploads'')"
    unfolding normalize_collection_part_def by (intro name_start_take collection_text_start fallback_names) simp
  have "list_all name_char (''_'' @ private_user_collection_part sha u)"
    using r hex_name_char(1) [OF h] by (simp add: name_start_def) (simp add: name_char_def underscore_def)
  with b have "name_start (user_upload_collection_name sha u base)"
    unfolding user_upload_collection_name_def by (intro name_start_append)
  moreover have "length (user_upload_collection_name sha u base) \<le> 255"
    using r hex_name_char(2) [OF h, of "collection_subject u"]
    by (simp add: user_upload_collection_name_def normalize_collection_part_def)
  ultimately show ?thesis
    by (simp add: owned_name_def user_upload_collection_name_def ends_with_append)
qed

lemma resolve_cases:
  assumes h: "hex_digest sha"
  shows "resolve_user_collection_name sha c u d \<in> set SHARED_COLLECTION_NAMES
       \<and> resolve_user_collection_name sha c u d = normalize_collection_name c ''user_uploads'' \<and> or_empty c \<noteq> []
     \<or> owned_name sha u (resolve_user_collection_name sha c u d)"
proof -
  have "name_start (normalize_collection_name c ''user_uploads'')" "length (normalize_collection_name c ''user_uploads'') \<le> 255"
    unfolding normalize_collection_name_def
    by (intro name_start_take collection_text_start fallback_names; simp) simp
  then show ?thesis
    using upload_name_owned [OF h]
    by (auto simp: resolve_user_collection_name_def owned_name_def Let_def)
qed

lemma owned_name_owner: "hex_digest sha \<Longrightarrow> owned_name sha u n \<Longrightarrow> owner_of n = sha (collection_subject u)"
proof -
  assume h: "hex_digest sha" and o: "owned_name sha u n"
  from private_part_form [OF h, of u] obtain r where
    r: "private_user_collection_part sha u = r @ sha (collection_subject u)" by blast
  from o obtain p where "n = p @ sha (collection_subject u)"
    by (auto simp: owned_name_def ends_with_append r)
  then show ?thesis by (simp add: owner_of_append hex_name_char(2) [OF h])
qed

lemma shared_names_fixed: "n \<in> set SHARED_COLLECTION_NAMES \<Longrightarrow> collection_text (Some n) fb = n"
proof -
  have "list_all (\<lambda>n. name_start n \<and> \<not> contains ''__'' n \<and> \<not> underscore (last n)) SHARED_COLLECTION_NAMES"
    by code_simp
  then show "n \<in> set SHARED_COLLECTION_NAMES \<Longrightarrow> collection_text (Some n) fb = n"
    by (auto simp: list_all_iff intro: collection_text_name)
qed

lemma shared_names_short: "n \<in> set SHARED_COLLECTION_NAMES \<Longrightarrow> length n \<le> 12"
  by (auto simp: SHARED_COLLECTION_NAMES_def)

lemma shared_classified: "n \<in> set SHARED_COLLECTION_NAMES \<Longrightarrow> classify_collection_scope (Some n) = Shared"
proof -
  assume n: "n \<in> set SHARED_COLLECTION_NAMES"
  then have "take 255 n = n" using shared_names_short [OF n] by simp
  with n show ?thesis
    by (simp add: classify_collection_scope_def normalize_collection_name_def shared_names_fixed)
qed

lemma sub_runs_append: "\<forall>c \<in> set h. \<not> P c \<Longrightarrow> sub_runs P inside (p @ h) = sub_runs P inside p @ h"
  by (induction P inside p rule: sub_runs.induct) (auto simp: sub_runs_none)

lemma strip_underscores_append:
  assumes "h \<noteq> []" and "\<forall>c \<in> set h. \<not> underscore c"
  shows "strip_underscores (q @ h) = dropWhile underscore q @ h"
proof -
  have "dropWhile underscore h = h" using assms by (cases h) auto
  then have "dropWhile underscore (q @ h) = dropWhile underscore q @ h"
    by (auto simp: dropWhile_append)
  moreover have "dropWhile underscore (rev h @ t) = rev h @ t" for t
    using assms by (cases h rule: rev_cases) auto
  ultimately show ?thesis by (simp add: strip_underscores_def rstrip_while_def)
qed

text \<open>A private collection is never taken for a shared one.\<close>

lemma owned_name_user:
  assumes h: "hex_digest sha" and o: "owned_name sha u n"
  shows "classify_collection_scope (Some n) = User"
proof -
  let ?h = "sha (collection_subject u)"
  obtain r where r: "private_user_collection_part sha u = r @ ?h" using private_part_form [OF h] by blast
  from o obtain p where p: "n = p @ ?h" by (auto simp: owned_name_def ends_with_append r)
  from o have all: "list_all name_char n" "n \<noteq> []" by (auto simp: owned_name_def name_start_def)
  have len: "length ?h = 64" by (rule hex_name_char(2) [OF h])
  have "\<not> underscore c" if "is_digit c \<or> (97 \<le> code c \<and> code c \<le> 102)" for c
    using that by (auto simp: is_digit_def underscore_code)
  with h have hex: "\<forall>c \<in> set ?h. \<not> underscore c" by (simp add: hex_digest_def list_all_iff)
  have cc: "sub_runs (\<lambda>c. \<not> collection_char c) False n = n"
    using all by (auto intro!: sub_runs_none simp: list_all_iff name_char_collection)
  have st: "strip_underscores (sub_runs underscore False n) = dropWhile underscore (sub_runs underscore False p) @ ?h"
    using hex len by (simp add: p sub_runs_append) (intro strip_underscores_append; auto)
  have raw: "(if strip (or_empty (Some n)) = [] then fb else strip (or_empty (Some n))) = n" for fb
    using all strip_names [OF all(1)] by (simp add: or_empty_def)
  have "64 \<le> length (collection_text (Some n) [])"
    unfolding collection_text_def raw cc st Let_def using len by (auto simp: lower_def)
  then have "64 \<le> length (normalize_collection_name (Some n) [])"
    by (simp add: normalize_collection_name_def)
  then have "normalize_collection_name (Some n) [] \<notin> set SHARED_COLLECTION_NAMES"
    using shared_names_short by fastforce
  then show ?thesis by (simp add: classify_collection_scope_def)
qed

lemma owned_name_writable:
  "hex_digest sha \<Longrightarrow> owned_name sha u n \<Longrightarrow> validate_user_collection_write_scope n None = Inr User"
  by (simp add: validate_user_collection_write_scope_def validate_collection_scope_def owned_name_user or_empty_def)

lemma write_not_shared:
  "validate_user_collection_write_scope n scope = Inr x \<Longrightarrow> x = User \<and> n \<notin> set SHARED_COLLECTION_NAMES"
  by (auto simp: validate_user_collection_write_scope_def validate_collection_scope_def bind_result_Inr Let_def
      shared_classified split: if_splits)

abbreviation legacy_name :: "string option \<Rightarrow> string \<Rightarrow> string" where
  "legacy_name base s \<equiv> legacy_user_upload_collection_name (Some s) base"

abbreviation current_name :: "(string \<Rightarrow> string) \<Rightarrow> string option \<Rightarrow> string \<Rightarrow> string" where
  "current_name sha base s \<equiv> user_upload_collection_name sha (Some s) base"

lemma migration_step:
  "migration_loop sha base (s # ss) plan =
     (if plan (legacy_name base s) = None \<or> plan (legacy_name base s) = Some (current_name sha base s)
      then migration_loop sha base ss (plan(legacy_name base s \<mapsto> current_name sha base s))
      else Inl (ambiguous_legacy (legacy_name base s)))"
  by (cases "plan (legacy_name base s)") (simp_all add: user_collection_migration_names_def)

lemma consistent_insert:
  "P s \<Longrightarrow> ((\<forall>t \<in> A. P t \<and> (L t = L s \<longrightarrow> C s = C t)) \<and> (\<forall>s \<in> A. \<forall>t \<in> A. L s = L t \<longrightarrow> C s = C t))
     = ((\<forall>t \<in> insert s A. P t) \<and> (\<forall>r \<in> insert s A. \<forall>t \<in> insert s A. L r = L t \<longrightarrow> C r = C t))"
  by (auto simp: eq_commute)

lemma migration_loop_ok:
  "is_ok (migration_loop sha base ss plan) \<longleftrightarrow>
     (\<forall>s \<in> set ss. plan (legacy_name base s) = None \<or> plan (legacy_name base s) = Some (current_name sha base s))
     \<and> (\<forall>s \<in> set ss. \<forall>t \<in> set ss. legacy_name base s = legacy_name base t \<longrightarrow>
          current_name sha base s = current_name sha base t)"
proof (induction ss arbitrary: plan)
  case (Cons s ss)
  let ?L = "legacy_name base" and ?C = "current_name sha base"
  let ?P = "\<lambda>t. plan (?L t) = None \<or> plan (?L t) = Some (?C t)"
  let ?plan = "plan(?L s \<mapsto> ?C s)"
  have A: "?plan (?L t) = None \<or> ?plan (?L t) = Some (?C t) \<longleftrightarrow> (if ?L t = ?L s then ?C s = ?C t else ?P t)" for t
    by simp
  show ?case
  proof (cases "?P s")
    case True
    then have "is_ok (migration_loop sha base (s # ss) plan) = is_ok (migration_loop sha base ss ?plan)"
      by (simp only: migration_step if_True)
    also have "\<dots> = ((\<forall>t \<in> set ss. if ?L t = ?L s then ?C s = ?C t else ?P t)
        \<and> (\<forall>s \<in> set ss. \<forall>t \<in> set ss. ?L s = ?L t \<longrightarrow> ?C s = ?C t))"
      unfolding Cons.IH A ..
    also have "(\<forall>t \<in> set ss. if ?L t = ?L s then ?C s = ?C t else ?P t)
        \<longleftrightarrow> (\<forall>t \<in> set ss. ?P t \<and> (?L t = ?L s \<longrightarrow> ?C s = ?C t))"
      using True by (intro ball_cong refl) auto
    finally show ?thesis
      by (simp only: list.set consistent_insert [where P = ?P and s = s and L = ?L and C = ?C, OF True])
  next
    case False
    then have "migration_loop sha base (s # ss) plan = Inl (ambiguous_legacy (?L s))"
      by (simp only: migration_step if_False)
    moreover have "\<not> (\<forall>t \<in> set (s # ss). ?P t)"
      using False by (meson list.set_intros(1))
    ultimately show ?thesis by (simp only: is_ok.simps simp_thms)
  qed
qed simp

lemma migration_loop_plan:
  "migration_loop sha base ss plan = Inr p \<Longrightarrow>
     dom p = dom plan \<union> legacy_name base ` set ss
     \<and> (\<forall>x. x \<notin> legacy_name base ` set ss \<longrightarrow> p x = plan x)
     \<and> (\<forall>s \<in> set ss. p (legacy_name base s) = Some (current_name sha base s))"
proof (induction ss arbitrary: plan)
  case (Cons s ss)
  let ?plan = "plan(legacy_name base s \<mapsto> current_name sha base s)"
  have l: "migration_loop sha base ss ?plan = Inr p"
    using Cons.prems
    by (cases "plan (legacy_name base s) = None \<or> plan (legacy_name base s) = Some (current_name sha base s)")
      (simp_all only: migration_step if_True if_False sum.distinct)
  have "is_ok (migration_loop sha base ss ?plan)" by (simp add: l)
  then have same: "current_name sha base t = current_name sha base s"
    if "t \<in> set ss" "legacy_name base t = legacy_name base s" for t
  proof -
    have "?plan (legacy_name base t) = None \<or> ?plan (legacy_name base t) = Some (current_name sha base t)"
      using \<open>is_ok _\<close> that(1) unfolding migration_loop_ok by blast
    with that(2) show ?thesis by simp
  qed
  note ih = Cons.IH [OF l]
  have "p (legacy_name base s) = Some (current_name sha base s)"
  proof (cases "legacy_name base s \<in> legacy_name base ` set ss")
    case True
    then obtain t where t: "t \<in> set ss" "legacy_name base t = legacy_name base s" by force
    with ih have "p (legacy_name base t) = Some (current_name sha base t)" by blast
    with t same [OF t] show ?thesis by simp
  next
    case False
    with ih show ?thesis by simp
  qed
  moreover have "dom p = dom plan \<union> legacy_name base ` set (s # ss)"
  proof -
    have "dom p = dom ?plan \<union> legacy_name base ` set ss" using ih by blast
    also have "dom ?plan = insert (legacy_name base s) (dom plan)" by (simp only: dom_fun_upd option.distinct if_False)
    finally show ?thesis by simp
  qed
  moreover have "p x = plan x" if "x \<notin> legacy_name base ` set (s # ss)" for x
    using ih that by simp
  ultimately show ?case using ih by (simp only: list.set ball_simps) blast
qed simp

section \<open>Properties\<close>

text \<open>C36. Tenant isolation of collections. Whatever collection a caller names, the resolved collection is either
  a shared corpus that was asked for by its name, or carries the digest of the caller's own complete subject in its
  last 64 characters; so two callers reach the same collection outside the shared corpora only if the digests
  of their subjects agree, and no write that the scope check accepts goes to a shared corpus.\<close>

theorem collections_isolated:
  assumes "hex_digest sha"
    and "resolve_user_collection_name sha c u d = n" and "resolve_user_collection_name sha c' u' d' = n'"
  shows "(n \<in> set SHARED_COLLECTION_NAMES \<and> n = normalize_collection_name c ''user_uploads''
          \<or> n \<notin> set SHARED_COLLECTION_NAMES \<and> owner_of n = sha (collection_subject u))
    \<and> (n = n' \<and> n \<notin> set SHARED_COLLECTION_NAMES \<longrightarrow> sha (collection_subject u) = sha (collection_subject u'))
    \<and> (\<forall>scope x. validate_user_collection_write_scope n scope = Inr x \<longrightarrow>
         x = User \<and> owner_of n = sha (collection_subject u))"
proof -
  have len: "owned_name sha u m \<Longrightarrow> m \<notin> set SHARED_COLLECTION_NAMES" for u m
  proof
    assume o: "owned_name sha u m" and m: "m \<in> set SHARED_COLLECTION_NAMES"
    from owned_name_owner [OF assms(1) o] hex_name_char(2) [OF assms(1)] have "length (owner_of m) = 64" by simp
    with shared_names_short [OF m] show False by (simp add: owner_of_def)
  qed
  from resolve_cases [OF assms(1), of c u d] assms(2)
  have n: "n \<in> set SHARED_COLLECTION_NAMES \<and> n = normalize_collection_name c ''user_uploads'' \<or> owned_name sha u n" by auto
  from resolve_cases [OF assms(1), of c' u' d'] assms(3)
  have n': "n' \<in> set SHARED_COLLECTION_NAMES \<or> owned_name sha u' n'" by auto
  from n n' show ?thesis
    using len owned_name_owner [OF assms(1)] write_not_shared
    by (elim disjE conjE) (intro conjI allI impI; metis)+
qed

definition sample_digest :: "string \<Rightarrow> string" where
  "sample_digest s = replicate 63 (CHR ''a'') @ (if s = ''ann@example.com'' then ''1'' else ''2'')"

lemma sample_digest_hex: "hex_digest sample_digest"
  by (auto simp: hex_digest_def sample_digest_def list_all_iff is_digit_def code_def)

theorem collections_isolated_witness:
  "sample_digest (collection_subject (Some ''ann@example.com'')) \<noteq> sample_digest (collection_subject (Some ''ann_example.com''))
   \<and> resolve_user_collection_name sample_digest (Some ''Notes'') (Some ''ann@example.com'') None
     \<noteq> resolve_user_collection_name sample_digest (Some ''Notes'') (Some ''ann_example.com'') None"
proof -
  let ?n = "resolve_user_collection_name sample_digest (Some ''Notes'') (Some ''ann@example.com'') None"
  have d: "sample_digest (collection_subject (Some ''ann@example.com''))
      \<noteq> sample_digest (collection_subject (Some ''ann_example.com''))" by code_simp
  have "?n \<notin> set SHARED_COLLECTION_NAMES" by code_simp
  with collections_isolated [OF sample_digest_hex refl refl, of "Some ''Notes''" "Some ''ann@example.com''" None
      "Some ''Notes''" "Some ''ann_example.com''" None] d
  show ?thesis by metis
qed

text \<open>A collection name that was resolved, and is advertised to its owner, resolves to itself when the owner
  names it again, with any default, unless a cut of its readable part left two adjacent underscores.\<close>

theorem resolved_name_stable:
  assumes "hex_digest sha" and "resolve_user_collection_name sha c u d = n" and "\<not> contains ''__'' n"
  shows "resolve_user_collection_name sha (Some n) u d' = n"
proof -
  have fixed: "normalize_collection_name (Some n) fb = n" if "collection_text (Some n) fb = n" "length n \<le> 255" for fb
    using that by (simp add: normalize_collection_name_def)
  from resolve_cases [OF assms(1), of c u d] assms(2)
  consider (shared) "n \<in> set SHARED_COLLECTION_NAMES" | (own) "owned_name sha u n" by blast
  then show ?thesis
  proof cases
    case shared
    then have "n \<noteq> []" "length n \<le> 255" using shared_names_short [OF shared] by (auto simp: SHARED_COLLECTION_NAMES_def)
    with fixed [OF shared_names_fixed [OF shared]] shared show ?thesis
      by (simp add: resolve_user_collection_name_def or_empty_def)
  next
    case own
    then have n: "name_start n" "n \<noteq> []" "length n \<le> 255" by (auto simp: owned_name_def name_start_def)
    have "\<not> underscore (last n)"
    proof -
      have o: "drop (length n - 64) n = sha (collection_subject u)"
        using owned_name_owner [OF assms(1) own] by (simp add: owner_of_def)
      let ?h = "sha (collection_subject u)"
      have "length ?h = 64" by (rule hex_name_char(2) [OF assms(1)])
      then have "?h \<noteq> []" by auto
      then have h: "?h \<noteq> []" "\<forall>c \<in> set ?h. is_digit c \<or> 97 \<le> code c \<and> code c \<le> 102"
        using assms(1) by (auto simp: hex_digest_def list_all_iff)
      have "last n = last ?h" using o h(1) by (metis append_take_drop_id last_appendR)
      with h show ?thesis by (auto simp: underscore_code is_digit_def dest!: bspec [OF _ last_in_set])
    qed
    with n assms(3) have "collection_text (Some n) ''user_uploads'' = n" by (intro collection_text_name)
    from fixed [OF this n(3)] own n show ?thesis
      by (auto simp: resolve_user_collection_name_def or_empty_def owned_name_def Let_def)
  qed
qed

theorem resolved_name_stable_witness:
  "\<exists>n. resolve_user_collection_name sample_digest None (Some ''ann@example.com'') None = n
     \<and> resolve_user_collection_name sample_digest (Some n) (Some ''ann@example.com'') (Some ''other'') = n"
proof -
  let ?n = "resolve_user_collection_name sample_digest None (Some ''ann@example.com'') None"
  have "\<not> contains ''__'' ?n" by code_simp
  from resolved_name_stable [OF sample_digest_hex refl this] show ?thesis by blast
qed

abbreviation cut_user :: string where
  "cut_user \<equiv> ''christopher.montgomerie@example.com''"

lemma cut_names:
  "resolve_user_collection_name sample_digest
     (Some (resolve_user_collection_name sample_digest None (Some cut_user) None)) (Some cut_user) None
   \<noteq> resolve_user_collection_name sample_digest None (Some cut_user) None"
  by code_simp

text \<open>The exception is real: when the readable part of a subject is cut right after a character that becomes an
  underscore, the advertised private collection, named explicitly by its owner, resolves to another collection.\<close>

theorem cut_name_not_stable:
  "\<exists>sha u n. hex_digest sha \<and> resolve_user_collection_name sha None u None = n
     \<and> resolve_user_collection_name sha (Some n) u None \<noteq> n"
  using sample_digest_hex cut_names by blast
text \<open>The migration plan is unambiguous or is refused: it exists exactly if subjects with the same legacy
  name have the same current name, and then it sends every subject's legacy name, and no other name, to that
  subject's current collection.\<close>

theorem migration_plan_unambiguous:
  "(is_ok (plan_user_collection_migrations sha subjects base) \<longleftrightarrow>
      (\<forall>s \<in> set subjects. \<forall>t \<in> set subjects.
         legacy_user_upload_collection_name (Some s) base = legacy_user_upload_collection_name (Some t) base \<longrightarrow>
         user_upload_collection_name sha (Some s) base = user_upload_collection_name sha (Some t) base))
   \<and> (\<forall>plan. plan_user_collection_migrations sha subjects base = Inr plan \<longrightarrow>
        dom plan = (\<lambda>s. legacy_user_upload_collection_name (Some s) base) ` set subjects
        \<and> (\<forall>s \<in> set subjects. plan (legacy_user_upload_collection_name (Some s) base)
             = Some (user_upload_collection_name sha (Some s) base)))"
proof -
  have "is_ok (plan_user_collection_migrations sha subjects base) \<longleftrightarrow>
      (\<forall>s \<in> set subjects. \<forall>t \<in> set subjects. legacy_name base s = legacy_name base t \<longrightarrow>
         current_name sha base s = current_name sha base t)"
    unfolding plan_user_collection_migrations_def migration_loop_ok by simp
  moreover have "dom plan = legacy_name base ` set subjects
      \<and> (\<forall>s \<in> set subjects. plan (legacy_name base s) = Some (current_name sha base s))"
    if "plan_user_collection_migrations sha subjects base = Inr plan" for plan
    using migration_loop_plan [OF that [unfolded plan_user_collection_migrations_def]] by auto
  ultimately show ?thesis by blast
qed

theorem migration_plan_unambiguous_witness:
  "\<exists>plan. plan_user_collection_migrations sample_digest [''ann'', ''bob''] None = Inr plan
     \<and> plan ''user_uploads_ann'' = Some (user_upload_collection_name sample_digest (Some ''ann'') None)
     \<and> \<not> is_ok (plan_user_collection_migrations sample_digest [''ann@example.com'', ''ann_example.com''] None)"
proof -
  have "is_ok (plan_user_collection_migrations sample_digest [''ann'', ''bob''] None)" by code_simp
  then obtain plan where plan: "plan_user_collection_migrations sample_digest [''ann'', ''bob''] None = Inr plan"
    by (cases "plan_user_collection_migrations sample_digest [''ann'', ''bob''] None") auto
  have l: "legacy_user_upload_collection_name (Some ''ann'') None = ''user_uploads_ann''"
    and e: "legacy_user_upload_collection_name (Some ''ann@example.com'') None
      = legacy_user_upload_collection_name (Some ''ann_example.com'') None"
    and d: "user_upload_collection_name sample_digest (Some ''ann@example.com'') None
      \<noteq> user_upload_collection_name sample_digest (Some ''ann_example.com'') None" by code_simp+
  from migration_plan_unambiguous [of sample_digest "[''ann'', ''bob'']" None] plan l
  have "plan ''user_uploads_ann'' = Some (user_upload_collection_name sample_digest (Some ''ann'') None)" by auto
  moreover from migration_plan_unambiguous [of sample_digest "[''ann@example.com'', ''ann_example.com'']" None] e d
  have "\<not> is_ok (plan_user_collection_migrations sample_digest [''ann@example.com'', ''ann_example.com''] None)" by auto
  ultimately show ?thesis using plan by blast
qed

end
