(* ===== verification/Document_Storage.thy ===== *)
theory Document_Storage
  imports Document_Collections
begin

text \<open>
  Reading a stored upload (\<open>nat_nv_ingest/nat_nv_ingest.py\<close>): the size limits, the object-store settings, the
  owner-bound object key, the bounded download and the legacy base64 payload.

  Bytes are strings. The environment gives what is outside the source: the value of every variable, the
  clock in milliseconds and how the object store answers each read.
\<close>

section \<open>Limits\<close>

definition ERROR_MESSAGE_CHAR_LIMIT :: nat where
  "ERROR_MESSAGE_CHAR_LIMIT = 100"

definition DEFAULT_DOCUMENT_INGEST_MAX_SIZE_BYTES :: int where
  "DEFAULT_DOCUMENT_INGEST_MAX_SIZE_BYTES = 200 * 1024 * 1024"

definition truncate_error :: "string \<Rightarrow> string" where
  "truncate_error txt =
     (if length txt \<le> ERROR_MESSAGE_CHAR_LIMIT then txt else take ERROR_MESSAGE_CHAR_LIMIT txt @ ''...'')"

definition document_ingest_max_size_bytes :: "string option \<Rightarrow> int" where
  "document_ingest_max_size_bytes env =
     (let raw = strip (or_empty env) in
      if raw = [] then DEFAULT_DOCUMENT_INGEST_MAX_SIZE_BYTES
      else (case int_of_text raw of
              None \<Rightarrow> DEFAULT_DOCUMENT_INGEST_MAX_SIZE_BYTES
            | Some v \<Rightarrow> if v > 0 then v else DEFAULT_DOCUMENT_INGEST_MAX_SIZE_BYTES))"

text \<open>\<open>s[:n]\<close>.\<close>

definition slice_to :: "int \<Rightarrow> string \<Rightarrow> string" where
  "slice_to n s = (if n < 0 then take (length s - nat (- n)) s else take (nat n) s)"

definition omission_marker :: string where
  "omission_marker = replicate 2 (char_of (10::nat)) @ ''[... middle omitted to fit inline document limit ...]''
     @ replicate 2 (char_of (10::nat))"

definition apply_char_limit :: "string \<Rightarrow> int option \<Rightarrow> string \<times> bool" where
  "apply_char_limit raw_md char_limit =
     (case char_limit of
        None \<Rightarrow> (raw_md, False)
      | Some n \<Rightarrow>
          if int (length raw_md) \<le> n then (raw_md, False)
          else if n \<le> int (length omission_marker) then (slice_to n raw_md, True)
          else
            let remaining = nat n - length omission_marker;
                head_chars = (remaining + 1) div 2;
                tail_chars = remaining - head_chars;
                tail_text = (if tail_chars \<noteq> 0 then drop (length raw_md - tail_chars) raw_md else []) in
            (take head_chars raw_md @ omission_marker @ tail_text, True))"

definition equals_sign :: "char \<Rightarrow> bool" where
  "equals_sign c = (c = CHR ''='')"

definition estimated_decoded_size :: "string \<Rightarrow> nat" where
  "estimated_decoded_size document_base64 =
     (length (rstrip_while equals_sign (strip document_base64)) * 3) div 4"

definition size_limit_error :: "int \<Rightarrow> string" where
  "size_limit_error max_bytes = ''Error: Document exceeds the maximum allowed size ''
     @ ''('' @ show_int max_bytes @ '' bytes). Please upload a smaller file.''"

definition document_size_error :: "string \<Rightarrow> int \<Rightarrow> string option" where
  "document_size_error document_base64 max_bytes =
     (if int (estimated_decoded_size document_base64) > max_bytes then Some (size_limit_error max_bytes) else None)"

section \<open>Object storage\<close>

datatype load_error =
    DocumentStorageError string
  | DocumentStorageUnavailableError string
  | OtherException string

definition safe_reference :: "string \<Rightarrow> bool" where
  "safe_reference s = (1 \<le> length s \<and> length s \<le> 128
     \<and> list_all (\<lambda>c. is_lower_letter c \<or> is_upper_letter c \<or> is_digit c \<or> c = CHR ''.'' \<or> c = CHR ''_'' \<or> c = CHR ''-'') s)"

record object_env =
  env_endpoint :: "string option"
  env_access_key :: "string option"
  env_secret_key :: "string option"
  env_session_token :: "string option"
  env_bucket :: "string option"
  env_prefix :: "string option"
  env_region :: "string option"
  env_timeout_ms :: "string option"

record object_settings =
  os_endpoint :: string
  os_access_key :: string
  os_secret_key :: string
  os_session_token :: "string option"
  os_bucket :: string
  os_secure :: bool
  os_region :: string

text \<open>\<open>os.getenv(name) or default\<close>.\<close>

definition env_or :: "string option \<Rightarrow> string \<Rightarrow> string" where
  "env_or v d = (if or_empty v = [] then d else or_empty v)"

definition document_object_request_timeout :: "object_env \<Rightarrow> (load_error, rat) sum" where
  "document_object_request_timeout E =
     (let invalid = Inl (DocumentStorageError ''Error: Document object storage request timeout is invalid.'') in
      case int_of_text (strip (env_or (env_timeout_ms E) ''300000'')) of
        None \<Rightarrow> invalid
      | Some timeout_ms \<Rightarrow>
          if 100 \<le> timeout_ms \<and> timeout_ms \<le> 900000 then Inr (of_int timeout_ms / 1000) else invalid)"

definition configured_prefix :: "object_env \<Rightarrow> string" where
  "configured_prefix E = strip (env_or (env_prefix E) ''daedalus-documents'')"

definition drop_prefix :: "string \<Rightarrow> string \<Rightarrow> string" where
  "drop_prefix p s = (if starts_with p s then drop (length p) s else s)"

definition document_object_settings :: "object_env \<Rightarrow> (load_error, object_settings) sum" where
  "document_object_settings E =
     (let endpoint = strip (or_empty (env_endpoint E));
          access_key = strip (or_empty (env_access_key E));
          secret_key = strip (or_empty (env_secret_key E));
          token = strip (or_empty (env_session_token E));
          bucket = strip (or_empty (env_bucket E));
          secure = starts_with ''https://'' endpoint;
          host = rstrip_while (\<lambda>c. c = CHR ''/'')
            (if secure then drop_prefix ''https://'' endpoint else drop_prefix ''http://'' endpoint) in
      if endpoint = [] \<or> access_key = [] \<or> secret_key = [] \<or> bucket = []
      then Inl (DocumentStorageError ''Error: Document object storage is not configured.'')
      else if \<not> safe_reference (configured_prefix E)
      then Inl (DocumentStorageError ''Error: Document object storage prefix is invalid.'')
      else if host = [] \<or> CHR ''/'' \<in> set host
      then Inl (DocumentStorageError ''Error: Document object storage endpoint is invalid.'')
      else Inr \<lparr>os_endpoint = host, os_access_key = access_key, os_secret_key = secret_key,
                os_session_token = (if token = [] then None else Some token), os_bucket = bucket,
                os_secure = secure, os_region = strip (env_or (env_region E) ''us-east-1'')\<rparr>)"

definition expected_document_object_key ::
  "(string \<Rightarrow> string) \<Rightarrow> string \<Rightarrow> string \<Rightarrow> string \<Rightarrow> string \<Rightarrow> (load_error, string) sum" where
  "expected_document_object_key sha key_prefix username session_id document_id =
     (if \<not> safe_reference session_id \<or> \<not> safe_reference document_id
      then Inl (DocumentStorageError ''Error: Document reference is invalid.'')
      else Inr (key_prefix @ ''/'' @ take 32 (sha username) @ ''/'' @ session_id @ ''/'' @ document_id))"

text \<open>The object store: what its constructor raises, whether \<open>get_object\<close> raises, and the answers to the
  reads of a response, in order, each for the requested number of bytes; \<^const>\<open>None\<close> stands for an exception.\<close>

record object_store =
  client_error :: "string option"
  get_object :: "string \<Rightarrow> string \<Rightarrow> (nat \<Rightarrow> nat \<Rightarrow> string option) option"

definition unavailable :: load_error where
  "unavailable = DocumentStorageUnavailableError
     ''Error accessing document object storage. Please upload the document again.''"

text \<open>The download loop; \<open>k\<close> counts the reads.\<close>

function read_loop ::
  "(nat \<Rightarrow> nat \<Rightarrow> string option) \<Rightarrow> nat \<Rightarrow> nat \<Rightarrow> string \<Rightarrow> (load_error, string) sum" where
  "read_loop response max_bytes k bytes =
     (if length bytes > max_bytes then Inl (DocumentStorageError (size_limit_error (int max_bytes)))
      else (case response k (min (1024 * 1024) (max_bytes - length bytes + 1)) of
              None \<Rightarrow> Inl unavailable
            | Some chunk \<Rightarrow>
                if chunk = [] then Inr bytes else read_loop response max_bytes (k + 1) (bytes @ chunk)))"
  by pat_completeness auto
termination
  by (relation "measure (\<lambda>(r, m, k, bytes). m + 1 - length bytes)") (auto simp: diff_less_mono2)

declare read_loop.simps [simp del]

definition declared_size :: "dict \<Rightarrow> int \<Rightarrow> (load_error, nat) sum" where
  "declared_size document_record max_bytes =
     (case dict_get document_record ''size'' of
        JInt n \<Rightarrow>
          if n \<le> 0 then Inl (DocumentStorageError ''Error: Retrieved document data is empty.'')
          else if n > max_bytes then Inl (DocumentStorageError (size_limit_error max_bytes))
          else Inr (nat n)
      | _ \<Rightarrow> Inl (DocumentStorageError ''Error: Stored document size is invalid.''))"

definition has_expired :: "dict \<Rightarrow> rat \<Rightarrow> bool" where
  "has_expired document_record now_ms =
     (case number_of (dict_get document_record ''expiresAt'') of
        None \<Rightarrow> False
      | Some t \<Rightarrow> float_le t (Finite now_ms []))"

fun bind_sum :: "'e + 'a \<Rightarrow> ('a \<Rightarrow> 'e + 'b) \<Rightarrow> 'e + 'b" where
  "bind_sum (Inl e) f = Inl e"
| "bind_sum (Inr x) f = f x"

definition read_document_object ::
  "(string \<Rightarrow> string) \<Rightarrow> object_env \<Rightarrow> object_store \<Rightarrow> rat \<Rightarrow> dict \<Rightarrow> string \<Rightarrow> string \<Rightarrow> string \<Rightarrow> int \<Rightarrow>
     (load_error, string) sum" where
  "read_document_object sha E store now_ms document_record document_id session_id username max_bytes =
     bind_sum (document_object_settings E) (\<lambda>settings.
     bind_sum (expected_document_object_key sha (configured_prefix E) username session_id document_id) (\<lambda>expected_key.
     let object_key = py_str (py_or (dict_get document_record ''objectKey'') (JStr []));
         object_bucket = py_str (py_or (dict_get document_record ''objectBucket'') (JStr [])) in
     if object_bucket \<noteq> os_bucket settings \<or> object_key \<noteq> expected_key
     then Inl (DocumentStorageError ''Error: Stored document object reference is invalid.'')
     else bind_sum (declared_size document_record max_bytes) (\<lambda>declared.
     if has_expired document_record now_ms
     then Inl (DocumentStorageError ''Error: Document has expired. Please upload the document again.'')
     else bind_sum (document_object_request_timeout E) (\<lambda>_.
     case client_error store of
       Some e \<Rightarrow> Inl (OtherException e)
     | None \<Rightarrow>
         (case get_object store (os_bucket settings) object_key of
            None \<Rightarrow> Inl unavailable
          | Some response \<Rightarrow>
              bind_sum (read_loop response (nat max_bytes) 0 []) (\<lambda>bytes.
              if length bytes \<noteq> declared
              then Inl (DocumentStorageError (''Error: Stored document length doesn'' @ apos @ ''t match its metadata.''))
              else Inr bytes))))))"

section \<open>Base64 payloads\<close>

definition base64_value :: "char \<Rightarrow> nat option" where
  "base64_value c =
     (if is_upper_letter c then Some (code c - 65)
      else if is_lower_letter c then Some (code c - 71)
      else if is_digit c then Some (code c + 4)
      else if c = CHR ''+'' then Some 62 else if c = CHR ''/'' then Some 63 else None)"

fun sextets_bytes :: "nat list \<Rightarrow> string" where
  "sextets_bytes (a # b # c # d # ns) =
     char_of (4 * a + b div 16) # char_of (16 * (b mod 16) + c div 4) # char_of (64 * (c mod 4) + d) # sextets_bytes ns"
| "sextets_bytes [a, b, c] = [char_of (4 * a + b div 16), char_of (16 * (b mod 16) + c div 4)]"
| "sextets_bytes [a, b] = [char_of (4 * a + b div 16)]"
| "sextets_bytes ns = []"

text \<open>\<open>base64.strict_b64decode(text, validate=True)\<close> in its strict form: alphabet characters, then exactly the padding
  that the last group needs.\<close>

definition strict_b64decode :: "string \<Rightarrow> string option" where
  "strict_b64decode s =
     (let body = rstrip_while equals_sign s; pads = length s - length body; values = map base64_value body in
      if None \<in> set values then None
      else if (length body mod 4, pads) \<in> {(0, 0), (2, 2), (3, 1)} then Some (sextets_bytes (map the values))
      else None)"

definition record_filename :: "dict \<Rightarrow> string \<Rightarrow> string" where
  "record_filename document_record document_id =
     py_str (py_or (dict_get document_record ''filename'') (JStr (document_id @ ''.bin'')))"

definition load_document_bytes ::
  "(string \<Rightarrow> string) \<Rightarrow> object_env \<Rightarrow> object_store \<Rightarrow> rat \<Rightarrow> int \<Rightarrow> dict \<Rightarrow> string \<Rightarrow> string \<Rightarrow> string \<Rightarrow>
     (load_error, string \<times> string) sum" where
  "load_document_bytes sha E store now_ms max_bytes document_record document_id session_id username =
     (let filename = record_filename document_record document_id;
          from_object =
            (if dict_get document_record ''storage'' \<noteq> JStr ''object-v1''
             then Inl (DocumentStorageError ''Error: Retrieved document data is empty.'')
             else bind_sum (read_document_object sha E store now_ms document_record document_id session_id username max_bytes)
                    (\<lambda>bytes. Inr (bytes, filename))) in
      case dict_get document_record ''data'' of
        JStr document_base64 \<Rightarrow>
          if document_base64 = [] then from_object
          else (case document_size_error document_base64 max_bytes of
                  Some e \<Rightarrow> Inl (DocumentStorageError e)
                | None \<Rightarrow>
                    let unpadded = rstrip_while equals_sign document_base64;
                        encoded = (if unpadded \<noteq> [] \<and> length unpadded mod 4 = 0 then unpadded else document_base64) in
                    (case strict_b64decode encoded of
                       None \<Rightarrow> Inl (DocumentStorageError ''Error: Retrieved document data is invalid.'')
                     | Some bytes \<Rightarrow> Inr (bytes, filename)))
      | _ \<Rightarrow> from_object)"

section \<open>Facts\<close>

lemma bind_sum_Inr: "bind_sum m f = Inr y \<longleftrightarrow> (\<exists>x. m = Inr x \<and> f x = Inr y)"
  by (cases m) auto

lemma read_loop_bounded: "read_loop response m k bytes = Inr b \<Longrightarrow> length b \<le> m"
proof (induction response m k bytes rule: read_loop.induct)
  case (1 response m k bytes)
  from "1.prems" show ?case
    by (subst (asm) read_loop.simps) (auto split: if_splits option.splits dest: "1.IH")
qed

lemma strip_no_space: "\<forall>c \<in> set s. \<not> is_space c \<Longrightarrow> strip s = s"
  unfolding strip_def lstrip_def by (rule trim_ends) (cases "s = []"; simp)

lemma sextets_length: "length (sextets_bytes ns) = length ns * 3 div 4"
  by (induction ns rule: sextets_bytes.induct) auto

lemma rstrip_split: "\<exists>t. s = rstrip_while P s @ t \<and> (\<forall>c \<in> set t. P c)"
proof -
  have "s = rev (dropWhile P (rev s)) @ rev (takeWhile P (rev s))"
    by (metis rev_append rev_rev_ident takeWhile_dropWhile_id)
  then show ?thesis unfolding rstrip_while_def by (metis set_rev set_takeWhileD)
qed

lemma base64_not_space: "base64_value c \<noteq> None \<Longrightarrow> \<not> is_space c"
  by (auto simp: base64_value_def is_space_def is_upper_letter_def is_lower_letter_def is_digit_def Let_def code_def
      split: if_splits)

lemma strict_b64decode_size:
  assumes "strict_b64decode s = Some b"
  shows "length b = length (rstrip_while equals_sign s) * 3 div 4" and "strip s = s"
proof -
  let ?body = "rstrip_while equals_sign s"
  from assms have alphabet: "None \<notin> set (map base64_value ?body)" and b: "b = sextets_bytes (map the (map base64_value ?body))"
    by (auto simp: strict_b64decode_def Let_def split: if_splits)
  then show "length b = length ?body * 3 div 4" by (simp add: sextets_length)
  obtain t where t: "s = ?body @ t" "\<forall>c \<in> set t. equals_sign c" using rstrip_split by blast
  have "\<not> is_space c" if "c \<in> set s" for c
  proof -
    from that t have "c \<in> set ?body \<or> equals_sign c" by (metis Un_iff set_append)
    then show ?thesis
    proof
      assume "c \<in> set ?body"
      then have "base64_value c \<in> set (map base64_value ?body)" by simp
      with alphabet have "base64_value c \<noteq> None" by metis
      then show ?thesis by (rule base64_not_space)
    qed (simp add: equals_sign_def is_space_def code_def)
  qed
  then show "strip s = s" by (intro strip_no_space) blast
qed

lemma payload_bounded:
  assumes size: "document_size_error s m = None"
    and enc: "encoded = (if rstrip_while equals_sign s \<noteq> [] \<and> length (rstrip_while equals_sign s) mod 4 = 0
                         then rstrip_while equals_sign s else s)"
    and dec: "strict_b64decode encoded = Some b"
  shows "int (length b) \<le> m"
proof -
  have body: "rstrip_while equals_sign encoded = rstrip_while equals_sign s" by (simp add: enc)
  obtain t where t: "s = rstrip_while equals_sign s @ t" "\<forall>c \<in> set t. equals_sign c" using rstrip_split by blast
  have s: "strip s = s"
  proof (cases "encoded = s")
    case True
    with strict_b64decode_size(2) [OF dec] show ?thesis by simp
  next
    case False
    then have e: "encoded = rstrip_while equals_sign s" "rstrip_while equals_sign s \<noteq> []" by (auto simp: enc split: if_splits)
    have strip: "strip encoded = encoded" by (rule strict_b64decode_size(2) [OF dec])
    have h: "\<not> is_space (hd encoded)" using strip e strip_nonempty_suffix [of encoded] by simp
    have "\<not> is_space (last s)"
    proof (cases "t = []")
      case True
      with t e False show ?thesis by simp
    next
      case False
      with t have "last s = last t" "equals_sign (last t)" by (metis last_appendR) (simp add: False t(2))
      then show ?thesis by (simp add: equals_sign_def is_space_def code_def)
    qed
    moreover have "hd s = hd encoded" using t(1) e by (metis hd_append2)
    ultimately show ?thesis unfolding strip_def lstrip_def using h by (intro trim_ends) simp
  qed
  from size have "int (length (rstrip_while equals_sign s) * 3 div 4) \<le> m"
    by (simp add: document_size_error_def estimated_decoded_size_def s split: if_splits)
  then show ?thesis using strict_b64decode_size(1) [OF dec] by (simp add: body)
qed

lemma read_document_object_ok:
  assumes "read_document_object sha E store now_ms d document_id session_id username m = Inr bytes"
  shows "\<exists>settings key. document_object_settings E = Inr settings
    \<and> expected_document_object_key sha (configured_prefix E) username session_id document_id = Inr key
    \<and> py_str (py_or (dict_get d ''objectKey'') (JStr [])) = key
    \<and> py_str (py_or (dict_get d ''objectBucket'') (JStr [])) = os_bucket settings
    \<and> dict_get d ''size'' = JInt (int (length bytes)) \<and> 0 < length bytes \<and> int (length bytes) \<le> m
    \<and> \<not> has_expired d now_ms"
proof -
  obtain settings where settings: "document_object_settings E = Inr settings"
    using assms unfolding read_document_object_def bind_sum_Inr by blast
  obtain key where key: "expected_document_object_key sha (configured_prefix E) username session_id document_id = Inr key"
    using assms unfolding read_document_object_def settings bind_sum.simps bind_sum_Inr by blast
  note read = assms [unfolded read_document_object_def settings key bind_sum.simps Let_def]
  from read obtain n where n: "declared_size d m = Inr n" and rest: "length bytes = n"
    "\<not> has_expired d now_ms" "py_str (py_or (dict_get d ''objectKey'') (JStr [])) = key"
    "py_str (py_or (dict_get d ''objectBucket'') (JStr [])) = os_bucket settings"
    by (auto simp: bind_sum_Inr split: if_splits option.splits)
  from n have "dict_get d ''size'' = JInt (int n) \<and> 0 < n \<and> int n \<le> m"
    by (auto simp: declared_size_def split: json.splits if_splits)
  with settings key rest show ?thesis by auto
qed

lemma max_size_positive: "0 < document_ingest_max_size_bytes env"
  by (simp add: document_ingest_max_size_bytes_def DEFAULT_DOCUMENT_INGEST_MAX_SIZE_BYTES_def Let_def split: option.split)

section \<open>Properties\<close>


definition sample_object_env :: object_env where
  "sample_object_env = \<lparr>env_endpoint = Some ''https://minio:9000/'', env_access_key = Some ''k'', env_secret_key = Some ''s'',
     env_session_token = None, env_bucket = Some ''docs'', env_prefix = None, env_region = None, env_timeout_ms = None\<rparr>"

definition sample_object_store :: object_store where
  "sample_object_store = \<lparr>client_error = None,
     get_object = (\<lambda>_ _. Some (\<lambda>k n. Some (if k = 0 then ''ab'' else if k = 1 then ''c'' else [])))\<rparr>"

definition sample_record :: dict where
  "sample_record = [(''storage'', JStr ''object-v1''), (''objectBucket'', JStr ''docs''),
     (''objectKey'', JStr (''daedalus-documents/'' @ take 32 (sample_digest ''ann'') @ ''/s1/d1'')), (''size'', JInt 3),
     (''expiresAt'', JInt 2000), (''filename'', JStr ''a.pdf'')]"


text \<open>The inline cut of extracted text: nothing changes up to the limit; beyond it the result has exactly the
  limit's length and, when the marker fits, keeps the head and the tail of the text, the head being the longer by
  at most one character.\<close>

theorem char_limit_exact:
  assumes "0 \<le> n" and "apply_char_limit raw (Some n) = (out, truncated)"
  shows "truncated = (int (length raw) > n)
    \<and> (\<not> truncated \<longrightarrow> out = raw)
    \<and> (truncated \<longrightarrow> int (length out) = n)
    \<and> (truncated \<and> n > int (length omission_marker) \<longrightarrow>
         (\<exists>h t. out = take h raw @ omission_marker @ drop (length raw - t) raw
            \<and> int (h + t) = n - int (length omission_marker) \<and> (h = t \<or> h = t + 1)))"
proof (cases "int (length raw) \<le> n \<or> n \<le> int (length omission_marker)")
  case True
  with assms show ?thesis by (auto simp: apply_char_limit_def slice_to_def split: if_splits)
next
  case False
  define remaining where "remaining = nat n - length omission_marker"
  define h where "h = (remaining + 1) div 2"
  define t where "t = remaining - h"
  have ht: "h + t = remaining" "h = t \<or> h = t + 1" unfolding t_def h_def by linarith+
  have "(if t \<noteq> 0 then drop (length raw - t) raw else []) = drop (length raw - t) raw" by simp
  have "apply_char_limit raw (Some n)
      = (take h raw @ omission_marker @ (if t \<noteq> 0 then drop (length raw - t) raw else []), True)"
    unfolding apply_char_limit_def option.case Let_def remaining_def [symmetric] h_def [symmetric] t_def [symmetric]
    using False by simp
  with assms(2) have out: "out = take h raw @ omission_marker @ drop (length raw - t) raw" "truncated"
    by (cases "t = 0"; simp)+
  have r: "int remaining = n - int (length omission_marker)" "int remaining < int (length raw)"
    using False assms(1) by (auto simp: remaining_def)
  then have "h \<le> length raw" "t \<le> length raw" using ht by linarith+
  then have "int (length out) = n" using ht r by (simp add: out)
  moreover have "\<exists>h t. out = take h raw @ omission_marker @ drop (length raw - t) raw
      \<and> int (h + t) = n - int (length omission_marker) \<and> (h = t \<or> h = t + 1)"
    by (rule exI [of _ h], rule exI [of _ t]) (simp only: out(1) ht(1) r(1) ht(2) simp_thms)
  ultimately show ?thesis using False out(2) by auto
qed

theorem char_limit_exact_witness:
  "int (length (fst (apply_char_limit (replicate 80 (CHR ''x'')) (Some 60)))) = 60"
proof -
  obtain out tr where o: "apply_char_limit (replicate 80 (CHR ''x'')) (Some 60) = (out, tr)" by force
  from char_limit_exact [OF _ o] o show ?thesis by simp
qed

end
