(* ===== verification/Document_Ingest.thy ===== *)
theory Document_Ingest
  imports Document_Storage Idempotency
begin

text \<open>
  Ingesting uploads: \<open>NvIngestDocumentProcessor\<close>, the idempotent wrapper and the dispatch of the tool
  (\<open>nat_nv_ingest/nat_nv_ingest.py\<close>) and the routes (\<open>document_ingest_api.py\<close>).

  The environment of one call gives what Redis answers for each key, the object store, the clock, and how each
  attempt of the SDK ends: with counts, with an exception before or after its write to Milvus began, or in
  the timeout. Progress events and log lines are left out, and so is the wording of the batch summary, which
  is the record of counts here.
\<close>

section \<open>One document\<close>

datatype stored_read = RedisFails string | NoValue | Undecodable string | Decoded json

datatype attempt_outcome =
    Ingested int int int string
  | AttemptFails string bool
  | AttemptTimesOut

record document_world =
  w_env :: object_env
  w_max_size :: "string option"
  w_store :: object_store
  w_now_ms :: rat
  w_redis :: "string \<Rightarrow> stored_read"
  w_client :: "string option"
  w_attempt :: "nat \<Rightarrow> attempt_outcome"

record ingest_config =
  default_collection_name :: "string option"
  chunk_size :: int
  chunk_overlap :: int
  ingest_max_retries :: int
  timeout_text :: string
  recreate_collection :: bool
  batch_concurrency :: int
  max_documents_per_batch :: int

record ingest_result =
  ir_status :: string
  ir_filename :: json
  ir_chunks :: int
  ir_failures :: int
  ir_pages :: int
  ir_collection :: string
  ir_markdown :: string
  ir_error :: string

definition ingest_failure :: "string \<Rightarrow> json \<Rightarrow> string \<Rightarrow> ingest_result" where
  "ingest_failure collection filename error =
     \<lparr>ir_status = ''failure'', ir_filename = filename, ir_chunks = 0, ir_failures = 0, ir_pages = 0,
      ir_collection = collection, ir_markdown = [], ir_error = error\<rparr>"

definition type_name :: "json \<Rightarrow> string" where
  "type_name v =
     (case v of JNull \<Rightarrow> ''NoneType'' | JBool _ \<Rightarrow> ''bool'' | JInt _ \<Rightarrow> ''int'' | JFloat _ \<Rightarrow> ''float''
      | JStr _ \<Rightarrow> ''str'' | JList _ \<Rightarrow> ''list'' | JObj _ \<Rightarrow> ''dict'')"

definition no_attribute_get :: "json \<Rightarrow> string" where
  "no_attribute_get v = apos @ type_name v @ apos @ '' object has no attribute '' @ apos @ ''get'' @ apos"

definition not_found_error :: string where
  "not_found_error = ''Error: Document not found in storage. '' @ ''The file may have expired or the session may be ''
     @ ''invalid. Please try uploading the document again.''"

definition no_access_error :: string where
  "no_access_error = ''Error: You do not have access to this document. ''
     @ ''Please upload the document again from your account.''"

text \<open>The fetch that ingestion and extraction share: an exception of Redis, of the stored value, or a failure
  that is reported with the name of the file; \<open>forbidden\<close> marks the ownership test.\<close>

datatype fetch_failure =
    FetchRedis string
  | FetchMissing
  | FetchForbidden
  | FetchStorage load_error dict
  | FetchOther string

definition fetch_document ::
  "(string \<Rightarrow> string) \<Rightarrow> document_world \<Rightarrow> json \<Rightarrow> json \<Rightarrow> string \<Rightarrow> fetch_failure + string \<times> string" where
  "fetch_document sha W document_id session_id username =
     (case w_redis W (''document:'' @ py_str session_id @ '':'' @ py_str document_id) of
        RedisFails e \<Rightarrow> Inl (FetchRedis e)
      | NoValue \<Rightarrow> Inl FetchMissing
      | Undecodable e \<Rightarrow> Inl (FetchOther e)
      | Decoded (JObj document_record) \<Rightarrow>
          if \<not> can_access_stored_document document_record (Some username) then Inl FetchForbidden
          else (case load_document_bytes sha (w_env W) (w_store W) (w_now_ms W)
                       (document_ingest_max_size_bytes (w_max_size W)) document_record
                       (py_str document_id) (py_str session_id) username of
                  Inl (OtherException e) \<Rightarrow> Inl (FetchOther e)
                | Inl e \<Rightarrow> Inl (FetchStorage e document_record)
                | Inr loaded \<Rightarrow> Inr loaded)
      | Decoded v \<Rightarrow> Inl (FetchOther (no_attribute_get v)))"

fun storage_text :: "load_error \<Rightarrow> string" where
  "storage_text (DocumentStorageError e) = e"
| "storage_text (DocumentStorageUnavailableError e) = e"
| "storage_text (OtherException e) = e"

text \<open>The attempts that the retry loop makes: a failure before the write began is retried, everything else
  ends the loop.\<close>

fun attempt_loop :: "(nat \<Rightarrow> attempt_outcome) \<Rightarrow> nat \<Rightarrow> nat \<Rightarrow> attempt_outcome list" where
  "attempt_loop w 0 attempt = []"
| "attempt_loop w (Suc n) attempt =
     (case w attempt of
        AttemptFails e False \<Rightarrow> w attempt # attempt_loop w n (attempt + 1)
      | _ \<Rightarrow> [w attempt])"

definition attempts_made :: "ingest_config \<Rightarrow> document_world \<Rightarrow> attempt_outcome list" where
  "attempts_made cfg W = attempt_loop (w_attempt W) (nat (ingest_max_retries cfg + 1)) 0"

definition timed_out_error :: "string \<Rightarrow> string" where
  "timed_out_error seconds = ''Error processing document with NvIngest: ''
     @ ''timed out after '' @ seconds @ '' seconds. ''
     @ ''The SDK operation may still be running; collection ownership ''
     @ ''is retained until it finishes. Do not retry blindly.''"

definition attempts_result :: "string \<Rightarrow> string \<Rightarrow> string \<Rightarrow> attempt_outcome list \<Rightarrow> ingest_result" where
  "attempts_result seconds collection filename outcomes =
     (if outcomes = []
      then ingest_failure collection (JStr filename) ''Error processing document with NvIngest: None''
      else (case last outcomes of
              Ingested success_count failure_count page_count md \<Rightarrow>
                \<lparr>ir_status = (if failure_count = 0 then ''success'' else ''partial''), ir_filename = JStr filename,
                 ir_chunks = success_count, ir_failures = failure_count, ir_pages = page_count,
                 ir_collection = collection, ir_markdown = md, ir_error = []\<rparr>
            | AttemptFails e _ \<Rightarrow>
                ingest_failure collection (JStr filename) (''Error processing document with NvIngest: '' @ e)
            | AttemptTimesOut \<Rightarrow> ingest_failure collection (JStr filename) (timed_out_error seconds)))"

definition or_name :: "string \<Rightarrow> json \<Rightarrow> json" where
  "or_name filename initial = (if filename = [] then initial else JStr filename)"

definition process_document ::
  "(string \<Rightarrow> string) \<Rightarrow> ingest_config \<Rightarrow> document_world \<Rightarrow> json \<Rightarrow> string \<Rightarrow> string option \<Rightarrow> string option \<Rightarrow>
     ingest_result \<times> attempt_outcome list" where
  "process_document sha cfg W document_ref username collection_name collection_scope =
     (let collection = resolve_user_collection_name sha collection_name (Some username) (default_collection_name cfg);
          ref = (case document_ref of JObj d \<Rightarrow> d | _ \<Rightarrow> []);
          initial = dict_get_default ref ''filename'' (JStr []);
          fail = (\<lambda>e. (ingest_failure collection initial e, []));
          document_id = dict_get ref ''documentId''; session_id = dict_get ref ''sessionId'' in
      case validate_user_collection_write_scope collection collection_scope of
        Inl (ValueError e) \<Rightarrow> fail (''Error: '' @ e)
      | Inl _ \<Rightarrow> fail []
      | Inr _ \<Rightarrow>
          if ref = [] then fail ''Error: Invalid document reference provided.''
          else if \<not> truthy document_id \<or> \<not> truthy session_id
          then fail ''Error: Document reference must contain documentId and sessionId.''
          else if username = [] then fail ''Error: Valid username required for document processing.''
          else (case fetch_document sha W document_id session_id username of
                  Inl (FetchRedis e) \<Rightarrow> fail (''Error accessing document storage: '' @ e)
                | Inl FetchMissing \<Rightarrow> fail not_found_error
                | Inl FetchForbidden \<Rightarrow> fail no_access_error
                | Inl (FetchStorage e d) \<Rightarrow>
                    (ingest_failure collection (or_name (record_filename d (py_str document_id)) initial) (storage_text e), [])
                | Inl (FetchOther e) \<Rightarrow> fail (''Error processing document data: '' @ e)
                | Inr (bytes, filename) \<Rightarrow>
                    (case w_client W of
                       Some e \<Rightarrow> fail (''An unexpected error occurred: '' @ e)
                     | None \<Rightarrow>
                         let outcomes = attempts_made cfg W; r = attempts_result (timeout_text cfg) collection filename outcomes in
                         (if ir_status r = ''failure'' then r\<lparr>ir_filename := or_name filename initial\<rparr> else r, outcomes))))"

text \<open>Extraction without indexing.\<close>

record extract_result =
  er_status :: string
  er_filename :: json
  er_pages :: int
  er_markdown :: string
  er_truncated :: bool
  er_original_chars :: int
  er_error :: string
  er_error_kind :: string

definition extract_failure :: "json \<Rightarrow> string \<Rightarrow> string \<Rightarrow> extract_result" where
  "extract_failure filename error kind =
     \<lparr>er_status = ''failure'', er_filename = filename, er_pages = 0, er_markdown = [], er_truncated = False,
      er_original_chars = 0, er_error = error, er_error_kind = kind\<rparr>"

definition extract_document ::
  "(string \<Rightarrow> string) \<Rightarrow> ingest_config \<Rightarrow> document_world \<Rightarrow> json \<Rightarrow> string \<Rightarrow> int option \<Rightarrow> extract_result" where
  "extract_document sha cfg W document_ref username char_limit =
     (let ref = (case document_ref of JObj d \<Rightarrow> d | _ \<Rightarrow> []);
          initial = dict_get_default ref ''filename'' (JStr []);
          document_id = dict_get ref ''documentId''; session_id = dict_get ref ''sessionId'' in
      if ref = [] then extract_failure initial ''Error: Invalid document reference provided.'' []
      else if \<not> truthy document_id \<or> \<not> truthy session_id
      then extract_failure initial ''Error: Document reference must contain documentId and sessionId.'' []
      else if username = [] then extract_failure initial ''Error: Valid username required for document extraction.'' []
      else (case fetch_document sha W document_id session_id username of
              Inl (FetchRedis e) \<Rightarrow> extract_failure initial (''Error accessing document storage: '' @ e) ''unavailable''
            | Inl FetchMissing \<Rightarrow> extract_failure initial not_found_error []
            | Inl FetchForbidden \<Rightarrow> extract_failure initial no_access_error ''forbidden''
            | Inl (FetchStorage e d) \<Rightarrow>
                extract_failure (or_name (record_filename d (py_str document_id)) initial) (storage_text e)
                  (case e of DocumentStorageUnavailableError _ \<Rightarrow> ''unavailable'' | _ \<Rightarrow> [])
            | Inl (FetchOther e) \<Rightarrow> extract_failure initial (''An unexpected error occurred: '' @ e) []
            | Inr (bytes, filename) \<Rightarrow>
                (case w_client W of
                   Some e \<Rightarrow> extract_failure initial (''An unexpected error occurred: '' @ e) []
                 | None \<Rightarrow>
                     (case w_attempt W 0 of
                        AttemptTimesOut \<Rightarrow>
                          extract_failure (or_name filename initial) (''Error extracting document with NvIngest: ''
                            @ ''timed out after '' @ timeout_text cfg @ '' seconds.'') []
                      | AttemptFails e _ \<Rightarrow>
                          extract_failure (or_name filename initial) (''Error extracting document with NvIngest: '' @ e) []
                      | Ingested _ _ page_count raw_md \<Rightarrow>
                          (case apply_char_limit raw_md char_limit of
                             (md, truncated) \<Rightarrow>
                               \<lparr>er_status = ''success'', er_filename = JStr filename, er_pages = page_count,
                                er_markdown = md, er_truncated = truncated, er_original_chars = int (length raw_md),
                                er_error = [], er_error_kind = []\<rparr>)))))"

section \<open>Batches\<close>

record indexed_document =
  id_name :: json
  id_chunks :: int
  id_pages :: int
  id_status :: string

text \<open>\<open>b_calls\<close> records the calls of \<open>process_document\<close>, in order: the index of the document and whether the
  collection is appended to.\<close>

record batch_state =
  b_ok :: "indexed_document list"
  b_failed :: "(json \<times> string) list"
  b_chunks :: int
  b_pages :: int
  b_calls :: "(nat \<times> bool) list"

definition new_batch :: batch_state where
  "new_batch = \<lparr>b_ok = [], b_failed = [], b_chunks = 0, b_pages = 0, b_calls = []\<rparr>"

definition ref_name :: "json list \<Rightarrow> nat \<Rightarrow> json" where
  "ref_name refs idx =
     (case refs ! idx of
        JObj d \<Rightarrow> dict_get_default d ''filename''
          (dict_get_default d ''documentId'' (JStr (''Document_'' @ show_nat (idx + 1))))
      | _ \<Rightarrow> JNull)"

definition accumulate :: "json \<Rightarrow> ingest_result \<Rightarrow> batch_state \<Rightarrow> batch_state" where
  "accumulate ref_filename outcome b =
     (let filename = py_or (ir_filename outcome) ref_filename in
      if ir_status outcome \<in> {''success'', ''partial''}
      then b\<lparr>b_chunks := b_chunks b + ir_chunks outcome, b_pages := b_pages b + ir_pages outcome,
             b_ok := b_ok b @ [\<lparr>id_name = filename, id_chunks = ir_chunks outcome, id_pages = ir_pages outcome,
                               id_status = ir_status outcome\<rparr>]\<rparr>
      else b\<lparr>b_failed := b_failed b @ [(filename, ir_error outcome)]\<rparr>)"

definition is_timeout_failure :: "ingest_result \<Rightarrow> bool" where
  "is_timeout_failure outcome = (ir_status outcome = ''failure'' \<and> contains ''timed out'' (lower (ir_error outcome)))"

definition skipped_error :: string where
  "skipped_error = ''Skipped because a prior document ingest timed out; '' @ ''NV-Ingest or Milvus may be unavailable.''"

definition mark_skipped :: "json list \<Rightarrow> nat \<Rightarrow> nat \<Rightarrow> batch_state \<Rightarrow> batch_state" where
  "mark_skipped refs start stop b =
     b\<lparr>b_failed := b_failed b @ map (\<lambda>idx. (ref_name refs idx, skipped_error)) [start..<stop]\<rparr>"

text \<open>\<open>one idx appending\<close> is the result of \<open>process_document\<close> for the document at an index.\<close>

type_synonym one_result = "nat \<Rightarrow> bool \<Rightarrow> ingest_result"

definition run_one :: "one_result \<Rightarrow> json list \<Rightarrow> nat \<Rightarrow> bool \<Rightarrow> batch_state \<Rightarrow> batch_state" where
  "run_one one refs idx appending b =
     accumulate (ref_name refs idx) (one idx appending) (b\<lparr>b_calls := b_calls b @ [(idx, appending)]\<rparr>)"

text \<open>The serial prefix of a batch that replaces the collection.\<close>

fun prefix_loop :: "one_result \<Rightarrow> json list \<Rightarrow> nat list \<Rightarrow> batch_state \<Rightarrow> nat \<times> batch_state" where
  "prefix_loop one refs [] b = (length refs, b)"
| "prefix_loop one refs (idx # rest) b =
     (if b_ok b \<noteq> [] then (idx, b)
      else
        let b' = run_one one refs idx False b in
        if is_timeout_failure (one idx False) then (idx + 1, mark_skipped refs (idx + 1) (length refs) b')
        else prefix_loop one refs rest b')"

fun serial_loop :: "one_result \<Rightarrow> json list \<Rightarrow> nat list \<Rightarrow> batch_state \<Rightarrow> bool \<times> batch_state" where
  "serial_loop one refs [] b = (False, b)"
| "serial_loop one refs (idx # rest) b =
     (let appending = (b_ok b \<noteq> []); b' = run_one one refs idx appending b in
      if is_timeout_failure (one idx appending) then (True, mark_skipped refs (idx + 1) (length refs) b')
      else serial_loop one refs rest b')"

text \<open>Concurrent documents all start before any result of their group is counted; the results are then counted in
  order, and the first timeout gives up on the later groups.\<close>

fun gather_loop :: "one_result \<Rightarrow> json list \<Rightarrow> nat \<Rightarrow> bool \<Rightarrow> nat list \<Rightarrow> bool \<times> batch_state \<Rightarrow> bool \<times> batch_state" where
  "gather_loop one refs stop appending [] sb = sb"
| "gather_loop one refs stop appending (idx # rest) (skipped, b) =
     (let b' = run_one one refs idx appending b in
      if is_timeout_failure (one idx appending) \<and> \<not> skipped
      then gather_loop one refs stop appending rest (True, mark_skipped refs stop (length refs) b')
      else gather_loop one refs stop appending rest (skipped, b'))"

function batch_loop ::
  "one_result \<Rightarrow> json list \<Rightarrow> nat \<Rightarrow> bool \<Rightarrow> nat \<Rightarrow> bool \<times> batch_state \<Rightarrow> bool \<times> batch_state" where
  "batch_loop one refs max_batch serial start (skipped, b) =
     (if skipped \<or> start \<ge> length refs \<or> max_batch = 0 then (skipped, b)
      else
        let stop = min (start + max_batch) (length refs) in
        batch_loop one refs max_batch serial (start + max_batch)
          (if serial then serial_loop one refs [start..<stop] b
           else gather_loop one refs stop (b_ok b \<noteq> []) [start..<stop] (False, b)))"
  by pat_completeness auto
termination
  by (relation "measure (\<lambda>(one, refs, m, s, start, sb). length refs - start)") auto

declare batch_loop.simps [simp del]

definition run_batch :: "ingest_config \<Rightarrow> one_result \<Rightarrow> json list \<Rightarrow> batch_state" where
  "run_batch cfg one refs =
     (let max_batch = nat (max 1 (max_documents_per_batch cfg));
          prefix = (if recreate_collection cfg then prefix_loop one refs [0..<length refs] new_batch else (0, new_batch));
          skipped = (length (b_ok (snd prefix)) + length (b_failed (snd prefix)) \<ge> length refs) in
      snd (batch_loop one refs max_batch (max 1 (batch_concurrency cfg) = 1) (fst prefix) (skipped, snd prefix)))"

text \<open>The outcome of a batch: an error text, or the counts with the collection that the summary names.
  A reference that is not a dictionary makes the whole call raise.\<close>

definition process_multiple_documents ::
  "(string \<Rightarrow> string) \<Rightarrow> ingest_config \<Rightarrow> (nat \<Rightarrow> document_world) \<Rightarrow> json list \<Rightarrow> string \<Rightarrow> string option \<Rightarrow> string option \<Rightarrow>
     (string + string \<times> batch_state) result" where
  "process_multiple_documents sha cfg worlds document_refs username collection_name collection_scope =
     (if document_refs = []
      then Inr (Inl (''Error: Invalid document references provided. '' @ ''Expected a list of document references.''))
      else if username = [] then Inr (Inl ''Error: Valid username required for document processing.'')
      else bind_result (dedup_document_refs document_refs) (\<lambda>refs.
        let collection = resolve_user_collection_name sha collection_name (Some username) (default_collection_name cfg) in
        case validate_user_collection_write_scope collection collection_scope of
          Inl (ValueError e) \<Rightarrow> Inr (Inl (''Error: '' @ e))
        | Inl e \<Rightarrow> Inl e
        | Inr scope \<Rightarrow>
            if \<not> list_all is_dict refs then Inl AttributeError
            else Inr (Inr (collection,
              run_batch cfg
                (\<lambda>idx appending. fst (process_document sha (if appending then cfg\<lparr>recreate_collection := False\<rparr> else cfg)
                   (worlds idx) (refs ! idx) username (Some collection) (Some (scope_text scope))))
                refs))))"

section \<open>Facts about attempts and batches\<close>

fun write_began :: "attempt_outcome \<Rightarrow> bool" where
  "write_began (AttemptFails e started) = started"
| "write_began _ = True"

lemma attempt_loop_writes:
  "attempt_loop w n k = outcomes \<Longrightarrow> length outcomes \<le> n
     \<and> (\<forall>r \<in> set (butlast outcomes). \<not> write_began r)"
proof (induction n arbitrary: k outcomes)
  case (Suc n)
  show ?case
  proof (cases "\<exists>e. w k = AttemptFails e False")
    case True
    then obtain e where e: "w k = AttemptFails e False" by blast
    let ?rest = "attempt_loop w n (k + 1)"
    from Suc.IH [of "k + 1" ?rest] have ih: "length ?rest \<le> n" "\<forall>r \<in> set (butlast ?rest). \<not> write_began r" by auto
    from Suc.prems e have o: "outcomes = w k # ?rest" by simp
    with ih e show ?thesis by (cases "?rest = []") auto
  next
    case False
    then have "attempt_loop w (Suc n) k = [w k]"
      by (auto split: attempt_outcome.splits bool.splits)
    with Suc.prems show ?thesis by auto
  qed
qed simp

definition call_ok :: "one_result \<Rightarrow> nat \<times> bool \<Rightarrow> bool" where
  "call_ok one c = (ir_status (one (fst c) (snd c)) \<in> {''success'', ''partial''})"

definition counted :: "batch_state \<Rightarrow> nat" where
  "counted b = length (b_ok b) + length (b_failed b)"

text \<open>The counts agree with the calls, which went through the indices in order.\<close>

definition batch_sums :: "one_result \<Rightarrow> nat \<Rightarrow> batch_state \<Rightarrow> bool" where
  "batch_sums one k b =
     (map fst (b_calls b) = [0..<k]
      \<and> b_chunks b = sum_list (map id_chunks (b_ok b)) \<and> b_pages b = sum_list (map id_pages (b_ok b))
      \<and> length (b_ok b) = length (filter (call_ok one) (b_calls b)))"

definition batch_at :: "one_result \<Rightarrow> nat \<Rightarrow> batch_state \<Rightarrow> bool" where
  "batch_at one k b = (batch_sums one k b \<and> counted b = k)"

definition batch_complete :: "one_result \<Rightarrow> nat \<Rightarrow> batch_state \<Rightarrow> bool" where
  "batch_complete one n b = (counted b = n \<and> (\<exists>m \<le> n. batch_sums one m b))"

lemma run_one_sums: "batch_sums one k b \<Longrightarrow> batch_sums one (k + 1) (run_one one refs k a b)"
  by (simp add: batch_sums_def run_one_def accumulate_def call_ok_def Let_def)

lemma run_one_counted: "counted (run_one one refs k a b) = counted b + 1"
  by (simp add: run_one_def accumulate_def counted_def Let_def)

lemma skipped_sums: "batch_sums one k (mark_skipped refs i j b) = batch_sums one k b"
  by (simp add: batch_sums_def mark_skipped_def)

lemma skipped_counted: "counted (mark_skipped refs i j b) = counted b + (j - i)"
  by (simp add: counted_def mark_skipped_def)

lemmas batch_facts = run_one_sums run_one_counted skipped_sums skipped_counted

lemma at_next: "batch_at one k b \<Longrightarrow> batch_at one (Suc k) (run_one one refs k a b)"
  using run_one_sums [of one k b] by (simp add: batch_at_def run_one_counted)

lemma at_skipped: "batch_at one k b \<Longrightarrow> k \<le> n \<Longrightarrow> batch_complete one n (mark_skipped refs k n b)"
  by (auto simp: batch_at_def batch_complete_def batch_facts)

lemma prefix_loop_complete:
  "batch_at one k b \<Longrightarrow> k \<le> length refs \<Longrightarrow> prefix_loop one refs [k..<length refs] b = (j, b') \<Longrightarrow>
     (batch_at one j b' \<and> j \<le> length refs \<and> (b_ok b' \<noteq> [] \<or> j = length refs)) \<or> batch_complete one (length refs) b'"
proof (induction "length refs - k" arbitrary: k b)
  case 0
  then show ?case by simp
next
  case (Suc m)
  then have k: "k < length refs" by simp
  let ?b = "run_one one refs k False b"
  have at: "batch_at one (Suc k) ?b" using Suc.prems(1) by (rule at_next)
  note loop = Suc.prems(3) [unfolded upt_conv_Cons [OF k] prefix_loop.simps Let_def]
  consider (stop) "b_ok b \<noteq> []" | (timeout) "b_ok b = []" "is_timeout_failure (one k False)"
    | (onward) "b_ok b = []" "\<not> is_timeout_failure (one k False)" by blast
  then show ?case
  proof cases
    case stop
    with loop Suc.prems k show ?thesis by auto
  next
    case timeout
    with loop at_skipped [OF at, of "length refs" refs] k show ?thesis by auto
  next
    case onward
    with loop have "prefix_loop one refs [Suc k..<length refs] ?b = (j, b')" by simp
    from Suc.hyps(1) [OF _ at _ this] Suc.hyps(2) k show ?thesis by linarith
  qed
qed

lemma serial_loop_complete:
  "batch_at one k b \<Longrightarrow> k \<le> stop \<Longrightarrow> stop \<le> length refs \<Longrightarrow> serial_loop one refs [k..<stop] b = (skipped, b') \<Longrightarrow>
     (if skipped then batch_complete one (length refs) b' else batch_at one stop b')"
proof (induction "stop - k" arbitrary: k b)
  case 0
  then show ?case by auto
next
  case (Suc m)
  then have k: "k < stop" by simp
  let ?a = "b_ok b \<noteq> []"
  let ?b = "run_one one refs k ?a b"
  have at: "batch_at one (Suc k) ?b" using Suc.prems(1) by (rule at_next)
  note loop = Suc.prems(4) [unfolded upt_conv_Cons [OF k] serial_loop.simps Let_def]
  show ?case
  proof (cases "is_timeout_failure (one k ?a)")
    case True
    with loop at_skipped [OF at, of "length refs" refs] k Suc.prems(3) show ?thesis by auto
  next
    case False
    with loop have "serial_loop one refs [Suc k..<stop] ?b = (skipped, b')" by simp
    from Suc.hyps(1) [OF _ at _ Suc.prems(3) this] Suc.hyps(2) k show ?thesis by linarith
  qed
qed

lemma gather_loop_counts:
  "batch_sums one k b \<Longrightarrow> counted b = k + (if s then length refs - stop else 0) \<Longrightarrow> k \<le> stop \<Longrightarrow> stop \<le> length refs \<Longrightarrow>
   gather_loop one refs stop a [k..<stop] (s, b) = (skipped, b') \<Longrightarrow>
     batch_sums one stop b' \<and> counted b' = stop + (if skipped then length refs - stop else 0)"
proof (induction "stop - k" arbitrary: k b s)
  case 0
  then show ?case by auto
next
  case (Suc m)
  then have k: "k < stop" by simp
  let ?b = "run_one one refs k a b"
  let ?t = "is_timeout_failure (one k a) \<and> \<not> s"
  let ?b' = "if ?t then mark_skipped refs stop (length refs) ?b else ?b"
  have sums: "batch_sums one (Suc k) ?b'"
    using run_one_sums [OF Suc.prems(1)] by (simp add: skipped_sums)
  have cnt: "counted ?b' = Suc k + (if s \<or> ?t then length refs - stop else 0)"
    using Suc.prems(2) by (simp add: batch_facts)
  from Suc.prems(5) have "gather_loop one refs stop a [Suc k..<stop] (s \<or> ?t, ?b') = (skipped, b')"
    unfolding upt_conv_Cons [OF k] gather_loop.simps Let_def by (auto split: if_splits)
  from Suc.hyps(1) [OF _ sums cnt _ Suc.prems(4) this] Suc.hyps(2) k show ?case by linarith
qed

lemma batch_loop_step:
  assumes "\<not> (skipped \<or> start \<ge> length refs \<or> m = 0)" and "stop = min (start + m) (length refs)"
  shows "batch_loop one refs m serial start (skipped, b) = batch_loop one refs m serial (start + m)
    (if serial then serial_loop one refs [start..<stop] b
     else gather_loop one refs stop (b_ok b \<noteq> []) [start..<stop] (False, b))"
  using assms by (subst batch_loop.simps) (simp add: Let_def)

lemma batch_loop_complete:
  "(if skipped then batch_complete one (length refs) b else batch_at one (min start (length refs)) b) \<Longrightarrow> 0 < m \<Longrightarrow>
     batch_complete one (length refs) (snd (batch_loop one refs m serial start (skipped, b)))"
proof (induction one refs m serial start "(skipped, b)" arbitrary: skipped b rule: batch_loop.induct)
  case (1 one refs m serial start skipped b)
  show ?case
  proof (cases "skipped \<or> start \<ge> length refs")
    case True
    then show ?thesis
      using "1.prems" by (subst batch_loop.simps) (auto simp: batch_at_def batch_complete_def split: if_splits)
  next
    case False
    define stop where "stop = min (start + m) (length refs)"
    define sb where "sb = (if serial then serial_loop one refs [start..<stop] b
      else gather_loop one refs stop (b_ok b \<noteq> []) [start..<stop] (False, b))"
    have at: "batch_at one start b" "start \<le> stop" "stop \<le> length refs"
      using False "1.prems" by (auto simp: stop_def)
    obtain sk b1 where sb: "sb = (sk, b1)" by (cases sb)
    have next1: "if sk then batch_complete one (length refs) b1 else batch_at one stop b1"
    proof (cases serial)
      case True
      with sb show ?thesis using serial_loop_complete [OF at] by (simp add: sb_def)
    next
      case ns: False
      with sb have g: "gather_loop one refs stop (b_ok b \<noteq> []) [start..<stop] (False, b) = (sk, b1)" by (simp add: sb_def)
      have "batch_sums one stop b1 \<and> counted b1 = stop + (if sk then length refs - stop else 0)"
        using gather_loop_counts [OF _ _ at(2,3) g] at(1) by (simp add: batch_at_def)
      with at(3) show ?thesis by (auto simp: batch_at_def batch_complete_def)
    qed
    have "batch_loop one refs m serial start (skipped, b) = batch_loop one refs m serial (start + m) sb"
      using False "1.prems"(2) unfolding sb_def by (intro batch_loop_step stop_def) simp
    moreover have "batch_complete one (length refs) (snd (batch_loop one refs m serial (start + m) (sk, b1)))"
      using False "1.prems"(2) next1 sb
      by (intro "1.hyps" [OF _ stop_def]) (auto simp: sb_def stop_def)
    ultimately show ?thesis by (simp add: sb)
  qed
qed

lemma run_batch_complete: "batch_complete one (length refs) (run_batch cfg one refs)"
proof -
  have new: "batch_at one 0 new_batch" by (simp add: batch_at_def batch_sums_def counted_def new_batch_def)
  obtain j b where p: "(if recreate_collection cfg then prefix_loop one refs [0..<length refs] new_batch else (0, new_batch)) = (j, b)"
    by force
  have "(batch_at one j b \<and> j \<le> length refs) \<or> batch_complete one (length refs) b"
    using p new prefix_loop_complete [OF new, of refs j b] by (auto split: if_splits)
  then have "if length (b_ok b) + length (b_failed b) \<ge> length refs
      then batch_complete one (length refs) b else batch_at one (min j (length refs)) b"
    by (auto simp: batch_at_def batch_complete_def counted_def)
  from batch_loop_complete [OF this] show ?thesis
    by (simp add: run_batch_def Let_def p)
qed

text \<open>A call that would replace the collection comes before every call that wrote to it.\<close>

definition replaces_first :: "one_result \<Rightarrow> batch_state \<Rightarrow> bool" where
  "replaces_first one b =
     ((\<forall>xs i ys. b_calls b = xs @ (i, False) # ys \<longrightarrow> filter (call_ok one) xs = [])
      \<and> length (b_ok b) = length (filter (call_ok one) (b_calls b)))"

lemma replaces_run_one:
  assumes r: "replaces_first one b" and a: "a \<or> b_ok b = []"
  shows "replaces_first one (run_one one refs k a b)"
proof -
  have calls: "b_calls (run_one one refs k a b) = b_calls b @ [(k, a)]"
    by (simp add: run_one_def accumulate_def Let_def)
  have "filter (call_ok one) xs = []" if xs: "b_calls b @ [(k, a)] = xs @ (i, False) # ys" for xs i ys
  proof (cases ys rule: rev_cases)
    case Nil
    with xs have "xs = b_calls b" "\<not> a" by auto
    with r a show ?thesis by (simp add: replaces_first_def)
  next
    case (snoc ys' y)
    with xs have "b_calls b = xs @ (i, False) # ys'" by simp
    with r show ?thesis by (simp add: replaces_first_def)
  qed
  moreover have "length (b_ok (run_one one refs k a b)) = length (filter (call_ok one) (b_calls b @ [(k, a)]))"
    using r by (simp add: replaces_first_def run_one_def accumulate_def call_ok_def Let_def)
  ultimately show ?thesis unfolding replaces_first_def calls by blast
qed

lemma replaces_skipped: "replaces_first one (mark_skipped refs i j b) = replaces_first one b" "b_ok (mark_skipped refs i j b) = b_ok b"
  by (simp_all add: replaces_first_def mark_skipped_def)

lemma run_one_grows: "b_ok b \<noteq> [] \<Longrightarrow> b_ok (run_one one refs k a b) \<noteq> []"
  by (simp add: run_one_def accumulate_def Let_def)

lemma replaces_prefix: "replaces_first one b \<Longrightarrow> prefix_loop one refs ks b = (j, b') \<Longrightarrow> replaces_first one b'"
proof (induction one refs ks b rule: prefix_loop.induct)
  case (2 one refs idx rest b)
  then show ?case
    by (auto simp: Let_def replaces_skipped replaces_run_one split: if_splits)
qed simp

lemma replaces_serial: "replaces_first one b \<Longrightarrow> serial_loop one refs ks b = (s, b') \<Longrightarrow> replaces_first one b' \<and> (b_ok b \<noteq> [] \<longrightarrow> b_ok b' \<noteq> [])"
proof (induction one refs ks b rule: serial_loop.induct)
  case (2 one refs idx rest b)
  let ?a = "b_ok b \<noteq> []"
  let ?b = "run_one one refs idx ?a b"
  have r: "replaces_first one ?b" using "2.prems"(1) by (rule replaces_run_one) simp
  show ?case
  proof (cases "is_timeout_failure (one idx ?a)")
    case True
    with "2.prems"(2) have "b' = mark_skipped refs (idx + 1) (length refs) ?b" by (simp add: Let_def)
    with r show ?thesis by (simp add: replaces_skipped run_one_grows)
  next
    case False
    with "2.prems"(2) have l: "serial_loop one refs rest ?b = (s, b')" by (simp add: Let_def)
    from "2.IH" [OF refl refl False r l] show ?thesis using run_one_grows by blast
  qed
qed simp

lemma replaces_gather:
  "replaces_first one b \<Longrightarrow> b_ok b \<noteq> [] \<Longrightarrow> gather_loop one refs stop True ks (s, b) = (s', b') \<Longrightarrow>
     replaces_first one b' \<and> b_ok b' \<noteq> []"
proof (induction ks arbitrary: s b)
  case (Cons k ks)
  let ?b = "run_one one refs k True b"
  have r: "replaces_first one ?b" "b_ok ?b \<noteq> []"
    using Cons.prems by (simp_all add: replaces_run_one run_one_grows)
  from Cons.prems(3) obtain b1 s1 where "gather_loop one refs stop True ks (s1, b1) = (s', b')"
    "b1 = ?b \<or> b1 = mark_skipped refs stop (length refs) ?b"
    by (auto simp: Let_def split: if_splits)
  with Cons.IH [of b1 s1] r show ?case by (auto simp: replaces_skipped)
qed simp

lemma replaces_batch_loop:
  "replaces_first one b \<Longrightarrow> (skipped \<or> start \<ge> length refs \<or> b_ok b \<noteq> []) \<Longrightarrow>
     replaces_first one (snd (batch_loop one refs m serial start (skipped, b)))"
proof (induction one refs m serial start "(skipped, b)" arbitrary: skipped b rule: batch_loop.induct)
  case (1 one refs m serial start skipped b)
  show ?case
  proof (cases "skipped \<or> start \<ge> length refs \<or> m = 0")
    case True
    then show ?thesis using "1.prems" by (subst batch_loop.simps) simp
  next
    case False
    with "1.prems" have ne: "b_ok b \<noteq> []" by blast
    define stop where "stop = min (start + m) (length refs)"
    define sb where "sb = (if serial then serial_loop one refs [start..<stop] b
      else gather_loop one refs stop (b_ok b \<noteq> []) [start..<stop] (False, b))"
    obtain s1 b1 where sb: "sb = (s1, b1)" by (cases sb)
    have "replaces_first one b1 \<and> b_ok b1 \<noteq> []"
    proof (cases serial)
      case True
      with sb have "serial_loop one refs [start..<stop] b = (s1, b1)" by (simp add: sb_def)
      from replaces_serial [OF "1.prems"(1) this] ne show ?thesis by blast
    next
      case ns: False
      with sb ne have "gather_loop one refs stop True [start..<stop] (False, b) = (s1, b1)" by (simp add: sb_def)
      from replaces_gather [OF "1.prems"(1) ne this] show ?thesis .
    qed
    with False sb have "replaces_first one (snd (batch_loop one refs m serial (start + m) (s1, b1)))"
      by (intro "1.hyps" [OF _ stop_def]) (auto simp: sb_def stop_def)
    moreover have "batch_loop one refs m serial start (skipped, b) = batch_loop one refs m serial (start + m) sb"
      unfolding sb_def using False by (intro batch_loop_step stop_def)
    ultimately show ?thesis by (simp add: sb)
  qed
qed

lemma run_batch_replaces: "recreate_collection cfg \<Longrightarrow> replaces_first one (run_batch cfg one refs)"
proof -
  assume rc: "recreate_collection cfg"
  obtain j b where p: "prefix_loop one refs [0..<length refs] new_batch = (j, b)" by force
  have new: "replaces_first one new_batch" by (simp add: replaces_first_def new_batch_def)
  have at: "batch_at one 0 new_batch" by (simp add: batch_at_def batch_sums_def counted_def new_batch_def)
  from prefix_loop_complete [OF at _ p]
  have "length (b_ok b) + length (b_failed b) \<ge> length refs \<or> j \<ge> length refs \<or> b_ok b \<noteq> []"
    by (auto simp: batch_complete_def counted_def)
  from replaces_batch_loop [OF replaces_prefix [OF new p] this] show ?thesis
    by (simp add: run_batch_def Let_def rc p)
qed

section \<open>Idempotent ingestion\<close>

text \<open>The identity of one upload, which decides whether a later request repeats an ingest.\<close>

definition immutable_identity ::
  "(string \<Rightarrow> string) \<Rightarrow> object_env \<Rightarrow> dict \<Rightarrow> string \<Rightarrow> string \<Rightarrow> string \<Rightarrow> load_error + json" where
  "immutable_identity sha E document_record document_id session_id username =
     (let base = [(''documentId'', JStr document_id), (''sessionId'', JStr session_id),
                  (''size'', dict_get document_record ''size'')];
          invalid = Inl (DocumentStorageError ''Error: Stored document object reference is invalid.'') in
      if dict_get document_record ''storage'' = JStr ''object-v1''
      then (case (dict_get document_record ''objectKey'', dict_get document_record ''objectBucket'') of
              (JStr object_key, JStr object_bucket) \<Rightarrow>
                bind_sum (document_object_settings E) (\<lambda>settings.
                bind_sum (expected_document_object_key sha (configured_prefix E) username session_id document_id) (\<lambda>expected_key.
                if object_bucket \<noteq> os_bucket settings \<or> object_key \<noteq> expected_key then invalid
                else Inr (JObj (base @ [(''storage'', JStr ''object-v1''), (''objectKey'', JStr object_key),
                       (''objectBucket'', JStr object_bucket), (''etag'', dict_get document_record ''etag'')]))))
            | _ \<Rightarrow> invalid)
      else (case dict_get document_record ''data'' of
              JStr d \<Rightarrow>
                if d = [] then Inl (DocumentStorageError ''Error: Retrieved document data is empty.'')
                else Inr (JObj (base @ [(''storage'', JStr ''legacy-base64''), (''payloadSha256'', JStr (sha d))]))
            | _ \<Rightarrow> Inl (DocumentStorageError ''Error: Retrieved document data is empty.'')))"

definition immutable_reference ::
  "(string \<Rightarrow> string) \<Rightarrow> object_env \<Rightarrow> (string \<Rightarrow> stored_read) \<Rightarrow> string \<Rightarrow> json \<Rightarrow> load_error + json" where
  "immutable_reference sha E read_key username document_ref =
     (case document_ref of
        JObj ref \<Rightarrow>
          (case (dict_get ref ''documentId'', dict_get ref ''sessionId'') of
             (JStr document_id, JStr session_id) \<Rightarrow>
               if \<not> safe_reference document_id \<or> \<not> safe_reference session_id
               then Inl (DocumentStorageError ''Error: Document reference is invalid.'')
               else (case read_key (''document:'' @ session_id @ '':'' @ document_id) of
                       RedisFails e \<Rightarrow> Inl (OtherException e)
                     | Undecodable e \<Rightarrow> Inl (OtherException e)
                     | NoValue \<Rightarrow> Inl (DocumentStorageError ''Error: Document not found in storage. Please upload it again.'')
                     | Decoded (JObj document_record) \<Rightarrow>
                         if \<not> can_access_stored_document document_record (Some username)
                         then Inl (DocumentStorageError ''Error: You do not have access to this document.'')
                         else immutable_identity sha E document_record document_id session_id username
                     | Decoded _ \<Rightarrow> Inl (DocumentStorageError ''Error: You do not have access to this document.''))
           | _ \<Rightarrow> Inl (DocumentStorageError ''Error: Document reference must contain documentId and sessionId.''))
      | _ \<Rightarrow> Inl (DocumentStorageError ''Error: Invalid document reference provided.''))"

fun collect :: "('a \<Rightarrow> 'e + 'b) \<Rightarrow> 'a list \<Rightarrow> 'e + 'b list" where
  "collect f [] = Inr []"
| "collect f (x # xs) = bind_sum (f x) (\<lambda>y. bind_sum (collect f xs) (\<lambda>ys. Inr (y # ys)))"

definition immutable_document_references ::
  "(string \<Rightarrow> string) \<Rightarrow> object_env \<Rightarrow> (string \<Rightarrow> stored_read) \<Rightarrow> string \<Rightarrow> json list \<Rightarrow> load_error + json list" where
  "immutable_document_references sha E read_key username document_refs =
     collect (immutable_reference sha E read_key username) document_refs"

record ingest_request =
  iq_refs :: "json list"
  iq_user :: string
  iq_execution :: "string option"
  iq_collection :: "string option"
  iq_chunk_size :: "int option"
  iq_chunk_overlap :: "int option"

definition ingest_arguments :: "(string \<Rightarrow> string) \<Rightarrow> ingest_config \<Rightarrow> ingest_request \<Rightarrow> json list \<Rightarrow> int \<Rightarrow> json" where
  "ingest_arguments sha cfg q immutable_refs overlap =
     JObj [(''collection'', JStr (resolve_user_collection_name sha (iq_collection q) (Some (iq_user q)) (default_collection_name cfg))),
           (''documents'', JList immutable_refs),
           (''chunkSize'', JInt (case iq_chunk_size q of Some n \<Rightarrow> if n \<noteq> 0 then n else chunk_size cfg | None \<Rightarrow> chunk_size cfg)),
           (''chunkOverlap'', JInt overlap)]"

definition ingest_write_request ::
  "(string \<Rightarrow> string) \<Rightarrow> ingest_config \<Rightarrow> ingest_request \<Rightarrow> string \<Rightarrow> json list \<Rightarrow> write_request" where
  "ingest_write_request sha cfg q execution_id immutable_refs =
     \<lparr>wr_user = iq_user q, wr_execution = execution_id, wr_operation = ''ingest_user_documents'',
      wr_arguments = ingest_arguments sha cfg q immutable_refs
        (case iq_chunk_overlap q of None \<Rightarrow> chunk_overlap cfg | Some n \<Rightarrow> n),
      wr_contract = Some ''document-overlap-v2'',
      wr_legacy = (if iq_chunk_overlap q = Some 0 \<and> chunk_overlap cfg \<noteq> 0
                   then Some (ingest_arguments sha cfg q immutable_refs (chunk_overlap cfg)) else None)\<rparr>"

definition ingest_unavailable :: "string \<Rightarrow> string" where
  "ingest_unavailable e = ''Error: document ingest idempotency unavailable: '' @ e @ ''.''"

definition ingest_not_repeated :: string where
  "ingest_not_repeated = ''Document ingest wasn'' @ apos @ ''t repeated because the same autonomous ''
     @ ''operation has an existing or ambiguous execution record.''"

text \<open>The answer, whether the ingest ran, and the receipts afterwards. \<open>run\<close> is the result of the ingest;
  \<open>others\<close> is what other clients do to the receipts while it runs; \<open>describe\<close> is the text of an exception.\<close>

definition run_idempotent_ingest ::
  "(string \<Rightarrow> string) \<Rightarrow> hashing \<Rightarrow> (py_error \<Rightarrow> string) \<Rightarrow> string option \<Rightarrow> object_env \<Rightarrow> (string \<Rightarrow> stored_read) \<Rightarrow>
     ingest_config \<Rightarrow> ingest_request \<Rightarrow> string \<Rightarrow> world \<Rightarrow> (receipts \<Rightarrow> receipts) \<Rightarrow> string \<Rightarrow> receipts \<Rightarrow>
     string \<times> bool \<times> receipts" where
  "run_idempotent_ingest sha H describe ttl_env E read_key cfg q owner world others run db =
     (case iq_execution q of
        None \<Rightarrow> (run, True, others db)
      | Some execution_id \<Rightarrow>
          if execution_id = [] then (run, True, others db)
          else (case immutable_document_references sha E read_key (iq_user q) (iq_refs q) of
                  Inl e \<Rightarrow> (ingest_unavailable (storage_text e), False, db)
                | Inr immutable_refs \<Rightarrow>
                    (case reserve_operation H ttl_env (ingest_write_request sha cfg q execution_id immutable_refs) owner world db of
                       (Inl e, db') \<Rightarrow> (ingest_unavailable (describe e), False, db')
                     | (Inr r, db') \<Rightarrow>
                         if \<not> acquired r
                         then ((if res_state r = ''completed'' \<and> or_empty (stored_result r) \<noteq> []
                                then the (stored_result r) else ingest_not_repeated), False, db')
                         else (run, True, snd (complete_operation ttl_env r run (others db'))))))"

section \<open>The tool and the routes\<close>

text \<open>What a call of the tool does: an immediate answer, or one operation for the authenticated user.\<close>

datatype document_action =
    Answer string
  | Search string string string
  | IngestMany string "json list"
  | IngestOne string json
  | Extract string json
  | ListFor string

definition search_query :: "json \<Rightarrow> string" where
  "search_query query =
     (let q = (case query of JStr t \<Rightarrow> strip t | _ \<Rightarrow> []) in if q = [] then ''summary of the document'' else q)"

definition user_document_tool ::
  "(string \<Rightarrow> string) \<Rightarrow> ingest_config \<Rightarrow> settings \<Rightarrow> headers option \<Rightarrow> string \<Rightarrow> json \<Rightarrow> string option \<Rightarrow> json \<Rightarrow> json list \<Rightarrow>
     document_action" where
  "user_document_tool sha cfg S ctx operation query collection_name document_ref document_refs =
     (let op = lower (strip (if operation = [] then ''search'' else operation)) in
      if op \<notin> {''ingest'', ''extract'', ''search'', ''list_collections''}
      then Answer (''Error: operation must be one of ingest, extract, search, '' @ ''list_collections.'')
      else (case resolve_authenticated_user_id S ctx of
              Inl (ValueError e) \<Rightarrow> Answer (''Error: user document request denied: '' @ e @ ''.'')
            | Inl _ \<Rightarrow> Answer []
            | Inr user \<Rightarrow>
                if op = ''search''
                then Search user
                       (resolve_user_collection_name sha collection_name (Some user) (default_collection_name cfg))
                       (search_query query)
                else if op = ''ingest''
                then (if document_refs \<noteq> [] then IngestMany user document_refs
                      else if truthy document_ref then IngestOne user document_ref
                      else Answer ''Error: documentRef or documentRefs is required for ingestion.'')
                else if op = ''extract''
                then (if document_refs \<noteq> []
                      then Answer (''Error: extract operation only accepts a single documentRef; ''
                             @ ''use operation='' @ apos @ ''ingest'' @ apos @ '' for multi-document batches.'')
                      else if truthy document_ref then Extract user document_ref
                      else Answer ''Error: documentRef is required for extraction.'')
                else ListFor user))"

record ingest_http_request =
  hr_document_ref :: "json option"
  hr_document_refs :: "json list"
  hr_collection_name :: "string option"
  hr_collection :: "string option"
  hr_collection_scope :: "string option"
  hr_username :: "string option"

definition resolve_request ::
  "settings \<Rightarrow> nat \<Rightarrow> string option \<Rightarrow> ingest_http_request \<Rightarrow> string option \<Rightarrow> string option \<Rightarrow>
     (string \<times> json list \<times> string \<times> collection_scope) result" where
  "resolve_request S max_documents default_env req x_user_id x_token =
     bind_result (require_trusted_user S x_user_id x_token) (\<lambda>user_id.
       let username = strip (if or_empty (hr_username req) = [] then user_id else or_empty (hr_username req));
           document_refs = (if hr_document_refs req \<noteq> [] then hr_document_refs req
                            else case hr_document_ref req of None \<Rightarrow> [] | Some r \<Rightarrow> [r]);
           collection = (if or_empty (hr_collection_name req) \<noteq> [] then or_empty (hr_collection_name req)
                         else if or_empty (hr_collection req) \<noteq> [] then or_empty (hr_collection req)
                         else (case default_env of None \<Rightarrow> ''user_uploads'' | Some c \<Rightarrow> c)) in
       if username \<noteq> user_id then Inl (HTTPException 403 ''username must match x-user-id'')
       else if document_refs = [] then Inl (HTTPException 400 ''documentRef or documentRefs required'')
       else if length document_refs > max_documents
       then Inl (HTTPException 413 (''Too many documents in a single request: '' @ show_nat (length document_refs)
                  @ '' > '' @ show_nat max_documents @ ''. '' @ ''Split the upload into smaller batches.''))
       else (case validate_collection_scope collection (hr_collection_scope req) of
               Inl (ValueError e) \<Rightarrow> Inl (HTTPException 400 e)
             | Inl e \<Rightarrow> Inl e
             | Inr scope \<Rightarrow>
                 if scope = Shared
                 then Inl (HTTPException 403 (''Shared collection writes are not permitted through user-facing ''
                            @ ''document ingestion.''))
                 else Inr (username, document_refs, collection, scope)))"

definition extract_failure_status :: "string \<Rightarrow> string \<Rightarrow> nat \<times> string" where
  "extract_failure_status message kind =
     (let low = lower message in
      if kind = ''forbidden'' then (403, message)
      else if kind = ''unavailable'' then (503, message)
      else if contains ''not found'' low \<or> contains ''expired'' low then (404, message)
      else if contains ''exceeds the maximum allowed size'' low then (413, message)
      else if contains ''timed out'' low then (504, message)
      else if contains ''invalid'' low \<or> contains ''required'' low \<or> contains ''empty'' low then (400, message)
      else (500, ''Document operation failed.''))"

text \<open>\<open>_markdown_filename\<close>: the last component of the path, without its extension.\<close>

definition unsafe_name_char :: "char \<Rightarrow> bool" where
  "unsafe_name_char c = (\<not> (is_lower_letter c \<or> is_upper_letter c \<or> is_digit c \<or> c = CHR ''.'' \<or> c = CHR ''_'' \<or> c = CHR ''-''))"

definition base_name :: "string \<Rightarrow> string" where
  "base_name s = rev (takeWhile (\<lambda>c. c \<noteq> CHR ''/'') (rev s))"

definition drop_extension :: "string \<Rightarrow> string" where
  "drop_extension b =
     (if CHR ''.'' \<in> set b then rev (tl (dropWhile (\<lambda>c. c \<noteq> CHR ''.'') (rev b))) else b)"

definition markdown_filename :: "string \<Rightarrow> string" where
  "markdown_filename source_filename =
     (let trim = (\<lambda>c. c = CHR ''.'' \<or> c = CHR ''_'' \<or> c = CHR ''-'');
          safe = rstrip_while trim (dropWhile trim
            (sub_runs unsafe_name_char False (drop_extension (base_name (strip source_filename)))));
          named = (if safe = [] then ''document'' else safe) in
      take 128 named @ ''.md'')"

text \<open>The download: the whole text, or an error.\<close>

definition markdown_download ::
  "(string \<Rightarrow> string) \<Rightarrow> ingest_config \<Rightarrow> document_world \<Rightarrow> json \<Rightarrow> string option \<Rightarrow> string \<Rightarrow> (string \<times> string) result" where
  "markdown_download sha cfg W document_ref req_username user_id =
     (let username = strip (if or_empty req_username = [] then user_id else or_empty req_username);
          r = extract_document sha cfg W document_ref username None in
      if username \<noteq> user_id then Inl (HTTPException 403 ''username must match x-user-id'')
      else if er_status r = ''failure''
      then (case extract_failure_status (er_error r) (er_error_kind r) of (status, detail) \<Rightarrow> Inl (HTTPException status detail))
      else if er_truncated r \<or> int (length (er_markdown r)) \<noteq> er_original_chars r
      then Inl (HTTPException 500 ''The document parser returned incomplete Markdown.'')
      else if er_markdown r = []
      then Inl (HTTPException 422 ''No extractable text or markdown content in this document.'')
      else Inr (markdown_filename (case er_filename r of JStr n \<Rightarrow> n | _ \<Rightarrow> []), er_markdown r))"

section \<open>Properties\<close>

text \<open>Guards and error branches that give no value.\<close>

lemma if_Inl_Inr: "((if c then Inl e else x) = Inr y) = (\<not> c \<and> x = Inr y)"
  by simp

lemma case_value_error:
  "((case x of Inl (ValueError m) \<Rightarrow> Inl (f m) | Inl e \<Rightarrow> Inl e | Inr r \<Rightarrow> g r) = Inr y) = (\<exists>r. x = Inr r \<and> g r = Inr y)"
proof (cases x)
  case (Inl e)
  then show ?thesis by (cases e) simp_all
qed simp

lemma process_document_outcomes:
  "process_document sha cfg W ref u c sc = (r, outcomes) \<Longrightarrow>
     outcomes = [] \<and> ir_status r = ''failure'' \<or> outcomes = attempts_made cfg W
       \<and> (ir_status r \<noteq> ''failure'' \<longrightarrow> outcomes \<noteq> [] \<and> (\<exists>n m p md. last outcomes = Ingested n m p md))"
  by (auto simp: process_document_def Let_def ingest_failure_def attempts_result_def
      split: sum.splits py_error.splits if_splits fetch_failure.splits option.splits prod.splits attempt_outcome.splits)


definition sample_config :: ingest_config where
  "sample_config = \<lparr>default_collection_name = None, chunk_size = 1024, chunk_overlap = 150, ingest_max_retries = 2,
     timeout_text = ''300'', recreate_collection = True, batch_concurrency = 1, max_documents_per_batch = 2\<rparr>"

definition sample_world :: "string \<Rightarrow> document_world" where
  "sample_world u = \<lparr>w_env = sample_object_env, w_max_size = None, w_store = sample_object_store, w_now_ms = 1000,
     w_redis = (\<lambda>_. Decoded (JObj [(''userId'', JStr u), (''data'', JStr ''QUJD'')])), w_client = None,
     w_attempt = (\<lambda>k. if k = 0 then AttemptFails ''busy'' False else Ingested 3 0 1 ''text'')\<rparr>"

definition sample_ref :: json where
  "sample_ref = JObj [(''documentId'', JStr ''d1''), (''sessionId'', JStr ''s1''), (''filename'', JStr ''a.pdf'')]"

lemma sample_load:
  "load_document_bytes sha E store now (document_ingest_max_size_bytes None) [(''userId'', JStr v), (''data'', JStr ''QUJD'')]
     d s u = Inr (''ABC'', d @ ''.bin'')"
proof -
  have m: "document_ingest_max_size_bytes None = 209715200"
    by (simp add: document_ingest_max_size_bytes_def or_empty_def DEFAULT_DOCUMENT_INGEST_MAX_SIZE_BYTES_def)
  have e: "estimated_decoded_size ''QUJD'' = 3" by code_simp
  have u: "rstrip_while equals_sign ''QUJD'' = ''QUJD''" by code_simp
  have d: "strict_b64decode ''QUJD'' = Some ''ABC''" by code_simp
  show ?thesis
    by (simp add: load_document_bytes_def m document_size_error_def e u d dict_get_def record_filename_def py_or_def
        py_str_def Let_def)
qed

lemma sample_process:
  assumes "hex_digest sha" and own: "owned_name sha (Some u) (resolve_user_collection_name sha c (Some u) None)"
    and u: "strip u = u" "u \<noteq> []"
  shows "process_document sha sample_config (sample_world u) sample_ref u c None
    = (\<lparr>ir_status = ''success'', ir_filename = JStr ''d1.bin'', ir_chunks = 3, ir_failures = 0, ir_pages = 1,
        ir_collection = resolve_user_collection_name sha c (Some u) None, ir_markdown = ''text'', ir_error = []\<rparr>,
       [AttemptFails ''busy'' False, Ingested 3 0 1 ''text''])"
proof -
  have scope: "validate_user_collection_write_scope (resolve_user_collection_name sha c (Some u) None) None = Inr User"
    by (rule owned_name_writable [OF assms(1) own])
  have f: "fetch_document sha (sample_world u) (JStr ''d1'') (JStr ''s1'') u = Inr (''ABC'', ''d1.bin'')"
    by (simp add: fetch_document_def sample_world_def sample_load can_access_stored_document_def or_empty_def dict_get_def
        py_or_def py_str_def u)
  have a: "attempts_made sample_config (sample_world u) = [AttemptFails ''busy'' False, Ingested 3 0 1 ''text'']"
    by (simp add: attempts_made_def sample_config_def sample_world_def numeral_eq_Suc)
  have c: "default_collection_name sample_config = None" "w_client (sample_world u) = None"
    by (simp_all add: sample_config_def sample_world_def)
  show ?thesis
    using scope f a u by (simp add: process_document_def sample_ref_def Let_def dict_get_def dict_get_default_def
        attempts_result_def c)
qed

lemma default_name_owned: "hex_digest sha \<Longrightarrow> owned_name sha u (resolve_user_collection_name sha None u d)"
  by (simp add: resolve_user_collection_name_def or_empty_def upload_name_owned)



definition sample_refs :: "json list" where
  "sample_refs = [sample_ref, sample_ref, JObj [(''documentId'', JStr ''d2''), (''sessionId'', JStr ''s1'')]]"

lemma sample_dedup: "dedup_document_refs sample_refs = Inr [sample_ref, JObj [(''documentId'', JStr ''d2''), (''sessionId'', JStr ''s1'')]]"
  by code_simp


text \<open>A batch that replaces the collection never drops what it wrote: every call that may still replace the
  collection comes before the first successful one, also with concurrent documents and after failures.\<close>

theorem batch_replaces_once:
  assumes "recreate_collection cfg" and "run_batch cfg one refs = b" and "b_calls b = xs @ (i, False) # ys"
  shows "\<forall>(j, a) \<in> set xs. ir_status (one j a) \<notin> {''success'', ''partial''}"
proof -
  from run_batch_replaces [OF assms(1), of one refs] assms(2,3) have "filter (call_ok one) xs = []"
    by (simp add: replaces_first_def)
  then show ?thesis by (auto simp: filter_empty_conv call_ok_def)
qed

definition sample_one :: one_result where
  "sample_one idx appending = ingest_failure [] (JStr ''x'') ''bad''\<lparr>ir_status := (if idx = 0 then ''failure'' else ''success'')\<rparr>"

theorem batch_replaces_once_witness:
  "b_calls (run_batch sample_config sample_one (replicate 4 sample_ref)) = [(0, False), (1, False), (2, True), (3, True)]
   \<and> ir_status (sample_one 0 False) = ''failure''"
proof -
  have calls: "b_calls (run_batch sample_config sample_one (replicate 4 sample_ref)) = [(0, False), (1, False), (2, True), (3, True)]"
    by code_simp
  then have "b_calls (run_batch sample_config sample_one (replicate 4 sample_ref)) = [(0, False)] @ (1, False) # [(2, True), (3, True)]"
    by simp
  from batch_replaces_once [OF _ refl this] calls show ?thesis
    by (auto simp: sample_config_def sample_one_def ingest_failure_def)
qed

text \<open>A repeated autonomous ingest is not run again: once an ingest under an execution identifier finished, the
  same request (the same uploads by identity, collection and chunking) is answered with the stored result, without
  a write and without changing the receipts, whatever other clients did to other receipts meanwhile.\<close>

theorem repeated_ingest_replayed:
  assumes "iq_execution q = Some execution_id" and "execution_id \<noteq> []"
    and "immutable_document_references sha E read_key (iq_user q) (iq_refs q) = Inr ids"
    and "\<forall>d. others d (own_key H (ingest_write_request sha cfg q execution_id ids))
          = d (own_key H (ingest_write_request sha cfg q execution_id ids))"
    and "run_idempotent_ingest sha H describe ttl_env E read_key cfg q owner world others run db = (answer, True, db')"
    and "owner \<noteq> []" and "run \<noteq> []"
  shows "answer = run
    \<and> run_idempotent_ingest sha H describe ttl_env E read_key cfg q owner' (\<lambda>_ _ d. d) others' run' db' = (run, False, db')"
proof -
  let ?w = "ingest_write_request sha cfg q execution_id ids"
  note first = assms(5) [unfolded run_idempotent_ingest_def assms(1,3) option.case sum.case if_not_P [OF assms(2)]]
  obtain x d where x: "reserve_operation H ttl_env ?w owner world db = (x, d)" by force
  with first obtain r where r: "x = Inr r" "acquired r" and ans: "answer = run"
    and db': "db' = snd (complete_operation ttl_env r run (others d))"
    by (auto split: sum.splits if_splits)
  from reserve_operation_acquired [OF x [unfolded r(1)] r(2)] obtain ttl where
    ttl: "ttl_seconds ttl_env = Inr ttl" and d: "d (own_key H ?w) = Some (reservation_record H ?w owner, ttl)"
    and rr: "r = \<lparr>res_key = own_key H ?w, owner_token = Some owner, res_state = ''in_progress'',
              stored_result = None, res_contract = wr_contract ?w\<rparr>" by blast
  have "others d (own_key H ?w) = Some (reservation_record H ?w owner, ttl)"
    using assms(4) d by simp
  note script = complete_script_owner [where key = "own_key H ?w" and db = "others d" and H = H and q = ?w, OF this]
  have "db' = (others d)(own_key H ?w \<mapsto> (completed_record (wr_contract ?w) run, ttl))"
    using assms(6) by (simp add: db' complete_operation_def rr acquired_def ttl script)
  then have done1: "db' (own_key H ?w) = Some (completed_record (wr_contract ?w) run, ttl)" by simp
  have contract: "wr_contract ?w = Some ''document-overlap-v2''" by (simp add: ingest_write_request_def)
  have "reserve_operation H ttl_env ?w owner' (\<lambda>_ _ d. d) db'
      = (Inr \<lparr>res_key = own_key H ?w, owner_token = None, res_state = ''completed'', stored_result = Some run,
             res_contract = None\<rparr>, db')"
    using reserve_after_completion [where H = H and q = ?w and db = db' and owner = owner' and ttl = ttl and n = 1, OF done1]
    by (simp add: reserve_operation_def ttl contract numeral_2_eq_2)
  then show ?thesis
    using assms(7) by (simp add: run_idempotent_ingest_def assms(1,2,3) ans acquired_def or_empty_def)
qed

definition sample_ingest :: ingest_request where
  "sample_ingest = \<lparr>iq_refs = [sample_ref], iq_user = ''ann'', iq_execution = Some ''e1'', iq_collection = None,
     iq_chunk_size = None, iq_chunk_overlap = None\<rparr>"

theorem repeated_ingest_replayed_witness:
  "\<exists>db'. run_idempotent_ingest sample_digest sample_hashing (\<lambda>_. []) None sample_object_env (w_redis (sample_world ''ann''))
        sample_config sample_ingest ''o1'' (\<lambda>_ _ d. d) id ''indexed'' Map.empty = (''indexed'', True, db')
     \<and> run_idempotent_ingest sample_digest sample_hashing (\<lambda>_. []) None sample_object_env (w_redis (sample_world ''ann''))
        sample_config sample_ingest ''o2'' (\<lambda>_ _ d. d) id ''again'' db' = (''indexed'', False, db')"
proof -
  let ?read = "w_redis (sample_world ''ann'')"
  obtain ids where ids: "immutable_document_references sample_digest sample_object_env ?read (iq_user sample_ingest) (iq_refs sample_ingest)
      = Inr ids"
  proof -
    have "immutable_reference sample_digest sample_object_env ?read ''ann'' sample_ref
        = Inr (JObj [(''documentId'', JStr ''d1''), (''sessionId'', JStr ''s1''), (''size'', JNull),
            (''storage'', JStr ''legacy-base64''), (''payloadSha256'', JStr (sample_digest ''QUJD''))])" by code_simp
    then show ?thesis
      by (intro that) (simp add: immutable_document_references_def sample_ingest_def)
  qed
  have ex: "iq_execution sample_ingest = Some ''e1''" by (simp add: sample_ingest_def)
  let ?w = "ingest_write_request sample_digest sample_config sample_ingest ''e1'' ids"
  have "\<exists>r d. reserve_operation sample_hashing None ?w ''o1'' (\<lambda>_ _ d. d) Map.empty = (Inr r, d) \<and> acquired r"
    by (simp add: reserve_operation_def default_ttl reserve_attempt_def attempt_plain_def ingest_write_request_def
        sample_ingest_def numeral_2_eq_2 acquired_def)
  then obtain db' where first: "run_idempotent_ingest sample_digest sample_hashing (\<lambda>_. []) None sample_object_env ?read
        sample_config sample_ingest ''o1'' (\<lambda>_ _ d. d) id ''indexed'' Map.empty = (''indexed'', True, db')"
    by (auto simp: run_idempotent_ingest_def ex ids)
  from repeated_ingest_replayed [OF ex _ ids _ first] first show ?thesis by auto
qed

lemma normalized_shared:
  "normalize_collection_name v ''user_uploads'' \<in> set SHARED_COLLECTION_NAMES \<Longrightarrow>
     classify_collection_scope v = Shared"
proof -
  assume s: "normalize_collection_name v ''user_uploads'' \<in> set SHARED_COLLECTION_NAMES"
  have u: "take 255 ''user_uploads'' \<notin> set SHARED_COLLECTION_NAMES"
    "\<not> is_digit (hd ''user_uploads'')" by code_simp+
  have f: "collection_text None ''user_uploads'' = ''user_uploads''" by code_simp
  define t where "t = lower (strip_underscores (sub_runs underscore False
    (sub_runs (\<lambda>c. \<not> collection_char c) False (strip (or_empty v)))))"
  show ?thesis
  proof (cases "strip (or_empty v) = []")
    case True
    have n: "strip (or_empty None) = []" by (simp add: or_empty_def)
    have "collection_text v ''user_uploads'' = collection_text None ''user_uploads''"
      unfolding collection_text_def True n ..
    with f have "collection_text v ''user_uploads'' = ''user_uploads''" by simp
    with s u show ?thesis by (simp add: normalize_collection_name_def)
  next
    case False
    have c: "collection_text v fb = (let named = if t = [] then fb else t in
        if named \<noteq> [] \<and> is_digit (hd named) then ''u_'' @ named else named)" for fb
      using False by (simp add: collection_text_def t_def Let_def)
    have "t \<noteq> []"
    proof
      assume "t = []"
      then have "collection_text v ''user_uploads'' = ''user_uploads''"
        using u(2) c [of "''user_uploads''"] by simp
      with s u(1) show False by (simp add: normalize_collection_name_def)
    qed
    then have "collection_text v [] = collection_text v ''user_uploads''" unfolding c by simp
    with s show ?thesis by (simp add: classify_collection_scope_def normalize_collection_name_def)
  qed
qed


definition sample_upload :: ingest_http_request where
  "sample_upload = \<lparr>hr_document_ref = Some sample_ref, hr_document_refs = [], hr_collection_name = None,
     hr_collection = Some ''Trip notes'', hr_collection_scope = None, hr_username = None\<rparr>"


lemma fetch_accessible:
  "fetch_document sha W document_id session_id u = Inr x \<Longrightarrow>
     \<exists>d. w_redis W (''document:'' @ py_str session_id @ '':'' @ py_str document_id) = Decoded (JObj d)
       \<and> can_access_stored_document d (Some u)"
  unfolding fetch_document_def by (auto split: stored_read.split_asm json.split_asm if_split_asm)

lemma extract_guards:
  assumes "ref = [] \<or> \<not> truthy (dict_get ref ''documentId'') \<or> \<not> truthy (dict_get ref ''sessionId'') \<or> u = []"
  shows "er_status (extract_document sha cfg W (JObj ref) u cap) = ''failure''"
proof -
  note e = extract_document_def [of sha cfg W "JObj ref" u cap, unfolded json.case Let_def]
  consider "ref = []" | "ref \<noteq> []" "\<not> truthy (dict_get ref ''documentId'') \<or> \<not> truthy (dict_get ref ''sessionId'')"
    | "ref \<noteq> []" "\<not> (\<not> truthy (dict_get ref ''documentId'') \<or> \<not> truthy (dict_get ref ''sessionId''))" "u = []"
    using assms by blast
  then show ?thesis unfolding e by cases (simp_all only: if_True if_False extract_failure_def extract_result.simps simp_thms)
qed

lemma extract_success:
  assumes "er_status (extract_document sha cfg W (JObj ref) u cap) \<noteq> ''failure''"
  shows "\<exists>bytes filename f s p raw. fetch_document sha W (dict_get ref ''documentId'') (dict_get ref ''sessionId'') u = Inr (bytes, filename)
    \<and> w_attempt W 0 = Ingested f s p raw
    \<and> extract_document sha cfg W (JObj ref) u cap
        = \<lparr>er_status = ''success'', er_filename = JStr filename, er_pages = p,
           er_markdown = fst (apply_char_limit raw cap), er_truncated = snd (apply_char_limit raw cap),
           er_original_chars = int (length raw), er_error = [], er_error_kind = []\<rparr>"
proof -
  let ?F = "fetch_document sha W (dict_get ref ''documentId'') (dict_get ref ''sessionId'') u"
  have guards: "ref \<noteq> []" "truthy (dict_get ref ''documentId'')" "truthy (dict_get ref ''sessionId'')" "u \<noteq> []"
    using assms extract_guards by blast+
  note e = extract_document_def [of sha cfg W "JObj ref" u cap, unfolded json.case Let_def]
  show ?thesis
  proof (cases ?F)
    case (Inl x)
    with assms guards show ?thesis by (cases x) (simp_all add: e extract_failure_def)
  next
    case (Inr x)
    obtain bytes filename where x: "x = (bytes, filename)" by (cases x)
    show ?thesis
    proof (cases "w_client W")
      case (Some c)
      with assms guards Inr x show ?thesis by (simp add: e extract_failure_def)
    next
      case None
      with guards Inr x have run: "extract_document sha cfg W (JObj ref) u cap
        = (case w_attempt W 0 of
             AttemptTimesOut \<Rightarrow>
               extract_failure (or_name filename (dict_get_default ref ''filename'' (JStr []))) (''Error extracting document with NvIngest: ''
                 @ ''timed out after '' @ timeout_text cfg @ '' seconds.'') []
           | AttemptFails m _ \<Rightarrow>
               extract_failure (or_name filename (dict_get_default ref ''filename'' (JStr []))) (''Error extracting document with NvIngest: '' @ m) []
           | Ingested _ _ p raw \<Rightarrow>
               (case apply_char_limit raw cap of
                  (md, truncated) \<Rightarrow>
                    \<lparr>er_status = ''success'', er_filename = JStr filename, er_pages = p,
                     er_markdown = md, er_truncated = truncated, er_original_chars = int (length raw),
                     er_error = [], er_error_kind = []\<rparr>))" (is "_ = ?run")
        by (simp add: e)
      have "er_status ?run \<noteq> ''failure''" using assms unfolding run .
      then show ?thesis unfolding run Inr x by (cases "w_attempt W 0") (simp_all add: extract_failure_def split_beta)
    qed
  qed
qed

lemma markdown_filename_safe:
  "list_all (\<lambda>c. \<not> unsafe_name_char c) (markdown_filename n) \<and> length (markdown_filename n) \<le> 131"
proof -
  define trim where "trim = (\<lambda>c. c = CHR ''.'' \<or> c = CHR ''_'' \<or> c = CHR ''-'')"
  define stem where "stem = sub_runs unsafe_name_char False (drop_extension (base_name (strip n)))"
  have stem: "list_all (\<lambda>c. \<not> unsafe_name_char c) stem"
    unfolding stem_def by (rule sub_runs_chars) (auto simp: unsafe_name_char_def)
  define safe where "safe = rstrip_while trim (dropWhile trim stem)"
  have "set safe \<subseteq> set stem"
    unfolding safe_def using rstrip_while_take [of trim "dropWhile trim stem"]
    by (metis set_dropWhileD set_take_subset subset_iff)
  with stem have "list_all (\<lambda>c. \<not> unsafe_name_char c) safe" by (auto simp: list_all_iff)
  moreover have "list_all (\<lambda>c. \<not> unsafe_name_char c) ''document''" "list_all (\<lambda>c. \<not> unsafe_name_char c) ''.md''"
    by code_simp+
  moreover have "markdown_filename n = take 128 (if safe = [] then ''document'' else safe) @ ''.md''"
    by (simp only: markdown_filename_def Let_def safe_def stem_def trim_def)
  ultimately show ?thesis by (auto simp: list_all_iff dest: in_set_takeD)
qed

text \<open>The batch resolves its collection twice. For most users that changes nothing, but for a subject whose
  readable part is cut at an underscore the documents of a batch are stored, successfully, in another collection
  than the one that the batch reports and that a search with the same arguments reads.\<close>

theorem batch_written_elsewhere:
  "\<exists>sha u query r outcomes n. hex_digest sha
     \<and> user_document_tool sha sample_config \<lparr>token_env = None, insecure_env = Some ''1''\<rparr>
          (Some [(''x-user-id'', u)]) ''search'' query None JNull [] = Search u n (search_query query)
     \<and> process_document sha sample_config (sample_world u) sample_ref u
          (Some (resolve_user_collection_name sha None (Some u) (default_collection_name sample_config))) None = (r, outcomes)
     \<and> ir_status r = ''success'' \<and> ir_collection r \<noteq> n"
proof -
  let ?u = cut_user
  let ?n = "resolve_user_collection_name sample_digest None (Some ?u) None"
  let ?m = "resolve_user_collection_name sample_digest (Some ?n) (Some ?u) None"
  have d: "default_collection_name sample_config = None" by (simp add: sample_config_def)
  have st: "strip ?u = ?u" by code_simp
  have ne: "?m \<noteq> ?n" by (rule cut_names)
  have sh: "?m \<notin> set SHARED_COLLECTION_NAMES"
  proof
    assume "?m \<in> set SHARED_COLLECTION_NAMES"
    with resolve_cases [OF sample_digest_hex, of "Some ?n" "Some ?u" None]
    have "normalize_collection_name (Some ?n) ''user_uploads'' \<in> set SHARED_COLLECTION_NAMES
        \<or> owned_name sample_digest (Some ?u) ?m" by auto
    with normalized_shared owned_name_user [OF sample_digest_hex default_name_owned [OF sample_digest_hex]]
    show False
      using \<open>?m \<in> set SHARED_COLLECTION_NAMES\<close> shared_classified owned_name_user [OF sample_digest_hex]
      by (metis collection_scope.distinct(1))
  qed
  have "resolve_authenticated_user_id \<lparr>token_env = None, insecure_env = Some ''1''\<rparr> (Some [(''x-user-id'', ?u)]) = Inr ?u"
    by code_simp
  moreover have "lower (strip ''search'') = ''search''" by code_simp
  ultimately have tool: "user_document_tool sample_digest sample_config \<lparr>token_env = None, insecure_env = Some ''1''\<rparr>
      (Some [(''x-user-id'', ?u)]) ''search'' JNull None JNull [] = Search ?u ?n (search_query JNull)"
    by (simp add: user_document_tool_def d)
  have own: "owned_name sample_digest (Some ?u) ?m"
    using resolve_cases [OF sample_digest_hex, of "Some ?n" "Some ?u" None] sh by blast
  have u: "?u \<noteq> []" by simp
  note p = sample_process [OF sample_digest_hex own st u]
  show ?thesis
    by (intro exI conjI, rule sample_digest_hex, rule tool, unfold d, rule p, simp, simp only: ingest_result.simps, rule ne)
qed

text \<open>A download is complete or refused: the returned text is all that the parser extracted, never cut, from an
  upload whose record names the requester as its owner (or names nobody, for the anonymous user), and the file
  name has no character that could leave the header.\<close>

theorem download_complete:
  assumes "markdown_download sha cfg W (JObj ref) req_username user_id = Inr (name, md)"
  shows "(\<exists>f s p. w_attempt W 0 = Ingested f s p md) \<and> md \<noteq> []
    \<and> (\<exists>d. w_redis W (''document:'' @ py_str (dict_get ref ''sessionId'') @ '':'' @ py_str (dict_get ref ''documentId''))
           = Decoded (JObj d) \<and> can_access_stored_document d (Some user_id))
    \<and> list_all (\<lambda>c. \<not> unsafe_name_char c) name \<and> length name \<le> 131"
proof -
  define u where "u = strip (if or_empty req_username = [] then user_id else or_empty req_username)"
  define r where "r = extract_document sha cfg W (JObj ref) u None"
  note dl = assms [unfolded markdown_download_def Let_def, folded u_def, folded r_def]
  from dl have u: "u = user_id" and st: "er_status r \<noteq> ''failure''" and md: "er_markdown r \<noteq> []" "md = er_markdown r"
    and name: "\<exists>n. name = markdown_filename n"
    unfolding if_Inl_Inr split_beta by simp_all blast+
  from extract_success [OF st [unfolded r_def]] obtain bytes filename f s p raw where
    x: "fetch_document sha W (dict_get ref ''documentId'') (dict_get ref ''sessionId'') u = Inr (bytes, filename)"
      "w_attempt W 0 = Ingested f s p raw" "er_markdown r = raw"
    by (auto simp: r_def apply_char_limit_def)
  with fetch_accessible [OF x(1)] md name markdown_filename_safe show ?thesis by (auto simp: u)
qed

theorem download_complete_witness:
  "\<exists>W. markdown_download sample_digest sample_config W sample_ref None ''ann'' = Inr (''d1.md'', ''text'')
     \<and> (\<exists>f s p. w_attempt W 0 = Ingested f s p ''text'')"
proof -
  let ?W = "sample_world ''ann''\<lparr>w_attempt := (\<lambda>_. Ingested 1 0 1 ''text'')\<rparr>"
  have st: "strip ''ann'' = ''ann''" by code_simp
  have f: "fetch_document sample_digest ?W (JStr ''d1'') (JStr ''s1'') ''ann'' = Inr (''ABC'', ''d1.bin'')"
    by (simp add: fetch_document_def sample_world_def sample_load can_access_stored_document_def or_empty_def dict_get_def
        py_or_def py_str_def st)
  have n: "markdown_filename ''d1.bin'' = ''d1.md''" by code_simp
  have w: "w_client ?W = None" "w_attempt ?W 0 = Ingested 1 0 1 ''text''" by (simp_all add: sample_world_def)
  have e: "extract_document sample_digest sample_config ?W sample_ref ''ann'' None
      = \<lparr>er_status = ''success'', er_filename = JStr ''d1.bin'', er_pages = 1, er_markdown = ''text'', er_truncated = False,
         er_original_chars = 4, er_error = [], er_error_kind = []\<rparr>"
    unfolding extract_document_def sample_ref_def json.case Let_def
    by (simp add: dict_get_def f w apply_char_limit_def)
  have d: "markdown_download sample_digest sample_config ?W sample_ref None ''ann'' = Inr (''d1.md'', ''text'')"
    by (simp add: markdown_download_def or_empty_def st e n)
  from download_complete [OF d [unfolded sample_ref_def]] d show ?thesis by blast
qed

end
