(* ===== verification/Queue_System.thy ===== *)
theory Queue_System
  imports Work_Queue
begin

text \<open>
  Any number of workers, the dashboard and the passing of time, interleaved over one user's keys.
  A step is one atomic Redis command or script of \<open>store.py\<close>, so other workers can act between
  the commands of one method: \<open>dequeue\<close> is the three steps \<open>pop\<close>, \<open>phase\<close> and \<open>finish\<close>, and its
  initial ownership test guards nothing later, so \<open>pop\<close> has no guard here. A worker may stop
  (\<open>crash\<close>) between any two steps, and a lease may expire at any time.

  Ghost fields record the run: the tokens drawn, the requests ever queued, the requests dispatched
  (newest first) and the requests removed for good. Tokens contain a fresh UUID and requests an
  identifier, so \<open>acquire\<close> draws a new token and \<open>submit\<close> queues a new text.
\<close>

section \<open>The system\<close>

record system =
  db :: redis
  store_of :: "nat \<Rightarrow> store"
  popped :: "nat \<Rightarrow> payload option"
  phased :: "nat \<Rightarrow> payload option"
  drawn :: "string set"
  seen :: "payload set"
  dispatched :: "payload list"
  resolved :: "payload set"

definition queue_init :: "system \<Rightarrow> bool" where
  "queue_init s \<longleftrightarrow>
     s = \<lparr>db = empty_redis, store_of = (\<lambda>_. empty_store), popped = (\<lambda>_. None),
          phased = (\<lambda>_. None), drawn = {}, seen = {}, dispatched = [], resolved = {}\<rparr>"

inductive queue_step :: "system \<Rightarrow> system \<Rightarrow> bool" where
  submit: "p \<notin> seen s \<Longrightarrow>
     queue_step s (s\<lparr>db := enqueue p (db s), seen := insert p (seen s)\<rparr>)"
| expire: "queue_step s (s\<lparr>db := (db s)\<lparr>lease := None\<rparr>\<rparr>)"
| acquire: "\<lbrakk>t \<notin> drawn s; acquire_lease t ttl (store_of s w) (db s) = (ok, st, r)\<rbrakk> \<Longrightarrow>
     queue_step s (s\<lparr>db := r, store_of := (store_of s)(w := st), drawn := insert t (drawn s)\<rparr>)"
| refresh: "refresh_lease ttl (store_of s w) (db s) = (ok, st, r) \<Longrightarrow>
     queue_step s (s\<lparr>db := r, store_of := (store_of s)(w := st)\<rparr>)"
| release: "release_lease (store_of s w) (db s) = (st, r) \<Longrightarrow>
     queue_step s (s\<lparr>db := r, store_of := (store_of s)(w := st)\<rparr>)"
| pop: "\<lbrakk>popped s w = None; phased s w = None; pop_to_processing (db s) = (Some p, r)\<rbrakk> \<Longrightarrow>
     queue_step s (s\<lparr>db := r,
       popped := (popped s)(w := if payload_truthy p then Some p else None)\<rparr>)"
| phase: "popped s w = Some p \<Longrightarrow>
     queue_step s (s\<lparr>db := record_phase p ''claimed'' (db s),
       popped := (popped s)(w := None), phased := (phased s)(w := Some p)\<rparr>)"
| finish: "\<lbrakk>phased s w = Some p; finish_dequeue p (store_of s w) (db s) = (res, st, r)\<rbrakk> \<Longrightarrow>
     queue_step s (s\<lparr>db := r, store_of := (store_of s)(w := st), phased := (phased s)(w := None),
       resolved := resolved s \<union> (set (processing (db s)) - set (processing r))\<rparr>)"
| dispatch: "\<lbrakk>inflight (store_of s w) = Some p;
     mark_backend_started (store_of s w) (db s) = (Inr (), r)\<rbrakk> \<Longrightarrow>
     queue_step s (s\<lparr>db := r, dispatched := p # dispatched s\<rparr>)"
| complete: "complete (store_of s w) (db s) = (ok, st, r) \<Longrightarrow>
     queue_step s (s\<lparr>db := r, store_of := (store_of s)(w := st),
       resolved := resolved s \<union> (set (processing (db s)) - set (processing r))\<rparr>)"
| reclaim: "\<lbrakk>lease_token (store_of s w) = Some t; reclaim_script t (db s) = (Some moved, r)\<rbrakk> \<Longrightarrow>
     queue_step s (s\<lparr>db := r,
       store_of := (store_of s)(w := (store_of s w)\<lparr>inflight :=
         (case inflight (store_of s w) of None \<Rightarrow> None
          | Some p \<Rightarrow> if p \<in> set moved then None else Some p)\<rparr>),
       resolved := resolved s \<union> (set (processing (db s)) - set (queue r))\<rparr>)"
| clear_phases: "lease_token (store_of s w) = Some t \<Longrightarrow>
     queue_step s (s\<lparr>db := clear_phases_script t (db s)\<rparr>)"
| crash: "queue_step s (s\<lparr>store_of := (store_of s)(w := empty_store),
       popped := (popped s)(w := None), phased := (phased s)(w := None)\<rparr>)"

section \<open>Invariants\<close>

definition conserved :: "system \<Rightarrow> bool" where
  "conserved s \<longleftrightarrow>
     distinct (queue (db s) @ processing (db s)) \<and>
     set (queue (db s)) \<union> set (processing (db s)) \<union> resolved s = seen s \<and>
     resolved s \<inter> (set (queue (db s)) \<union> set (processing (db s))) = {}"

definition phases_ok :: "system \<Rightarrow> bool" where
  "phases_ok s \<longleftrightarrow>
     dom (processing_state (db s)) \<subseteq> seen s \<and>
     (\<forall>p \<in> set (queue (db s)). processing_state (db s) p = None) \<and>
     (\<forall>p v. processing_state (db s) p = Some v \<longrightarrow>
        v = ''claimed'' \<or> v = ''started'' \<and> p \<in> set (dispatched s)) \<and>
     (\<forall>w p. popped s w = Some p \<longrightarrow>
        p \<in> seen s \<and> p \<notin> set (queue (db s)) \<and> processing_state (db s) p = None) \<and>
     (\<forall>w w' p. popped s w = Some p \<longrightarrow> popped s w' = Some p \<longrightarrow> w = w')"

definition dispatch_ok :: "system \<Rightarrow> bool" where
  "dispatch_ok s \<longleftrightarrow>
     distinct (dispatched s) \<and>
     (\<forall>p \<in> set (dispatched s). p \<in> seen s \<and> p \<notin> set (queue (db s)) \<and>
        processing_state (db s) p \<noteq> Some ''claimed'' \<and> (\<forall>w. popped s w \<noteq> Some p))"

definition leases_ok :: "system \<Rightarrow> bool" where
  "leases_ok s \<longleftrightarrow>
     (\<forall>t n. lease (db s) = Some (t, n) \<longrightarrow> t \<in> drawn s) \<and>
     (\<forall>w t. lease_token (store_of s w) = Some t \<longrightarrow> t \<in> drawn s) \<and>
     (\<forall>w w' t. lease_token (store_of s w) = Some t \<longrightarrow>
        lease_token (store_of s w') = Some t \<longrightarrow> w = w')"

definition queue_inv :: "system \<Rightarrow> bool" where
  "queue_inv s \<longleftrightarrow> conserved s \<and> phases_ok s \<and> dispatch_ok s \<and> leases_ok s"

lemmas inv_defs = conserved_def phases_ok_def dispatch_ok_def

lemma queue_init_inv: "queue_init s \<Longrightarrow> queue_inv s"
  by (auto simp: queue_init_def queue_inv_def inv_defs leases_ok_def empty_redis_def empty_store_def)

subsection \<open>Steps that only touch the lease\<close>

text \<open>The three queue invariants read only the queue keys, so a step that keeps those keys and
  the claims in progress keeps the invariants.\<close>

definition same_queue :: "redis \<Rightarrow> redis \<Rightarrow> bool" where
  "same_queue r r' \<longleftrightarrow> queue r' = queue r \<and> processing r' = processing r \<and>
     processing_state r' = processing_state r"

lemma same_queue_inv:
  assumes "same_queue (db s) (db t)" "seen t = seen s" "dispatched t = dispatched s"
    "resolved t = resolved s" "\<forall>w. popped t w = popped s w \<or> popped t w = None"
  shows "conserved s \<Longrightarrow> conserved t"
    and "phases_ok s \<Longrightarrow> phases_ok t"
    and "dispatch_ok s \<Longrightarrow> dispatch_ok t"
proof -
  show "conserved s \<Longrightarrow> conserved t"
    using assms by (simp add: conserved_def same_queue_def)
  have P: "popped t w = Some p \<Longrightarrow> popped s w = Some p" for w p
    using assms(5) by (metis option.distinct(1))
  show "phases_ok s \<Longrightarrow> phases_ok t"
    using assms(1-4) by (auto simp: phases_ok_def same_queue_def dest!: P)
  show "dispatch_ok s \<Longrightarrow> dispatch_ok t"
    using assms(1-4) by (auto simp: dispatch_ok_def same_queue_def dest!: P)
qed

lemma acquire_same_queue: "acquire_lease t ttl st r = (ok, st', r') \<Longrightarrow> same_queue r r'"
  by (auto simp: acquire_lease_def same_queue_def Let_def split: option.splits)

lemma refresh_same_queue: "refresh_lease ttl st r = (ok, st', r') \<Longrightarrow> same_queue r r'"
  by (auto simp: refresh_lease_def refresh_script_def same_queue_def Let_def
      split: option.splits if_splits)

lemma release_same_queue: "release_lease st r = (st', r') \<Longrightarrow> same_queue r r'"
  by (auto simp: release_lease_def release_script_def same_queue_def Let_def
      split: option.splits if_splits)

subsection \<open>Steps that remove one claim\<close>

definition drops_claim :: "payload \<Rightarrow> redis \<Rightarrow> redis \<Rightarrow> bool" where
  "drops_claim p r r' \<longleftrightarrow> queue r' = queue r \<and> processing r' = remove1 p (processing r) \<and>
     processing_state r' = (processing_state r)(p := None)"

lemma finish_effect:
  "finish_dequeue p st r = (res, st', r') \<Longrightarrow> same_queue r r' \<or> drops_claim p r r'"
  by (auto simp: finish_dequeue_def refresh_lease_def refresh_script_def same_queue_def
      drops_claim_def Let_def split: option.splits if_splits)

lemma complete_effect:
  "complete st r = (ok, st', r') \<Longrightarrow> same_queue r r' \<or> (\<exists>p. drops_claim p r r')"
  by (auto simp: complete_def complete_script_def same_queue_def drops_claim_def Let_def
      split: option.splits if_splits)

lemma drops_claim_inv:
  assumes d: "drops_claim p (db s) (db t)"
    and e: "seen t = seen s" "dispatched t = dispatched s" "popped t = popped s"
      "resolved t = resolved s \<union> (set (processing (db s)) - set (processing (db t)))"
  shows "conserved s \<Longrightarrow> conserved t"
    and "phases_ok s \<Longrightarrow> phases_ok t"
    and "dispatch_ok s \<Longrightarrow> dispatch_ok t"
proof -
  show "conserved t" if c: "conserved s"
  proof -
    from c have "distinct (processing (db s))" by (simp add: conserved_def)
    then have "set (processing (db t)) = set (processing (db s)) - {p}"
      using d by (simp add: drops_claim_def)
    moreover have "distinct (processing (db t))"
      using d \<open>distinct (processing (db s))\<close> by (simp add: drops_claim_def)
    ultimately show ?thesis
      using c d e by (auto simp: conserved_def drops_claim_def)
  qed
  show "phases_ok s \<Longrightarrow> phases_ok t"
    using d e unfolding phases_ok_def drops_claim_def by (auto split: if_splits)
  show "dispatch_ok s \<Longrightarrow> dispatch_ok t"
    using d e unfolding dispatch_ok_def drops_claim_def by auto
qed

subsection \<open>The lease invariant\<close>

text \<open>A step that gives nobody a new token keeps the lease invariant.\<close>

lemma leases_shrink:
  assumes l: "leases_ok s" and d: "drawn t = drawn s"
    and r: "map_option fst (lease (db t)) \<in> {None, map_option fst (lease (db s))}"
    and w: "\<And>w. lease_token (store_of t w) \<in> {None, lease_token (store_of s w)}"
  shows "leases_ok t"
proof -
  have W: "lease_token (store_of t w) = Some x \<Longrightarrow> lease_token (store_of s w) = Some x" for w x
    using w [of w] by auto
  have "lease (db t) = Some (x, n) \<Longrightarrow> x \<in> drawn s" for x n
    using r l by (cases "lease (db s)") (auto simp: leases_ok_def)
  then show ?thesis
    using l d by (auto simp: leases_ok_def dest!: W)
qed

lemma acquire_leases:
  assumes "leases_ok s" "t \<notin> drawn s" "acquire_lease t ttl (store_of s w) (db s) = (ok, st, r)"
  shows "leases_ok (s\<lparr>db := r, store_of := (store_of s)(w := st), drawn := insert t (drawn s)\<rparr>)"
  using assms
  by (cases "lease (db s)") (auto simp: leases_ok_def acquire_lease_def Let_def)

lemma refresh_leases:
  "refresh_lease ttl st r = (ok, st', r') \<Longrightarrow>
     map_option fst (lease r') \<in> {None, map_option fst (lease r)} \<and>
     lease_token st' \<in> {None, lease_token st}"
  by (auto simp: refresh_lease_def refresh_script_def Let_def split: option.splits if_splits)

lemma release_leases:
  "release_lease st r = (st', r') \<Longrightarrow>
     map_option fst (lease r') \<in> {None, map_option fst (lease r)} \<and>
     lease_token st' \<in> {None, lease_token st}"
  by (auto simp: release_lease_def release_script_def Let_def split: option.splits if_splits)

lemma finish_leases:
  "finish_dequeue p st r = (res, st', r') \<Longrightarrow>
     map_option fst (lease r') \<in> {None, map_option fst (lease r)} \<and>
     lease_token st' \<in> {None, lease_token st}"
  by (auto simp: finish_dequeue_def refresh_lease_def refresh_script_def Let_def
      split: option.splits if_splits)

lemma complete_leases:
  "complete st r = (ok, st', r') \<Longrightarrow> lease r' = lease r \<and> lease_token st' = lease_token st"
  by (auto simp: complete_def complete_script_def Let_def split: option.splits if_splits)

subsection \<open>Every step keeps the invariant\<close>

lemma submit_inv:
  assumes "queue_inv s" "p \<notin> seen s"
  shows "queue_inv (s\<lparr>db := enqueue p (db s), seen := insert p (seen s)\<rparr>)"
proof -
  have n: "processing_state (db s) p = None"
    using assms by (auto simp: queue_inv_def phases_ok_def)
  show ?thesis
    using assms n
    by (auto simp: queue_inv_def conserved_def phases_ok_def dispatch_ok_def leases_ok_def enqueue_def)
qed

lemma pop_inv:
  assumes "queue_inv s" "pop_to_processing (db s) = (Some p, r)"
  shows "queue_inv (s\<lparr>db := r, popped := (popped s)(w := if payload_truthy p then Some p else None)\<rparr>)"
proof -
  obtain q where q: "queue (db s) = q @ [p]"
    and r: "r = (db s)\<lparr>queue := q, processing := p # processing (db s)\<rparr>"
    using assms(2) by (cases "queue (db s)" rule: rev_cases)
      (auto simp: pop_to_processing_def)
  let ?t = "s\<lparr>db := r, popped := (popped s)(w := if payload_truthy p then Some p else None)\<rparr>"
  have "conserved ?t"
    using assms(1) q r by (auto simp: queue_inv_def conserved_def)
  moreover have "p \<in> seen s" "processing_state (db s) p = None" "\<And>v. popped s v \<noteq> Some p" "p \<notin> set q"
    using assms(1) q by (auto simp: queue_inv_def conserved_def phases_ok_def)
  then have "phases_ok ?t"
    using assms(1) q r by (auto simp: queue_inv_def phases_ok_def split: if_splits)
  moreover have "dispatch_ok ?t"
    using assms(1) q r by (auto simp: queue_inv_def dispatch_ok_def)
  moreover have "leases_ok ?t"
    using assms(1) r by (auto simp: queue_inv_def leases_ok_def)
  ultimately show ?thesis by (simp add: queue_inv_def)
qed

lemma phase_inv:
  assumes "queue_inv s" "popped s w = Some p"
  shows "queue_inv (s\<lparr>db := record_phase p ''claimed'' (db s),
    popped := (popped s)(w := None), phased := (phased s)(w := Some p)\<rparr>)" (is "queue_inv ?t")
proof -
  have p: "p \<in> seen s" "p \<notin> set (queue (db s))" "p \<notin> set (dispatched s)"
    "\<And>v. popped s v = Some p \<Longrightarrow> v = w"
    using assms by (auto simp: queue_inv_def phases_ok_def dispatch_ok_def)
  have "conserved ?t"
    using assms(1) by (simp add: queue_inv_def conserved_def record_phase_def)
  moreover have "phases_ok ?t"
    using assms p unfolding queue_inv_def phases_ok_def record_phase_def
    by (auto split: if_splits)
  moreover have "dispatch_ok ?t"
    using assms(1) p by (auto simp: queue_inv_def dispatch_ok_def record_phase_def)
  moreover have "leases_ok ?t"
    using assms(1) by (simp add: queue_inv_def leases_ok_def record_phase_def)
  ultimately show ?thesis by (simp add: queue_inv_def)
qed

lemma dispatch_inv:
  assumes "queue_inv s" "inflight (store_of s w) = Some p"
    "mark_backend_started (store_of s w) (db s) = (Inr (), r)"
  shows "queue_inv (s\<lparr>db := r, dispatched := p # dispatched s\<rparr>)" (is "queue_inv ?t")
proof -
  from assms(2,3) have c: "processing_state (db s) p = Some ''claimed''"
    and r: "r = record_phase p ''started'' (db s)"
    by (auto simp: mark_started_ok)
  have p: "p \<in> seen s" "p \<notin> set (queue (db s))" "p \<notin> set (dispatched s)" "\<And>v. popped s v \<noteq> Some p"
    using assms(1) c by (auto simp: queue_inv_def phases_ok_def dispatch_ok_def)
  have "conserved ?t"
    using assms(1) r by (simp add: queue_inv_def conserved_def record_phase_def)
  moreover have "phases_ok ?t"
    using assms(1) p r unfolding queue_inv_def phases_ok_def record_phase_def
    by (auto split: if_splits)
  moreover have "dispatch_ok ?t"
    using assms(1) p r by (auto simp: queue_inv_def dispatch_ok_def record_phase_def)
  moreover have "leases_ok ?t"
    using assms(1) r by (simp add: queue_inv_def leases_ok_def record_phase_def)
  ultimately show ?thesis by (simp add: queue_inv_def)
qed

lemma reclaim_effect:
  assumes "reclaim_script t r = (Some moved, r')" "distinct (processing r)"
  shows "r' = r\<lparr>queue := queue r @ filter (\<lambda>v. processing_state r v = Some ''claimed'') (processing r),
                processing := [], processing_state := Map.empty\<rparr> \<and> moved = processing r"
  using assms by (auto simp: reclaim_script_def reclaim_loop_eq split: if_splits)

lemma reclaim_inv:
  assumes "queue_inv s" "reclaim_script t (db s) = (Some moved, r)"
    and f: "lease_token (f (store_of s w)) = lease_token (store_of s w)"
  shows "queue_inv (s\<lparr>db := r, store_of := (store_of s)(w := f (store_of s w)),
    resolved := resolved s \<union> (set (processing (db s)) - set (queue r))\<rparr>)" (is "queue_inv ?t")
proof -
  have "distinct (processing (db s))"
    using assms(1) by (simp add: queue_inv_def conserved_def)
  note r = reclaim_effect [OF assms(2) this]
  have "conserved ?t"
    using assms(1) r by (auto simp: queue_inv_def conserved_def)
  moreover have "phases_ok ?t"
    using assms(1) r by (auto simp: queue_inv_def phases_ok_def)
  moreover have "dispatch_ok ?t"
    using assms(1) r by (auto simp: queue_inv_def dispatch_ok_def)
  moreover have "leases_ok ?t"
    using assms(1) r f by (auto simp: queue_inv_def leases_ok_def)
  ultimately show ?thesis by (simp add: queue_inv_def)
qed

lemma clear_phases_inv:
  assumes "queue_inv s"
  shows "queue_inv (s\<lparr>db := clear_phases_script t (db s)\<rparr>)"
proof -
  have "phases_ok (s\<lparr>db := clear_phases_script t (db s)\<rparr>)"
    using assms unfolding queue_inv_def phases_ok_def clear_phases_script_def by auto
  then show ?thesis
    using assms by (auto simp: queue_inv_def conserved_def dispatch_ok_def leases_ok_def
        clear_phases_script_def)
qed

lemma queue_step_inv: "queue_inv s \<Longrightarrow> queue_step s t \<Longrightarrow> queue_inv t"
proof (erule queue_step.cases, goal_cases)
  case (1 p s)
  then show ?case by (simp add: submit_inv)
next
  case (2 s')
  then show ?case
    using same_queue_inv [of s t] leases_shrink [of s t]
    by (auto simp: queue_inv_def same_queue_def)
next
  case (3 tok s' ttl w ok st r)
  then show ?case
    using same_queue_inv [of s t] acquire_same_queue acquire_leases
    by (auto simp: queue_inv_def)
next
  case (4 ttl s' w ok st r)
  then show ?case
    using same_queue_inv [of s t] refresh_same_queue refresh_leases leases_shrink [of s t]
    by (auto simp: queue_inv_def)
next
  case (5 s' w st r)
  then show ?case
    using same_queue_inv [of s t] release_same_queue release_leases leases_shrink [of s t]
    by (auto simp: queue_inv_def)
next
  case (6 s' w p r)
  then show ?case by (simp add: pop_inv)
next
  case (7 s' w p)
  then show ?case by (simp add: phase_inv)
next
  case (8 s' w p res st r)
  from 8 have l: "leases_ok t"
    using finish_leases leases_shrink [of s t] by (auto simp: queue_inv_def)
  from 8 finish_effect consider "same_queue (db s) (db t)" | "drops_claim p (db s) (db t)"
    by fastforce
  then show ?case
    using 8 l same_queue_inv [of s t] drops_claim_inv [of p s t]
    by cases (auto simp: queue_inv_def same_queue_def)
next
  case (9 s' w p r)
  then show ?case by (simp add: dispatch_inv)
next
  case (10 s' w ok st r)
  from 10 have l: "leases_ok t"
    using complete_leases leases_shrink [of s t] by (auto simp: queue_inv_def)
  from 10 complete_effect consider "same_queue (db s) (db t)" | p where "drops_claim p (db s) (db t)"
    by fastforce
  then show ?case
    using 10 l same_queue_inv [of s t] drops_claim_inv [of _ s t]
    by cases (auto simp: queue_inv_def same_queue_def)
next
  case (11 s' w tok moved r)
  then show ?case
    using reclaim_inv [of s tok moved r] by simp
next
  case (12 s' w tok)
  then show ?case by (simp add: clear_phases_inv)
next
  case (13 s' w)
  then show ?case
    using same_queue_inv [of s t] leases_shrink [of s t]
    by (auto simp: queue_inv_def same_queue_def empty_store_def)
qed

interpretation qs: invariant_system queue_init queue_step queue_inv
  by unfold_locales (auto intro: queue_init_inv queue_step_inv)

section \<open>A concrete run\<close>

text \<open>One request is submitted, claimed and dispatched by worker 0; the witnesses use this run.\<close>

definition sample_request :: payload where
  "sample_request = Encoded (JObj [(''id'', JStr ''r1'')])"

definition sample_db :: redis where
  "sample_db = empty_redis\<lparr>lease := Some (''1:a'', 60), processing := [sample_request],
     processing_state := [sample_request \<mapsto> ''started'']\<rparr>"

definition sample_store :: store where
  "sample_store = \<lparr>lease_token = Some ''1:a'', lease_ttl = Some 60, inflight = Some sample_request\<rparr>"

definition sample_state :: system where
  "sample_state = \<lparr>db = sample_db, store_of = (\<lambda>_. empty_store)(0 := sample_store),
     popped = (\<lambda>_. None)(0 := None), phased = (\<lambda>_. None)(0 := None), drawn = {''1:a''},
     seen = {sample_request}, dispatched = [sample_request], resolved = {}\<rparr>"

lemma sample_reach: "reach queue_init queue_step sample_state"
proof -
  define s0 where "s0 = \<lparr>db = empty_redis, store_of = (\<lambda>_. empty_store), popped = (\<lambda>_. None),
          phased = (\<lambda>_. None), drawn = {}, seen = {}, dispatched = [], resolved = {}\<rparr>"
  define s1 where "s1 = s0\<lparr>db := enqueue sample_request (db s0), seen := {sample_request}\<rparr>"
  define st1 where "st1 = \<lparr>lease_token = Some ''1:a'', lease_ttl = Some 60, inflight = None\<rparr>"
  define s2 where "s2 = s1\<lparr>db := (db s1)\<lparr>lease := Some (''1:a'', 60)\<rparr>,
    store_of := (store_of s1)(0 := st1), drawn := {''1:a''}\<rparr>"
  define s3 where "s3 = s2\<lparr>db := (db s2)\<lparr>queue := [], processing := [sample_request]\<rparr>,
    popped := (popped s2)(0 := Some sample_request)\<rparr>"
  define s4 where "s4 = s3\<lparr>db := record_phase sample_request ''claimed'' (db s3),
    popped := (popped s3)(0 := None), phased := (phased s3)(0 := Some sample_request)\<rparr>"
  define s5 where "s5 = s4\<lparr>store_of := (store_of s4)(0 := sample_store),
    phased := (phased s4)(0 := None)\<rparr>"
  have "reach queue_init queue_step s0"
    by (rule reach_start) (simp add: queue_init_def s0_def)
  moreover have "queue_step s0 s1"
    using queue_step.submit [of sample_request s0] by (simp add: s1_def s0_def)
  moreover have "queue_step s1 s2"
    using queue_step.acquire [of "''1:a''" s1 60 0 True st1 "(db s1)\<lparr>lease := Some (''1:a'', 60)\<rparr>"]
    by (simp add: s2_def s1_def s0_def st1_def acquire_lease_def empty_redis_def enqueue_def
        empty_store_def)
  moreover have "queue_step s2 s3"
    using queue_step.pop [of s2 0 sample_request
        "(db s2)\<lparr>queue := [], processing := [sample_request]\<rparr>"]
    by (simp add: s3_def s2_def s1_def s0_def pop_to_processing_def empty_redis_def enqueue_def
        sample_request_def)
  moreover have "queue_step s3 s4"
    unfolding s4_def by (rule queue_step.phase) (simp add: s3_def)
  moreover have "queue_step s4 s5"
    using queue_step.finish [of s4 0 sample_request "Inr (Some [(''id'', JStr ''r1'')])"
        sample_store "db s4"]
    by (simp add: s5_def s4_def s3_def s2_def s1_def s0_def finish_dequeue_def refresh_lease_def
        refresh_script_def st1_def sample_store_def sample_request_def record_phase_def
        empty_redis_def enqueue_def)
  moreover have "queue_step s5 sample_state"
    using queue_step.dispatch [of s5 0 sample_request
        "record_phase sample_request ''started'' (db s5)"]
    by (simp add: sample_state_def sample_db_def s5_def s4_def s3_def s2_def s1_def s0_def
        mark_started_ok owns_lease_def sample_store_def record_phase_def
        empty_redis_def enqueue_def)
  ultimately show ?thesis by (meson reach_next)
qed

section \<open>Properties\<close>

text \<open>C9. No request is dispatched to the backend twice, whatever workers crash, lose their lease
  or interleave between any two Redis commands.\<close>

theorem at_most_once_dispatch:
  "reach queue_init queue_step s \<Longrightarrow> distinct (dispatched s)"
  by (rule qs.reach_implies) (auto simp: queue_inv_def dispatch_ok_def)

theorem at_most_once_dispatch_witness:
  "reach queue_init queue_step sample_state \<and> dispatched sample_state = [sample_request] \<and>
   distinct (dispatched sample_state)"
  using sample_reach at_most_once_dispatch [OF sample_reach] by (simp add: sample_state_def)

text \<open>Recovery decides by what is provable: of the claims whose phase was recorded, exactly
  those that were never dispatched go back to the queue. A dispatched request is never queued
  again, and an undispatched one with a recorded phase is never dropped.\<close>

theorem recovery_requeues_undispatched:
  assumes "reach queue_init queue_step s"
    and "reclaim_script t (db s) = (Some moved, r)"
    and "p \<in> set (processing (db s))" and "processing_state (db s) p \<noteq> None"
  shows "p \<in> set (queue r) \<longleftrightarrow> p \<notin> set (dispatched s)"
proof -
  have i: "queue_inv s" using assms(1) by (rule qs.reach_inv)
  then have d: "distinct (processing (db s))" by (simp add: queue_inv_def conserved_def)
  from i assms(3) have "p \<notin> set (queue (db s))" by (auto simp: queue_inv_def conserved_def)
  with reclaim_effect [OF assms(2) d] i assms(3,4) show ?thesis
    by (auto simp: queue_inv_def phases_ok_def dispatch_ok_def)
qed

theorem recovery_requeues_undispatched_witness:
  "\<exists>r. reclaim_script ''1:a'' sample_db = (Some [sample_request], r) \<and>
     \<not> sample_request \<in> set (queue r)"
proof -
  define r where "r = sample_db\<lparr>processing := [], processing_state := Map.empty\<rparr>"
  have "reclaim_script ''1:a'' sample_db = (Some [sample_request], r)"
    by (simp add: reclaim_script_def sample_db_def r_def empty_redis_def)
  moreover have "sample_request \<in> set (queue r) \<longleftrightarrow> sample_request \<notin> set (dispatched sample_state)"
    using calculation
    by (intro recovery_requeues_undispatched [OF sample_reach])
      (auto simp: sample_state_def sample_db_def)
  ultimately show ?thesis by (auto simp: sample_state_def)
qed



text \<open>At most one worker owns the lease at a time, and only the owner passes the dispatch
  fence.\<close>

theorem lease_exclusive:
  assumes "reach queue_init queue_step s"
    and "mark_backend_started (store_of s w) (db s) = (Inr (), r)"
    and "owns_lease (store_of s w') (db s)"
  shows "w = w'"
proof -
  have "leases_ok s" using qs.reach_inv [OF assms(1)] by (simp add: queue_inv_def)
  with assms(2,3) show ?thesis
    by (auto simp: mark_started_ok owns_lease_iff leases_ok_def)
qed

theorem lease_exclusive_witness:
  "\<exists>s r. reach queue_init queue_step s \<and> owns_lease (store_of s 0) (db s) \<and>
     mark_backend_started (store_of s 0) (db s) = (Inr (), r) \<and>
     (\<forall>w'. owns_lease (store_of s w') (db s) \<longrightarrow> 0 = w')"
proof -
  let ?p = "Encoded (JObj [(''id'', JStr ''r2'')])"
  define s1 where "s1 = sample_state\<lparr>db := enqueue ?p sample_db, seen := {?p, sample_request}\<rparr>"
  define s2 where "s2 = s1\<lparr>db := sample_db\<lparr>processing := [?p, sample_request]\<rparr>,
    popped := (popped s1)(0 := Some ?p)\<rparr>"
  define s3 where "s3 = s2\<lparr>db := record_phase ?p ''claimed'' (db s2),
    popped := (popped s2)(0 := None), phased := (phased s2)(0 := Some ?p)\<rparr>"
  define s4 where "s4 = s3\<lparr>store_of := (store_of s3)(0 := sample_store\<lparr>inflight := Some ?p\<rparr>),
    phased := (phased s3)(0 := None)\<rparr>"
  have "queue_step sample_state s1"
    using queue_step.submit [of ?p sample_state]
    by (simp add: s1_def sample_state_def sample_request_def)
  moreover have "queue_step s1 s2"
    using queue_step.pop [of s1 0 ?p "sample_db\<lparr>processing := [?p, sample_request]\<rparr>"]
    by (simp add: s2_def s1_def sample_state_def pop_to_processing_def sample_db_def
        empty_redis_def enqueue_def)
  moreover have "queue_step s2 s3"
    unfolding s3_def by (rule queue_step.phase) (simp add: s2_def)
  moreover have "queue_step s3 s4"
    using queue_step.finish [of s3 0 ?p "Inr (Some [(''id'', JStr ''r2'')])"
        "sample_store\<lparr>inflight := Some ?p\<rparr>" "db s3"]
    by (simp add: s4_def s3_def s2_def s1_def finish_dequeue_def refresh_lease_def
        refresh_script_def sample_state_def sample_store_def record_phase_def sample_db_def)
  ultimately have r: "reach queue_init queue_step s4"
    using sample_reach by (meson reach_next)
  have o: "owns_lease (store_of s4 0) (db s4)"
    by (simp add: s4_def s3_def s2_def owns_lease_def sample_store_def record_phase_def sample_db_def)
  have m: "mark_backend_started (store_of s4 0) (db s4)
      = (Inr (), record_phase ?p ''started'' (db s4))"
    using o by (simp add: mark_started_ok) (simp add: s4_def s3_def record_phase_def)
  from lease_exclusive [OF r m] r o m show ?thesis by blast
qed

text \<open>Recovery resumes the interrupted undispatched claims before anything that was waiting,
  oldest claim first: read in the order in which \<open>dequeue\<close> serves, the queue after recovery is
  those claims from oldest to newest, followed by the requests that were already waiting.\<close>

theorem recovery_order:
  assumes "distinct (processing r)" and "reclaim_script t r = (Some moved, r')"
  shows "rev (queue r')
     = rev (filter (\<lambda>p. processing_state r p = Some ''claimed'') (processing r)) @ rev (queue r)
   \<and> processing r' = [] \<and> moved = processing r"
  using reclaim_effect [OF assms(2,1)] by simp

theorem recovery_order_witness:
  "let a = Garbage ''a''; b = Garbage ''b''; c = Garbage ''c'';
       r = empty_redis\<lparr>lease := Some (''t'', 60), queue := [c], processing := [b, a],
             processing_state := [a \<mapsto> ''claimed'', b \<mapsto> ''claimed'']\<rparr>
   in rev (queue (snd (reclaim_script ''t'' r))) = [a, b, c]"
proof -
  define r where "r = empty_redis\<lparr>lease := Some (''t'', 60), queue := [Garbage ''c''],
    processing := [Garbage ''b'', Garbage ''a''],
    processing_state := [Garbage ''a'' \<mapsto> ''claimed'', Garbage ''b'' \<mapsto> ''claimed'']\<rparr>"
  have d: "distinct (processing r)" by (simp add: r_def)
  obtain m r' where m: "reclaim_script ''t'' r = (Some m, r')"
    by (simp add: r_def reclaim_script_def)
  from recovery_order [OF d m] m show ?thesis
    by (simp add: r_def [symmetric]) (simp add: r_def)
qed

text \<open>The life of a request: a dequeue that returns a request has recorded its claim, and after
  the dispatch fence and completion by the same worker the processing list and the other phases
  are as they were before the dequeue.\<close>

theorem claim_lifecycle:
  assumes d: "dequeue s r = (Inr (Some d), s1, r1)"
    and m: "mark_backend_started s1 r1 = (Inr (), r2)"
    and c: "complete s1 r2 = (ok, s3, r3)"
  shows "ok \<and> queue r = queue r3 @ [the (inflight s1)] \<and> json_dict_of (the (inflight s1)) = Some d
    \<and> processing r3 = processing r
    \<and> processing_state r3 = (processing_state r)(the (inflight s1) := None)
    \<and> inflight s3 = None"
proof -
  from d obtain q raw where q: "queue r = q @ [raw]" and p: "json_dict_of raw = Some d"
    and s1: "inflight s1 = Some raw" and o: "owns_lease s1 r1"
    and r1: "queue r1 = q" "processing r1 = raw # processing r"
      "processing_state r1 = (processing_state r)(raw \<mapsto> ''claimed'')"
    by (cases "queue r" rule: rev_cases)
      (auto simp: dequeue_def pop_to_processing_def finish_dequeue_def refresh_lease_def
        refresh_script_def owns_lease_def record_phase_def Let_def split: if_splits option.splits)
  from m s1 have "r2 = record_phase raw ''started'' r1"
    by (auto simp: mark_started_ok)
  with c o s1 r1 q p show ?thesis
    by (auto simp: complete_def complete_script_def record_phase_def owns_lease_def Let_def
        fun_eq_iff split: option.splits)
qed

theorem claim_lifecycle_witness:
  "\<exists>s1 r1 r2 s3 r3.
     dequeue (empty_store\<lparr>lease_token := Some ''t''\<rparr>)
       (empty_redis\<lparr>lease := Some (''t'', 60), queue := [sample_request]\<rparr>)
       = (Inr (Some [(''id'', JStr ''r1'')]), s1, r1) \<and>
     mark_backend_started s1 r1 = (Inr (), r2) \<and> complete s1 r2 = (True, s3, r3) \<and>
     processing r3 = [] \<and> queue r3 = []"
proof -
  let ?s = "empty_store\<lparr>lease_token := Some ''t''\<rparr>"
  let ?r = "empty_redis\<lparr>lease := Some (''t'', 60), queue := [sample_request]\<rparr>"
  let ?s1 = "\<lparr>lease_token = Some ''t'', lease_ttl = Some 60, inflight = Some sample_request\<rparr>"
  let ?r1 = "?r\<lparr>queue := [], processing := [sample_request],
    processing_state := [sample_request \<mapsto> ''claimed'']\<rparr>"
  let ?r2 = "record_phase sample_request ''started'' ?r1"
  have d: "dequeue ?s ?r = (Inr (Some [(''id'', JStr ''r1'')]), ?s1, ?r1)"
    by (simp add: dequeue_def owns_lease_def pop_to_processing_def sample_request_def
        finish_dequeue_def refresh_lease_def refresh_script_def record_phase_def empty_redis_def
        empty_store_def)
  have m: "mark_backend_started ?s1 ?r1 = (Inr (), ?r2)"
    by (simp add: mark_started_ok owns_lease_def)
  obtain ok s3 r3 where c: "complete ?s1 ?r2 = (ok, s3, r3)" by (metis prod_cases3)
  from claim_lifecycle [OF d m c] have e: "ok" "processing r3 = []" "queue r3 = []"
    by (auto simp: empty_redis_def)
  with c have c': "complete ?s1 ?r2 = (True, s3, r3)" by simp
  show ?thesis
    by (rule exI [of _ ?s1], rule exI [of _ ?r1], rule exI [of _ ?r2], rule exI [of _ s3],
        rule exI [of _ r3]) (intro conjI d m c' e)
qed

end
