(* ===== verification/Atomic_Update.thy ===== *)
theory Atomic_Update
  imports Work_Queue
begin

text \<open>
  JSON documents in Redis (\<open>store.py\<close>: \<open>_supports_json\<close>, \<open>json_get\<close>, \<open>json_set\<close>,
  \<open>atomic_update\<close>, \<open>set_text\<close>) and the optimistic transaction that every shared record goes through.

  Other clients act between the reads of an attempt and its \<open>EXEC\<close>. An \<open>interference\<close> is what they
  do in that window: a function of the keys, and whether they wrote a watched key without changing
  its value. \<open>EXEC\<close> aborts when a watched key was written; the model compares the watched keys
  before and after, or takes the flag.
\<close>

section \<open>Capability probe\<close>

datatype probe = ProbeOk | ProbeError string

definition is_wrong_type_error :: "string \<Rightarrow> bool" where
  "is_wrong_type_error msg =
     (let m = lower msg in
      contains ''wrongtype'' m \<or> contains ''wrong redis type'' m \<or> contains ''wrong kind of value'' m)"

definition supports_json :: "bool option \<Rightarrow> probe \<Rightarrow> bool result \<times> bool option" where
  "supports_json cached answer =
     (case cached of
        Some b \<Rightarrow> (Inr b, cached)
      | None \<Rightarrow>
          (case answer of
             ProbeOk \<Rightarrow> (Inr True, Some True)
           | ProbeError msg \<Rightarrow>
               if is_wrong_type_error msg then (Inr True, Some True)
               else if contains ''unknown command'' (lower msg) then (Inr False, Some False)
               else (Inl (RuntimeError msg), None)))"

section \<open>Reads and writes of a document key\<close>

definition wrong_type :: py_error where
  "wrong_type = RuntimeError ''WRONGTYPE''"

definition loads_or :: "json \<Rightarrow> payload \<Rightarrow> json" where
  "loads_or fallback p =
     (if \<not> payload_truthy p then fallback
      else case json_loads p of None \<Rightarrow> fallback | Some v \<Rightarrow> v)"

definition json_get :: "bool \<Rightarrow> string \<Rightarrow> json \<Rightarrow> redis \<Rightarrow> json result" where
  "json_get supported k fallback r =
     (case slots r k of
        Missing \<Rightarrow> Inr fallback
      | PlainText p \<Rightarrow> Inr (loads_or fallback p)
      | RedisJson v \<Rightarrow> if supported then Inr v else Inl wrong_type
      | OtherKind t \<Rightarrow> Inl wrong_type)"

definition json_set :: "bool \<Rightarrow> string \<Rightarrow> json \<Rightarrow> redis \<Rightarrow> redis" where
  "json_set supported k v r =
     (let plain = r\<lparr>slots := (slots r)(k := PlainText (Encoded v))\<rparr> in
      if supported
      then (case slots r k of
              Missing \<Rightarrow> r\<lparr>slots := (slots r)(k := RedisJson v)\<rparr>
            | RedisJson _ \<Rightarrow> r\<lparr>slots := (slots r)(k := RedisJson v)\<rparr>
            | _ \<Rightarrow> plain)
      else plain)"

fun redis_type_name :: "slot \<Rightarrow> string" where
  "redis_type_name Missing = ''none''"
| "redis_type_name (PlainText p) = ''string''"
| "redis_type_name (RedisJson v) = ''rejson-rl''"
| "redis_type_name (OtherKind t) = lower t"

definition is_redis_json_type :: "string \<Rightarrow> bool" where
  "is_redis_json_type t = (t = ''json'' \<or> contains ''rejson'' t)"

section \<open>The transaction\<close>

datatype container = ListDoc | DictDoc

fun empty_doc :: "container \<Rightarrow> json" where
  "empty_doc ListDoc = JList []"
| "empty_doc DictDoc = JObj []"

fun has_container :: "container \<Rightarrow> json \<Rightarrow> bool" where
  "has_container ListDoc v = is_list v"
| "has_container DictDoc v = is_dict v"

text \<open>The value that \<open>mutate\<close> receives: the decoded document, or the empty one when the key is
  absent, undecodable or of another JSON type.\<close>

definition current_doc :: "container \<Rightarrow> slot \<Rightarrow> json" where
  "current_doc c sl =
     (let decoded = (case sl of
            Missing \<Rightarrow> JNull
          | PlainText p \<Rightarrow> loads_or JNull p
          | RedisJson v \<Rightarrow> v
          | OtherKind t \<Rightarrow> JNull)
      in if has_container c decoded then decoded else empty_doc c)"

text \<open>Existing keys keep their storage type; a new key is RedisJSON when the server has it.\<close>

definition write_doc :: "bool \<Rightarrow> string \<Rightarrow> json \<Rightarrow> redis \<Rightarrow> redis" where
  "write_doc supported k v r =
     (let as_json = (case slots r k of
            RedisJson _ \<Rightarrow> True | Missing \<Rightarrow> supported | _ \<Rightarrow> False)
      in r\<lparr>slots := (slots r)(k := if as_json then RedisJson v else PlainText (Encoded v))\<rparr>)"

type_synonym 'a mutation = "json \<Rightarrow> (json option \<times> 'a) result"

type_synonym interference = "(redis \<Rightarrow> redis) \<times> bool"

datatype 'a attempt = Done "'a result" redis | Contended redis

text \<open>\<open>fence\<close> is the token that must own the lease, or \<open>None\<close> for an unfenced update.\<close>

definition exec_aborts :: "string option \<Rightarrow> string \<Rightarrow> bool \<Rightarrow> redis \<Rightarrow> redis \<Rightarrow> bool" where
  "exec_aborts fence k touched r r1 =
     (touched \<or> slots r1 k \<noteq> slots r k \<or> (fence \<noteq> None \<and> lease r1 \<noteq> lease r))"

definition update_attempt ::
  "bool \<Rightarrow> container \<Rightarrow> string option \<Rightarrow> string \<Rightarrow> 'a mutation \<Rightarrow> ('a \<Rightarrow> redis \<Rightarrow> redis) \<Rightarrow>
   interference \<Rightarrow> redis \<Rightarrow> 'a attempt" where
  "update_attempt supported c fence k mutate also env r =
     (if fence \<noteq> None \<and> map_option fst (lease r) \<noteq> fence then Done (Inl WorkerLeaseLost) r
      else case slots r k of
        OtherKind t \<Rightarrow>
          Done (Inl (RuntimeError (''Atomic JSON update cannot use Redis type '' @ lower t))) r
      | sl \<Rightarrow>
          (case mutate (current_doc c sl) of
             Inl e \<Rightarrow> Done (Inl e) r
           | Inr (None, res) \<Rightarrow> Done (Inr res) r
           | Inr (Some v, res) \<Rightarrow>
               (let r1 = fst env r in
                if exec_aborts fence k (snd env) r r1 then Contended r1
                else Done (Inr res) (also res (write_doc supported k v r1)))))"

fun update_loop ::
  "nat \<Rightarrow> (interference \<Rightarrow> redis \<Rightarrow> 'a attempt) \<Rightarrow> (nat \<Rightarrow> interference) \<Rightarrow> redis \<Rightarrow>
   'a result \<times> redis" where
  "update_loop 0 att env r = (Inl WatchError, r)"
| "update_loop (Suc n) att env r =
     (case att (env 0) r of
        Done res r' \<Rightarrow> (res, r')
      | Contended r' \<Rightarrow> update_loop n att (\<lambda>i. env (Suc i)) r')"

text \<open>
  \<open>fenced\<close> says that the caller passed \<open>lease_user\<close>; the token is the one this store remembers.
  The branch for a client without \<open>pipeline\<close> exists for test doubles and is not part of the model:
  the Redis client always has it. A loop over no attempt cannot occur (\<open>max(1, retries)\<close>).
\<close>

definition atomic_update ::
  "bool \<Rightarrow> nat \<Rightarrow> container \<Rightarrow> bool \<Rightarrow> string \<Rightarrow> 'a mutation \<Rightarrow> ('a \<Rightarrow> redis \<Rightarrow> redis) \<Rightarrow>
   (nat \<Rightarrow> interference) \<Rightarrow> store \<Rightarrow> redis \<Rightarrow> 'a result \<times> redis" where
  "atomic_update supported retries c fenced k mutate also env s r =
     (if fenced \<and> lease_token s = None then (Inl WorkerLeaseLost, r)
      else update_loop (max 1 retries)
             (update_attempt supported c (if fenced then lease_token s else None) k mutate also)
             env r)"

definition set_text :: "string \<Rightarrow> string \<Rightarrow> bool \<Rightarrow> store \<Rightarrow> redis \<Rightarrow> unit result \<times> redis" where
  "set_text k value fenced s r =
     (let written = r\<lparr>texts := (texts r)(k \<mapsto> value)\<rparr> in
      if \<not> fenced then (Inr (), written)
      else case lease_token s of
        None \<Rightarrow> (Inl WorkerLeaseLost, r)
      | Some t \<Rightarrow>
          if map_option fst (lease r) \<noteq> Some t then (Inl WorkerLeaseLost, r)
          else (Inr (), written))"

definition get_text :: "string \<Rightarrow> redis \<Rightarrow> string option" where
  "get_text k r = texts r k"

section \<open>Document laws\<close>

text \<open>What clients rely on: a document read back after a write is the one written, and a write
  leaves the other documents alone.\<close>

locale documents =
  fixes get :: "string \<Rightarrow> 'r \<Rightarrow> json"
    and put :: "string \<Rightarrow> json \<Rightarrow> 'r \<Rightarrow> 'r"
    and valid :: "json \<Rightarrow> bool"
  assumes get_put: "valid v \<Longrightarrow> get k (put k v r) = v"
    and get_put_other: "k' \<noteq> k \<Longrightarrow> get k' (put k v r) = get k' r"
begin

lemma put_commute_get:
  "k \<noteq> k' \<Longrightarrow> valid v \<Longrightarrow> valid w \<Longrightarrow>
     get k (put k v (put k' w r)) = v \<and> get k' (put k v (put k' w r)) = w"
  using get_put get_put_other by metis

end

interpretation list_docs: documents "\<lambda>k r. current_doc ListDoc (slots r k)" "write_doc b" is_list
  by unfold_locales (auto simp: current_doc_def write_doc_def loads_or_def Let_def)

interpretation dict_docs: documents "\<lambda>k r. current_doc DictDoc (slots r k)" "write_doc b" is_dict
  by unfold_locales (auto simp: current_doc_def write_doc_def loads_or_def Let_def)

section \<open>Facts about the transaction\<close>

text \<open>The keys after the first \<open>n\<close> interferences.\<close>

fun after_env :: "nat \<Rightarrow> (nat \<Rightarrow> interference) \<Rightarrow> redis \<Rightarrow> redis" where
  "after_env 0 env r = r"
| "after_env (Suc n) env r = after_env n (\<lambda>i. env (Suc i)) (fst (env 0) r)"

lemma after_env_snoc: "after_env (Suc n) env r = fst (env n) (after_env n env r)"
proof (induction n arbitrary: env r)
  case 0
  then show ?case by simp
next
  case (Suc n)
  have "after_env (Suc (Suc n)) env r = after_env (Suc n) (\<lambda>i. env (Suc i)) (fst (env 0) r)"
    by (simp only: after_env.simps(2))
  also have "\<dots> = fst (env (Suc n)) (after_env n (\<lambda>i. env (Suc i)) (fst (env 0) r))"
    by (rule Suc.IH)
  finally show ?case by simp
qed

lemma update_attempt_contended:
  "update_attempt b c f k m a e r = Contended r' \<Longrightarrow> r' = fst e r"
  by (auto simp: update_attempt_def Let_def split: if_splits slot.splits sum.splits option.splits
      prod.splits)

lemma update_attempt_done:
  assumes "update_attempt b c f k m a e r = Done (Inr res) r'"
  shows "m (current_doc c (slots r k)) = Inr (None, res) \<and> r' = r \<or>
    (\<exists>v. m (current_doc c (slots (fst e r) k)) = Inr (Some v, res)
       \<and> r' = a res (write_doc b k v (fst e r))
       \<and> (f \<noteq> None \<longrightarrow> map_option fst (lease (fst e r)) = f))"
  using assms
  by (auto simp: update_attempt_def exec_aborts_def Let_def
      split: if_splits slot.splits sum.splits option.splits prod.splits)

lemma update_attempt_error:
  "update_attempt b c f k m a e r = Done (Inl x) r' \<Longrightarrow> r' = r"
  by (auto simp: update_attempt_def Let_def split: if_splits slot.splits sum.splits option.splits
      prod.splits)

lemma update_loop_result:
  assumes "update_loop n (update_attempt b c f k m a) env r = (res, r')"
  shows "(\<exists>i < n. \<exists>x. update_attempt b c f k m a (env i) (after_env i env r) = Done res x \<and> r' = x)
    \<or> res = Inl WatchError \<and> r' = after_env n env r"
  using assms
proof (induction n arbitrary: env r)
  case 0
  then show ?case by simp
next
  case (Suc n)
  show ?case
  proof (cases "update_attempt b c f k m a (env 0) r")
    case (Done y z)
    with Suc.prems have "update_attempt b c f k m a (env 0) (after_env 0 env r) = Done res r'"
      by simp
    then show ?thesis by blast
  next
    case (Contended z)
    then have z: "z = fst (env 0) r" by (rule update_attempt_contended)
    with Contended Suc.prems
    have "update_loop n (update_attempt b c f k m a) (\<lambda>i. env (Suc i)) z = (res, r')"
      by simp
    from Suc.IH [OF this] z show ?thesis
      by (metis after_env.simps(2) less_Suc_eq_0_disj)
  qed
qed

lemma write_doc_other [simp]: "k' \<noteq> k \<Longrightarrow> slots (write_doc b k v r) k' = slots r k'"
  by (simp add: write_doc_def Let_def)

lemma write_doc_frame [simp]:
  "lease (write_doc b k v r) = lease r" "queue (write_doc b k v r) = queue r"
  "processing (write_doc b k v r) = processing r"
  "processing_state (write_doc b k v r) = processing_state r"
  "texts (write_doc b k v r) = texts r" "cancels (write_doc b k v r) = cancels r"
  "published (write_doc b k v r) = published r"
  by (simp_all add: write_doc_def Let_def)

lemma update_commits:
  assumes "atomic_update b retries c fenced k mutate also env s r = (Inr res, r')"
  shows "\<exists>i \<le> max 1 retries. let at_commit = after_env i env r in
    (mutate (current_doc c (slots at_commit k)) = Inr (None, res) \<and> r' = at_commit) \<or>
    (\<exists>v. mutate (current_doc c (slots at_commit k)) = Inr (Some v, res)
       \<and> r' = also res (write_doc b k v at_commit)
       \<and> (fenced \<longrightarrow> owns_lease s at_commit))"
proof -
  let ?f = "if fenced then lease_token s else None"
  from assms have tok: "fenced \<longrightarrow> lease_token s \<noteq> None"
    and l: "update_loop (max 1 retries) (update_attempt b c ?f k mutate also) env r = (Inr res, r')"
    by (auto simp: atomic_update_def split: if_splits)
  from update_loop_result [OF l] obtain i where i: "i < max 1 retries"
    and d: "update_attempt b c ?f k mutate also (env i) (after_env i env r) = Done (Inr res) r'"
    by auto
  have step: "fst (env i) (after_env i env r) = after_env (Suc i) env r"
    by (simp only: after_env_snoc)
  from update_attempt_done [OF d] consider
      (unchanged) "mutate (current_doc c (slots (after_env i env r) k)) = Inr (None, res)"
        "r' = after_env i env r"
    | (wrote) v where "mutate (current_doc c (slots (after_env (Suc i) env r) k)) = Inr (Some v, res)"
        "r' = also res (write_doc b k v (after_env (Suc i) env r))"
        "?f \<noteq> None \<longrightarrow> map_option fst (lease (after_env (Suc i) env r)) = ?f"
    unfolding step by blast
  then show ?thesis
  proof cases
    case unchanged
    with i show ?thesis by (auto simp: Let_def intro!: exI [of _ i])
  next
    case wrote
    from wrote(3) tok have "fenced \<longrightarrow> owns_lease s (after_env (Suc i) env r)"
      by (auto simp: owns_lease_def split: option.splits)
    with wrote(1,2) i show ?thesis
      unfolding Let_def by (metis Suc_leI)
  qed
qed

lemma update_quiet:
  assumes "fenced \<longrightarrow> owns_lease s r" and "\<forall>t. slots r k \<noteq> OtherKind t"
    and "env 0 = (id, False)" and "mutate (current_doc c (slots r k)) = Inr (Some v, res)"
  shows "atomic_update b retries c fenced k mutate also env s r
     = (Inr res, also res (write_doc b k v r))"
proof -
  obtain n where n: "max 1 retries = Suc n"
    by (metis Suc_pred max.cobounded1 less_le_trans less_one)
  have "update_attempt b c (if fenced then lease_token s else None) k mutate also (env 0) r
     = Done (Inr res) (also res (write_doc b k v r))"
    using assms by (auto simp: update_attempt_def exec_aborts_def owns_lease_def Let_def
        split: slot.splits option.splits)
  then show ?thesis
    using assms(1) n by (auto simp: atomic_update_def owns_lease_iff)
qed

section \<open>Properties\<close>

text \<open>C11. No lost update: an update that returns wrote exactly once, and what it wrote is the
  mutation of the document that was stored at the moment of the commit, after everything other
  clients did; or it wrote nothing because the mutation asked for no change. A fenced update
  commits only while this store's token owns the lease.\<close>

theorem atomic_update_serializable:
  assumes "atomic_update b retries c fenced k mutate also env s r = (Inr res, r')"
  shows "\<exists>i \<le> max 1 retries. let at_commit = after_env i env r in
    (mutate (current_doc c (slots at_commit k)) = Inr (None, res) \<and> r' = at_commit) \<or>
    (\<exists>v. mutate (current_doc c (slots at_commit k)) = Inr (Some v, res)
       \<and> r' = also res (write_doc b k v at_commit)
       \<and> (fenced \<longrightarrow> owns_lease s at_commit))"
  using assms by (rule update_commits)

theorem atomic_update_serializable_witness:
  "\<exists>r' i v. atomic_update True 5 ListDoc False ''runs'' (\<lambda>v. Inr (Some (JList [JInt 1]), ()))
       (\<lambda>_ r. r) (\<lambda>_. (id, False)) empty_store empty_redis = (Inr (), r') \<and>
     r' = write_doc True ''runs'' v (after_env i (\<lambda>_. (id, False)) empty_redis)"
proof -
  let ?m = "\<lambda>v::json. Inr (Some (JList [JInt 1]), ()) :: (json option \<times> unit) result"
  let ?r' = "write_doc True ''runs'' (JList [JInt 1]) empty_redis"
  have u: "atomic_update True 5 ListDoc False ''runs'' ?m (\<lambda>_ r. r) (\<lambda>_. (id, False))
      empty_store empty_redis = (Inr (), ?r')"
    by (simp add: atomic_update_def eval_nat_numeral update_attempt_def exec_aborts_def
        empty_redis_def)
  from atomic_update_serializable [OF u] obtain i v where
    "?r' = write_doc True ''runs'' v (after_env i (\<lambda>_. (id, False)) empty_redis)"
    by (auto simp: Let_def)
  with u show ?thesis by blast
qed

text \<open>The transaction fails closed: an update that raises, whatever the reason (contention on
  every attempt, a lost lease, a key of another type, an exception of the mutation), has written
  nothing; the keys are those that the other clients left.\<close>

theorem atomic_update_fails_closed:
  assumes "atomic_update b retries c fenced k mutate also env s r = (Inl e, r')"
  shows "\<exists>i \<le> max 1 retries. r' = after_env i env r"
proof (cases "fenced \<and> lease_token s = None")
  case True
  with assms have "r' = after_env 0 env r" by (simp add: atomic_update_def)
  then show ?thesis by blast
next
  case False
  with assms have "update_loop (max 1 retries)
      (update_attempt b c (if fenced then lease_token s else None) k mutate also) env r = (Inl e, r')"
    by (simp add: atomic_update_def split: if_splits)
  from update_loop_result [OF this] show ?thesis
    using update_attempt_error less_imp_le by blast
qed

theorem atomic_update_fails_closed_witness:
  "\<exists>i \<le> max 1 5. snd (atomic_update True 5 ListDoc True ''feed'' (\<lambda>v. Inr (Some v, ())) (\<lambda>_ r. r)
       (\<lambda>_. (id, False)) empty_store empty_redis) = after_env i (\<lambda>_. (id, False)) empty_redis"
proof -
  have "atomic_update True 5 ListDoc True ''feed'' (\<lambda>v. Inr (Some v, ())) (\<lambda>_ r. r)
      (\<lambda>_. (id, False)) empty_store empty_redis = (Inl WorkerLeaseLost, empty_redis)"
    by (simp add: atomic_update_def empty_store_def)
  from atomic_update_fails_closed [OF this] show ?thesis
    by (simp add: atomic_update_def empty_store_def)
qed

text \<open>Liveness without contention: when no other client writes a watched key during the first
  attempt and the mutation succeeds, the update commits (and does not run out of attempts).\<close>

theorem atomic_update_quiet_commits:
  assumes "fenced \<longrightarrow> owns_lease s r" and "\<forall>t. slots r k \<noteq> OtherKind t"
    and "env 0 = (id, False)" and "mutate (current_doc c (slots r k)) = Inr (Some v, res)"
  shows "atomic_update b retries c fenced k mutate also env s r
     = (Inr res, also res (write_doc b k v r))"
  using assms by (rule update_quiet)

theorem atomic_update_quiet_commits_witness:
  "atomic_update True 5 ListDoc False ''runs'' (\<lambda>v. Inr (Some v, ())) (\<lambda>_ r. r) (\<lambda>_. (id, False))
     empty_store empty_redis = (Inr (), write_doc True ''runs'' (JList []) empty_redis)"
  by (rule atomic_update_quiet_commits)
    (auto simp: empty_redis_def current_doc_def)

end
