(* ===== verification/Feed_Dedupe.thy ===== *)
theory Feed_Dedupe
  imports Py_Url
begin

text \<open>
  Feed de-duplication (\<open>builder/autonomous_agent/src/autonomous_agent/dedupe.py\<close>): URL and thread
  normalisation, token similarity, the classification of a candidate against the retained feed,
  stamping, and the split of a batch into kept and dropped items.

  A feed item is a dictionary. Reading the title of an item whose title is neither text nor falsy
  raises \<open>AttributeError\<close>, and reading the age of an item dated with an infinite or NaN float
  raises too, so the functions that compare items return results. \<open>sha1\<close> (the hexadecimal
  digest of \<open>hashlib\<close>) is a parameter of the functions that compute fingerprints.
\<close>

section \<open>Normalisation\<close>

definition tracking_params :: "string list" where
  "tracking_params =
     [''fbclid'', ''gclid'', ''gclsrc'', ''dclid'', ''msclkid'', ''igshid'', ''ref'', ''ref_src'',
      ''ref_url'', ''source'', ''spm'', ''cmpid'', ''campaign'', ''yclid'', ''_ga'']"

definition tracking_prefixes :: "string list" where
  "tracking_prefixes = [''utm_'', ''mc_'', ''mkt_'', ''ga_'', ''_hs'', ''hsa_'']"

definition is_tracking :: "string \<Rightarrow> bool" where
  "is_tracking k =
     (lower k \<in> set tracking_params \<or> list_ex (\<lambda>p. starts_with p (lower k)) tracking_prefixes)"

definition normalize_url :: "string \<Rightarrow> string" where
  "normalize_url raw =
     (let text = strip raw in
      if text = [] then []
      else
        let text' = (if starts_with ''//'' text then ''https:'' @ text
                     else if \<not> contains ''://'' text then ''https://'' @ text else text)
        in case urlsplit text' of
             None \<Rightarrow> []
           | Some parts \<Rightarrow>
               (case port parts of
                  Inl e \<Rightarrow> []
                | Inr prt \<Rightarrow>
                    if netloc parts = [] then []
                    else
                      let host = lower (hostname parts) in
                      if host = [] \<or> list_ex is_space host then []
                      else if host \<noteq> ''localhost'' \<and> CHR ''.'' \<notin> set host then []
                      else
                        let host1 = (if starts_with ''www.'' host then drop 4 host else host);
                            host2 = (case prt of
                                None \<Rightarrow> host1
                              | Some n \<Rightarrow> if n \<noteq> 0 \<and> n \<noteq> 80 \<and> n \<noteq> 443
                                           then host1 @ '':'' @ show_nat n else host1);
                            pth = rstrip_while (\<lambda>c. c = CHR ''/'') (path parts);
                            kept = filter (\<lambda>(k, v). \<not> is_tracking k) (parse_qsl (query parts))
                        in urlunsplit_netloc host2 pth (urlencode (sort kept))))"

definition url_domain :: "string \<Rightarrow> string" where
  "url_domain raw =
     (let n = normalize_url raw in
      if n = [] then [] else case urlsplit n of None \<Rightarrow> [] | Some p \<Rightarrow> netloc p)"

definition word_char :: "char \<Rightarrow> bool" where
  "word_char c = (is_lower_letter c \<or> is_digit c)"

definition words_of :: "string \<Rightarrow> string list" where
  "words_of s = runs_of word_char (lower s) []"

definition normalize_text :: "string \<Rightarrow> string" where
  "normalize_text raw = join_with '' '' (words_of raw)"

text \<open>\<open>(raw or "").lower()\<close>: a falsy value reads as empty text, other non-text raises.\<close>

definition tokens :: "json \<Rightarrow> string set result" where
  "tokens raw =
     (if \<not> truthy raw then Inr {}
      else case raw of JStr s \<Rightarrow> Inr (set (words_of s)) | _ \<Rightarrow> Inl AttributeError)"

definition jaccard :: "string set \<Rightarrow> string set \<Rightarrow> rat" where
  "jaccard a b =
     (if a = {} \<or> b = {} then 0
      else let i = card (a \<inter> b) in if i = 0 then 0 else of_nat i / of_nat (card (a \<union> b)))"

section \<open>Fields of an item\<close>

definition text_of :: "json \<Rightarrow> string" where
  "text_of v = (if truthy v then py_str v else [])"

definition item_text :: "dict \<Rightarrow> string list \<Rightarrow> string" where
  "item_text item keys =
     join_with '' '' (filter (\<lambda>p. p \<noteq> []) (map (\<lambda>k. text_of (dict_get item k)) keys))"

definition source_url :: "dict \<Rightarrow> string" where
  "source_url item = strip (text_of (py_or (dict_get item ''sourceUrl'') (dict_get item ''source_url'')))"

definition update_target :: "dict \<Rightarrow> string" where
  "update_target item =
     strip (text_of (py_or (dict_get item ''updateOfFeedItemId'') (dict_get item ''update_of'')))"

definition change_summary :: "dict \<Rightarrow> string" where
  "change_summary item =
     strip (text_of (py_or (dict_get item ''changeSummary'') (dict_get item ''change_summary'')))"

definition normalize_thread_key :: "json \<Rightarrow> string" where
  "normalize_thread_key raw =
     (case raw of
        JStr s \<Rightarrow>
          (let text = strip s in
           if text = [] then []
           else if starts_with ''url:'' text
           then (let u = normalize_url (drop 4 text) in if u = [] then [] else ''url:'' @ u)
           else
             let text' = (if starts_with ''thread:'' text then drop 7 text else text);
                 n = normalize_text text'
             in if n = [] then [] else ''thread:'' @ n)
      | _ \<Rightarrow> [])"

definition feed_thread_key :: "dict \<Rightarrow> string" where
  "feed_thread_key item =
     (let explicit = normalize_thread_key
            (py_or (dict_get item ''threadKey'') (dict_get item ''thread_key'')) in
      if explicit \<noteq> [] then explicit
      else
        let fingerprint = strip (text_of (dict_get item ''fingerprint'')) in
        if starts_with ''url:'' fingerprint then fingerprint
        else let u = normalize_url (source_url item) in if u = [] then [] else ''url:'' @ u)"

section \<open>Comparing two items\<close>

definition similarities :: "dict \<Rightarrow> dict \<Rightarrow> (rat \<times> rat) result" where
  "similarities c e =
     bind_result (tokens (dict_get c ''title'')) (\<lambda>ct.
     bind_result (tokens (dict_get e ''title'')) (\<lambda>et.
       Inr (jaccard ct et,
            jaccard (set (words_of (item_text c [''bluf'', ''body''])))
                    (set (words_of (item_text e [''bluf'', ''body'']))))))"

definition space_split :: "string \<Rightarrow> string list" where
  "space_split s = runs_of (\<lambda>c. \<not> is_space c) s []"

definition same_thread :: "dict \<Rightarrow> dict \<Rightarrow> bool" where
  "same_thread c e =
     (let ct = feed_thread_key c; et = feed_thread_key e in
      if ct = [] \<or> et = [] then False
      else if ct = et then True
      else if \<not> (starts_with ''thread:'' ct \<and> starts_with ''thread:'' et) then False
      else
        let cp = space_split (drop 7 ct); ep = space_split (drop 7 et);
            (shorter, longer) = (if length cp \<le> length ep then (cp, ep) else (ep, cp));
            numbered = filter (list_ex is_digit)
        in 3 \<le> length shorter \<and> take (length shorter) longer = shorter
           \<and> numbered shorter = numbered longer)"

definition has_update_details :: "dict \<Rightarrow> bool" where
  "has_update_details item =
     ((dict_get item ''isUpdate'' = JBool True \<or> dict_get item ''is_update'' = JBool True)
      \<and> update_target item \<noteq> []
      \<and> 20 \<le> length (normalize_text (change_summary item))
      \<and> normalize_url (source_url item) \<noteq> [])"

definition same_source :: "dict \<Rightarrow> dict \<Rightarrow> bool" where
  "same_source c e =
     (let cu = normalize_url (source_url c); eu = normalize_url (source_url e)
      in cu \<noteq> [] \<and> eu \<noteq> [] \<and> cu = eu)"

definition feed_fingerprint :: "(string \<Rightarrow> string) \<Rightarrow> dict \<Rightarrow> string" where
  "feed_fingerprint sha1 item =
     (let u = normalize_url (source_url item) in
      if u \<noteq> [] then ''url:'' @ u
      else ''txt:'' @ take 16 (sha1 (normalize_text (item_text item [''title'', ''bluf'', ''body'']))))"

text \<open>The item named as the target of an update.\<close>

definition is_target :: "dict \<Rightarrow> dict \<Rightarrow> bool" where
  "is_target c e = (update_target c \<noteq> [] \<and> dict_get e ''id'' = JStr (update_target c))"

definition is_duplicate :: "dict \<Rightarrow> dict \<Rightarrow> bool result" where
  "is_duplicate c e =
     bind_result (similarities c e) (\<lambda>(title_sim, content_sim).
       Inr (if same_source c e \<or> same_thread c e \<or> is_target c e
            then \<not> has_update_details c \<or> content_sim \<ge> 1/2
              \<or> (change_summary c \<noteq> []
                 \<and> normalize_text (change_summary c) = normalize_text (change_summary e))
            else title_sim \<ge> 3/5 \<and> content_sim \<ge> 1/2))"

section \<open>Windows\<close>

definition ms_per_day :: int where
  "ms_per_day = 86400000"

definition window_ms_for_days :: "json \<Rightarrow> int result" where
  "window_ms_for_days days =
     (case py_int days of
        Inl OverflowError \<Rightarrow> Inl OverflowError
      | Inl _ \<Rightarrow> Inr (max 1 (min 90 14) * ms_per_day)
      | Inr v \<Rightarrow> (let value = (if v \<le> 0 then 14 else v) in Inr (max 1 (min 90 value) * ms_per_day)))"

definition within_window :: "dict \<Rightarrow> int \<Rightarrow> int \<Rightarrow> bool result" where
  "within_window item now window_ms =
     (if window_ms \<le> 0 then Inr True
      else case dict_get item ''createdAt'' of
        JInt i \<Rightarrow> Inr (now - i \<le> window_ms)
      | JBool b \<Rightarrow> Inr (now - (if b then 1 else 0) \<le> window_ms)
      | JFloat f \<Rightarrow> bind_result (int_of_float f) (\<lambda>i. Inr (now - i \<le> window_ms))
      | _ \<Rightarrow> Inr False)"

section \<open>Classification\<close>

datatype classification = Duplicate | LinkedUpdate | Fresh

datatype scan = Matched dict | Clean "dict option"

text \<open>The loop over the retained items: the first duplicate ends it; otherwise the last item named
  as the update's target is carried on.\<close>

fun scan_existing :: "dict \<Rightarrow> int \<Rightarrow> int \<Rightarrow> dict option \<Rightarrow> dict list \<Rightarrow> scan result" where
  "scan_existing c now w target [] = Inr (Clean target)"
| "scan_existing c now w target (e # es) =
     (let target' = (if is_target c e then Some e else target);
          related = same_source c e \<or> same_thread c e \<or> is_target c e in
      bind_result (if related then Inr True else within_window e now w) (\<lambda>consider.
        if consider
        then bind_result (is_duplicate c e) (\<lambda>dup.
               if dup then Inr (Matched e) else scan_existing c now w target' es)
        else scan_existing c now w target' es))"

fun dict_of :: "json \<Rightarrow> dict option" where
  "dict_of (JObj d) = Some d"
| "dict_of _ = None"

definition valid_items :: "json list \<Rightarrow> dict list" where
  "valid_items xs = List.map_filter dict_of xs"

definition claims_update :: "dict \<Rightarrow> bool" where
  "claims_update c =
     (dict_get c ''isUpdate'' = JBool True \<or> dict_get c ''is_update'' = JBool True
      \<or> update_target c \<noteq> [] \<or> change_summary c \<noteq> [])"

definition classify_feed_item ::
  "json \<Rightarrow> json list \<Rightarrow> int \<Rightarrow> int \<Rightarrow> (classification \<times> dict option \<times> string) result" where
  "classify_feed_item candidate existing now w =
     (case dict_of candidate of
        None \<Rightarrow> Inr (Duplicate, None, ''Invalid feed item.'')
      | Some c \<Rightarrow>
          bind_result (scan_existing c now w None (valid_items existing)) (\<lambda>sc.
            case sc of
              Matched e \<Rightarrow> Inr (Duplicate, Some e, ''Repeated finding or undocumented change.'')
            | Clean target \<Rightarrow>
                if claims_update c
                then (if target = None \<or> \<not> has_update_details c
                      then Inr (Duplicate, target,
                                ''Update needs a retained prior item and sourced change.'')
                      else Inr (LinkedUpdate, target, change_summary c))
                else Inr (Fresh, None, [])))"

section \<open>Stamping and the batch\<close>

definition stamp_feed_item ::
  "(string \<Rightarrow> string) \<Rightarrow> dict \<Rightarrow> dict option \<Rightarrow> string \<Rightarrow> dict" where
  "stamp_feed_item sha1 item update_of reason =
     (let u = (case update_of of None \<Rightarrow> [] | Some d \<Rightarrow> d);
          tk0 = feed_thread_key u;
          tk = (if tk0 \<noteq> [] then tk0 else feed_thread_key item);
          i1 = (if tk \<noteq> [] then dict_set ''threadKey'' (JStr tk) item else item);
          i2 = (case map_of i1 ''fingerprint'' of
                  None \<Rightarrow> dict_set ''fingerprint'' (JStr (feed_fingerprint sha1 i1)) i1
                | Some _ \<Rightarrow> i1)
      in if u = [] then i2
         else
           let uid = strip (text_of (dict_get u ''id'')); utitle = strip (text_of (dict_get u ''title''));
               i3 = (if uid \<noteq> [] then dict_set ''updateOfFeedItemId'' (JStr uid) i2 else i2);
               i4 = (if utitle \<noteq> [] then dict_set ''updateOfTitle'' (JStr utitle) i3 else i3)
           in if reason \<noteq> [] then dict_set ''updateReason'' (JStr reason) i4 else i4)"

fun dedupe_loop ::
  "(string \<Rightarrow> string) \<Rightarrow> json list \<Rightarrow> json list \<Rightarrow> int \<Rightarrow> int \<Rightarrow> dict list \<Rightarrow> dict list \<Rightarrow>
   (dict list \<times> dict list) result" where
  "dedupe_loop sha1 [] existing now w kept dropped = Inr (kept, dropped)"
| "dedupe_loop sha1 (x # xs) existing now w kept dropped =
     (case dict_of x of
        None \<Rightarrow> dedupe_loop sha1 xs existing now w kept dropped
      | Some c \<Rightarrow>
          bind_result (classify_feed_item x (map JObj kept @ existing) now w) (\<lambda>(cls, matched, reason).
            if cls = Duplicate then dedupe_loop sha1 xs existing now w kept (dropped @ [c])
            else
              let c' = (if cls = LinkedUpdate then stamp_feed_item sha1 c matched reason
                        else stamp_feed_item sha1 c None [])
              in dedupe_loop sha1 xs existing now w (kept @ [c']) dropped))"

definition dedupe_feed_items ::
  "(string \<Rightarrow> string) \<Rightarrow> json list \<Rightarrow> json list \<Rightarrow> int \<Rightarrow> int \<Rightarrow> (dict list \<times> dict list) result" where
  "dedupe_feed_items sha1 new existing now w = dedupe_loop sha1 new existing now w [] []"

section \<open>The digest for the prompt\<close>

text \<open>The horizontal ellipsis of the source is one character; \<open>ellipsis\<close> stands for it.
  \<open>format_day\<close> stands for the local-time rendering of a timestamp.\<close>

definition ellipsis :: char where
  "ellipsis = char_of (133::nat)"

definition clip :: "nat \<Rightarrow> string \<Rightarrow> string" where
  "clip n s =
     (if n < length s then rstrip_while is_space (take (n - 1) s) @ [ellipsis] else s)"

record digest_limits =
  title_chars :: nat
  bluf_chars :: nat
  source_chars :: nat
  thread_key_chars :: nat

fun summarize_loop ::
  "(json \<Rightarrow> string) \<Rightarrow> digest_limits \<Rightarrow> int \<Rightarrow> int \<Rightarrow> nat \<Rightarrow> bool \<Rightarrow> json list \<Rightarrow> dict list \<Rightarrow> dict list result" where
  "summarize_loop format_day bounds now w limit include_older [] digest = Inr digest"
| "summarize_loop format_day bounds now w limit include_older (x # xs) digest =
     (case dict_of x of
        None \<Rightarrow> summarize_loop format_day bounds now w limit include_older xs digest
      | Some item \<Rightarrow>
          bind_result (if include_older then Inr True else within_window item now w) (\<lambda>recent.
            let title = strip (text_of (dict_get item ''title'')) in
            if \<not> recent \<or> title = []
            then summarize_loop format_day bounds now w limit include_older xs digest
            else
              let row =
                [(''id'', JStr (take 128 (text_of (dict_get item ''id'')))),
                 (''date'', JStr (format_day (dict_get item ''createdAt''))),
                 (''title'', JStr (clip (title_chars bounds) title)),
                 (''bluf'', JStr (clip (bluf_chars bounds) (strip (text_of (dict_get item ''bluf''))))),
                 (''source'', JStr (clip (source_chars bounds)
                    (case py_or (dict_get item ''sourceUrl'') (dict_get item ''source_url'') of
                       JStr u \<Rightarrow> url_domain u | _ \<Rightarrow> []))),
                 (''threadKey'', JStr (clip (thread_key_chars bounds) (feed_thread_key item)))]
              in if limit \<le> length digest + 1 then Inr (digest @ [row])
                 else summarize_loop format_day bounds now w limit include_older xs (digest @ [row])))"

definition summarize_recent_feed ::
  "(json \<Rightarrow> string) \<Rightarrow> digest_limits \<Rightarrow> json list \<Rightarrow> int \<Rightarrow> int \<Rightarrow> nat \<Rightarrow> bool \<Rightarrow> dict list result" where
  "summarize_recent_feed format_day bounds items now w limit include_older =
     summarize_loop format_day bounds now w limit include_older items []"

section \<open>Facts about normalisation\<close>

lemma runs_of_append_run: "list_all P w \<Longrightarrow> runs_of P (w @ s) acc = runs_of P s (rev w @ acc)"
  by (induction w arbitrary: acc) auto

lemma runs_of_words: "list_all P (rev acc) \<Longrightarrow> w \<in> set (runs_of P s acc) \<Longrightarrow> w \<noteq> [] \<and> list_all P w"
proof (induction s arbitrary: acc)
  case Nil
  then show ?case by (auto split: if_splits)
next
  case (Cons c s)
  from Cons.IH [of "c # acc"] Cons.IH [of "[]"] Cons.prems show ?case
    by (cases "P c"; cases "acc = []") auto
qed

lemma runs_of_join:
  assumes "\<And>w. w \<in> set ws \<Longrightarrow> w \<noteq> [] \<and> list_all P w" and "\<not> P (CHR '' '')"
  shows "runs_of P (join_with '' '' ws) [] = ws"
  using assms(1)
proof (induction ws rule: induct_list012)
  case 1
  then show ?case by simp
next
  case (2 w)
  then have w: "w \<noteq> []" "list_all P w" by auto
  then show ?case
    using runs_of_append_run [of P w "[]" "[]"] by simp
next
  case (3 w v ws)
  then have w: "w \<noteq> []" "list_all P w" by auto
  have "runs_of P (join_with '' '' (w # v # ws)) []
      = runs_of P (CHR '' '' # join_with '' '' (v # ws)) (rev w)"
    using runs_of_append_run [OF w(2), of "'' '' @ join_with '' '' (v # ws)" "[]"] by simp
  also have "\<dots> = w # runs_of P (join_with '' '' (v # ws)) []"
    using assms(2) w(1) by simp
  finally show ?case using 3 by simp
qed

lemma word_not_space: "word_char c \<Longrightarrow> \<not> is_space c"
  by (auto simp: word_char_def char_defs)

lemma space_not_word: "\<not> word_char (CHR '' '')"
  by (simp add: word_char_def char_defs)

lemma lower_word_char: "word_char c \<or> c = CHR '' '' \<Longrightarrow> lower_char c = c"
  by (auto simp: word_char_def char_defs)

lemma words_of_nonempty: "w \<in> set (words_of s) \<Longrightarrow> w \<noteq> [] \<and> list_all word_char w"
  unfolding words_of_def by (rule runs_of_words) auto

lemma set_join_with: "set (join_with sep ws) \<subseteq> set sep \<union> (\<Union>w \<in> set ws. set w)"
  by (induction sep ws rule: join_with.induct) auto

lemma lower_normalized: "lower (normalize_text s) = normalize_text s"
proof -
  have "set (normalize_text s) \<subseteq> {CHR '' ''} \<union> {c. word_char c}"
    using set_join_with [of "'' ''" "words_of s"] words_of_nonempty [of _ s]
    by (fastforce simp: normalize_text_def list_all_iff)
  then show ?thesis
    unfolding lower_def by (intro map_idI lower_word_char) auto
qed

lemma words_of_normalized: "words_of (normalize_text s) = words_of s"
proof -
  have "words_of (normalize_text s) = runs_of word_char (normalize_text s) []"
    by (simp add: words_of_def lower_normalized)
  also have "\<dots> = words_of s"
    unfolding normalize_text_def
    by (rule runs_of_join) (auto dest: words_of_nonempty simp: space_not_word)
  finally show ?thesis .
qed

lemma normalize_text_idem: "normalize_text (normalize_text s) = normalize_text s"
  by (simp add: normalize_text_def [of "normalize_text s"] words_of_normalized)
    (simp add: normalize_text_def)

lemma join_with_nonempty: "ws \<noteq> [] \<Longrightarrow> (\<forall>w \<in> set ws. w \<noteq> []) \<Longrightarrow> join_with sep ws \<noteq> []"
  by (induction ws rule: induct_list012) auto

lemma last_join_with: "ws \<noteq> [] \<Longrightarrow> (\<forall>w \<in> set ws. w \<noteq> []) \<Longrightarrow> last (join_with sep ws) = last (last ws)"
proof (induction ws rule: induct_list012)
  case (3 w v ws)
  then have "join_with sep (v # ws) \<noteq> []" by (intro join_with_nonempty) auto
  with 3 show ?case by (simp add: last_append)
qed auto

lemma normalize_text_last: "normalize_text s \<noteq> [] \<Longrightarrow> \<not> is_space (last (normalize_text s))"
proof -
  assume n: "normalize_text s \<noteq> []"
  then have ws: "words_of s \<noteq> []" by (auto simp: normalize_text_def)
  then have "last (normalize_text s) = last (last (words_of s))"
    unfolding normalize_text_def using words_of_nonempty by (intro last_join_with) auto
  moreover have "last (words_of s) \<in> set (words_of s)" using ws by simp
  then have "word_char (last (last (words_of s)))"
    using words_of_nonempty by (metis in_set_conv_decomp last_in_set list_all_iff)
  ultimately show ?thesis by (simp add: word_not_space)
qed

lemma strip_id: "s \<noteq> [] \<Longrightarrow> \<not> is_space (hd s) \<Longrightarrow> \<not> is_space (last s) \<Longrightarrow> strip s = s"
  unfolding strip_def lstrip_def rstrip_while_def
  by (metis dropWhile_eq_self_iff hd_rev rev_rev_ident)

section \<open>Facts about classification\<close>

lemma scan_existing_duplicate:
  assumes "scan_existing c now w target es = Inr sc" and "e \<in> set es"
    and "same_source c e \<or> same_thread c e \<or> is_target c e"
    and "\<And>d. is_duplicate c e = Inr d \<Longrightarrow> d"
  shows "\<exists>m. sc = Matched m"
  using assms
proof (induction es arbitrary: target)
  case Nil
  then show ?case by simp
next
  case (Cons x es)
  then show ?case
    by (cases "x = e") (auto simp: Let_def bind_result_Inr split: if_splits)
qed

lemma classify_duplicate:
  assumes "classify_feed_item (JObj c) xs now w = Inr (cls, m, reason)" and "JObj e \<in> set xs"
    and "same_source c e \<or> same_thread c e \<or> is_target c e"
    and "\<And>d. is_duplicate c e = Inr d \<Longrightarrow> d"
  shows "cls = Duplicate"
proof -
  have e: "e \<in> set (valid_items xs)"
    using assms(2) by (force simp: valid_items_def List.map_filter_def)
  from assms(1) obtain sc where sc: "scan_existing c now w None (valid_items xs) = Inr sc"
    by (auto simp: classify_feed_item_def bind_result_Inr)
  then obtain m where "sc = Matched m"
    using scan_existing_duplicate [OF sc e assms(3,4)] by blast
  with assms(1) sc show ?thesis by (auto simp: classify_feed_item_def)
qed

lemma duplicate_without_details:
  "same_source c e \<or> same_thread c e \<or> is_target c e \<Longrightarrow> \<not> has_update_details c \<Longrightarrow>
     is_duplicate c e = Inr d \<Longrightarrow> d"
  by (auto simp: is_duplicate_def bind_result_Inr split: if_splits)

lemma duplicate_same_summary:
  "same_source c e \<Longrightarrow> change_summary c \<noteq> [] \<Longrightarrow>
     change_summary e = change_summary c \<Longrightarrow> is_duplicate c e = Inr d \<Longrightarrow> d"
  by (auto simp: is_duplicate_def bind_result_Inr split: if_splits)

text \<open>Stamping writes only bookkeeping fields.\<close>

definition stamp_fields :: "string set" where
  "stamp_fields = {''threadKey'', ''fingerprint'', ''updateOfFeedItemId'', ''updateOfTitle'', ''updateReason''}"

lemma stamp_get:
  "k \<notin> stamp_fields \<Longrightarrow> dict_get (stamp_feed_item sha1 item u reason) k = dict_get item k"
  by (simp add: stamp_feed_item_def stamp_fields_def Let_def split: option.splits)

lemma stamp_source_url [simp]: "source_url (stamp_feed_item sha1 item u reason) = source_url item"
  by (simp add: source_url_def stamp_get stamp_fields_def)

lemma stamp_change_summary [simp]:
  "change_summary (stamp_feed_item sha1 item u reason) = change_summary item"
  by (simp add: change_summary_def stamp_get stamp_fields_def)

lemma dict_of_iff: "dict_of x = Some c \<longleftrightarrow> x = JObj c"
  by (cases x) auto

text \<open>An item that is kept is fresh or a documented update.\<close>

lemma classify_kept:
  "classify_feed_item (JObj c) xs now w = Inr (cls, m, reason) \<Longrightarrow> cls \<noteq> Duplicate \<Longrightarrow>
     (cls = Fresh \<and> \<not> claims_update c) \<or> (cls = LinkedUpdate \<and> has_update_details c \<and> m \<noteq> None)"
proof -
  assume c: "classify_feed_item (JObj c) xs now w = Inr (cls, m, reason)" and n: "cls \<noteq> Duplicate"
  then obtain sc where "scan_existing c now w None (valid_items xs) = Inr sc"
    by (auto simp: classify_feed_item_def bind_result_Inr)
  with c n show ?thesis
    by (cases sc) (auto simp: classify_feed_item_def split: if_splits)
qed

lemma details_claims: "has_update_details c \<Longrightarrow> claims_update c"
  by (auto simp: has_update_details_def claims_update_def)

lemma details_summary: "has_update_details c \<Longrightarrow> change_summary c \<noteq> []"
proof
  assume h: "has_update_details c" and "change_summary c = []"
  then have "20 \<le> length (normalize_text [])" by (simp add: has_update_details_def)
  then show False by (simp add: normalize_text_def words_of_def lower_def)
qed

lemma kept_resubmitted_duplicate:
  assumes "classify_feed_item (JObj c) xs now w = Inr (cls, m, reason)" "cls \<noteq> Duplicate"
    and "normalize_url (source_url c) \<noteq> []"
    and "JObj (stamp_feed_item sha1 c u why) \<in> set later"
    and "classify_feed_item (JObj c) later now' w' = Inr (cls', m', reason')"
  shows "cls' = Duplicate"
proof -
  let ?k = "stamp_feed_item sha1 c u why"
  have same: "same_source c ?k" using assms(3) by (simp add: same_source_def)
  have "d" if "is_duplicate c ?k = Inr d" for d
    using classify_kept [OF assms(1,2)]
  proof (elim disjE conjE)
    assume "\<not> claims_update c"
    then have "\<not> has_update_details c" using details_claims by blast
    with same that show d using duplicate_without_details by blast
  next
    assume "has_update_details c"
    with same that show d using duplicate_same_summary details_summary by fastforce
  qed
  with same assms(4,5) show ?thesis using classify_duplicate by blast
qed

lemma dedupe_loop_partition:
  "dedupe_loop sha1 new existing now w kept dropped = Inr (k, d) \<Longrightarrow>
     length k + length d = length kept + length dropped + length (valid_items new)"
proof (induction new arbitrary: kept dropped)
  case Nil
  then show ?case by (simp add: valid_items_def List.map_filter_def)
next
  case (Cons x xs)
  then show ?case
    by (fastforce simp: valid_items_def List.map_filter_def bind_result_Inr Let_def
        split: option.splits if_splits)
qed

lemma stamp_target_get:
  "dict_get (stamp_feed_item sha1 item u reason) ''updateOfFeedItemId'' =
     (let uid = (case u of None \<Rightarrow> [] | Some d \<Rightarrow> if d = [] then [] else strip (text_of (dict_get d ''id'')))
      in if uid = [] then dict_get item ''updateOfFeedItemId'' else JStr uid)"
  by (simp add: stamp_feed_item_def Let_def split: option.splits)

lemma stamp_update_target:
  assumes "update_target item \<noteq> []"
  shows "update_target (stamp_feed_item sha1 item u reason) \<noteq> []"
proof -
  let ?k = "stamp_feed_item sha1 item u reason"
  have o: "dict_get ?k ''update_of'' = dict_get item ''update_of''"
    by (simp add: stamp_get stamp_fields_def)
  define uid where "uid = (case u of None \<Rightarrow> [] | Some d \<Rightarrow> if d = [] then []
    else strip (text_of (dict_get d ''id'')))"
  have g: "dict_get ?k ''updateOfFeedItemId''
      = (if uid = [] then dict_get item ''updateOfFeedItemId'' else JStr uid)"
    unfolding stamp_target_get Let_def uid_def ..
  have "strip uid = uid" by (simp add: uid_def split: option.splits)
  show ?thesis
  proof (cases "uid = []")
    case True
    with g o assms show ?thesis by (simp add: update_target_def)
  next
    case False
    with g \<open>strip uid = uid\<close> show ?thesis
      by (simp add: update_target_def py_or_def text_of_def py_str_def)
  qed
qed

lemma stamp_details: "has_update_details item \<Longrightarrow> has_update_details (stamp_feed_item sha1 item u reason)"
  using stamp_update_target [of item sha1 u reason]
  by (auto simp: has_update_details_def stamp_get stamp_fields_def)

text \<open>No item of the batch repeats a source of the history or of an earlier item of the batch,
  unless it documents a change.\<close>

definition no_repeats :: "json list \<Rightarrow> dict list \<Rightarrow> bool" where
  "no_repeats existing kept \<longleftrightarrow>
     (\<forall>i < length kept. \<forall>e \<in> set (take i kept) \<union> set (valid_items existing).
        same_source (kept ! i) e \<longrightarrow> has_update_details (kept ! i))"

lemma no_repeats_append:
  assumes "no_repeats existing kept"
    and "\<And>e. e \<in> set kept \<union> set (valid_items existing) \<Longrightarrow> same_source c e \<Longrightarrow> has_update_details c"
  shows "no_repeats existing (kept @ [c])"
  unfolding no_repeats_def
proof (intro allI impI ballI)
  fix i e
  assume i: "i < length (kept @ [c])" and e: "e \<in> set (take i (kept @ [c])) \<union> set (valid_items existing)"
    and s: "same_source ((kept @ [c]) ! i) e"
  show "has_update_details ((kept @ [c]) ! i)"
  proof (cases "i < length kept")
    case True
    with assms(1) e s show ?thesis by (auto simp: no_repeats_def nth_append)
  next
    case False
    with i have "i = length kept" by simp
    with assms(2) e s show ?thesis by (auto simp: nth_append)
  qed
qed

lemma same_source_stamp [simp]:
  "same_source (stamp_feed_item sha1 c u reason) e = same_source c e"
  by (simp add: same_source_def)

lemma valid_items_append [simp]: "valid_items (map JObj kept @ existing) = kept @ valid_items existing"
  by (induction kept) (auto simp: valid_items_def List.map_filter_def)

lemma kept_source_documented:
  assumes "classify_feed_item (JObj c) xs now w = Inr (cls, m, reason)" "cls \<noteq> Duplicate"
    and "e \<in> set (valid_items xs)" "same_source c e"
  shows "has_update_details c"
proof (rule ccontr)
  assume "\<not> has_update_details c"
  moreover have "JObj e \<in> set xs"
    using assms(3) by (auto simp: valid_items_def List.map_filter_def dict_of_iff)
  ultimately have "cls = Duplicate"
    using classify_duplicate [OF assms(1)] duplicate_without_details assms(4) by blast
  with assms(2) show False by simp
qed

lemma dedupe_loop_no_repeats:
  "dedupe_loop sha1 new existing now w kept dropped = Inr (k, d) \<Longrightarrow>
     no_repeats existing kept \<Longrightarrow> no_repeats existing k"
proof (induction new arbitrary: kept dropped)
  case Nil
  then show ?case by simp
next
  case (Cons x xs)
  show ?case
  proof (cases "dict_of x")
    case None
    with Cons show ?thesis by simp
  next
    case (Some c)
    then have x: "x = JObj c" by (simp add: dict_of_iff)
    from Cons.prems(1) Some obtain cls m reason where
      cl: "classify_feed_item (JObj c) (map JObj kept @ existing) now w = Inr (cls, m, reason)"
      by (auto simp: x bind_result_Inr)
    show ?thesis
    proof (cases "cls = Duplicate")
      case True
      with Cons.prems Some cl Cons.IH show ?thesis by (simp add: x)
    next
      case False
      define c' where "c' = (if cls = LinkedUpdate then stamp_feed_item sha1 c m reason
                        else stamp_feed_item sha1 c None [])"
      have "has_update_details c'" if "e \<in> set kept \<union> set (valid_items existing)" "same_source c' e" for e
        using kept_source_documented [OF cl False, of e] that stamp_details by (auto simp: c'_def)
      then have "no_repeats existing (kept @ [c'])"
        using Cons.prems(2) no_repeats_append by blast
      with Cons.prems(1) Some cl False Cons.IH show ?thesis
        by (simp add: x c'_def Let_def split: if_splits)
    qed
  qed
qed

lemma jaccard_bounds: "0 \<le> jaccard a b \<and> jaccard a b \<le> 1"
proof (cases "finite (a \<union> b)")
  case True
  then have "card (a \<inter> b) \<le> card (a \<union> b)" by (intro card_mono) auto
  then have "(of_nat (card (a \<inter> b)) :: rat) \<le> of_nat (card (a \<union> b))" by simp
  then show ?thesis
    by (simp add: jaccard_def Let_def divide_le_eq_1)
next
  case False
  then show ?thesis by (simp add: jaccard_def Let_def)
qed

section \<open>Properties\<close>

text \<open>A published source is never reported again without a documented change: an item whose
  normalised URL equals that of any retained item, however old, is classified as a duplicate unless
  it names the prior item, describes the change and carries a source.\<close>

theorem known_source_needs_change:
  assumes "classify_feed_item (JObj c) existing now w = Inr (cls, m, reason)"
    and "JObj e \<in> set existing" and "same_source c e" and "\<not> has_update_details c"
  shows "cls = Duplicate"
  using classify_duplicate [OF assms(1,2)] duplicate_without_details assms(3,4) by blast

definition sample_item :: dict where
  "sample_item = [(''id'', JStr ''f1''), (''title'', JStr ''A''), (''sourceUrl'', JStr ''https://x.io/a'')]"

theorem known_source_needs_change_witness:
  "\<exists>m reason. classify_feed_item (JObj sample_item) [JObj sample_item] 0 1
     = Inr (Duplicate, m, reason)"
proof -
  let ?e = "Inr (Duplicate, Some sample_item, ''Repeated finding or undocumented change.'')
    :: (classification \<times> dict option \<times> string) result"
  have h: "classify_feed_item (JObj sample_item) [JObj sample_item] 0 1 = ?e" by code_simp
  have s: "same_source sample_item sample_item" by code_simp
  have d: "\<not> has_update_details sample_item" by code_simp
  from known_source_needs_change [OF h _ s d] h show ?thesis by simp
qed

text \<open>Republishing is rejected for good: a URL-backed item that was kept (fresh or as a linked
  update) and stored is classified as a duplicate whenever it is submitted again, at any later time
  and for any window.\<close>

theorem republication_rejected:
  assumes "classify_feed_item (JObj c) existing now w = Inr (cls, m, reason)" and "cls \<noteq> Duplicate"
    and "normalize_url (source_url c) \<noteq> []"
    and "JObj (stamp_feed_item sha1 c u why) \<in> set later"
    and "classify_feed_item (JObj c) later now' w' = Inr (cls', m', reason')"
  shows "cls' = Duplicate"
  using assms by (rule kept_resubmitted_duplicate)

theorem republication_rejected_witness:
  "\<exists>cls m reason. classify_feed_item (JObj sample_item)
     [JObj (stamp_feed_item (\<lambda>_. []) sample_item None [])] 1000 1 = Inr (cls, m, reason) \<and>
     cls = Duplicate"
proof -
  have f: "classify_feed_item (JObj sample_item) [] 0 1 = Inr (Fresh, None, [])" by code_simp
  have u: "normalize_url (source_url sample_item) \<noteq> []" by code_simp
  let ?l = "[JObj (stamp_feed_item (\<lambda>_. []) sample_item None [])]"
  have "is_ok (classify_feed_item (JObj sample_item) ?l 1000 1)" by code_simp
  then obtain cls m reason where
    l: "classify_feed_item (JObj sample_item) ?l 1000 1 = Inr (cls, m, reason)"
    by (metis is_ok.elims(2) prod_cases3)
  from republication_rejected [OF f _ u _ l] l show ?thesis by auto
qed

text \<open>A batch is split without loss: every dictionary of the batch is kept or dropped, and no
  kept item repeats a source of the retained feed, or of an item kept before it, without a
  documented change.\<close>

theorem dedupe_batch:
  assumes "dedupe_feed_items sha1 new existing now w = Inr (kept, dropped)"
  shows "length kept + length dropped = length (valid_items new) \<and> no_repeats existing kept"
proof -
  have "no_repeats existing []" by (simp add: no_repeats_def)
  with assms show ?thesis
    unfolding dedupe_feed_items_def
    using dedupe_loop_partition dedupe_loop_no_repeats by fastforce
qed

theorem dedupe_batch_witness:
  "\<exists>kept dropped. dedupe_feed_items (\<lambda>_. []) [JObj sample_item, JObj sample_item, JNull] [] 0 1
      = Inr (kept, dropped) \<and> length kept = 1 \<and> length dropped = 1 \<and> no_repeats [] kept"
proof -
  have "is_ok (dedupe_feed_items (\<lambda>_. []) [JObj sample_item, JObj sample_item, JNull] [] 0 1)"
    by code_simp
  then obtain k d where
    h: "dedupe_feed_items (\<lambda>_. []) [JObj sample_item, JObj sample_item, JNull] [] 0 1 = Inr (k, d)"
    by (metis is_ok.elims(2) surj_pair)
  have "case dedupe_feed_items (\<lambda>_. []) [JObj sample_item, JObj sample_item, JNull] [] 0 1 of
      Inl e \<Rightarrow> False | Inr (k, d) \<Rightarrow> length k = 1 \<and> length d = 1" by code_simp
  with h dedupe_batch [OF h] show ?thesis by auto
qed

text \<open>Thread keys are stable: normalising a key that was already normalised and stored gives
  the same key, for every topic key (one that is not a URL key).\<close>

theorem thread_key_stable:
  assumes "\<not> starts_with ''url:'' (strip t)"
  shows "normalize_thread_key (JStr (normalize_thread_key (JStr t))) = normalize_thread_key (JStr t)"
proof (cases "normalize_thread_key (JStr t) = []")
  case True
  then show ?thesis by (simp add: normalize_thread_key_def)
next
  case False
  with assms obtain x where x: "normalize_thread_key (JStr t) = ''thread:'' @ normalize_text x"
    and n: "normalize_text x \<noteq> []"
    by (auto simp: normalize_thread_key_def Let_def split: if_splits)
  have s: "strip (''thread:'' @ normalize_text x) = ''thread:'' @ normalize_text x"
    using normalize_text_last [OF n] n by (intro strip_id) (auto simp: char_defs)
  show ?thesis
    unfolding x using s n
    by (simp add: normalize_thread_key_def starts_with_def normalize_text_idem)
qed

theorem thread_key_stable_witness:
  "normalize_thread_key (JStr (normalize_thread_key (JStr '' Rubin GPU: launch!'')))
     = ''thread:rubin gpu launch''"
proof -
  have "\<not> starts_with ''url:'' (strip '' Rubin GPU: launch!'')" by code_simp
  moreover have "normalize_thread_key (JStr '' Rubin GPU: launch!'') = ''thread:rubin gpu launch''"
    by code_simp
  ultimately show ?thesis using thread_key_stable [of "'' Rubin GPU: launch!''"] by metis
qed

text \<open>Similarity is a proper ratio: it lies between 0 and 1, does not depend on the order of
  its arguments, and is 1 exactly for equal non-empty token sets.\<close>

theorem jaccard_ratio:
  assumes "finite a" and "finite b"
  shows "0 \<le> jaccard a b \<and> jaccard a b \<le> 1 \<and> jaccard a b = jaccard b a
    \<and> (jaccard a b = 1 \<longleftrightarrow> a = b \<and> a \<noteq> {})"
proof -
  have "jaccard a b = 1 \<longleftrightarrow> a = b \<and> a \<noteq> {}"
  proof
    assume j: "jaccard a b = 1"
    then have ne: "a \<noteq> {}" and e: "card (a \<inter> b) = card (a \<union> b)"
      by (auto simp: jaccard_def Let_def split: if_splits)
    have "a \<inter> b = a \<union> b" using assms e by (intro card_subset_eq) auto
    with ne show "a = b \<and> a \<noteq> {}" by blast
  next
    assume "a = b \<and> a \<noteq> {}"
    with assms show "jaccard a b = 1" by (auto simp: jaccard_def Let_def)
  qed
  moreover have "jaccard a b = jaccard b a"
    by (simp add: jaccard_def Let_def Int_commute Un_commute)
  ultimately show ?thesis using jaccard_bounds by simp
qed

theorem jaccard_ratio_witness:
  "jaccard {''a'', ''b''} {''b'', ''a''} = 1"
proof -
  have e: "{''b'', ''a''} = {''a'', ''b''}" by (rule insert_commute)
  have f: "finite {''a'', ''b''}" by (intro finite.intros)
  from jaccard_ratio [OF f f] show ?thesis unfolding e by blast
qed

text \<open>The configured window is clamped to between 1 and 90 whole days for every value that has
  one. Unlike the documentation of the function says, an infinite number (which a JSON document can
  hold) does not fall back to the default: the conversion error escapes.\<close>

theorem window_bounds:
  "(\<forall>ms. window_ms_for_days v = Inr ms \<longrightarrow>
      ms_per_day \<le> ms \<and> ms \<le> 90 * ms_per_day \<and> ms_per_day dvd ms) \<and>
   (window_ms_for_days v = Inl e \<longleftrightarrow> e = OverflowError \<and> v \<in> {JFloat PosInf, JFloat NegInf})"
proof -
  have p: "py_int v = Inl OverflowError \<longleftrightarrow> v \<in> {JFloat PosInf, JFloat NegInf}"
  proof (cases v)
    case (JFloat f)
    then show ?thesis by (cases f) auto
  next
    case (JStr s)
    then show ?thesis by (cases "int_of_text s") auto
  qed auto
  show ?thesis
  proof (cases "py_int v")
    case (Inl x)
    with p show ?thesis by (cases x) (auto simp: window_ms_for_days_def ms_per_day_def)
  next
    case (Inr i)
    with p show ?thesis by (auto simp: window_ms_for_days_def ms_per_day_def Let_def)
  qed
qed

theorem window_bounds_witness:
  "window_ms_for_days (JInt 1000) = Inr 7776000000 \<and> (7776000000 :: int) \<le> 90 * ms_per_day"
proof -
  have "window_ms_for_days (JInt 1000) = Inr 7776000000"
    by (simp add: window_ms_for_days_def ms_per_day_def)
  with window_bounds [of "JInt 1000" TypeError] show ?thesis by blast
qed

text \<open>Canonical URLs are not always stable: a host with a doubled \<open>www.\<close> prefix loses one
  prefix per normalisation, so the stored key of such a source differs from the key that the same
  source gets when it is read back.\<close>

theorem doubled_www_not_stable:
  "normalize_url ''https://www.www.example.com/a'' = ''//www.example.com/a'' \<and>
   normalize_url (normalize_url ''https://www.www.example.com/a'') = ''//example.com/a'' \<and>
   normalize_thread_key (JStr (''url:'' @ normalize_url ''https://www.www.example.com/a''))
     \<noteq> ''url:'' @ normalize_url ''https://www.www.example.com/a''"
  by code_simp

end
