(* ===== verification/Autonomy_Store.thy ===== *)
theory Autonomy_Store
  imports Atomic_Update Feed_Dedupe
begin

text \<open>
  The records of the autonomous worker: the constructors of \<open>models.py\<close> and the methods of
  \<open>RedisStore\<close> (\<open>store.py\<close>) that read and write the configuration, goals, runs, events and feed,
  recover interrupted work and schedule runs.

  A call meets a \<open>world\<close>: the time, whether the server has RedisJSON, what other clients do during
  its transactions (one sequence of interferences per transaction of the call), the identifiers it
  draws, and the environment variable \<open>AUTONOMY_INTERVAL_SECONDS\<close>. The clock does not advance
  within one call. Document keys are named by their suffix (\<open>runs\<close> for \<open>autonomy:<user>:runs\<close>).
\<close>

record world =
  now :: int
  json_ok :: bool
  envs :: "nat \<Rightarrow> nat \<Rightarrow> interference"
  ids :: "nat \<Rightarrow> string"
  interval_env :: "string option"

section \<open>Numbers from configuration\<close>

definition bounded :: "json \<Rightarrow> int \<Rightarrow> int \<Rightarrow> int result" where
  "bounded value def maximum =
     (case py_int value of
        Inl OverflowError \<Rightarrow> Inl OverflowError
      | Inl _ \<Rightarrow> Inr def
      | Inr number \<Rightarrow> Inr (max 1 (min number maximum)))"

definition schedule_interval_seconds :: "json \<Rightarrow> int" where
  "schedule_interval_seconds value =
     (let value' = (case value of JBool b \<Rightarrow> JNull | v \<Rightarrow> v);
          interval = (case py_int value' of Inl e \<Rightarrow> 14400 | Inr i \<Rightarrow> i);
          interval' = (if interval \<le> 0 then 14400 else interval)
      in max 300 (min 604800 interval'))"

section \<open>New records\<close>

definition default_config :: "string \<Rightarrow> int \<Rightarrow> dict" where
  "default_config user_id timestamp =
     [(''enabled'', JBool True), (''userId'', JStr user_id), (''mode'', JStr ''hybrid''),
      (''runtime'', JStr ''dedicated_worker''), (''actionPolicy'', JStr ''broad_autonomy''),
      (''intervalSeconds'', JInt 14400), (''maxRunsStored'', JInt 100), (''maxFeedItems'', JInt 200),
      (''feedDedupeEnabled'', JBool True), (''feedDedupeWindowDays'', JInt 14),
      (''sourcePolicy'', JObj
         [(''disabledSources'', JList []), (''enabledSources'', JList []),
          (''maxResearchToolCalls'', JInt 6), (''requirePlanApproval'', JBool False)]),
      (''lastScheduledRunAt'', JNull), (''createdAt'', JInt timestamp), (''updatedAt'', JInt timestamp)]"

definition new_run ::
  "string \<Rightarrow> int \<Rightarrow> string \<Rightarrow> string \<Rightarrow> json \<Rightarrow> string \<Rightarrow> string \<Rightarrow> dict" where
  "new_run run_id timestamp user_id trigger goal_id prompt requested_by =
     [(''id'', JStr run_id), (''userId'', JStr user_id), (''trigger'', JStr trigger),
      (''goalId'', goal_id), (''prompt'', JStr prompt), (''requestedBy'', JStr requested_by),
      (''status'', JStr ''queued''), (''summary'', JStr []), (''error'', JStr []),
      (''feedItemIds'', JList []), (''metrics'', JObj []), (''createdAt'', JInt timestamp),
      (''startedAt'', JNull), (''completedAt'', JNull), (''updatedAt'', JInt timestamp)]"

definition new_event ::
  "string \<Rightarrow> int \<Rightarrow> string \<Rightarrow> string \<Rightarrow> string \<Rightarrow> string \<Rightarrow> dict \<Rightarrow> dict" where
  "new_event event_id timestamp run_id event_type message level data =
     [(''id'', JStr event_id), (''runId'', JStr run_id), (''type'', JStr event_type),
      (''level'', JStr level), (''message'', JStr message), (''data'', JObj data),
      (''createdAt'', JInt timestamp)]"

record feed_fields =
  lane :: string
  ftitle :: string
  bluf :: string
  body :: string
  fsource_url :: string
  thread_key :: string
  is_update :: bool
  update_of :: string
  fchange_summary :: string
  confidence :: string
  confidence_reason :: string

definition new_feed_item :: "string \<Rightarrow> int \<Rightarrow> string \<Rightarrow> feed_fields \<Rightarrow> dict" where
  "new_feed_item feed_id timestamp run_id f =
     [(''id'', JStr feed_id), (''runId'', JStr run_id), (''lane'', JStr (lane f)),
      (''title'', JStr (ftitle f)), (''bluf'', JStr (bluf f)), (''body'', JStr (body f)),
      (''sourceUrl'', JStr (fsource_url f)), (''confidence'', JStr (confidence f)),
      (''confidenceReason'', JStr (confidence_reason f)), (''createdAt'', JInt timestamp)]
     @ (if thread_key f = [] then [] else [(''threadKey'', JStr (thread_key f))])
     @ (if is_update f then [(''isUpdate'', JBool True)] else [])
     @ (if update_of f = [] then [] else [(''updateOfFeedItemId'', JStr (update_of f))])
     @ (if fchange_summary f = [] then [] else [(''changeSummary'', JStr (fchange_summary f))])"

section \<open>Publishing and reading\<close>

definition publish :: "world \<Rightarrow> string \<Rightarrow> string \<Rightarrow> json \<Rightarrow> redis \<Rightarrow> redis" where
  "publish W user_id event_type data r =
     r\<lparr>published := published r @
        [(''user:'' @ user_id @ '':updates'',
          JObj [(''type'', JStr event_type), (''timestamp'', JInt (now W)), (''data'', data)])]\<rparr>"

definition as_list :: "json \<Rightarrow> json list" where
  "as_list v = (case v of JList xs \<Rightarrow> xs | _ \<Rightarrow> [])"

definition list_goals :: "world \<Rightarrow> redis \<Rightarrow> json list result" where
  "list_goals W r = bind_result (json_get (json_ok W) ''goals'' (JList []) r) (\<lambda>v. Inr (as_list v))"

definition list_runs :: "world \<Rightarrow> redis \<Rightarrow> json list result" where
  "list_runs W r = bind_result (json_get (json_ok W) ''runs'' (JList []) r) (\<lambda>v. Inr (as_list v))"

definition list_feed :: "world \<Rightarrow> nat option \<Rightarrow> redis \<Rightarrow> json list result" where
  "list_feed W limit r =
     bind_result (json_get (json_ok W) ''feed'' (JList []) r) (\<lambda>v.
       Inr (case limit of None \<Rightarrow> as_list v | Some n \<Rightarrow> take n (as_list v)))"

definition as_dict :: "json \<Rightarrow> dict" where
  "as_dict v = (case v of JObj d \<Rightarrow> d | _ \<Rightarrow> [])"

text \<open>A transaction of a call: the \<open>j\<close>-th one meets the \<open>j\<close>-th sequence of interferences.
  The number of attempts is the default of \<open>atomic_update\<close>.\<close>

definition transact ::
  "world \<Rightarrow> nat \<Rightarrow> container \<Rightarrow> bool \<Rightarrow> string \<Rightarrow> 'a mutation \<Rightarrow> ('a \<Rightarrow> redis \<Rightarrow> redis) \<Rightarrow>
   store \<Rightarrow> redis \<Rightarrow> 'a result \<times> redis" where
  "transact W j c fenced k mutate also s r =
     atomic_update (json_ok W) 5 c fenced k mutate also (envs W j) s r"

section \<open>Configuration\<close>

definition create_config :: "world \<Rightarrow> string \<Rightarrow> dict mutation" where
  "create_config W user_id current =
     (let stored = as_dict current in
      if stored \<noteq> [] then Inr (None, stored)
      else
        let created = default_config user_id (now W);
            created' = (case interval_env W of
                None \<Rightarrow> created
              | Some t \<Rightarrow> if t \<noteq> [] \<and> list_all is_digit t
                           then dict_set ''intervalSeconds'' (JInt (schedule_interval_seconds (JStr t))) created
                           else created)
        in Inr (Some (JObj created'), created'))"

definition get_config :: "world \<Rightarrow> nat \<Rightarrow> string \<Rightarrow> store \<Rightarrow> redis \<Rightarrow> dict result \<times> redis" where
  "get_config W j user_id s r =
     (case json_get (json_ok W) ''config'' JNull r of
        Inl e \<Rightarrow> (Inl e, r)
      | Inr (JObj d) \<Rightarrow> (Inr (dict_merge (default_config user_id (now W)) d), r)
      | Inr _ \<Rightarrow>
          (case transact W j DictDoc False ''config'' (create_config W user_id) (\<lambda>_ r. r) s r of
             (res, r') \<Rightarrow>
               (bind_result res (\<lambda>d. Inr (dict_merge (default_config user_id (now W)) d)), r')))"

section \<open>Goals, runs and events\<close>

definition mark_goal_doc :: "string \<Rightarrow> int \<Rightarrow> bool mutation" where
  "mark_goal_doc goal_id timestamp current =
     (let is_goal = (\<lambda>g. case g of JObj d \<Rightarrow> dict_get d ''id'' = JStr goal_id | _ \<Rightarrow> False);
          mark = (\<lambda>g. case g of
              JObj d \<Rightarrow> if dict_get d ''id'' = JStr goal_id
                         then JObj (dict_set ''lastRunAt'' (JInt timestamp) d) else g
            | _ \<Rightarrow> g)
      in Inr (Some (JList (map mark (as_list current))), list_ex is_goal (as_list current)))"

definition mark_goal_run ::
  "world \<Rightarrow> nat \<Rightarrow> string \<Rightarrow> string \<Rightarrow> int \<Rightarrow> bool \<Rightarrow> store \<Rightarrow> redis \<Rightarrow> unit result \<times> redis" where
  "mark_goal_run W j user_id goal_id timestamp require_lease s r =
     (case transact W j ListDoc require_lease ''goals'' (mark_goal_doc goal_id timestamp) (\<lambda>_ r. r) s r of
        (Inl e, r') \<Rightarrow> (Inl e, r')
      | (Inr changed, r') \<Rightarrow>
          (Inr (), if changed
                   then publish W user_id ''autonomy_status'' (JObj [(''goalsUpdated'', JBool True)]) r'
                   else r'))"

text \<open>\<open>r.get("id")\<close> on an entry that is not a dictionary raises.\<close>

definition upsert_run_doc :: "dict \<Rightarrow> int \<Rightarrow> unit mutation" where
  "upsert_run_doc run max_runs current =
     (if \<not> list_all is_dict (as_list current) then Inl AttributeError
      else
        let others = filter (\<lambda>x. dict_get (as_dict x) ''id'' \<noteq> dict_get run ''id'') (as_list current)
        in Inr (Some (JList (take (nat max_runs) (JObj run # others))), ()))"

definition upsert_run ::
  "world \<Rightarrow> nat \<Rightarrow> string \<Rightarrow> dict \<Rightarrow> store \<Rightarrow> redis \<Rightarrow> dict result \<times> redis" where
  "upsert_run W j user_id run0 s r =
     (let run = dict_set ''updatedAt'' (JInt (now W)) run0 in
      case get_config W j user_id s r of
        (Inl e, r1) \<Rightarrow> (Inl e, r1)
      | (Inr config, r1) \<Rightarrow>
          (case bounded (dict_get config ''maxRunsStored'') 100 1000 of
             Inl e \<Rightarrow> (Inl e, r1)
           | Inr max_runs \<Rightarrow>
               (case transact W (Suc j) ListDoc False ''runs'' (upsert_run_doc run max_runs)
                       (\<lambda>_ r. r) s r1 of
                  (Inl e, r2) \<Rightarrow> (Inl e, r2)
                | (Inr _, r2) \<Rightarrow>
                    (Inr run, publish W user_id ''autonomy_status'' (JObj [(''run'', JObj run)]) r2))))"

definition append_event_doc :: "dict \<Rightarrow> unit mutation" where
  "append_event_doc event current =
     Inr (Some (JList (take 500 (JObj event # as_list current))), ())"

definition append_event ::
  "world \<Rightarrow> nat \<Rightarrow> string \<Rightarrow> dict \<Rightarrow> store \<Rightarrow> redis \<Rightarrow> unit result \<times> redis" where
  "append_event W j user_id event s r =
     (case transact W j ListDoc False ''events'' (append_event_doc event) (\<lambda>_ r. r) s r of
        (Inl e, r') \<Rightarrow> (Inl e, r')
      | (Inr _, r') \<Rightarrow> (Inr (), publish W user_id ''autonomy_run_event'' (JObj event) r'))"

definition log_event ::
  "world \<Rightarrow> nat \<Rightarrow> string \<Rightarrow> string \<Rightarrow> string \<Rightarrow> string \<Rightarrow> string \<Rightarrow> dict \<Rightarrow> store \<Rightarrow> redis \<Rightarrow>
   unit result \<times> redis" where
  "log_event W j user_id run_id event_type message level data s r =
     append_event W j user_id
       (new_event (ids W j) (now W) run_id event_type message level data) s r"

section \<open>The feed\<close>

definition append_feed_doc ::
  "(string \<Rightarrow> string) \<Rightarrow> json list \<Rightarrow> bool \<Rightarrow> int \<Rightarrow> int \<Rightarrow> int \<Rightarrow> (dict list) mutation" where
  "append_feed_doc sha1 items dedupe_enabled time window_ms max_items current =
     bind_result
       (if dedupe_enabled
        then bind_result (dedupe_feed_items sha1 items (as_list current) time window_ms)
               (\<lambda>(kept, dropped). Inr kept)
        else Inr (map (\<lambda>i. stamp_feed_item sha1 i None []) (valid_items items)))
       (\<lambda>kept.
          if kept = [] then Inr (Some (JList (as_list current)), [])
          else Inr (Some (JList (take (nat max_items) (map JObj kept @ as_list current))),
                    take (nat max_items) kept))"

definition append_feed_items ::
  "(string \<Rightarrow> string) \<Rightarrow> world \<Rightarrow> nat \<Rightarrow> string \<Rightarrow> json list \<Rightarrow> bool \<Rightarrow> store \<Rightarrow> redis \<Rightarrow>
   dict list result \<times> redis" where
  "append_feed_items sha1 W j user_id items require_lease s r =
     (if items = [] then (Inr [], r)
      else case get_config W j user_id s r of
        (Inl e, r1) \<Rightarrow> (Inl e, r1)
      | (Inr config, r1) \<Rightarrow>
          (case bind_result (window_ms_for_days (dict_get config ''feedDedupeWindowDays'')) (\<lambda>window_ms.
                bind_result (bounded (dict_get config ''maxFeedItems'') 200 2000) (\<lambda>max_items.
                  Inr (window_ms, max_items))) of
             Inl e \<Rightarrow> (Inl e, r1)
           | Inr (window_ms, max_items) \<Rightarrow>
               (case transact W (Suc j) ListDoc require_lease ''feed''
                       (append_feed_doc sha1 items
                          (truthy (dict_get_default config ''feedDedupeEnabled'' (JBool True)))
                          (now W) window_ms max_items)
                       (\<lambda>_ r. r) s r1 of
                  (Inl e, r2) \<Rightarrow> (Inl e, r2)
                | (Inr stored, r2) \<Rightarrow>
                    (Inr stored,
                     if stored = [] then r2
                     else publish W user_id ''autonomy_feed_updated''
                            (JObj [(''items'', JList (map JObj stored))]) r2))))"

section \<open>Recovery\<close>

definition is_running :: "json \<Rightarrow> bool" where
  "is_running run = (case run of JObj d \<Rightarrow> dict_get d ''status'' = JStr ''running'' | _ \<Rightarrow> False)"

definition abort_summary :: "bool \<Rightarrow> string" where
  "abort_summary requeued =
     (if requeued
      then ''Run was interrupted before its request reached the backend. The request was queued again and runs under a new record.''
      else ''Run was interrupted before it finished. Work that may have reached the backend will not be retried automatically.'')"

definition aborted_run :: "string \<Rightarrow> int \<Rightarrow> dict \<Rightarrow> dict" where
  "aborted_run summary timestamp d =
     dict_merge d [(''status'', JStr ''aborted''), (''summary'', JStr summary),
       (''completedAt'', JInt timestamp), (''updatedAt'', JInt timestamp)]"

definition abort_runs_doc :: "string \<Rightarrow> int \<Rightarrow> (dict list) mutation" where
  "abort_runs_doc summary timestamp current =
     (let close = (\<lambda>x. if is_running x then JObj (aborted_run summary timestamp (as_dict x)) else x);
          aborted = map (\<lambda>x. aborted_run summary timestamp (as_dict x)) (filter is_running (as_list current))
      in Inr (if aborted = [] then None else Some (JList (map close (as_list current))), aborted))"

fun announce_aborted ::
  "world \<Rightarrow> nat \<Rightarrow> string \<Rightarrow> string \<Rightarrow> dict list \<Rightarrow> store \<Rightarrow> redis \<Rightarrow> unit result \<times> redis" where
  "announce_aborted W j user_id summary [] s r = (Inr (), r)"
| "announce_aborted W j user_id summary (run # runs) s r =
     (let r1 = publish W user_id ''autonomy_status'' (JObj [(''run'', JObj run)]) r in
      case map_of run ''id'' of
        None \<Rightarrow> (Inl KeyError, r1)
      | Some i \<Rightarrow>
          (case log_event W j user_id (py_str i) ''run_aborted'' summary ''warn'' [] s r1 of
             (Inl e, r2) \<Rightarrow> (Inl e, r2)
           | (Inr _, r2) \<Rightarrow> announce_aborted W (Suc j) user_id summary runs s r2))"

definition abort_interrupted_runs ::
  "world \<Rightarrow> nat \<Rightarrow> string \<Rightarrow> bool \<Rightarrow> store \<Rightarrow> redis \<Rightarrow> unit result \<times> redis" where
  "abort_interrupted_runs W j user_id requeued s r =
     (case list_runs W r of
        Inl e \<Rightarrow> (Inl e, r)
      | Inr runs \<Rightarrow>
          if \<not> list_ex is_running runs then (Inr (), r)
          else
            let summary = abort_summary requeued in
            (case transact W j ListDoc True ''runs'' (abort_runs_doc summary (now W)) (\<lambda>_ r. r) s r of
               (Inl e, r') \<Rightarrow> (Inl e, r')
             | (Inr aborted, r') \<Rightarrow> announce_aborted W (Suc j) user_id summary aborted s r'))"

definition reclaim_processing ::
  "world \<Rightarrow> nat \<Rightarrow> string \<Rightarrow> store \<Rightarrow> redis \<Rightarrow> nat result \<times> store \<times> redis" where
  "reclaim_processing W j user_id s r =
     (let lost = (Inl (RuntimeError ''cannot reclaim processing work after losing the lease''));
          forget = s\<lparr>lease_token := None, lease_ttl := None\<rparr> in
      case lease_token s of
        None \<Rightarrow> (Inl (RuntimeError ''cannot reclaim processing work without owning the lease''), s, r)
      | Some token \<Rightarrow>
          if processing r = [] then (Inr 0, s, clear_phases_script token r)
          else
            let requeued = list_all (\<lambda>raw. processing_state r raw = Some ''claimed'') (processing r) in
            (case abort_interrupted_runs W j user_id requeued s r of
               (Inl WorkerLeaseLost, r1) \<Rightarrow> (lost, forget, r1)
             | (Inl e, r1) \<Rightarrow> (Inl e, s, r1)
             | (Inr _, r1) \<Rightarrow>
                 (case reclaim_script token r1 of
                    (None, r2) \<Rightarrow> (lost, forget, r2)
                  | (Some moved, r2) \<Rightarrow>
                      (Inr (length moved),
                       (case inflight s of
                          Some raw \<Rightarrow> if raw \<in> set moved then s\<lparr>inflight := None\<rparr> else s
                        | None \<Rightarrow> s), r2))))"

section \<open>Scheduling\<close>

definition last_scheduled :: "dict \<Rightarrow> int" where
  "last_scheduled config =
     (case py_int (py_or (dict_get config ''lastScheduledRunAt'') (JInt 0)) of Inl e \<Rightarrow> 0 | Inr i \<Rightarrow> i)"

definition schedule_due :: "int \<Rightarrow> dict \<Rightarrow> bool" where
  "schedule_due current config =
     (truthy (dict_get_default config ''enabled'' (JBool True)) \<and>
      (let last = last_scheduled config in
       last = 0 \<or> current - last \<ge> schedule_interval_seconds (dict_get config ''intervalSeconds'') * 1000))"

definition scheduled_request :: "int \<Rightarrow> dict" where
  "scheduled_request current =
     [(''id'', JStr (''scheduled-'' @ show_int current)), (''trigger'', JStr ''scheduled''),
      (''requestedBy'', JStr ''worker''), (''createdAt'', JInt current)]"

definition mark_due_doc :: "string \<Rightarrow> int \<Rightarrow> (dict option) mutation" where
  "mark_due_doc user_id current doc =
     (let stored = as_dict doc; config = dict_merge (default_config user_id current) stored in
      if stored = [] \<or> \<not> schedule_due current config then Inr (None, None)
      else
        let updated = dict_merge stored
              [(''lastScheduledRunAt'', JInt current), (''updatedAt'', JInt current)]
        in Inr (Some (JObj updated), Some (dict_merge config updated)))"

definition enqueue_scheduled :: "int \<Rightarrow> dict option \<Rightarrow> redis \<Rightarrow> redis" where
  "enqueue_scheduled current scheduled_config r =
     (case scheduled_config of
        None \<Rightarrow> r | Some _ \<Rightarrow> enqueue (Encoded (JObj (scheduled_request current))) r)"

definition maybe_enqueue_scheduled ::
  "world \<Rightarrow> nat \<Rightarrow> string \<Rightarrow> store \<Rightarrow> redis \<Rightarrow> dict option result \<times> redis" where
  "maybe_enqueue_scheduled W j user_id s r =
     (case get_config W j user_id s r of
        (Inl e, r1) \<Rightarrow> (Inl e, r1)
      | (Inr config, r1) \<Rightarrow>
          if \<not> schedule_due (now W) config then (Inr None, r1)
          else
            let request = scheduled_request (now W) in
            (case transact W (Suc j) DictDoc False ''config'' (mark_due_doc user_id (now W))
                    (enqueue_scheduled (now W)) s r1 of
               (Inl e, r2) \<Rightarrow> (Inl e, r2)
             | (Inr None, r2) \<Rightarrow> (Inr None, r2)
             | (Inr (Some scheduled_config), r2) \<Rightarrow>
                 (Inr (Some request),
                  publish W user_id ''autonomy_status'' (JObj [(''config'', JObj scheduled_config)])
                    (publish W user_id ''autonomy_status'' (JObj [(''queued'', JObj request)]) r2))))"

section \<open>Facts about the records\<close>

definition quiet :: "world \<Rightarrow> bool" where
  "quiet W \<longleftrightarrow> (\<forall>j. envs W j 0 = (id, False))"

lemma transact_commit:
  assumes "transact W j c fenced k mutate also s r = (Inr res, r')"
  obtains i where "i \<le> 5" and "mutate (current_doc c (slots (after_env i (envs W j) r) k)) = Inr (None, res)"
      "r' = after_env i (envs W j) r"
  | i v where "i \<le> 5" and "mutate (current_doc c (slots (after_env i (envs W j) r) k)) = Inr (Some v, res)"
      "r' = also res (write_doc (json_ok W) k v (after_env i (envs W j) r))"
      "fenced \<longrightarrow> owns_lease s (after_env i (envs W j) r)"
  using update_commits [OF assms [unfolded transact_def]] by (auto simp: Let_def)

lemma publish_frame [simp]:
  "slots (publish W u t d r) = slots r" "queue (publish W u t d r) = queue r"
  "processing (publish W u t d r) = processing r" "lease (publish W u t d r) = lease r"
  "processing_state (publish W u t d r) = processing_state r"
  by (simp_all add: publish_def)

lemma list_doc_shape: "is_list (current_doc ListDoc sl)"
  by (auto simp: current_doc_def Let_def)

lemma read_written_list:
  "current_doc ListDoc (slots (write_doc b k (JList xs) r) k) = JList xs"
  by (rule list_docs.get_put) simp

lemma read_written_dict:
  "current_doc DictDoc (slots (write_doc b k (JObj xs) r) k) = JObj xs"
  by (rule dict_docs.get_put) simp

lemma take_length_take: "take n xs = take (length (take n xs)) xs"
  by (metis append_eq_conv_conj append_take_drop_id)

lemma bounded_range: "bounded v d m = Inr n \<Longrightarrow> 1 \<le> m \<Longrightarrow> 1 \<le> d \<Longrightarrow> d \<le> m \<Longrightarrow> 1 \<le> n \<and> n \<le> m"
  by (auto simp: bounded_def split: sum.splits py_error.splits)

lemma schedule_interval_range:
  "300 \<le> schedule_interval_seconds v \<and> schedule_interval_seconds v \<le> 604800"
  by (simp add: schedule_interval_seconds_def Let_def)

lemma aborted_not_running: "\<not> is_running (JObj (aborted_run m t d))"
  by (simp add: is_running_def aborted_run_def dict_merge_def)

lemma append_feed_doc_writes: "append_feed_doc sha1 items en t w m cur = Inr (new, stored) \<Longrightarrow> new \<noteq> None"
  by (auto simp: append_feed_doc_def bind_result_Inr split: if_splits)

lemma append_feed_doc_result:
  assumes "append_feed_doc sha1 items en t w m cur = Inr (Some v, stored)" and "stored \<noteq> []"
  shows "\<exists>kept. stored = take (nat m) kept \<and> v = JList (take (nat m) (map JObj kept @ as_list cur))"
proof -
  from assms(1) obtain kept where "(if kept = [] then Inr (Some (JList (as_list cur)), [])
      else Inr (Some (JList (take (nat m) (map JObj kept @ as_list cur))), take (nat m) kept))
      = (Inr (Some v, stored) :: (json option \<times> dict list) result)"
    unfolding append_feed_doc_def bind_result_Inr by blast
  with assms(2) show ?thesis by (auto split: if_splits)
qed

lemma dict_set_nonempty [simp]: "dict_set k v d \<noteq> []"
  by (induction k v d rule: dict_set.induct) auto

lemma get_config_stored:
  assumes "current_doc DictDoc (slots r ''config'') = JObj d" and "d \<noteq> []" and "json_ok W"
  shows "get_config W j u s r = (Inr (dict_merge (default_config u (now W)) d), r)"
proof -
  have "json_get (json_ok W) ''config'' JNull r = Inr (JObj d)"
    using assms
    by (auto simp: current_doc_def json_get_def Let_def split: slot.splits if_splits)
  then show ?thesis by (simp add: get_config_def)
qed

lemma recently_scheduled_not_due:
  assumes "last_scheduled config = t" and "t > 0" and "current < t + 300000"
  shows "\<not> schedule_due current config"
  using assms schedule_interval_range [of "dict_get config ''intervalSeconds''"]
  by (simp add: schedule_due_def Let_def)

section \<open>Properties\<close>

text \<open>Recording a run: whatever other clients do, after a successful \<open>upsert_run\<close> the committed
  list starts with the run, holds no other entry with its identifier, and is bounded; entries are
  only removed, never reordered.\<close>

theorem upsert_run_stored:
  assumes "upsert_run W j u run s r = (Inr run', r')"
  shows "\<exists>i \<le> 5. \<exists>after. let at_commit = after_env i (envs W (Suc j)) (snd (get_config W j u s r)) in
    current_doc ListDoc (slots r' ''runs'') = JList (JObj run' # after)
    \<and> length after < 1000 \<and> run' = dict_set ''updatedAt'' (JInt (now W)) run
    \<and> after = take (length after) (filter (\<lambda>x. dict_get (as_dict x) ''id'' \<noteq> dict_get run' ''id'')
        (as_list (current_doc ListDoc (slots at_commit ''runs''))))"
proof -
  from assms obtain config r1 m r2 where
    g: "get_config W j u s r = (Inr config, r1)"
    and b: "bounded (dict_get config ''maxRunsStored'') 100 1000 = Inr m"
    and run': "run' = dict_set ''updatedAt'' (JInt (now W)) run"
    and t: "transact W (Suc j) ListDoc False ''runs'' (upsert_run_doc run' m) (\<lambda>_ r. r) s r1 = (Inr (), r2)"
    and r': "slots r' = slots r2"
    by (auto simp: upsert_run_def Let_def split: prod.splits sum.splits)
  from bounded_range [OF b] have m: "1 \<le> m" "m \<le> 1000" by auto
  from t obtain i where i: "i \<le> 5" and
    v: "r2 = write_doc (json_ok W) ''runs'' (JList (take (nat m) (JObj run' #
        filter (\<lambda>x. dict_get (as_dict x) ''id'' \<noteq> dict_get run' ''id'')
          (as_list (current_doc ListDoc (slots (after_env i (envs W (Suc j)) r1) ''runs''))))))
        (after_env i (envs W (Suc j)) r1)"
    by (rule transact_commit) (auto simp: upsert_run_doc_def Let_def split: if_splits)
  let ?b = "as_list (current_doc ListDoc (slots (after_env i (envs W (Suc j)) r1) ''runs''))"
  let ?a = "take (nat m - 1) (filter (\<lambda>x. dict_get (as_dict x) ''id'' \<noteq> dict_get run' ''id'') ?b)"
  have "take (nat m) (JObj run' # xs) = JObj run' # take (nat m - 1) xs" for xs
    using m by (cases "nat m") auto
  then have "current_doc ListDoc (slots r' ''runs'') = JList (JObj run' # ?a)"
    unfolding r' v by (simp only: read_written_list)
  moreover have "length ?a < 1000" using m by auto
  moreover have "?a = take (length ?a) (filter (\<lambda>x. dict_get (as_dict x) ''id'' \<noteq> dict_get run' ''id'') ?b)"
    by (rule take_length_take)
  ultimately show ?thesis using run' i by (auto simp: g Let_def simp del: length_take)
qed

definition sample_world :: world where
  "sample_world = \<lparr>now = 1000, json_ok = True, envs = (\<lambda>_ _. (id, False)), ids = (\<lambda>_. ''i''),
     interval_env = None\<rparr>"

lemma sample_world_simps [simp]:
  "now sample_world = 1000" "json_ok sample_world" "envs sample_world = (\<lambda>_ _. (id, False))"
  by (simp_all add: sample_world_def)

lemma sample_transact:
  "mutate (current_doc c (slots r k)) = Inr (Some v, res) \<Longrightarrow> (fenced \<longrightarrow> owns_lease s r) \<Longrightarrow>
   \<forall>t. slots r k \<noteq> OtherKind t \<Longrightarrow>
   transact sample_world j c fenced k mutate also s r = (Inr res, also res (write_doc True k v r))"
  unfolding transact_def by (simp, rule update_quiet) auto

definition sample_config_db :: redis where
  "sample_config_db = empty_redis\<lparr>slots := (\<lambda>_. Missing)(''config'' := RedisJson (JObj [(''enabled'', JBool True)]))\<rparr>"

lemma sample_config:
  "get_config sample_world j u s sample_config_db
     = (Inr (dict_merge (default_config u 1000) [(''enabled'', JBool True)]), sample_config_db)"
  by (simp add: get_config_def json_get_def sample_config_db_def)

lemma sample_config_entry:
  "dict_get (dict_merge (default_config u 1000) [(''enabled'', JBool True)]) k
     = (if k = ''enabled'' then JBool True else dict_get (default_config u 1000) k)"
  by (simp add: dict_get_merge)

theorem upsert_run_stored_witness:
  "\<exists>run' r' after. upsert_run sample_world 0 ''u'' [(''id'', JStr ''r'')] empty_store sample_config_db
      = (Inr run', r') \<and> current_doc ListDoc (slots r' ''runs'') = JList (JObj run' # after)"
proof -
  let ?run = "dict_set ''updatedAt'' (JInt 1000) [(''id'', JStr ''r'')]"
  have "transact sample_world (Suc 0) ListDoc False ''runs'' (upsert_run_doc ?run 100) (\<lambda>_ r. r)
      empty_store sample_config_db
    = (Inr (), write_doc True ''runs'' (JList [JObj ?run]) sample_config_db)"
    by (rule sample_transact)
      (auto simp: upsert_run_doc_def current_doc_def as_list_def sample_config_db_def)
  then obtain r' where h: "upsert_run sample_world 0 ''u'' [(''id'', JStr ''r'')] empty_store
      sample_config_db = (Inr ?run, r')"
    by (simp add: upsert_run_def sample_config sample_config_entry bounded_def Let_def)
      (simp add: default_config_def dict_get_def)
  from upsert_run_stored [OF h] h show ?thesis unfolding Let_def by blast
qed

text \<open>The feed: the items that \<open>append_feed_items\<close> reports as stored are exactly the newest
  entries of the committed feed, in order, and the feed never holds more than 2000 items. A fenced
  append commits only while the lease is owned.\<close>

theorem append_feed_stored:
  assumes "append_feed_items sha1 W j u items fenced s r = (Inr stored, r')" and "stored \<noteq> []"
  shows "\<exists>i \<le> 5. \<exists>rest. let at_commit = after_env i (envs W (Suc j)) (snd (get_config W j u s r)) in
    current_doc ListDoc (slots r' ''feed'') = JList (map JObj stored @ rest)
    \<and> length stored + length rest \<le> 2000 \<and> (fenced \<longrightarrow> owns_lease s at_commit)
    \<and> rest = take (length rest) (as_list (current_doc ListDoc (slots at_commit ''feed'')))"
proof -
  from assms obtain config r1 window m en r2 where
    g: "get_config W j u s r = (Inr config, r1)"
    and b: "bounded (dict_get config ''maxFeedItems'') 200 2000 = Inr m"
    and t: "transact W (Suc j) ListDoc fenced ''feed''
        (append_feed_doc sha1 items en (now W) window m) (\<lambda>_ r. r) s r1 = (Inr stored, r2)"
    and r': "slots r' = slots r2"
    by (auto simp: append_feed_items_def bind_result_Inr bind_result_Inl split: prod.splits sum.splits
        if_splits)
  from bounded_range [OF b] have m: "m \<le> 2000" by auto
  let ?r0 = "\<lambda>i. after_env i (envs W (Suc j)) r1"
  let ?f = "\<lambda>i. as_list (current_doc ListDoc (slots (?r0 i) ''feed''))"
  from t obtain i v where i: "i \<le> 5" and l: "fenced \<longrightarrow> owns_lease s (?r0 i)"
    and d: "append_feed_doc sha1 items en (now W) window m
        (current_doc ListDoc (slots (?r0 i) ''feed'')) = Inr (Some v, stored)"
    and v: "r2 = write_doc (json_ok W) ''feed'' v (?r0 i)"
    by (rule transact_commit) (auto dest: append_feed_doc_writes)
  from append_feed_doc_result [OF d assms(2)] obtain kept where
    k: "stored = take (nat m) kept" and vv: "v = JList (take (nat m) (map JObj kept @ ?f i))"
    by blast
  let ?rest = "take (nat m - length kept) (?f i)"
  have "current_doc ListDoc (slots r' ''feed'') = JList (map JObj stored @ ?rest)"
    unfolding r' v vv read_written_list k by (simp add: take_map)
  moreover have "length stored + length ?rest \<le> 2000" using m k by auto
  moreover have "?rest = take (length ?rest) (?f i)"
    by (rule take_length_take)
  ultimately show ?thesis using l i by (auto simp: g Let_def simp del: length_take)
qed

theorem append_feed_stored_witness:
  "\<exists>stored r' rest. append_feed_items (\<lambda>_. []) sample_world 0 ''u'' [JObj sample_item] False empty_store
      sample_config_db = (Inr stored, r') \<and> stored \<noteq> [] \<and>
      current_doc ListDoc (slots r' ''feed'') = JList (map JObj stored @ rest)"
proof -
  let ?k = "[stamp_feed_item (\<lambda>_. []) sample_item None []]"
  have d: "dedupe_feed_items (\<lambda>_. []) [JObj sample_item] [] 1000 1209600000 = Inr (?k, [])"
    by code_simp
  let ?c = "dict_merge (default_config ''u'' 1000) [(''enabled'', JBool True)]"
  have c1: "dict_get ?c ''feedDedupeWindowDays'' = JInt 14"
    and c2: "dict_get ?c ''maxFeedItems'' = JInt 200"
    and c3: "truthy (dict_get_default ?c ''feedDedupeEnabled'' (JBool True)) = True"
    by code_simp+
  have "transact sample_world (Suc 0) ListDoc False ''feed''
      (append_feed_doc (\<lambda>_. []) [JObj sample_item] True 1000 1209600000 200) (\<lambda>_ r. r)
      empty_store sample_config_db
    = (Inr ?k, write_doc True ''feed'' (JList (map JObj ?k)) sample_config_db)"
    by (rule sample_transact)
      (auto simp: append_feed_doc_def current_doc_def as_list_def sample_config_db_def d)
  then obtain r' where h: "append_feed_items (\<lambda>_. []) sample_world 0 ''u'' [JObj sample_item] False
      empty_store sample_config_db = (Inr ?k, r')"
    by (simp add: append_feed_items_def sample_config c1 c2 c3 bounded_def window_ms_for_days_def
        ms_per_day_def)
  have "?k \<noteq> []" by simp
  from append_feed_stored [OF h this] h show ?thesis unfolding Let_def by blast
qed

text \<open>Closing interrupted runs: the mutation keeps every entry in place, leaves the entries that
  are not running untouched, and leaves none running; it reports exactly the runs it closed.\<close>

theorem abort_closes_runs:
  assumes "abort_runs_doc summary t (JList xs) = Inr (new, aborted)"
  shows "let ys = (case new of None \<Rightarrow> xs | Some v \<Rightarrow> as_list v) in
    length ys = length xs \<and> list_all (\<lambda>y. \<not> is_running y) ys
    \<and> (\<forall>i < length xs. \<not> is_running (xs ! i) \<longrightarrow> ys ! i = xs ! i)
    \<and> length aborted = length (filter is_running xs)"
proof (cases "filter is_running xs = []")
  case True
  with assms show ?thesis
    by (auto simp: abort_runs_doc_def as_list_def list_all_iff filter_empty_conv Let_def)
next
  case False
  with assms show ?thesis
    by (auto simp: abort_runs_doc_def as_list_def list_all_iff Let_def aborted_not_running)
qed

theorem abort_closes_runs_witness:
  "\<exists>new aborted. abort_runs_doc ''m'' 5 (JList [JObj [(''status'', JStr ''running'')], JNull])
      = Inr (new, aborted) \<and> length aborted = 1"
proof -
  let ?x = "[JObj [(''status'', JStr ''running'')], JNull]"
  obtain new aborted where h: "abort_runs_doc ''m'' 5 (JList ?x) = Inr (new, aborted)"
    by (simp add: abort_runs_doc_def Let_def)
  from abort_closes_runs [OF h] h show ?thesis
    by (simp add: Let_def is_running_def dict_get_def)
qed

text \<open>Recovery is fenced: \<open>reclaim_processing\<close> succeeds only with a remembered token, then no
  claim is left, and a claim that this store held in flight is forgotten exactly when recovery
  resolved it; without the lease nothing is claimed or dropped.\<close>

theorem reclaim_processing_resolves:
  assumes "reclaim_processing W j u s r = (Inr n, s', r')"
  shows "lease_token s \<noteq> None \<and> processing r' = [] \<and>
    (processing r \<noteq> [] \<longrightarrow> owns_lease s r' \<and> processing_state r' = Map.empty)"
proof (cases "processing r = []")
  case True
  with assms show ?thesis
    by (auto simp: reclaim_processing_def clear_phases_script_def Let_def split: option.splits)
next
  case False
  from assms obtain t where t: "lease_token s = Some t"
    by (auto simp: reclaim_processing_def Let_def split: option.splits)
  from assms False t obtain r1 moved where "reclaim_script t r1 = (Some moved, r')"
    by (auto simp: reclaim_processing_def Let_def split: prod.splits sum.splits option.splits
        py_error.splits)
  with t show ?thesis
    by (auto simp: reclaim_script_def owns_lease_def split: if_splits prod.splits)
qed

theorem reclaim_processing_resolves_witness:
  "let r = empty_redis\<lparr>lease := Some (''t'', 60), processing := [Garbage ''x'']\<rparr>;
       s = empty_store\<lparr>lease_token := Some ''t''\<rparr>;
       res = reclaim_processing sample_world 0 ''u'' s r
   in fst res = Inr 1 \<and> processing (snd (snd res)) = []"
proof -
  define r where "r = empty_redis\<lparr>lease := Some (''t'', 60), processing := [Garbage ''x'']\<rparr>"
  define s where "s = empty_store\<lparr>lease_token := Some ''t''\<rparr>"
  obtain s' r' where h: "reclaim_processing sample_world 0 ''u'' s r = (Inr 1, s', r')"
    by (auto simp: reclaim_processing_def r_def s_def abort_interrupted_runs_def list_runs_def
        json_get_def empty_redis_def empty_store_def as_list_def sample_world_def reclaim_script_def Let_def)
  from reclaim_processing_resolves [OF h] h show ?thesis
    by (simp add: r_def [symmetric] s_def [symmetric])
qed

text \<open>Scheduling: when a run is scheduled, exactly one request is added to the queue in the
  transaction that stamps \<open>lastScheduledRunAt\<close>; and no call in the five minutes after the stamp,
  by any worker, schedules another one.\<close>

theorem schedule_once:
  assumes "maybe_enqueue_scheduled W j u s r = (Inr (Some request), r')" and "now W > 0"
    and "\<forall>i \<le> 5. distinct (map fst (as_dict (current_doc DictDoc
      (slots (after_env i (envs W (Suc j)) (snd (get_config W j u s r))) ''config''))))"
  shows "(\<exists>i \<le> 5. let at_commit = after_env i (envs W (Suc j)) (snd (get_config W j u s r)) in
      queue r' = queue (enqueue (Encoded (JObj request)) at_commit)
      \<and> schedule_due (now W) (dict_merge (default_config u (now W))
          (as_dict (current_doc DictDoc (slots at_commit ''config'')))))
    \<and> (\<forall>W' j' s'. json_ok W' \<and> now W' < now W + 300000 \<longrightarrow>
         maybe_enqueue_scheduled W' j' u s' r' = (Inr None, r'))"
proof -
  from assms(1) obtain config r1 r2 sc where
    g: "get_config W j u s r = (Inr config, r1)"
    and req: "request = scheduled_request (now W)"
    and t: "transact W (Suc j) DictDoc False ''config'' (mark_due_doc u (now W))
        (enqueue_scheduled (now W)) s r1 = (Inr (Some sc), r2)"
    and r': "slots r' = slots r2" "queue r' = queue r2"
    by (auto simp: maybe_enqueue_scheduled_def Let_def split: prod.splits sum.splits option.splits
        if_splits)
  let ?r0 = "\<lambda>i. after_env i (envs W (Suc j)) r1"
  let ?d = "\<lambda>i. as_dict (current_doc DictDoc (slots (?r0 i) ''config''))"
  let ?stamp = "[(''lastScheduledRunAt'', JInt (now W)), (''updatedAt'', JInt (now W))]"
  from t obtain i where i: "i \<le> 5"
    and due: "?d i \<noteq> []" "schedule_due (now W) (dict_merge (default_config u (now W)) (?d i))"
    and w: "r2 = enqueue (Encoded (JObj request))
        (write_doc (json_ok W) ''config'' (JObj (dict_merge (?d i) ?stamp)) (?r0 i))"
    by (rule transact_commit)
      (auto simp: mark_due_doc_def Let_def enqueue_scheduled_def req split: if_splits)
  from assms(3) i g have "distinct (map fst (?d i))" by simp
  then have di: "distinct (map fst (dict_merge (?d i) ?stamp))" by (rule distinct_dict_merge)
  have q: "queue r' = queue (enqueue (Encoded (JObj request)) (?r0 i))"
    unfolding r' w by (simp add: enqueue_def)
  have quiet: "maybe_enqueue_scheduled W' j' u s' r' = (Inr None, r')"
    if "json_ok W'" "now W' < now W + 300000" for W' j' s'
  proof -
    have c: "current_doc DictDoc (slots r' ''config'') = JObj (dict_merge (?d i) ?stamp)"
      unfolding r' w by (simp add: enqueue_def read_written_dict)
    have n: "dict_merge (?d i) ?stamp \<noteq> []" by (simp add: dict_merge_def dict_set_nonempty)
    from get_config_stored [OF c n that(1)]
    have gc: "get_config W' j' u s' r'
      = (Inr (dict_merge (default_config u (now W')) (dict_merge (?d i) ?stamp)), r')" .
    have "last_scheduled (dict_merge (default_config u (now W')) (dict_merge (?d i) ?stamp)) = now W"
      using assms(2) by (simp add: last_scheduled_def dict_get_merge [OF di] map_of_dict_merge py_or_def)
    then have "\<not> schedule_due (now W') (dict_merge (default_config u (now W')) (dict_merge (?d i) ?stamp))"
      using recently_scheduled_not_due assms(2) that(2) by metis
    then show ?thesis by (simp add: maybe_enqueue_scheduled_def gc)
  qed
  from i due(2) q quiet show ?thesis by (auto simp: g Let_def)
qed

theorem schedule_once_witness:
  "\<exists>r'. maybe_enqueue_scheduled sample_world 0 ''u'' empty_store sample_config_db
      = (Inr (Some (scheduled_request 1000)), r')
    \<and> maybe_enqueue_scheduled sample_world 0 ''u'' empty_store r' = (Inr None, r')"
proof -
  let ?c = "dict_merge (default_config ''u'' 1000) [(''enabled'', JBool True)]"
  have due: "schedule_due 1000 ?c" by code_simp
  have doc: "current_doc DictDoc (slots sample_config_db ''config'') = JObj [(''enabled'', JBool True)]"
    and kind: "\<forall>t. slots sample_config_db ''config'' \<noteq> OtherKind t"
    by (simp_all add: sample_config_db_def current_doc_def)
  let ?v = "dict_merge [(''enabled'', JBool True)]
      [(''lastScheduledRunAt'', JInt 1000), (''updatedAt'', JInt 1000)]"
  have "transact sample_world (Suc 0) DictDoc False ''config'' (mark_due_doc ''u'' 1000)
      (enqueue_scheduled 1000) empty_store sample_config_db
    = (Inr (Some (dict_merge ?c ?v)),
       enqueue_scheduled 1000 (Some (dict_merge ?c ?v)) (write_doc True ''config'' (JObj ?v) sample_config_db))"
    using due by (intro sample_transact)
      (auto simp: doc mark_due_doc_def as_dict_def Let_def kind)
  then obtain r' where h: "maybe_enqueue_scheduled sample_world 0 ''u'' empty_store sample_config_db
      = (Inr (Some (scheduled_request 1000)), r')"
    using due by (simp add: maybe_enqueue_scheduled_def sample_config Let_def)
  have a: "after_env i (\<lambda>_. (id, False)) r = r" for i r
    by (induction i) simp_all
  have "(\<forall>W' j' s'. json_ok W' \<and> now W' < now sample_world + 300000 \<longrightarrow>
         maybe_enqueue_scheduled W' j' ''u'' s' r' = (Inr None, r'))"
    by (rule conjunct2 [OF schedule_once [OF h]]) (simp_all add: a sample_config doc as_dict_def)
  with h show ?thesis by (metis sample_world_simps(1,2) less_add_same_cancel1 zero_less_numeral)
qed

end
