(* ===== verification/Exploration.thy ===== *)
theory Exploration
  imports Py_Values
begin

text \<open>
  The research rotation of the autonomous worker
  (\<open>builder/autonomous_agent/src/autonomous_agent/exploration.py\<close>): which approach a run starts
  from, as a function of the run history and the feed. The history holds decoded JSON, so an
  identifier or lane of an unhashable type raises where the code puts it into a set or looks it up.
\<close>

definition approaches :: "(string \<times> string) list" where
  "approaches =
     [(''known'', ''Check a meaningful change or unresolved question in a tracked interest.''),
      (''adjacent'', ''Connect a neighboring field or technique to a concrete user interest.''),
      (''known'', ''Explore a useful technique, explanation, or overlooked primary source.''),
      (''scout'', ''Investigate an underexplored topic with a specific link to the user's interests.'')]"

definition is_scoped :: "json \<Rightarrow> dict \<Rightarrow> bool" where
  "is_scoped goal_id run =
     (dict_get run ''status'' = JStr ''completed''
      \<and> py_eq (py_or (dict_get run ''goalId'') JNull) (py_or goal_id JNull))"

fun dict_entries :: "json list \<Rightarrow> dict list" where
  "dict_entries [] = []"
| "dict_entries (JObj d # vs) = d # dict_entries vs"
| "dict_entries (v # vs) = dict_entries vs"

definition scoped_completed_runs :: "json list \<Rightarrow> json \<Rightarrow> dict list" where
  "scoped_completed_runs recent_runs goal_id = filter (is_scoped goal_id) (dict_entries recent_runs)"

definition metric :: "dict \<Rightarrow> string \<Rightarrow> json" where
  "metric run name = (case dict_get run ''metrics'' of JObj m \<Rightarrow> dict_get m name | _ \<Rightarrow> JNull)"

definition stored_item_count :: "dict \<Rightarrow> int option" where
  "stored_item_count run =
     (let by_ids = (case dict_get run ''feedItemIds'' of JList xs \<Rightarrow> Some (int (length xs)) | _ \<Rightarrow> None)
      in case metric run ''feedItemsStored'' of
           JInt v \<Rightarrow> if v \<ge> 0 then Some v else by_ids
         | _ \<Rightarrow> by_ids)"

text \<open>The loop over the completed runs: the first valid cursor decides.\<close>

fun next_step :: "dict list \<Rightarrow> nat option" where
  "next_step [] = None"
| "next_step (run # runs) =
     (case metric run ''explorationStep'' of
        JInt p \<Rightarrow> if 0 \<le> p \<and> p < int (length approaches)
                  then Some (Suc (nat p) mod length approaches) else next_step runs
      | _ \<Rightarrow> next_step runs)"

record coverage =
  cov_known :: nat
  cov_adjacent :: nat
  cov_scout :: nat

definition count_lane :: "json \<Rightarrow> coverage \<Rightarrow> coverage" where
  "count_lane lane c =
     (if lane = JStr ''known'' then c\<lparr>cov_known := Suc (cov_known c)\<rparr>
      else if lane = JStr ''adjacent'' then c\<lparr>cov_adjacent := Suc (cov_adjacent c)\<rparr>
      else if lane = JStr ''scout'' then c\<lparr>cov_scout := Suc (cov_scout c)\<rparr>
      else c)"

fun coverage_loop :: "json \<Rightarrow> json list \<Rightarrow> dict list \<Rightarrow> coverage \<Rightarrow> coverage result" where
  "coverage_loop goal_id run_ids [] c = Inr c"
| "coverage_loop goal_id run_ids (item # items) c =
     (let run_id = dict_get item ''runId''; lane = dict_get item ''lane'' in
      if truthy goal_id \<and> \<not> hashable run_id then Inl TypeError
      else if truthy goal_id \<and> \<not> list_ex (py_eq run_id) run_ids
      then coverage_loop goal_id run_ids items c
      else if \<not> hashable lane then Inl TypeError
      else coverage_loop goal_id run_ids items (count_lane lane c))"

text \<open>\<open>min((0, 1, 3), key=...)\<close>: the first position of least weight.\<close>

definition least_covered :: "coverage \<Rightarrow> nat" where
  "least_covered c =
     (let k0 = (of_nat (cov_known c) / 2 :: rat); k1 = of_nat (cov_adjacent c);
          k3 = of_nat (cov_scout c) in
      if k0 \<le> k1 \<and> k0 \<le> k3 then 0 else if k1 \<le> k3 then 1 else 3)"

definition bootstrap_step :: "dict list \<Rightarrow> json list \<Rightarrow> json \<Rightarrow> nat result" where
  "bootstrap_step completed recent_feed goal_id =
     (let run_ids = map (\<lambda>run. dict_get run ''id'') completed in
      if \<not> list_all hashable run_ids then Inl TypeError
      else bind_result
             (coverage_loop goal_id run_ids (dict_entries (take 60 recent_feed))
                \<lparr>cov_known = 0, cov_adjacent = 0, cov_scout = 0\<rparr>)
             (\<lambda>c. Inr (least_covered c)))"

definition quiet_runs :: "dict list \<Rightarrow> nat" where
  "quiet_runs completed = length (takeWhile (\<lambda>run. stored_item_count run = Some 0) (take 5 completed))"

record exploration =
  step :: nat
  preferred_lane :: string
  approach :: string
  consecutive_quiet_runs :: nat
  change_topic :: bool

definition skip_known :: "nat \<Rightarrow> nat \<Rightarrow> nat" where
  "skip_known quiet st =
     (if quiet \<ge> 2 \<and> fst (approaches ! st) = ''known'' then Suc st mod length approaches else st)"

definition build_exploration_context ::
  "json list \<Rightarrow> json list \<Rightarrow> json \<Rightarrow> exploration result" where
  "build_exploration_context recent_runs recent_feed goal_id =
     (let completed = scoped_completed_runs recent_runs goal_id;
          quiet = quiet_runs completed in
      bind_result
        (case next_step completed of
           Some st \<Rightarrow> Inr st
         | None \<Rightarrow> bootstrap_step completed recent_feed goal_id)
        (\<lambda>st0. let st = skip_known quiet st0 in
           Inr \<lparr>step = st, preferred_lane = fst (approaches ! st), approach = snd (approaches ! st),
                consecutive_quiet_runs = quiet, change_topic = (quiet \<ge> 2)\<rparr>))"

section \<open>Facts\<close>

lemma approaches_length [simp]: "length approaches = 4"
  by (simp add: approaches_def)

lemma next_step_range: "next_step runs = Some st \<Longrightarrow> st < 4"
  by (induction runs) (auto split: json.splits if_splits)

lemma least_covered_range: "least_covered c < 4"
  by (simp add: least_covered_def Let_def)

lemma four_cases: "(st::nat) < 4 \<Longrightarrow> st = 0 \<or> st = 1 \<or> st = 2 \<or> st = 3"
  by auto

lemma skip_known_range: "st < 4 \<Longrightarrow> skip_known q st < 4"
  by (simp add: skip_known_def)

lemma skip_known_lane: "st < 4 \<Longrightarrow> 2 \<le> q \<Longrightarrow> fst (approaches ! skip_known q st) \<noteq> ''known''"
  by (drule four_cases) (auto simp: skip_known_def approaches_def)

lemma context_step:
  assumes "build_exploration_context runs feed goal = Inr e"
  obtains st where "st < 4" "step e = skip_known (consecutive_quiet_runs e) st"
    "preferred_lane e = fst (approaches ! step e)" "change_topic e \<longleftrightarrow> consecutive_quiet_runs e \<ge> 2"
    "next_step (scoped_completed_runs runs goal) = Some st \<or>
     next_step (scoped_completed_runs runs goal) = None"
    "\<And>p. next_step (scoped_completed_runs runs goal) = Some p \<Longrightarrow> p = st"
    "consecutive_quiet_runs e = quiet_runs (scoped_completed_runs runs goal)"
proof (cases "next_step (scoped_completed_runs runs goal)")
  case None
  with assms obtain st where "bootstrap_step (scoped_completed_runs runs goal) feed goal = Inr st"
    and e: "e = (let st = skip_known (quiet_runs (scoped_completed_runs runs goal)) st in
      \<lparr>step = st, preferred_lane = fst (approaches ! st), approach = snd (approaches ! st),
       consecutive_quiet_runs = quiet_runs (scoped_completed_runs runs goal),
       change_topic = (quiet_runs (scoped_completed_runs runs goal) \<ge> 2)\<rparr>)"
    by (auto simp: build_exploration_context_def Let_def bind_result_Inr)
  then have "st < 4"
    by (auto simp: bootstrap_step_def Let_def bind_result_Inr least_covered_range split: if_splits)
  with None e show ?thesis by (intro that [of st]) (auto simp: Let_def)
next
  case (Some st)
  with assms next_step_range show ?thesis
    by (intro that [of st]) (auto simp: build_exploration_context_def Let_def)
qed

lemma dict_entries_append [simp]: "dict_entries (xs @ ys) = dict_entries xs @ dict_entries ys"
  by (induction xs rule: dict_entries.induct) auto

section \<open>Properties\<close>

text \<open>The rotation is well formed and reacts to quiet attempts: the cursor is one of the four
  approaches, and after two completed attempts of the objective in a row that stored nothing the run
  starts from an exploratory lane.\<close>

theorem exploration_well_formed:
  assumes "build_exploration_context runs feed goal = Inr e"
  shows "step e < 4 \<and> preferred_lane e \<in> {''known'', ''adjacent'', ''scout''}
    \<and> (change_topic e \<longrightarrow> preferred_lane e \<noteq> ''known'')
    \<and> consecutive_quiet_runs e \<le> 5"
proof -
  from assms obtain st where st: "st < 4" "step e = skip_known (consecutive_quiet_runs e) st"
    "preferred_lane e = fst (approaches ! step e)" "change_topic e \<longleftrightarrow> consecutive_quiet_runs e \<ge> 2"
    "consecutive_quiet_runs e = quiet_runs (scoped_completed_runs runs goal)"
    by (rule context_step)
  then have r: "step e < 4" by (simp add: skip_known_range)
  then have "preferred_lane e \<in> {''known'', ''adjacent'', ''scout''}"
    unfolding st(3) by (auto dest!: four_cases simp: approaches_def)
  moreover have "change_topic e \<longrightarrow> preferred_lane e \<noteq> ''known''"
    using st skip_known_lane by simp
  moreover have "quiet_runs (scoped_completed_runs runs goal) \<le> 5"
    unfolding quiet_runs_def by (metis length_take length_takeWhile_le min.bounded_iff)
  ultimately show ?thesis using r st(5) by simp
qed

theorem exploration_well_formed_witness:
  "\<exists>e. build_exploration_context
      [JObj [(''status'', JStr ''completed''), (''feedItemIds'', JList [])],
       JObj [(''status'', JStr ''completed''), (''feedItemIds'', JList [])]] [] JNull = Inr e
    \<and> change_topic e \<and> preferred_lane e \<noteq> ''known''"
proof -
  let ?r = "[JObj [(''status'', JStr ''completed''), (''feedItemIds'', JList [])],
       JObj [(''status'', JStr ''completed''), (''feedItemIds'', JList [])]]"
  let ?e = "\<lparr>step = 1, preferred_lane = ''adjacent'',
      approach = ''Connect a neighboring field or technique to a concrete user interest.'',
      consecutive_quiet_runs = 2, change_topic = True\<rparr>"
  have h: "build_exploration_context ?r [] JNull = Inr ?e" by code_simp
  from exploration_well_formed [OF h] h show ?thesis by (intro exI [of _ ?e]) simp
qed

text \<open>The rotation advances: after a completed run of the same objective that recorded its cursor
  and stored something, the next run starts from the following approach, whatever the older history
  and the feed hold; failed, cancelled and foreign runs in front of it change nothing.\<close>

theorem exploration_advances:
  assumes "run = JObj d" and "is_scoped goal d" and "metric d ''explorationStep'' = JInt (int p)"
    and "p < 4" and "stored_item_count d \<noteq> Some 0"
    and "\<forall>x \<in> set newer. \<forall>d'. x = JObj d' \<longrightarrow> \<not> is_scoped goal d'"
  shows "\<exists>e. build_exploration_context (newer @ run # older) feed goal = Inr e
    \<and> step e = Suc p mod 4 \<and> \<not> change_topic e"
proof -
  have "filter (is_scoped goal) (dict_entries newer) = []"
    using assms(6) by (induction newer rule: dict_entries.induct) auto
  then have c: "scoped_completed_runs (newer @ run # older) goal
      = d # scoped_completed_runs older goal"
    using assms(1,2) by (simp add: scoped_completed_runs_def)
  have q: "quiet_runs (scoped_completed_runs (newer @ run # older) goal) = 0"
    using assms(5) by (simp add: c quiet_runs_def)
  have "next_step (scoped_completed_runs (newer @ run # older) goal) = Some (Suc p mod 4)"
    using assms(3,4) by (simp add: c)
  then show ?thesis
    by (simp add: build_exploration_context_def q skip_known_def Let_def)
qed

theorem exploration_advances_witness:
  "let run = [(''status'', JStr ''completed''), (''metrics'', JObj [(''explorationStep'', JInt 3)])]
   in \<exists>e. build_exploration_context [JNull, JObj run] [] JNull = Inr e \<and> step e = 0"
proof -
  define run where "run = [(''status'', JStr ''completed''), (''metrics'', JObj [(''explorationStep'', JInt 3)])]"
  have "is_scoped JNull run" "metric run ''explorationStep'' = JInt (int 3)"
    "stored_item_count run \<noteq> Some 0"
    by (simp_all add: run_def is_scoped_def dict_get_def metric_def stored_item_count_def Let_def py_or_def)
  from exploration_advances [OF refl this(1,2) _ this(3), of "[JNull]" "[]" "[]"]
  show ?thesis by (auto simp: run_def [symmetric] Let_def)
qed

end
