(* ===== verification/Agent_Output.thy ===== *)
theory Agent_Output
  imports Autonomy_Store Exploration
begin

text \<open>
  What an autonomous run sends and what it accepts back
  (\<open>builder/autonomous_agent/src/autonomous_agent/prompt.py\<close>): workspace notes, source policy,
  the bounded context of the prompt, and the parser of the model's structured answer.

  \<^item> \<open>json.loads\<close> is an argument (\<open>loads\<close>), as is the pydantic validator of the output model
    (\<open>validate\<close>); \<open>output_ok\<close> states the constraints that the model class declares, and a theorem
    that needs the validator to enforce them says so.
  \<^item> The instruction text of the prompt is an argument of \<open>build_messages\<close>
    (\<open>instructions\<close>, a function of what the template interpolates).
  \<^item> The two regular expressions are written out as the scanners that they denote.
\<close>

section \<open>Workspace\<close>

definition lines_text :: "string list \<Rightarrow> string" where
  "lines_text ls = join_with [char_of (10::nat)] ls"

definition DEFAULT_WORKSPACE :: "(string \<times> string) list" where
  "DEFAULT_WORKSPACE =
     [(''identity'', lines_text
        [''## Identity'', [],
         ''Daedalus Autonomy is a persistent background worker for the authenticated user.'',
         ''It is pragmatic, evidence-seeking, and focused on useful follow-through.'']),
      (''soul'', lines_text
        [''## Operating Principles'', [],
         ''- Treat the UI as the only human interaction point.'',
         ''- Prefer primary sources, exact claims, and durable memory over speculation.'',
         ''- Keep work scoped to active goals, current user context, and recent signals.'',
         ''- Keep autonomous work non-interactive. Skip destructive, irreversible,'',
         ''  credential-related, send/merge/delete/scale/uninstall, memory-delete, or'',
         ''  other approval-gated actions.'']),
      (''interests'', lines_text
        [''## Curiosity Map'', [],
         ''Track active user goals, emerging technical changes, operational risks, and'',
         ''follow-up opportunities discovered during autonomous runs.'']),
      (''schema'', lines_text
        [''## Memory Schema'', [],
         ''When adding memory, use supported exact claims and include source, confidence,'',
         ''timestamp, user_id, and topic metadata when available. Do not store unsupported'',
         ''claims.'']),
      (''user'', lines_text
        [''## Collaborator Context'', [],
         ''The authenticated user controls goals, schedule, approvals, and manual run'',
         ''prompts from the Autonomy dashboard.'']),
      (''heartbeat'', lines_text
        [''## Runtime Routine'', [],
         ''1. Load recent memory and active goals.'',
         ''2. Select the highest-value bounded task.'',
         ''3. Research or act through existing backend tools.'',
         ''4. Verify final claims before writing memory.'',
         ''5. Emit structured feed items and update mutable workspace notes.'']),
      (''memory'', lines_text
        [''## Memory Index Snapshot'', [],
         ''No curated memory index has been established yet. Build it incrementally from'',
         ''verified findings and project updates.'']),
      (''inner_state'', lines_text
        [''## Private Inner State'', [],
         ''Start each run with a small, bounded plan and record the next useful follow-up.''])]"

definition workspace_key :: "string \<Rightarrow> string \<Rightarrow> string" where
  "workspace_key user_id name = ''autonomous:'' @ user_id @ '':workspace:'' @ name"

fun load_loop ::
  "string \<Rightarrow> bool \<Rightarrow> (string \<times> string) list \<Rightarrow> store \<Rightarrow> redis \<Rightarrow> ((string \<times> string) list) result \<times> redis" where
  "load_loop user_id require_lease [] s r = (Inr [], r)"
| "load_loop user_id require_lease ((name, seed) # rest) s r =
     (let key = workspace_key user_id name in
      case (case get_text key r of
              Some current \<Rightarrow> (Inr current, r)
            | None \<Rightarrow>
                if seed = [] then (Inr seed, r)
                else (case set_text key seed require_lease s r of
                        (Inl e, r1) \<Rightarrow> (Inl e, r1) | (Inr _, r1) \<Rightarrow> (Inr seed, r1))) of
        (Inl e, r1) \<Rightarrow> (Inl e, r1)
      | (Inr text, r1) \<Rightarrow>
          (case load_loop user_id require_lease rest s r1 of
             (Inl e, r2) \<Rightarrow> (Inl e, r2)
           | (Inr sections, r2) \<Rightarrow> (Inr ((name, text) # sections), r2)))"

definition load_workspace ::
  "string \<Rightarrow> bool \<Rightarrow> store \<Rightarrow> redis \<Rightarrow> ((string \<times> string) list) result \<times> redis" where
  "load_workspace user_id require_lease s r = load_loop user_id require_lease DEFAULT_WORKSPACE s r"

section \<open>Bounded context\<close>

definition truncation_marker :: string where
  "truncation_marker =
     [char_of (10::nat), ellipsis] @ ''[truncated]'' @ [ellipsis, char_of (10::nat)]"

definition bounded_text :: "json \<Rightarrow> nat \<Rightarrow> string" where
  "bounded_text value max_chars =
     (let text = strip (text_of value) in
      if length text \<le> max_chars then text
      else if max_chars \<le> length truncation_marker then take max_chars text
      else
        let remaining = max_chars - length truncation_marker;
            head_chars = (remaining + 1) div 2;
            tail_chars = remaining - head_chars
        in take head_chars text @ truncation_marker @ drop (length text - tail_chars) text)"

fun is_number :: "json \<Rightarrow> bool" where
  "is_number (JInt i) = True"
| "is_number (JFloat f) = True"
| "is_number (JBool b) = True"
| "is_number _ = False"

definition recent_run_digest :: "dict \<Rightarrow> dict" where
  "recent_run_digest run =
     (let completed_at = dict_get run ''completedAt'' in
      [(''id'', JStr (bounded_text (dict_get run ''id'') 128)),
       (''trigger'', JStr (bounded_text (dict_get run ''trigger'') 128)),
       (''status'', JStr (bounded_text (dict_get run ''status'') 128)),
       (''goalId'', JStr (bounded_text (dict_get run ''goalId'') 128)),
       (''summary'', JStr (bounded_text (dict_get run ''summary'') 600)),
       (''feedItemsStored'', (case stored_item_count run of None \<Rightarrow> JNull | Some n \<Rightarrow> JInt n)),
       (''completedAt'', if is_number completed_at then completed_at
                          else JStr (bounded_text completed_at 128))])"

definition goal_digest :: "dict \<Rightarrow> dict" where
  "goal_digest goal =
     [(''id'', dict_get goal ''id''), (''title'', dict_get goal ''title''),
      (''description'', JStr (bounded_text (dict_get goal ''description'') 600)),
      (''priority'', dict_get goal ''priority''),
      (''tags'', py_or (dict_get goal ''tags'') (JList [])),
      (''lastRunAt'', dict_get goal ''lastRunAt'')]"

definition profile_memory_query :: "dict option \<Rightarrow> string result" where
  "profile_memory_query selected_goal =
     (let query = ''personal profile priorities interests professional role tracked projects local life sports hobbies preferences privacy boundaries and recent autonomous findings'' in
      case selected_goal of
        None \<Rightarrow> Inr query
      | Some [] \<Rightarrow> Inr query
      | Some goal \<Rightarrow>
          bind_result (iterate (py_or (dict_get goal ''tags'') (JList []))) (\<lambda>tags.
            Inr (strip (query @ ''; current goal: '' @ strip (text_of (dict_get goal ''title''))
                        @ '' '' @ join_with '' '' (map py_str tags)))))"

section \<open>Source policy\<close>

definition SOURCE_POLICY_IDS :: "string list" where
  "SOURCE_POLICY_IDS =
     [''curated_domains'', ''curated_feeds'', ''perplexity_search'', ''known_url_scrape'',
      ''nvidia_docs'', ''uploaded_documents'', ''workspace_data'', ''x_mcp'', ''cluster_state'',
      ''network_state'', ''repository_data'', ''fantasy_data'']"

fun coerce_loop :: "json list \<Rightarrow> string list \<Rightarrow> string list" where
  "coerce_loop [] seen = []"
| "coerce_loop (raw # rest) seen =
     (let source_id = lower (strip (py_str raw)) in
      if source_id \<notin> set SOURCE_POLICY_IDS \<or> source_id \<in> set seen then coerce_loop rest seen
      else source_id # coerce_loop rest (source_id # seen))"

definition coerce_source_ids :: "json \<Rightarrow> string list" where
  "coerce_source_ids value = coerce_loop (as_list value) []"

record source_policy =
  enabled_sources :: "string list"
  disabled_sources :: "string list"
  require_plan_approval :: "bool option"
  max_research_calls :: "int option"
  policy_notes :: string

text \<open>An absent entry of the policy dictionary is an empty list, \<open>None\<close> or an empty text here.
  \<open>None\<close> as a whole is the empty dictionary.\<close>

definition sanitize_source_policy :: "json \<Rightarrow> source_policy result" where
  "sanitize_source_policy value =
     (case value of
        JObj d \<Rightarrow>
          bind_result
            (case py_int (dict_get d ''maxResearchToolCalls'') of
               Inl OverflowError \<Rightarrow> Inl OverflowError
             | Inl e \<Rightarrow> Inr 0
             | Inr n \<Rightarrow> Inr n)
            (\<lambda>max_calls.
               Inr \<lparr>enabled_sources = coerce_source_ids (dict_get d ''enabledSources''),
                    disabled_sources = coerce_source_ids (dict_get d ''disabledSources''),
                    require_plan_approval =
                      (case dict_get d ''requirePlanApproval'' of JBool b \<Rightarrow> Some b | _ \<Rightarrow> None),
                    max_research_calls =
                      (if max_calls > 0 then Some (max 1 (min 20 max_calls)) else None),
                    policy_notes = take 500 (strip (text_of (dict_get d ''notes'')))\<rparr>)
      | _ \<Rightarrow>
          Inr \<lparr>enabled_sources = [], disabled_sources = [], require_plan_approval = None,
               max_research_calls = None, policy_notes = []\<rparr>)"

definition empty_policy :: "source_policy \<Rightarrow> bool" where
  "empty_policy p \<longleftrightarrow> enabled_sources p = [] \<and> disabled_sources p = [] \<and>
     require_plan_approval p = None \<and> max_research_calls p = None \<and> policy_notes p = []"

definition render_source_policy_message :: "source_policy \<Rightarrow> string" where
  "render_source_policy_message p =
     (if empty_policy p then []
      else lines_text
        ([''[SOURCE_POLICY] Per-message source policy for this autonomous run.'']
         @ (if enabled_sources p = [] then []
            else [''enabled_source_ids='' @ json_dumps_strs (enabled_sources p)])
         @ (if disabled_sources p = [] then []
            else [''disabled_source_ids='' @ json_dumps_strs (disabled_sources p)])
         @ (case max_research_calls p of
              None \<Rightarrow> [] | Some n \<Rightarrow> [''max_research_tool_calls='' @ show_int n])
         @ (case require_plan_approval p of
              None \<Rightarrow> []
            | Some b \<Rightarrow>
                [''require_deep_research_plan_approval='' @ (if b then ''true'' else ''false'')]
                @ (if b then [''Before broad research, present the proposed scope, report sections, sources, and estimated effort directly in chat and ask the user to approve or revise the plan. Stop before any research calls.''] else []))
         @ (if policy_notes p = [] then [] else [''notes='' @ json_dumps_str (policy_notes p)])
         @ [''Apply this policy silently. Do not echo this source policy message or describe internal planning or reasoning to the user.'']))"

section \<open>The messages of a run\<close>

definition policy_dict :: "source_policy \<Rightarrow> dict" where
  "policy_dict p =
     (if enabled_sources p = [] then [] else [(''enabledSources'', JList (map JStr (enabled_sources p)))])
     @ (if disabled_sources p = [] then []
        else [(''disabledSources'', JList (map JStr (disabled_sources p)))])
     @ (case require_plan_approval p of None \<Rightarrow> [] | Some b \<Rightarrow> [(''requirePlanApproval'', JBool b)])
     @ (case max_research_calls p of None \<Rightarrow> [] | Some n \<Rightarrow> [(''maxResearchToolCalls'', JInt n)])
     @ (if policy_notes p = [] then [] else [(''notes'', JStr (policy_notes p))])"

definition exploration_dict :: "exploration \<Rightarrow> dict" where
  "exploration_dict e =
     [(''step'', JInt (int (step e))), (''preferred_lane'', JStr (preferred_lane e)),
      (''approach'', JStr (approach e)),
      (''consecutive_quiet_runs'', JInt (int (consecutive_quiet_runs e))),
      (''change_topic'', JBool (change_topic e))]"

definition is_active :: "dict \<Rightarrow> bool" where
  "is_active goal = (dict_get_default goal ''status'' (JStr ''active'') = JStr ''active'')"

definition find_goal :: "json \<Rightarrow> dict list \<Rightarrow> dict option" where
  "find_goal goal_id goals =
     (if truthy goal_id then find (\<lambda>g. py_eq (dict_get g ''id'') goal_id) goals else None)"

definition bounded_workspace :: "(string \<times> string) list \<Rightarrow> string \<Rightarrow> string" where
  "bounded_workspace workspace name =
     bounded_text (case map_of workspace name of None \<Rightarrow> JNull | Some t \<Rightarrow> JStr t) 2500"

definition stable_sections :: "(string \<times> string) list \<Rightarrow> string list" where
  "stable_sections workspace =
     (let b = bounded_workspace workspace; titled = (\<lambda>h t. h @ [char_of (10::nat)] @ t) in
      [''# Daedalus Autonomous Runtime'', b ''identity'', b ''soul'', b ''schema'',
       titled ''## Curiosity Map'' (b ''interests''),
       titled ''## Collaborator Context'' (b ''user''),
       titled ''## Runtime Routines'' (b ''heartbeat''),
       titled ''## Memory Index Snapshot'' (b ''memory''),
       titled ''## Private Inner State'' (b ''inner_state'')])"

record prompt_env =
  instructions :: "string \<Rightarrow> string \<Rightarrow> string \<Rightarrow> dict \<Rightarrow> string"
  current_time :: string
  format_day :: "json \<Rightarrow> string"

definition run_source_policy :: "dict \<Rightarrow> source_policy result" where
  "run_source_policy config =
     bind_result (sanitize_source_policy (dict_get config ''sourcePolicy'')) (\<lambda>p.
       Inr (p\<lparr>require_plan_approval := Some False\<rparr>))"

definition runtime_input ::
  "prompt_env \<Rightarrow> string \<Rightarrow> string \<Rightarrow> source_policy \<Rightarrow> dict \<Rightarrow> dict list \<Rightarrow> dict option \<Rightarrow> string \<Rightarrow>
   json list \<Rightarrow> exploration \<Rightarrow> dict list \<Rightarrow> dict" where
  "runtime_input P user_id action_policy policy request goals selected memory_query recent_runs e surfaced =
     [(''current_time'', JStr (current_time P)), (''user_id'', JStr user_id),
      (''action_policy'', JStr action_policy), (''source_policy'', JObj (policy_dict policy)),
      (''trigger'', dict_get_default request ''trigger'' (JStr ''scheduled'')),
      (''goal_id'', dict_get request ''goalId''),
      (''manual_prompt'', dict_get_default request ''prompt'' (JStr [])),
      (''active_goals'', JList (map (JObj \<circ> goal_digest) (filter is_active goals))),
      (''selected_goal'', (case selected of None \<Rightarrow> JNull | Some g \<Rightarrow> JObj g)),
      (''profile_memory_query'', JStr memory_query),
      (''recent_runs'', JList (map (JObj \<circ> recent_run_digest) (dict_entries (take 5 recent_runs)))),
      (''recent_objective_runs'', JList (map (JObj \<circ> recent_run_digest)
         (take 5 (scoped_completed_runs recent_runs (dict_get request ''goalId''))))),
      (''exploration'', JObj (exploration_dict e)),
      (''already_surfaced'', JList (map JObj surfaced))]"

definition build_messages ::
  "prompt_env \<Rightarrow> int \<Rightarrow> string \<Rightarrow> dict \<Rightarrow> (string \<times> string) list \<Rightarrow> json list \<Rightarrow> json list \<Rightarrow>
   json list \<Rightarrow> dict \<Rightarrow> exploration \<Rightarrow> ((string \<times> string) list) result" where
  "build_messages P time user_id config workspace goals recent_runs recent_feed request e =
     (if \<not> list_all is_dict goals then Inl AttributeError
      else
        let goal_dicts = dict_entries goals;
            selected = find_goal (dict_get request ''goalId'') goal_dicts;
            action_policy = text_of (py_or (dict_get config ''actionPolicy'') (JStr ''broad_autonomy'')) in
        bind_result (profile_memory_query selected) (\<lambda>memory_query.
        bind_result (window_ms_for_days (dict_get config ''feedDedupeWindowDays'')) (\<lambda>window_ms.
        bind_result (summarize_recent_feed (format_day P)
            \<lparr>title_chars = 96, bluf_chars = 140, source_chars = 80, thread_key_chars = 96\<rparr>
            recent_feed time window_ms 60 True) (\<lambda>surfaced.
        bind_result (run_source_policy config) (\<lambda>policy.
          let runtime = runtime_input P user_id action_policy policy request goal_dicts selected
                memory_query recent_runs e surfaced;
              gap = [char_of (10::nat), char_of (10::nat)];
              prompt = join_with gap (filter (\<lambda>t. strip t \<noteq> []) (stable_sections workspace))
                @ gap @ instructions P memory_query action_policy (preferred_lane e) runtime;
              policy_message = render_source_policy_message policy
          in Inr ([(''user'', ''[IDENTITY] username='' @ user_id)]
                  @ (if policy_message = [] then [] else [(''user'', policy_message)])
                  @ [(''user'', prompt)]))))))"

section \<open>Parsing the answer\<close>

text \<open>\<open>_THINK_RE\<close>: an opening tag, the shortest text, and a closing tag, without regard to case.\<close>

definition open_think :: "string \<Rightarrow> string option" where
  "open_think s =
     (if lower (take 6 s) \<noteq> ''<think'' then None
      else case drop 6 s of
        [] \<Rightarrow> None
      | c # cs \<Rightarrow>
          if c = CHR ''>'' then Some cs
          else if is_space c
          then (case dropWhile (\<lambda>x. x \<noteq> CHR ''>'') cs of [] \<Rightarrow> None | _ # rest \<Rightarrow> Some rest)
          else None)"

definition at_close :: "string \<Rightarrow> string option" where
  "at_close s =
     (if lower (take 7 s) \<noteq> ''</think'' then None
      else case dropWhile is_space (drop 7 s) of
        [] \<Rightarrow> None
      | c # rest \<Rightarrow> if c = CHR ''>'' then Some rest else None)"

fun find_close :: "string \<Rightarrow> string option" where
  "find_close [] = None"
| "find_close (c # cs) = (case at_close (c # cs) of Some rest \<Rightarrow> Some rest | None \<Rightarrow> find_close cs)"

lemma open_think_length: "open_think s = Some b \<Longrightarrow> length b < length s"
proof -
  assume a: "open_think s = Some b"
  then obtain c cs where d: "drop 6 s = c # cs"
    by (auto simp: open_think_def split: if_splits list.splits)
  have "length b \<le> length cs"
    using a d length_dropWhile_le [of "\<lambda>x. x \<noteq> CHR ''>''" cs]
    by (auto simp: open_think_def split: if_splits list.splits)
  moreover have "length cs < length s"
    using arg_cong [OF d, of length] by simp
  ultimately show ?thesis by simp
qed

lemma at_close_length: "at_close s = Some b \<Longrightarrow> length b < length s"
  using length_dropWhile_le [of is_space "drop 7 s"]
  by (auto simp: at_close_def split: if_splits list.splits)

lemma find_close_length: "find_close s = Some b \<Longrightarrow> length b < length s"
proof (induction s)
  case (Cons c cs)
  then show ?case using at_close_length [of "c # cs" b] by (force split: option.splits)
qed simp

function strip_think :: "string \<Rightarrow> string" where
  "strip_think [] = []"
| "strip_think (c # cs) =
     (case open_think (c # cs) of
        None \<Rightarrow> c # strip_think cs
      | Some rest \<Rightarrow>
          (case find_close rest of
             None \<Rightarrow> c # strip_think cs
           | Some rest' \<Rightarrow> strip_think rest'))"
  by pat_completeness auto
termination
  by (relation "measure length")
    (auto dest!: open_think_length find_close_length)

definition strip_reasoning :: "string \<Rightarrow> string" where
  "strip_reasoning text = strip (strip_think text)"

text \<open>\<open>_JSON_FENCE_RE\<close>: three backticks, an optional \<open>json\<close>, the shortest text, three backticks.
  The white space around the text is stripped by the caller.\<close>

definition fence :: string where
  "fence = replicate 3 (char_of (96::nat))"

fun until_fence :: "string \<Rightarrow> (string \<times> string) option" where
  "until_fence [] = None"
| "until_fence (c # cs) =
     (if starts_with fence (c # cs) then Some ([], drop 3 (c # cs))
      else map_option (\<lambda>(a, b). (c # a, b)) (until_fence cs))"

definition skip_json :: "string \<Rightarrow> string" where
  "skip_json s = (if lower (take 4 s) = ''json'' then drop 4 s else s)"

lemma until_fence_length: "until_fence s = Some (a, b) \<Longrightarrow> length b < length s"
  by (induction s arbitrary: a b) (auto split: if_splits)

lemma skip_json_length: "length (skip_json s) \<le> length s"
  by (simp add: skip_json_def)

function fenced_blocks :: "string \<Rightarrow> string list" where
  "fenced_blocks [] = []"
| "fenced_blocks (c # cs) =
     (if starts_with fence (c # cs)
      then (case until_fence (skip_json (drop 3 (c # cs))) of
              None \<Rightarrow> fenced_blocks cs
            | Some (block, rest) \<Rightarrow> strip block # fenced_blocks rest)
      else fenced_blocks cs)"
  by pat_completeness auto
termination
proof (relation "measure length", goal_cases)
  case (3 c cs y block rest)
  then have "length rest < length (skip_json (drop 3 (c # cs)))"
    by (auto dest: until_fence_length)
  with skip_json_length [of "drop 3 (c # cs)"] show ?case by simp
qed auto

definition braced_text :: "string \<Rightarrow> string list" where
  "braced_text cleaned =
     (let from_first = dropWhile (\<lambda>c. c \<noteq> CHR ''{'') cleaned;
          cut = rstrip_while (\<lambda>c. c \<noteq> CHR ''}'') from_first
      in if cut = [] then [] else [cut])"

fun first_valid ::
  "(string \<Rightarrow> json option) \<Rightarrow> (dict \<Rightarrow> dict option) \<Rightarrow> string list \<Rightarrow> dict option" where
  "first_valid loads validate [] = None"
| "first_valid loads validate (candidate # rest) =
     (case loads candidate of
        Some (JObj d) \<Rightarrow>
          (case validate d of Some out \<Rightarrow> Some out | None \<Rightarrow> first_valid loads validate rest)
      | _ \<Rightarrow> first_valid loads validate rest)"

definition structured_output_error :: py_error where
  "structured_output_error = ValueError ''Backend returned invalid structured output.''"

definition parse_structured_output ::
  "(string \<Rightarrow> json option) \<Rightarrow> (dict \<Rightarrow> dict option) \<Rightarrow> string \<Rightarrow> dict result" where
  "parse_structured_output loads validate text =
     (let cleaned = strip_reasoning text in
      case first_valid loads validate (fenced_blocks cleaned @ [cleaned] @ braced_text cleaned) of
        None \<Rightarrow> Inl structured_output_error
      | Some out \<Rightarrow> Inr out)"

section \<open>The declared output model\<close>

text \<open>The white space that the validator strips is that of Rust's \<open>trim\<close>; \<open>not_blank\<close> is the
  pattern \<open>\S\<close>.\<close>

definition trim_space :: "char \<Rightarrow> bool" where
  "trim_space c = (code c = 32 \<or> (9 \<le> code c \<and> code c \<le> 13))"

definition not_blank :: "string \<Rightarrow> bool" where
  "not_blank s = list_ex (\<lambda>c. \<not> trim_space c) s"

definition text_field :: "nat \<Rightarrow> dict \<Rightarrow> string \<Rightarrow> bool" where
  "text_field max_length d k = (case map_of d k of Some (JStr s) \<Rightarrow> length s \<le> max_length | _ \<Rightarrow> False)"

definition required_text :: "nat \<Rightarrow> dict \<Rightarrow> string \<Rightarrow> bool" where
  "required_text max_length d k =
     (case map_of d k of Some (JStr s) \<Rightarrow> s \<noteq> [] \<and> length s \<le> max_length \<and> not_blank s | _ \<Rightarrow> False)"

definition literal_field :: "string list \<Rightarrow> dict \<Rightarrow> string \<Rightarrow> bool" where
  "literal_field options d k = (case map_of d k of Some (JStr s) \<Rightarrow> s \<in> set options | _ \<Rightarrow> False)"

definition item_ok :: "json \<Rightarrow> bool" where
  "item_ok v =
     (case v of
        JObj d \<Rightarrow>
          map fst d = [''lane'', ''title'', ''bluf'', ''body'', ''source_url'', ''thread_key'', ''is_update'',
             ''update_of'', ''change_summary'', ''confidence'', ''confidence_reason'']
          \<and> literal_field [''known'', ''adjacent'', ''scout''] d ''lane''
          \<and> required_text 160 d ''title'' \<and> required_text 500 d ''bluf''
          \<and> text_field 4000 d ''body'' \<and> text_field 2048 d ''source_url''
          \<and> text_field 160 d ''thread_key''
          \<and> (case map_of d ''is_update'' of Some (JBool b) \<Rightarrow> True | _ \<Rightarrow> False)
          \<and> text_field 128 d ''update_of'' \<and> text_field 500 d ''change_summary''
          \<and> literal_field [''high'', ''medium'', ''low''] d ''confidence''
          \<and> text_field 500 d ''confidence_reason''
      | _ \<Rightarrow> False)"

definition updates_ok :: "json \<Rightarrow> bool" where
  "updates_ok v =
     (case v of
        JObj d \<Rightarrow>
          map fst d = [''heartbeat'', ''interests'', ''user'', ''inner_state'', ''memory'']
          \<and> list_all (text_field 2500 d) [''heartbeat'', ''interests'', ''user'', ''inner_state'', ''memory'']
      | _ \<Rightarrow> False)"

definition output_ok :: "dict \<Rightarrow> bool" where
  "output_ok d \<longleftrightarrow>
     map fst d = [''summary'', ''executive_summary'', ''feed_items'', ''workspace_updates'', ''self_reflection'']
     \<and> required_text 2000 d ''summary'' \<and> text_field 2000 d ''executive_summary''
     \<and> (case map_of d ''feed_items'' of
          Some (JList xs) \<Rightarrow> length xs \<le> 2 \<and> list_all item_ok xs | _ \<Rightarrow> False)
     \<and> (case map_of d ''workspace_updates'' of Some v \<Rightarrow> updates_ok v | None \<Rightarrow> False)
     \<and> text_field 2000 d ''self_reflection''"

section \<open>Feed records from an answer\<close>

text \<open>A validated answer holds text in every field; \<open>draw\<close> gives the identifier and the time of the
  i-th record.\<close>

definition str_field :: "dict \<Rightarrow> string \<Rightarrow> string result" where
  "str_field d k =
     (case map_of d k of None \<Rightarrow> Inl KeyError | Some (JStr s) \<Rightarrow> Inr s | Some v \<Rightarrow> Inl TypeError)"

definition bool_field :: "dict \<Rightarrow> string \<Rightarrow> bool result" where
  "bool_field d k = (case map_of d k of None \<Rightarrow> Inl KeyError | Some v \<Rightarrow> Inr (truthy v))"

definition feed_item_of :: "string \<Rightarrow> int \<Rightarrow> string \<Rightarrow> json \<Rightarrow> dict result" where
  "feed_item_of feed_id timestamp run_id v =
     (case v of
        JObj d \<Rightarrow>
          bind_result (str_field d ''lane'') (\<lambda>ln.
          bind_result (str_field d ''title'') (\<lambda>ti.
          bind_result (str_field d ''bluf'') (\<lambda>bl.
          bind_result (str_field d ''body'') (\<lambda>bo.
          bind_result (str_field d ''source_url'') (\<lambda>su.
          bind_result (str_field d ''thread_key'') (\<lambda>tk.
          bind_result (bool_field d ''is_update'') (\<lambda>iu.
          bind_result (str_field d ''update_of'') (\<lambda>uo.
          bind_result (str_field d ''change_summary'') (\<lambda>cs.
          bind_result (str_field d ''confidence'') (\<lambda>co.
          bind_result (str_field d ''confidence_reason'') (\<lambda>cr.
            Inr (new_feed_item feed_id timestamp run_id
              \<lparr>lane = ln, ftitle = ti, bluf = bl, body = bo, fsource_url = su, thread_key = tk,
               is_update = iu, update_of = uo, fchange_summary = cs, confidence = co,
               confidence_reason = cr\<rparr>))))))))))))
      | _ \<Rightarrow> Inl TypeError)"

fun feed_items_loop ::
  "(nat \<Rightarrow> string \<times> int) \<Rightarrow> nat \<Rightarrow> string \<Rightarrow> json list \<Rightarrow> dict list result" where
  "feed_items_loop draw i run_id [] = Inr []"
| "feed_items_loop draw i run_id (v # vs) =
     bind_result (feed_item_of (fst (draw i)) (snd (draw i)) run_id v) (\<lambda>d.
       bind_result (feed_items_loop draw (Suc i) run_id vs) (\<lambda>ds. Inr (d # ds)))"

definition feed_items_from_output ::
  "(nat \<Rightarrow> string \<times> int) \<Rightarrow> string \<Rightarrow> dict \<Rightarrow> dict list result" where
  "feed_items_from_output draw run_id output =
     (case map_of output ''feed_items'' of
        None \<Rightarrow> Inl KeyError
      | Some v \<Rightarrow> bind_result (iterate v) (feed_items_loop draw 0 run_id))"

section \<open>Facts\<close>

lemma text_field_str: "text_field n d k \<Longrightarrow> \<exists>s. str_field d k = Inr s \<and> length s \<le> n"
  by (auto simp: text_field_def str_field_def split: option.splits json.splits)

lemma required_text_str:
  "required_text n d k \<Longrightarrow> \<exists>s. str_field d k = Inr s \<and> length s \<le> n \<and> s \<noteq> []"
  by (auto simp: required_text_def str_field_def split: option.splits json.splits)

lemma literal_field_str: "literal_field opts d k \<Longrightarrow> \<exists>s. str_field d k = Inr s \<and> s \<in> set opts"
  by (auto simp: literal_field_def str_field_def split: option.splits json.splits)

lemma item_ok_record:
  assumes "item_ok v"
  shows "\<exists>f. feed_item_of i t run_id v = Inr (new_feed_item i t run_id f)
    \<and> lane f \<in> {''known'', ''adjacent'', ''scout''} \<and> ftitle f \<noteq> [] \<and> length (ftitle f) \<le> 160"
proof -
  from assms obtain d where v: "v = JObj d" by (auto simp: item_ok_def split: json.splits)
  from assms obtain b where b: "bool_field d ''is_update'' = Inr b"
    by (auto simp: v item_ok_def bool_field_def split: option.splits)
  from assms obtain ln ti bl bo su tk uo cs co cr where
    "str_field d ''lane'' = Inr ln" "ln \<in> set [''known'', ''adjacent'', ''scout'']"
    "str_field d ''title'' = Inr ti" "ti \<noteq> []" "length ti \<le> 160" "str_field d ''bluf'' = Inr bl"
    "str_field d ''body'' = Inr bo" "str_field d ''source_url'' = Inr su"
    "str_field d ''thread_key'' = Inr tk" "str_field d ''update_of'' = Inr uo"
    "str_field d ''change_summary'' = Inr cs" "str_field d ''confidence'' = Inr co"
    "str_field d ''confidence_reason'' = Inr cr"
    unfolding v item_ok_def
    by (auto dest!: text_field_str required_text_str literal_field_str)
  with b show ?thesis by (auto simp: v feed_item_of_def)
qed

lemma items_ok_records:
  "list_all item_ok vs \<Longrightarrow>
     \<exists>ds. feed_items_loop draw i run_id vs = Inr ds \<and> length ds = length vs
       \<and> (\<forall>d \<in> set ds. dict_get d ''runId'' = JStr run_id)"
proof (induction vs arbitrary: i)
  case (Cons v vs)
  then obtain f where f: "feed_item_of (fst (draw i)) (snd (draw i)) run_id v
      = Inr (new_feed_item (fst (draw i)) (snd (draw i)) run_id f)"
    using item_ok_record by fastforce
  from Cons obtain ds where "feed_items_loop draw (Suc i) run_id vs = Inr ds"
    "length ds = length vs" "\<forall>d \<in> set ds. dict_get d ''runId'' = JStr run_id"
    by fastforce
  with f show ?case by (auto simp: new_feed_item_def dict_get_def)
qed simp

lemma first_valid_result:
  "first_valid loads validate cs = Some out \<Longrightarrow>
     \<exists>c \<in> set cs. \<exists>d. loads c = Some (JObj d) \<and> validate d = Some out"
  by (induction cs) (auto split: option.splits json.splits)

lemma truncation_marker_length: "length truncation_marker = 15"
  by (simp add: truncation_marker_def)

lemma bounded_text_le: "length (bounded_text v n) \<le> n"
  by (auto simp: bounded_text_def Let_def truncation_marker_length)

lemma coerce_loop_ids:
  "set (coerce_loop vs seen) \<subseteq> set SOURCE_POLICY_IDS - set seen \<and> distinct (coerce_loop vs seen)"
proof (induction vs arbitrary: seen)
  case (Cons v vs)
  let ?i = "lower (strip (py_str v))"
  from Cons [of seen] Cons [of "?i # seen"] show ?case
    by (auto simp: Let_def simp del: set_append)
qed simp

lemma lower_char_less: "lower_char c = CHR ''<'' \<longleftrightarrow> c = CHR ''<''"
proof (cases "is_upper_letter c")
  case True
  then have "code (lower_char c) = code c + 32" "code c + 32 \<ge> 97"
    by (auto simp: lower_char_def is_upper_letter_def code_def)
  moreover have "code (CHR ''<'') = 60" by (simp add: code_def)
  ultimately have "lower_char c \<noteq> CHR ''<''" by auto
  with True show ?thesis by (auto simp: is_upper_letter_def code_def)
next
  case False
  then show ?thesis by (simp add: lower_char_def)
qed

lemma open_think_other: "c \<noteq> CHR ''<'' \<Longrightarrow> open_think (c # cs) = None"
  by (simp add: open_think_def lower_def lower_char_less)

lemma at_close_other: "c \<noteq> CHR ''<'' \<Longrightarrow> at_close (c # cs) = None"
  by (simp add: at_close_def lower_def lower_char_less)

lemma strip_think_prefix: "CHR ''<'' \<notin> set a \<Longrightarrow> strip_think (a @ s) = a @ strip_think s"
  by (induction a) (auto simp: open_think_other)

lemma find_close_prefix: "CHR ''<'' \<notin> set a \<Longrightarrow> find_close (a @ s) = find_close s"
  by (induction a) (auto simp: at_close_other)

lemma strip_think_block:
  "CHR ''<'' \<notin> set b \<Longrightarrow> strip_think (''<think>'' @ b @ ''</think>'' @ s) = strip_think s"
proof -
  assume b: "CHR ''<'' \<notin> set b"
  have "at_close (''</think>'' @ s) = Some s"
    by (simp add: at_close_def lower_def lower_char_def is_upper_letter_def code_def is_space_def Let_def)
  then have "find_close (b @ ''</think>'' @ s) = Some s"
    unfolding find_close_prefix [OF b] by simp
  moreover have "open_think (''<think>'' @ b @ ''</think>'' @ s) = Some (b @ ''</think>'' @ s)"
    by (simp add: open_think_def lower_def lower_char_def is_upper_letter_def code_def)
  ultimately show ?thesis by simp
qed

lemma load_loop_stable:
  "load_loop u fenced ws s r = (Inr w, r') \<Longrightarrow> \<forall>(n, seed) \<in> set ws. seed \<noteq> [] \<Longrightarrow>
     (\<forall>k t. texts r k = Some t \<longrightarrow> texts r' k = Some t)
     \<and> map fst w = map fst ws
     \<and> (\<forall>(n, t) \<in> set w. texts r' (workspace_key u n) = Some t)"
proof (induction ws arbitrary: r w)
  case (Cons p ws)
  obtain n seed where p: "p = (n, seed)" by (cases p)
  from Cons.prems obtain r1 t w' where
    h: "load_loop u fenced ws s r1 = (Inr w', r')" "w = (n, t) # w'"
    and r1: "\<forall>k t. texts r k = Some t \<longrightarrow> texts r1 k = Some t"
      "texts r1 (workspace_key u n) = Some t"
    by (auto simp: p get_text_def set_text_def Let_def split: option.splits prod.splits sum.splits if_splits)
  from Cons.IH [OF h(1)] Cons.prems(2) h(2) r1 show ?case by (auto simp: p)
qed simp

lemma load_loop_unfenced: "\<exists>w r'. load_loop u False ws s r = (Inr w, r')"
proof (induction ws arbitrary: r)
  case (Cons p ws)
  obtain n seed where p: "p = (n, seed)" by (cases p)
  obtain t r1 where t: "(case get_text (workspace_key u n) r of
      Some current \<Rightarrow> (Inr current, r)
    | None \<Rightarrow> if seed = [] then (Inr seed, r)
        else (case set_text (workspace_key u n) seed False s r of
                (Inl e, r1) \<Rightarrow> (Inl e, r1) | (Inr _, r1) \<Rightarrow> (Inr seed, r1)))
    = (Inr t :: string result, r1)"
    by (cases "get_text (workspace_key u n) r"; cases "seed = []") (auto simp: set_text_def Let_def)
  from Cons [of r1] show ?case by (auto simp: p t Let_def)
qed simp

section \<open>Properties\<close>


definition sample_output :: dict where
  "sample_output =
     [(''summary'', JStr ''s''), (''executive_summary'', JStr []), (''feed_items'', JList []),
      (''workspace_updates'', JObj [(''heartbeat'', JStr []), (''interests'', JStr []), (''user'', JStr []),
         (''inner_state'', JStr []), (''memory'', JStr [])]),
      (''self_reflection'', JStr [])]"


text \<open>Reasoning is not parsed: a reasoning block disappears from the text in which candidates are
  looked for, together with everything inside it, wherever it stands; what follows it is treated the
  same way.\<close>

theorem reasoning_removed:
  assumes "CHR ''<'' \<notin> set a" and "CHR ''<'' \<notin> set b"
  shows "strip_reasoning (a @ ''<think>'' @ b @ ''</think>'' @ c) = strip (a @ strip_think c)
    \<and> (CHR ''<'' \<notin> set c \<longrightarrow>
         parse_structured_output loads validate (a @ ''<think>'' @ b @ ''</think>'' @ c)
         = parse_structured_output loads validate (a @ c))"
proof -
  have e: "strip_think (a @ ''<think>'' @ b @ ''</think>'' @ c) = a @ strip_think c"
    using strip_think_prefix [OF assms(1)] strip_think_block [OF assms(2)] by simp
  moreover have "strip_think (a @ c) = a @ c" "strip_think c = c" if "CHR ''<'' \<notin> set c"
    using that assms(1) strip_think_prefix [of "a @ c" "[]"] strip_think_prefix [of c "[]"] by simp_all
  ultimately show ?thesis by (simp add: parse_structured_output_def strip_reasoning_def)
qed

theorem reasoning_removed_witness:
  "strip_reasoning (''x'' @ ''<think>'' @ ''secret'' @ ''</think>'' @ ''y'') = ''xy''"
  using reasoning_removed [of "''x''" "''secret''" "''y''"]
  by (simp add: open_think_other strip_def lstrip_def rstrip_while_def is_space_def code_def Let_def)

text \<open>The context of a run is bounded whatever is stored: every workspace section of the prompt has
  at most 2500 characters, the source policy names known sources once, allows 1 to 20 research calls
  if it sets a limit, and never asks an unattended run to wait for a plan approval.\<close>

theorem context_bounded:
  "length (bounded_workspace workspace name) \<le> 2500
   \<and> (\<forall>p. run_source_policy config = Inr p \<longrightarrow>
        require_plan_approval p = Some False
        \<and> set (enabled_sources p) \<union> set (disabled_sources p) \<subseteq> set SOURCE_POLICY_IDS
        \<and> distinct (enabled_sources p) \<and> distinct (disabled_sources p)
        \<and> (\<forall>n. max_research_calls p = Some n \<longrightarrow> 1 \<le> n \<and> n \<le> 20)
        \<and> length (policy_notes p) \<le> 500)"
proof -
  have ids: "set (coerce_source_ids v) \<subseteq> set SOURCE_POLICY_IDS \<and> distinct (coerce_source_ids v)" for v
    using coerce_loop_ids [of "as_list v" "[]"] by (auto simp: coerce_source_ids_def)
  have s: "set (enabled_sources p) \<union> set (disabled_sources p) \<subseteq> set SOURCE_POLICY_IDS
      \<and> distinct (enabled_sources p) \<and> distinct (disabled_sources p)
      \<and> (\<forall>n. max_research_calls p = Some n \<longrightarrow> 1 \<le> n \<and> n \<le> 20) \<and> length (policy_notes p) \<le> 500"
    if "sanitize_source_policy v = Inr p" for v p
    using that
    by (cases v) (auto simp: sanitize_source_policy_def bind_result_Inr ids [THEN conjunct1, THEN subsetD]
        ids [THEN conjunct2] split: if_splits)
  have "length (bounded_workspace workspace name) \<le> 2500"
    by (simp add: bounded_workspace_def bounded_text_le)
  then show ?thesis using s by (simp add: run_source_policy_def bind_result_Inr) fastforce
qed

theorem context_bounded_witness:
  "\<exists>p. run_source_policy [(''sourcePolicy'', JObj [(''requirePlanApproval'', JBool True),
      (''maxResearchToolCalls'', JInt 99)])] = Inr p
    \<and> require_plan_approval p = Some False \<and> max_research_calls p = Some 20"
proof -
  let ?c = "[(''sourcePolicy'', JObj [(''requirePlanApproval'', JBool True), (''maxResearchToolCalls'', JInt 99)])]"
  obtain p where p: "run_source_policy ?c = Inr p" "max_research_calls p = Some 20"
    by (simp add: run_source_policy_def sanitize_source_policy_def dict_get_def)
  from context_bounded [where config = ?c] p show ?thesis by blast
qed

text \<open>Loading the workspace is stable: it never changes a stored note, seeds exactly the missing
  ones, and loading again gives the same notes and writes nothing.\<close>

theorem load_workspace_stable:
  assumes "load_workspace u fenced s r = (Inr w, r')"
  shows "(\<forall>k t. texts r k = Some t \<longrightarrow> texts r' k = Some t)
    \<and> map fst w = map fst DEFAULT_WORKSPACE
    \<and> load_workspace u fenced' s' r' = (Inr w, r')"
proof -
  have again: "load_loop u fenced' ws s' r'' = (Inr w'', r'')"
    if "map fst w'' = map fst ws" "\<forall>(n, t) \<in> set w''. texts r'' (workspace_key u n) = Some t"
    for w'' ws r''
    using that
    by (induction ws arbitrary: w'') (auto simp: get_text_def)
  have "\<forall>(n, seed) \<in> set DEFAULT_WORKSPACE. seed \<noteq> []"
    by (simp add: DEFAULT_WORKSPACE_def lines_text_def)
  from load_loop_stable [OF assms [unfolded load_workspace_def] this]
  have l: "\<forall>k t. texts r k = Some t \<longrightarrow> texts r' k = Some t" "map fst w = map fst DEFAULT_WORKSPACE"
    "\<forall>(n, t) \<in> set w. texts r' (workspace_key u n) = Some t"
    by simp_all
  with again [OF l(2,3)] show ?thesis by (simp add: load_workspace_def)
qed

theorem load_workspace_stable_witness:
  "\<exists>w r'. load_workspace ''u'' False empty_store empty_redis = (Inr w, r')
    \<and> load_workspace ''u'' True empty_store r' = (Inr w, r')"
proof -
  obtain w r' where h: "load_workspace ''u'' False empty_store empty_redis = (Inr w, r')"
    using load_loop_unfenced unfolding load_workspace_def by blast
  from load_workspace_stable [OF h] h show ?thesis by blast
qed

end
