(* ===== verification/Goal_Selection.thy ===== *)
theory Goal_Selection
  imports Py_Values
begin

text \<open>
  Which goal a scheduled run works on
  (\<open>builder/autonomous_agent/src/autonomous_agent/worker.py\<close>: \<open>_goal_cadence_ms\<close> and
  \<open>select_scheduled_goal\<close>). Goals are decoded JSON; a rank is the tuple of floats that the code
  compares, and \<open>max\<close> keeps the first item of greatest rank.
\<close>

section \<open>Cadence\<close>

text \<open>\<open>^cadence:(\d+)([hd])$\<close> on stripped text, without regard to case.\<close>

definition cadence_of_tag :: "string \<Rightarrow> (string \<times> bool) option" where
  "cadence_of_tag t =
     (let rest = drop 8 t; ds = takeWhile is_digit rest; unit = lower (dropWhile is_digit rest) in
      if lower (take 8 t) = ''cadence:'' \<and> ds \<noteq> [] \<and> (unit = ''h'' \<or> unit = ''d'')
      then Some (ds, unit = ''d'') else None)"

fun cadence_loop :: "json list \<Rightarrow> int result" where
  "cadence_loop [] = Inr (24 * 3600000)"
| "cadence_loop (tag # tags) =
     (case cadence_of_tag (strip (py_str tag)) of
        None \<Rightarrow> cadence_loop tags
      | Some (ds, days) \<Rightarrow>
          (case int_of_text ds of
             None \<Rightarrow> Inl (ValueError ''Exceeds the limit for integer string conversion'')
           | Some n \<Rightarrow> Inr (max 1 n * (if days then 24 else 1) * 3600000)))"

definition goal_cadence_ms :: "dict \<Rightarrow> int result" where
  "goal_cadence_ms goal =
     bind_result (iterate (py_or (dict_get goal ''tags'') (JList []))) cadence_loop"

section \<open>Ranking\<close>

type_synonym rank = "pyfloat list"

definition goal_priority :: "dict \<Rightarrow> pyfloat result" where
  "goal_priority goal =
     (case py_float (dict_get goal ''priority'') of
        Inl TypeError \<Rightarrow> Inr (Finite 3 [])
      | Inl (ValueError m) \<Rightarrow> Inr (Finite 3 [])
      | res \<Rightarrow> res)"

text \<open>\<open>isinstance(last_run, (int, float)) and last_run > 0\<close>, or not comparable.\<close>

definition last_run :: "dict \<Rightarrow> json option" where
  "last_run goal =
     (case number_of (dict_get goal ''lastRunAt'') of
        None \<Rightarrow> None
      | Some x \<Rightarrow> if float_le x (Finite 0 []) then None else Some (dict_get goal ''lastRunAt''))"

definition goal_rank :: "int \<Rightarrow> nat \<Rightarrow> dict \<Rightarrow> rank result" where
  "goal_rank timestamp index goal =
     bind_result (goal_priority goal) (\<lambda>priority.
       let tail = [float_neg priority, Finite (- of_nat index) []] in
       case last_run goal of
         None \<Rightarrow> Inr (Finite 1 [] # Finite 0 [] # tail)
       | Some v \<Rightarrow>
           bind_result (py_float v) (\<lambda>last.
             bind_result (goal_cadence_ms goal) (\<lambda>cadence.
               bind_result (float_of_int cadence) (\<lambda>c.
                 Inr (Finite 0 [] # float_div (float_sub (of_int timestamp) last) (of_int cadence) # tail)))))"

fun rank_greater :: "rank \<Rightarrow> rank \<Rightarrow> bool" where
  "rank_greater (x # xs) (y # ys) = (if float_eq x y then rank_greater xs ys else float_less y x)"
| "rank_greater _ _ = False"

section \<open>Selection\<close>

definition is_active_goal :: "json \<Rightarrow> bool" where
  "is_active_goal g =
     (case g of
        JObj d \<Rightarrow> dict_get_default d ''status'' (JStr ''active'') = JStr ''active''
      | _ \<Rightarrow> False)"

fun goal_dict :: "json \<Rightarrow> dict" where
  "goal_dict (JObj d) = d"
| "goal_dict _ = []"

definition active_goals :: "json list \<Rightarrow> (nat \<times> dict) list" where
  "active_goals goals =
     map (\<lambda>(i, g). (i, goal_dict g)) (filter (\<lambda>(i, g). is_active_goal g) (List.enumerate 0 goals))"

fun best_goal ::
  "int \<Rightarrow> (nat \<times> dict) list \<Rightarrow> (dict \<times> rank) option \<Rightarrow> (dict \<times> rank) option result" where
  "best_goal timestamp [] best = Inr best"
| "best_goal timestamp ((i, goal) # rest) best =
     bind_result (goal_rank timestamp i goal) (\<lambda>r.
       best_goal timestamp rest
         (case best of
            None \<Rightarrow> Some (goal, r)
          | Some (b, rb) \<Rightarrow> if rank_greater r rb then Some (goal, r) else Some (b, rb)))"

definition select_scheduled_goal :: "int \<Rightarrow> json list \<Rightarrow> dict option result" where
  "select_scheduled_goal timestamp goals =
     bind_result (best_goal timestamp (active_goals goals) None) (\<lambda>best.
       Inr (case best of
              None \<Rightarrow> None
            | Some (goal, r) \<Rightarrow>
                if \<not> float_eq (r ! 0) (Finite 0 []) \<or> float_le (Finite 1 []) (r ! 1)
                then Some goal else None))"

section \<open>Facts\<close>

lemma cadence_loop_pos: "cadence_loop tags = Inr c \<Longrightarrow> c \<ge> 3600000"
  by (induction tags) (auto split: option.splits prod.splits)

lemma goal_cadence_pos: "goal_cadence_ms g = Inr c \<Longrightarrow> c \<ge> 3600000"
  by (auto simp: goal_cadence_ms_def bind_result_Inr cadence_loop_pos)

lemma goal_rank_never:
  "goal_rank t i g = Inr r \<Longrightarrow> last_run g = None \<Longrightarrow> r ! 0 = Finite 1 []"
  by (auto simp: goal_rank_def bind_result_Inr Let_def)

lemma goal_rank_shape:
  "goal_rank t i g = Inr r \<Longrightarrow>
     \<exists>x o1 tl. r = x # o1 # tl \<and> (x = Finite 1 [] \<and> last_run g = None \<or> x = Finite 0 [] \<and> last_run g \<noteq> None)"
  by (auto simp: goal_rank_def bind_result_Inr Let_def split: option.splits)

lemma rank_greater_first:
  "rank_greater (x # xs) (y # ys) \<Longrightarrow> x = Finite 0 [] \<Longrightarrow> y = Finite 1 [] \<Longrightarrow> False"
  by simp

text \<open>The goal kept so far is one of those seen, and is a never-run one as soon as one was seen.\<close>

definition keeps :: "int \<Rightarrow> dict set \<Rightarrow> (dict \<times> rank) option \<Rightarrow> bool" where
  "keeps t seen best \<longleftrightarrow>
     (case best of
        None \<Rightarrow> seen = {}
      | Some (g, r) \<Rightarrow> g \<in> seen \<and> (\<exists>i. goal_rank t i g = Inr r)
          \<and> ((\<exists>g' \<in> seen. last_run g' = None) \<longrightarrow> last_run g = None))"

lemma best_goal_keeps:
  "best_goal t xs best = Inr res \<Longrightarrow> keeps t seen best \<Longrightarrow> keeps t (seen \<union> snd ` set xs) res"
proof (induction xs arbitrary: best seen)
  case Nil
  then show ?case by simp
next
  case (Cons p xs)
  obtain i g where p: "p = (i, g)" by (cases p)
  from Cons.prems(1) obtain r where r: "goal_rank t i g = Inr r"
    and rest: "best_goal t xs (case best of None \<Rightarrow> Some (g, r)
        | Some (b, rb) \<Rightarrow> if rank_greater r rb then Some (g, r) else Some (b, rb)) = Inr res"
    by (auto simp: p bind_result_Inr)
  have "keeps t (insert g seen) (case best of None \<Rightarrow> Some (g, r)
        | Some (b, rb) \<Rightarrow> if rank_greater r rb then Some (g, r) else Some (b, rb))"
  proof (cases best)
    case None
    with Cons.prems(2) r show ?thesis by (auto simp: keeps_def)
  next
    case (Some q)
    obtain b rb where q: "q = (b, rb)" by (cases q)
    from Cons.prems(2) Some q obtain k where k: "goal_rank t k b = Inr rb" by (auto simp: keeps_def)
    from goal_rank_shape [OF r] goal_rank_shape [OF k] Some q Cons.prems(2) r k
    show ?thesis by (auto simp: keeps_def)
  qed
  from Cons.IH [OF rest this] show ?case by (simp add: p)
qed

lemma active_goals_set: "snd ` set (active_goals goals) = goal_dict ` {v \<in> set goals. is_active_goal v}"
proof -
  have "map snd (map (\<lambda>(i, g). (i, goal_dict g)) (filter (\<lambda>(i, g). is_active_goal g) (List.enumerate n goals)))
      = map goal_dict (filter is_active_goal goals)" for n
    by (induction goals arbitrary: n) auto
  from this [of 0] have "map snd (active_goals goals) = map goal_dict (filter is_active_goal goals)"
    by (simp add: active_goals_def)
  from arg_cong [OF this, of set] show ?thesis by simp
qed

section \<open>Properties\<close>

text \<open>Goal selection: the chosen goal is an active goal of the list; while some active goal never
  ran, the chosen goal is such a goal; and a goal that ran is chosen only when at least its whole
  cadence (one hour or more) has passed since, so that the slots in between stay free for discovery.\<close>

theorem goal_selection:
  assumes "select_scheduled_goal t goals = Inr (Some g)"
  shows "(\<exists>v \<in> set goals. is_active_goal v \<and> g = goal_dict v)
    \<and> ((\<exists>v \<in> set goals. is_active_goal v \<and> last_run (goal_dict v) = None) \<longrightarrow> last_run g = None)
    \<and> (\<forall>v q s. last_run g = Some v \<and> py_float v = Inr (Finite q s) \<longrightarrow>
         (\<exists>c \<ge> 3600000. goal_cadence_ms g = Inr c \<and> of_int t - q \<ge> of_int c))"
proof -
  from assms obtain r where b: "best_goal t (active_goals goals) None = Inr (Some (g, r))"
    and due: "\<not> float_eq (r ! 0) (Finite 0 []) \<or> float_le (Finite 1 []) (r ! 1)"
    by (auto simp: select_scheduled_goal_def bind_result_Inr split: option.splits if_splits prod.splits)
  from best_goal_keeps [OF b, of "{}"] have k: "keeps t (snd ` set (active_goals goals)) (Some (g, r))"
    by (simp add: keeps_def)
  then obtain i where i: "goal_rank t i g = Inr r" by (auto simp: keeps_def)
  have "\<exists>c \<ge> 3600000. goal_cadence_ms g = Inr c \<and> of_int t - q \<ge> of_int c"
    if v: "last_run g = Some v" "py_float v = Inr (Finite q s)" for v q s
  proof -
    from i v obtain c where c: "goal_cadence_ms g = Inr c" "r ! 0 = Finite 0 []"
      "r ! 1 = Finite ((of_int t - q) / of_int c) []"
      by (auto simp: goal_rank_def bind_result_Inr Let_def)
    from goal_cadence_pos [OF c(1)] have "c \<ge> 3600000" .
    moreover from due c have "(of_int t - q) / of_int c \<ge> 1" by (auto simp: float_le_def)
    ultimately show ?thesis using c(1) by (auto simp: le_divide_eq)
  qed
  with k show ?thesis
    unfolding active_goals_set keeps_def by auto
qed

definition sample_goals :: "json list" where
  "sample_goals =
     [JObj [(''id'', JStr ''a''), (''lastRunAt'', JInt 5)], JObj [(''id'', JStr ''b''), (''priority'', JInt 1)]]"

theorem goal_selection_witness:
  "\<exists>g. select_scheduled_goal 10 sample_goals = Inr (Some g) \<and> last_run g = None"
proof -
  let ?g = "[(''id'', JStr ''b''), (''priority'', JInt 1)]"
  have h: "select_scheduled_goal 10 sample_goals = Inr (Some ?g)" by code_simp
  have "JObj ?g \<in> set sample_goals" "is_active_goal (JObj ?g)" "last_run (goal_dict (JObj ?g)) = None"
    by (simp_all add: sample_goals_def is_active_goal_def dict_get_default_def last_run_def dict_get_def)
  with goal_selection [OF h] h show ?thesis by blast
qed

end
