(* ===== verification/Autonomy_Worker.thy ===== *)
theory Autonomy_Worker
  imports Agent_Output Goal_Selection
begin

text \<open>
  The autonomous worker (\<open>builder/autonomous_agent/src/autonomous_agent/worker.py\<close>): one run with
  all its exits, the lease heartbeat, the validated timing configuration and one iteration of the
  main loop.

  A run is a sequence of calls. The state of a run holds the keys, what the store object remembers,
  the mutable run record, and the backend calls made. The environment of a run says, call by call,
  what others did since the previous call (\<open>gaps\<close>), the \<open>world\<close> of the call
  (clock, identifiers, interference inside its transaction) and whether the abort event was set.
  The backend, \<open>json.loads\<close>, the output validator, SHA-1, the instruction text and the text of an
  exception are parts of the environment.
\<close>

section \<open>Workspace updates\<close>

fun apply_loop ::
  "string \<Rightarrow> bool \<Rightarrow> dict \<Rightarrow> store \<Rightarrow> redis \<Rightarrow> string list result \<times> redis" where
  "apply_loop user_id require_lease [] s r = (Inr [], r)"
| "apply_loop user_id require_lease ((name, content) # rest) s r =
     (if name \<notin> set [''heartbeat'', ''interests'', ''user'', ''inner_state'', ''memory'']
      then apply_loop user_id require_lease rest s r
      else case content of
        JStr c \<Rightarrow>
          if strip c = [] then apply_loop user_id require_lease rest s r
          else
            let key = workspace_key user_id name in
            if get_text key r = Some (strip c) then apply_loop user_id require_lease rest s r
            else (case set_text key (strip c) require_lease s r of
                    (Inl e, r1) \<Rightarrow> (Inl e, r1)
                  | (Inr _, r1) \<Rightarrow>
                      (case apply_loop user_id require_lease rest s r1 of
                         (Inl e, r2) \<Rightarrow> (Inl e, r2)
                       | (Inr changed, r2) \<Rightarrow> (Inr (name # changed), r2)))
      | _ \<Rightarrow> apply_loop user_id require_lease rest s r)"

definition apply_workspace_updates ::
  "string \<Rightarrow> dict \<Rightarrow> bool \<Rightarrow> store \<Rightarrow> redis \<Rightarrow> string list result \<times> redis" where
  "apply_workspace_updates user_id output require_lease s r =
     (case dict_get output ''workspace_updates'' of
        JObj updates \<Rightarrow> apply_loop user_id require_lease updates s r
      | _ \<Rightarrow> (Inr [], r))"

section \<open>State and environment of a run\<close>

type_synonym messages = "(string \<times> string) list"

record run_state =
  db :: redis
  mem :: store
  tick :: nat
  run_doc :: dict
  dispatched :: "(messages \<times> string) list"

record run_env =
  worlds :: "nat \<Rightarrow> world"
  gaps :: "nat \<Rightarrow> store \<Rightarrow> redis \<Rightarrow> store \<times> redis"
  supervised :: bool
  abort_set :: "nat \<Rightarrow> bool"
  shutdown :: bool
  backend :: "messages \<Rightarrow> string \<Rightarrow> string result"
  loads :: "string \<Rightarrow> json option"
  validate :: "dict \<Rightarrow> dict option"
  sha1 :: "string \<Rightarrow> string"
  prompt :: prompt_env
  describe :: "py_error \<Rightarrow> string"

type_synonym 'a action = "run_state \<Rightarrow> 'a result \<times> run_state"

definition pass :: "'a \<Rightarrow> 'a action" where
  "pass x st = (Inr x, st)"

definition raise :: "py_error \<Rightarrow> 'a action" where
  "raise e st = (Inl e, st)"

definition bind_act :: "'a action \<Rightarrow> ('a \<Rightarrow> 'b action) \<Rightarrow> 'b action" where
  "bind_act m f st = (case m st of (Inl e, st') \<Rightarrow> (Inl e, st') | (Inr x, st') \<Rightarrow> f x st')"

definition catch :: "'a action \<Rightarrow> (py_error \<Rightarrow> 'a action) \<Rightarrow> 'a action" where
  "catch m h st = (case m st of (Inl e, st') \<Rightarrow> h e st' | (Inr x, st') \<Rightarrow> (Inr x, st'))"

text \<open>A call of the store: other clients (and the heartbeat thread, which shares the store object) act,
  then the call runs in its world.\<close>

definition call_store ::
  "run_env \<Rightarrow> (world \<Rightarrow> store \<Rightarrow> redis \<Rightarrow> 'a result \<times> store \<times> redis) \<Rightarrow> 'a action" where
  "call_store E f st =
     (case gaps E (tick st) (mem st) (db st) of
        (s, r) \<Rightarrow>
          (case f (worlds E (tick st)) s r of
             (res, s', r') \<Rightarrow> (res, st\<lparr>mem := s', db := r', tick := Suc (tick st)\<rparr>)))"

definition call ::
  "run_env \<Rightarrow> (world \<Rightarrow> store \<Rightarrow> redis \<Rightarrow> 'a result \<times> redis) \<Rightarrow> 'a action" where
  "call E f = call_store E (\<lambda>W s r. case f W s r of (res, r') \<Rightarrow> (res, s, r'))"

definition query :: "run_env \<Rightarrow> (world \<Rightarrow> store \<Rightarrow> redis \<Rightarrow> 'a result) \<Rightarrow> 'a action" where
  "query E f = call E (\<lambda>W s r. (f W s r, r))"

definition clock :: "run_env \<Rightarrow> run_state \<Rightarrow> int" where
  "clock E st = now (worlds E (tick st))"

definition set_run :: "string \<Rightarrow> json \<Rightarrow> run_state \<Rightarrow> run_state" where
  "set_run k v st = st\<lparr>run_doc := dict_set k v (run_doc st)\<rparr>"

definition set_metric :: "string \<Rightarrow> json \<Rightarrow> run_state \<Rightarrow> run_state" where
  "set_metric k v st =
     set_run ''metrics'' (JObj (dict_set k v (as_dict (dict_get (run_doc st) ''metrics'')))) st"

definition run_id :: "run_state \<Rightarrow> string" where
  "run_id st = text_of (dict_get (run_doc st) ''id'')"

definition save_run :: "run_env \<Rightarrow> string \<Rightarrow> unit action" where
  "save_run E u st =
     (case call E (\<lambda>W. upsert_run W 0 u (run_doc st)) st of
        (Inl e, st') \<Rightarrow> (Inl e, st')
      | (Inr run, st') \<Rightarrow> (Inr (), st'\<lparr>run_doc := run\<rparr>))"

definition note_event ::
  "run_env \<Rightarrow> string \<Rightarrow> string \<Rightarrow> string \<Rightarrow> string \<Rightarrow> dict \<Rightarrow> unit action" where
  "note_event E u event message level data st =
     call E (\<lambda>W. log_event W 0 u (run_id st) event message level data) st"

definition check_cancel :: "run_env \<Rightarrow> bool action" where
  "check_cancel E st = query E (\<lambda>W s r. Inr (cancel_requested (run_id st) r)) st"

section \<open>Starting a run\<close>

definition invalid_goal :: "dict \<Rightarrow> bool" where
  "invalid_goal request =
     (case dict_get request ''goalId'' of
        JNull \<Rightarrow> False | JStr s \<Rightarrow> strip s = [] | _ \<Rightarrow> True)"

definition strip_goal :: "dict \<Rightarrow> dict" where
  "strip_goal request =
     (case dict_get request ''goalId'' of
        JStr s \<Rightarrow> dict_set ''goalId'' (JStr (strip s)) request | _ \<Rightarrow> request)"

definition choose_goal ::
  "run_env \<Rightarrow> dict \<Rightarrow> bool \<Rightarrow> (dict \<times> json list option) action" where
  "choose_goal E request invalid =
     (if dict_get_default request ''trigger'' (JStr ''scheduled'') = JStr ''scheduled''
         \<and> \<not> truthy (dict_get request ''goalId'') \<and> \<not> invalid
      then bind_act (query E (\<lambda>W s. list_goals W)) (\<lambda>goals st.
        (case select_scheduled_goal (clock E st) goals of
           Inl e \<Rightarrow> (Inl e, st)
         | Inr (Some (kv # goal)) \<Rightarrow>
             (Inr (dict_set ''goalId'' (dict_get (kv # goal) ''id'') request, Some goals), st)
         | Inr _ \<Rightarrow> (Inr (request, Some goals), st)))
      else pass (request, None))"

definition begin_run :: "run_env \<Rightarrow> string \<Rightarrow> dict \<Rightarrow> unit action" where
  "begin_run E u request st =
     (let W = worlds E (tick st);
          run = new_run (ids W 0) (now W) u
            (text_of (py_or (dict_get request ''trigger'') (JStr ''manual'')))
            (dict_get request ''goalId'') (text_of (dict_get request ''prompt''))
            (text_of (py_or (dict_get request ''requestedBy'') (JStr ''worker'')));
          started = dict_set ''startedAt'' (JInt (now W)) (dict_set ''status'' (JStr ''running'') run)
      in bind_act (save_run E u) (\<lambda>_. note_event E u ''run_started'' ''Autonomous run started.'' ''info'' [])
           (st\<lparr>run_doc := started\<rparr>))"

section \<open>Before dispatch\<close>

fun any_goal :: "string \<Rightarrow> json list \<Rightarrow> bool result" where
  "any_goal goal_id [] = Inr False"
| "any_goal goal_id (JObj d # goals) =
     (if dict_get d ''id'' = JStr goal_id then Inr True else any_goal goal_id goals)"
| "any_goal goal_id (_ # goals) = Inl AttributeError"

definition goal_available :: "bool \<Rightarrow> string \<Rightarrow> json list \<Rightarrow> unit result" where
  "goal_available invalid goal_id goals =
     (let missing = Inl (ValueError ''The selected goal is no longer available.'') in
      if invalid then missing
      else if goal_id = [] then Inr ()
      else bind_result (any_goal goal_id goals) (\<lambda>found. if found then Inr () else missing))"

definition other_runs :: "string \<Rightarrow> json list \<Rightarrow> json list result" where
  "other_runs this runs =
     (if list_all is_dict runs
      then Inr (filter (\<lambda>x. dict_get (as_dict x) ''id'' \<noteq> JStr this) runs) else Inl AttributeError)"

definition lift :: "'a result \<Rightarrow> 'a action" where
  "lift res st = (res, st)"

definition gather ::
  "run_env \<Rightarrow> string \<Rightarrow> dict \<Rightarrow> bool \<Rightarrow> json list option \<Rightarrow> string \<Rightarrow> messages action" where
  "gather E u request invalid snapshot goal_id =
     bind_act (call E (\<lambda>W. get_config W 0 u)) (\<lambda>config.
     bind_act (case snapshot of Some goals \<Rightarrow> pass goals | None \<Rightarrow> query E (\<lambda>W s. list_goals W)) (\<lambda>goals.
     bind_act (lift (goal_available invalid goal_id goals)) (\<lambda>_.
     bind_act (call E (\<lambda>W. load_workspace u (supervised E))) (\<lambda>workspace.
     bind_act (query E (\<lambda>W s. list_runs W)) (\<lambda>runs.
     bind_act (\<lambda>st. (other_runs (run_id st) runs, st)) (\<lambda>recent_runs.
     bind_act (query E (\<lambda>W s. list_feed W (Some 120))) (\<lambda>recent_feed.
     bind_act (lift (build_exploration_context recent_runs recent_feed (dict_get request ''goalId'')))
       (\<lambda>e st.
          let st' = set_metric ''explorationLane'' (JStr (preferred_lane e))
                (set_metric ''explorationStep'' (JInt (int (step e))) st)
          in (build_messages (prompt E) (clock E st') u config workspace goals recent_runs recent_feed
                request e, st')))))))))"

text \<open>The dispatch: the abort check, the fence, the goal bookkeeping, then the backend call.\<close>

definition dispatch ::
  "run_env \<Rightarrow> string \<Rightarrow> dict \<Rightarrow> string \<Rightarrow> messages \<Rightarrow> string action" where
  "dispatch E u request goal_id msgs =
     (\<lambda>st. if supervised E \<and> abort_set E (tick st) then (Inl InterruptedBeforeDispatch, st)
           else
             bind_act (note_event E u ''backend_call'' ''Calling backend workflow.'' ''info'' []) (\<lambda>_.
             bind_act (call E (\<lambda>W. mark_backend_started)) (\<lambda>_.
             bind_act
               (\<lambda>st. if goal_id = [] then (Inr (), st)
                     else call E (\<lambda>W. mark_goal_run W 0 u goal_id
                        (case dict_get (run_doc st) ''startedAt'' of JInt t \<Rightarrow> t | _ \<Rightarrow> 0)
                        (supervised E)) st) (\<lambda>_ st.
                let execution_id = text_of (py_or (dict_get request ''id'') (dict_get (run_doc st) ''id'')) in
                (backend E msgs execution_id, st\<lparr>dispatched := dispatched st @ [(msgs, execution_id)]\<rparr>))))
             st)"

section \<open>After the answer\<close>

definition close_run ::
  "run_env \<Rightarrow> string \<Rightarrow> string \<Rightarrow> string \<Rightarrow> string \<Rightarrow> string \<Rightarrow> string \<Rightarrow> dict action" where
  "close_run E u status field message event level st =
     bind_act (save_run E u) (\<lambda>_.
       bind_act (note_event E u event message level []) (\<lambda>_ st'. (Inr (run_doc st'), st')))
       (set_run ''completedAt'' (JInt (clock E st)) (set_run field (JStr message) (set_run ''status'' (JStr status) st)))"

definition lost_lease_summary :: string where
  "lost_lease_summary = ''Run aborted after losing the worker lease.''"

definition publish_output :: "run_env \<Rightarrow> string \<Rightarrow> dict \<Rightarrow> dict action" where
  "publish_output E u output =
     bind_act (call E (\<lambda>W. apply_workspace_updates u output (supervised E))) (\<lambda>changed.
     bind_act (\<lambda>st. (feed_items_from_output (\<lambda>i. (ids (worlds E (tick st)) (Suc i), clock E st))
                       (run_id st) output, st)) (\<lambda>feed_items.
     bind_act (call E (\<lambda>W. append_feed_items (sha1 E) W 0 u (map JObj feed_items) (supervised E)))
       (\<lambda>stored st.
          let deduped = JInt (int (length feed_items - length stored));
              kept = JInt (int (length stored));
              updated = JList (map JStr changed);
              summary = text_of (py_or (dict_get output ''summary'') (dict_get output ''executive_summary''));
              st1 = set_run ''summary'' (JStr summary) (set_run ''status'' (JStr ''completed'') st);
              st2 = set_run ''feedItemIds'' (JList (map (\<lambda>i. dict_get i ''id'') stored)) st1;
              st3 = set_metric ''feedItemsDeduped'' deduped
                      (set_metric ''feedItemsStored'' kept (set_metric ''workspaceUpdated'' updated st2))
          in bind_act (save_run E u) (\<lambda>_.
               bind_act (note_event E u ''run_completed'' ''Autonomous run completed.'' ''info''
                   [(''feedItems'', kept), (''feedItemsDeduped'', deduped), (''workspaceUpdated'', updated)])
                 (\<lambda>_ st'. (Inr (run_doc st'), st')))
               (set_run ''completedAt'' (JInt (clock E st3)) st3))))"

text \<open>The cancellation flag is read first, then the lease.\<close>

definition finish_run :: "run_env \<Rightarrow> string \<Rightarrow> string \<Rightarrow> dict action" where
  "finish_run E u response =
     (\<lambda>st0. bind_act
        (check_cancel E) (\<lambda>cancelled. if cancelled
           then close_run E u ''cancelled'' ''summary'' ''Run cancelled after backend returned.''
                  ''run_cancelled'' ''warn''
           else bind_act
             (\<lambda>st. if supervised E
                   then query E (\<lambda>W s r. Inr (abort_set E (tick st) \<or> \<not> owns_lease s r)) st
                   else (Inr False, st))
             (\<lambda>lease_lost. if lease_lost
                then close_run E u ''aborted'' ''summary'' lost_lease_summary ''run_aborted'' ''warn''
                else bind_act (lift (parse_structured_output (loads E) (validate E) response))
                       (publish_output E u)))
        (set_metric ''responseChars'' (JInt (int (length response))) st0))"

section \<open>The exits of a run\<close>

definition on_interrupted :: "run_env \<Rightarrow> string \<Rightarrow> dict action" where
  "on_interrupted E u =
     bind_act (check_cancel E) (\<lambda>cancelled. if cancelled
       then close_run E u ''cancelled'' ''summary'' ''Run cancelled before its request reached the backend.''
              ''run_cancelled'' ''warn''
       else close_run E u ''aborted'' ''summary''
              ''Run was interrupted before its request reached the backend. The request will be queued again.''
              ''run_aborted'' ''warn'')"

definition on_run_aborted :: "run_env \<Rightarrow> string \<Rightarrow> string \<Rightarrow> dict action" where
  "on_run_aborted E u message =
     bind_act (check_cancel E) (\<lambda>cancelled st.
       let aborted = supervised E \<and> abort_set E (tick st) in
       if cancelled
       then close_run E u ''cancelled'' ''summary'' ''Run cancelled while the backend request was open.''
              ''run_cancelled'' ''warn'' st
       else if aborted \<and> shutdown E
       then close_run E u ''aborted'' ''summary''
              ''Run aborted because the worker was shutting down. Work that may have reached the backend will not be retried automatically.''
              ''run_aborted'' ''warn'' st
       else if aborted
       then close_run E u ''aborted'' ''summary'' lost_lease_summary ''run_aborted'' ''warn'' st
       else close_run E u ''failed'' ''summary'' ''Run stopped before the backend produced an answer.''
              ''run_failed'' ''error'' (set_run ''error'' (JStr message) st))"

definition on_error :: "run_env \<Rightarrow> string \<Rightarrow> py_error \<Rightarrow> dict action" where
  "on_error E u e =
     (case e of
        InterruptedBeforeDispatch \<Rightarrow> on_interrupted E u
      | WorkerLeaseLost \<Rightarrow> close_run E u ''aborted'' ''summary'' lost_lease_summary ''run_aborted'' ''warn''
      | RunAbortedError message \<Rightarrow> on_run_aborted E u message
      | ApprovalRequiredError \<Rightarrow>
          close_run E u ''failed'' ''error'' ''Autonomous runs cannot request user approval.''
            ''approval_blocked'' ''error''
      | OAuthRequiredError url oauth_state \<Rightarrow>
          close_run E u ''failed'' ''error'' ''Autonomous runs cannot use tools that require interactive OAuth.''
            ''oauth_blocked'' ''error''
      | _ \<Rightarrow> close_run E u ''failed'' ''error'' (describe E e) ''run_failed'' ''error'')"

definition run_body ::
  "run_env \<Rightarrow> string \<Rightarrow> dict \<Rightarrow> bool \<Rightarrow> json list option \<Rightarrow> dict action" where
  "run_body E u request invalid snapshot st =
     (let goal_id = strip (text_of (dict_get (run_doc st) ''goalId'')) in
      catch
        (bind_act (gather E u request invalid snapshot goal_id) (\<lambda>msgs.
         bind_act (dispatch E u request goal_id msgs) (finish_run E u)))
        (on_error E u) st)"

definition run_once :: "run_env \<Rightarrow> string \<Rightarrow> dict \<Rightarrow> dict action" where
  "run_once E u request0 =
     (let invalid = invalid_goal request0 in
      bind_act (choose_goal E (strip_goal request0) invalid) (\<lambda>(request, snapshot).
      bind_act (begin_run E u request) (\<lambda>_.
        run_body E u request invalid snapshot)))"

section \<open>Configuration of the worker\<close>

definition MAX_AUTONOMOUS_REQUEST_TIMEOUT_SECONDS :: int where
  "MAX_AUTONOMOUS_REQUEST_TIMEOUT_SECONDS = 6900"

definition env_int :: "string \<Rightarrow> string \<Rightarrow> string option \<Rightarrow> int result" where
  "env_int message def value =
     (case int_of_text (case value of None \<Rightarrow> def | Some t \<Rightarrow> t) of
        None \<Rightarrow> Inl (ValueError message) | Some i \<Rightarrow> Inr i)"

definition request_timeout_seconds :: "string option \<Rightarrow> int result" where
  "request_timeout_seconds raw =
     bind_result (env_int ''REQUEST_TIMEOUT must be an integer number of seconds'' ''3600'' raw) (\<lambda>t.
       if t \<le> 0 then Inl (ValueError ''REQUEST_TIMEOUT must be greater than zero'')
       else if t > MAX_AUTONOMOUS_REQUEST_TIMEOUT_SECONDS
       then Inl (ValueError ''REQUEST_TIMEOUT must be at most 6900 seconds so one run cannot wedge the worker queue'')
       else Inr t)"

definition worker_timing_seconds :: "string option \<Rightarrow> string option \<Rightarrow> (int \<times> int) result" where
  "worker_timing_seconds poll_env ttl_env =
     bind_result (env_int ''AUTONOMY_WORKER_POLL_INTERVAL must be an integer number of seconds'' ''10'' poll_env)
       (\<lambda>poll_interval.
     bind_result (env_int ''AUTONOMY_WORKER_LEASE_TTL must be an integer number of seconds'' ''60'' ttl_env)
       (\<lambda>ttl.
       if poll_interval \<le> 0
       then Inl (ValueError ''AUTONOMY_WORKER_POLL_INTERVAL must be greater than zero'')
       else if ttl \<le> poll_interval
       then Inl (ValueError ''AUTONOMY_WORKER_LEASE_TTL must be greater than AUTONOMY_WORKER_POLL_INTERVAL so an idle poll keeps the lease'')
       else Inr (poll_interval, ttl)))"

section \<open>The lease heartbeat\<close>

definition heartbeat_interval :: "int \<Rightarrow> int" where
  "heartbeat_interval ttl =
     max 1 (min 20 (if ttl div 3 = 0 then 1 else ttl div 3))"

datatype beat = Keep int | Abort

text \<open>
  One turn of the heartbeat thread after its wait: \<open>monotonic\<close> is the clock, \<open>next_refresh\<close> the time
  of the next refresh, and the two flags say that Redis raised in the refresh or in the poll of the
  cancellation flag.
\<close>

definition heartbeat_turn ::
  "int \<Rightarrow> bool \<Rightarrow> int \<Rightarrow> int \<Rightarrow> bool \<Rightarrow> bool \<Rightarrow> string \<Rightarrow> store \<Rightarrow> redis \<Rightarrow> beat \<times> store \<times> redis" where
  "heartbeat_turn ttl shutting_down monotonic next_refresh refresh_raises cancel_raises rid s r =
     (if shutting_down then (Abort, s, r)
      else
        let due = (monotonic \<ge> next_refresh);
            later = (if due then monotonic + heartbeat_interval ttl else next_refresh) in
        if due \<and> refresh_raises then (Abort, s, r)
        else
          let (ok, s1, r1) = (if due then refresh_lease ttl s r else (True, s, r)) in
          if \<not> ok then (Abort, s1, r1)
          else if rid \<noteq> [] \<and> \<not> cancel_raises \<and> cancel_requested rid r1 then (Abort, s1, r1)
          else (Keep later, s1, r1))"

definition run_with_lease_heartbeat :: "run_env \<Rightarrow> string \<Rightarrow> int \<Rightarrow> dict \<Rightarrow> dict action" where
  "run_with_lease_heartbeat E u ttl request =
     bind_act (call_store E (\<lambda>W s r. case refresh_lease ttl s r of (ok, s', r') \<Rightarrow> (Inr ok, s', r')))
       (\<lambda>ok. if ok then run_once (E\<lparr>supervised := True\<rparr>) u request
             else raise (RuntimeError ''worker lease was lost before the run started''))"

section \<open>The main loop\<close>

datatype outcome = NotAcquired | Idle | Finished dict | Failed py_error

definition serve_next :: "run_env \<Rightarrow> string \<Rightarrow> int \<Rightarrow> outcome action" where
  "serve_next E u ttl =
     bind_act (call_store E (\<lambda>W. reclaim_processing W 0 u)) (\<lambda>reclaimed.
     bind_act (call E (\<lambda>W. maybe_enqueue_scheduled W 0 u)) (\<lambda>scheduled.
     bind_act (call_store E (\<lambda>W. dequeue)) (\<lambda>request.
       case request of
         Some (kv # rest) \<Rightarrow>
           bind_act (run_with_lease_heartbeat E u ttl (kv # rest)) (\<lambda>run.
             if dict_get run ''status'' \<noteq> JStr ''aborted''
             then bind_act (call_store E (\<lambda>W s r. case complete s r of (ok, s', r') \<Rightarrow> (Inr ok, s', r')))
                    (\<lambda>_. pass (Finished run))
             else pass (Finished run))
       | _ \<Rightarrow>
           bind_act (call_store E (\<lambda>W s r. case refresh_lease ttl s r of (ok, s', r') \<Rightarrow> (Inr ok, s', r')))
             (\<lambda>ok. if ok then pass Idle
                   else raise (RuntimeError ''worker lease was lost while idle'')))))"

definition backoff :: "int \<Rightarrow> nat \<Rightarrow> int" where
  "backoff poll_interval consecutive_errors =
     min (max poll_interval 60) (poll_interval * 2 ^ (consecutive_errors - 1))"

text \<open>One turn of the loop: the outcome, the new error count, the seconds slept, and the state after
  the \<open>finally\<close> clause.\<close>

definition worker_turn ::
  "run_env \<Rightarrow> string \<Rightarrow> int \<Rightarrow> int \<Rightarrow> string \<Rightarrow> nat \<Rightarrow> run_state \<Rightarrow> outcome \<times> nat \<times> int \<times> run_state" where
  "worker_turn E u poll_interval ttl token consecutive_errors st =
     (case call_store E (\<lambda>W s r. case acquire_lease token ttl s r of (ok, s', r') \<Rightarrow> (Inr ok, s', r')) st of
        (Inr True, st1) \<Rightarrow>
          (case serve_next E u ttl st1 of
             (res, st2) \<Rightarrow>
               (case call_store E (\<lambda>W s r. case release_lease s r of (s', r') \<Rightarrow> (Inr (), s', r')) st2 of
                  (_, st3) \<Rightarrow>
                    (case res of
                       Inr out \<Rightarrow> (out, 0, 0, st3)
                     | Inl e \<Rightarrow>
                         (Failed e, Suc consecutive_errors,
                          backoff poll_interval (Suc consecutive_errors), st3))))
      | (_, st1) \<Rightarrow> (NotAcquired, consecutive_errors, poll_interval, st1))"

text \<open>The loop over a finite run of turns, each with its environment and lease token;
  \<open>run_once_only\<close> leaves after the first finished run.\<close>

fun main_loop ::
  "bool \<Rightarrow> string \<Rightarrow> int \<Rightarrow> int \<Rightarrow> (run_env \<times> string) list \<Rightarrow> nat \<Rightarrow> run_state \<Rightarrow> outcome list \<times> run_state" where
  "main_loop run_once_only u poll_interval ttl [] errors st = ([], st)"
| "main_loop run_once_only u poll_interval ttl ((E, token) # turns) errors st =
     (case worker_turn E u poll_interval ttl token errors st of
        (out, errors', slept, st') \<Rightarrow>
          if run_once_only \<and> (case out of Finished run \<Rightarrow> True | _ \<Rightarrow> False) then ([out], st')
          else (case main_loop run_once_only u poll_interval ttl turns errors' st' of
                  (outs, st'') \<Rightarrow> (out # outs, st'')))"

end
