(* ===== verification/Worker_Safety.thy ===== *)
theory Worker_Safety
  imports Autonomy_Worker
begin

text \<open>
  Safety of one run. The records of a run (documents, notes, notifications) cannot touch the queue,
  the phases or the lease. The locale \<open>record_invariant\<close> shows this once, for every invariant that
  does not look at the records: each store call and the whole run keep it as long as the other
  clients do. It is interpreted for the phase of the claim in flight, for the ownership of the lease
  and for the trivial invariant; the properties of a run and of a turn of the loop rest on it.
\<close>

section \<open>Invariants that the records cannot break\<close>

lemma update_attempt_writes:
  "update_attempt b c f k m a e r = Done res r' \<Longrightarrow>
     r' = r \<or> (\<exists>v x. r' = a x (write_doc b k v (fst e r)))"
  by (auto simp: update_attempt_def Let_def split: if_splits slot.splits sum.splits option.splits
      prod.splits)

lemma set_run_frame [simp]:
  "db (set_run k v st) = db st" "mem (set_run k v st) = mem st"
  "dispatched (set_run k v st) = dispatched st" "tick (set_run k v st) = tick st"
  "db (set_metric k v st) = db st" "mem (set_metric k v st) = mem st"
  "dispatched (set_metric k v st) = dispatched st"
  by (simp_all add: set_run_def set_metric_def)

locale record_invariant =
  fixes I :: "store \<Rightarrow> redis \<Rightarrow> bool"
  assumes I_slots: "I s r \<Longrightarrow> I s (r\<lparr>slots := x\<rparr>)"
    and I_texts: "I s r \<Longrightarrow> I s (r\<lparr>texts := y\<rparr>)"
    and I_published: "I s r \<Longrightarrow> I s (r\<lparr>published := z\<rparr>)"
begin

definition undisturbed :: "world \<Rightarrow> bool" where
  "undisturbed W \<longleftrightarrow> (\<forall>i j s r. I s r \<longrightarrow> I s (fst (envs W i j) r))"

lemma I_publish: "I s r \<Longrightarrow> I s (publish W u t d r)"
  by (simp add: publish_def I_published)

lemma I_write_doc: "I s r \<Longrightarrow> I s (write_doc b k v r)"
  by (simp add: write_doc_def Let_def I_slots)

lemma I_after_env: "undisturbed W \<Longrightarrow> I s r \<Longrightarrow> I s (after_env n (envs W j) r)"
proof -
  assume u: "undisturbed W" and i: "I s r"
  have "I s r \<Longrightarrow> I s (after_env n (\<lambda>i. envs W j (i + k)) r)" for k
  proof (induction n arbitrary: k r)
    case (Suc n)
    then have "I s (fst (envs W j k) r)" using u by (simp add: undisturbed_def)
    from Suc.IH [OF this, of "Suc k"] show ?case by simp
  qed simp
  from this [OF i, of 0] show ?thesis by simp
qed

lemma I_transact:
  assumes u: "undisturbed W" and also_I: "\<And>x r. I s r \<Longrightarrow> I s (also x r)"
    and t: "transact W j c fenced k mutate also s r = (res, r')" and i: "I s r"
  shows "I s r'"
proof (cases "fenced \<and> lease_token s = None")
  case True
  with t i show ?thesis by (auto simp: transact_def atomic_update_def)
next
  case False
  with t have l: "update_loop (max 1 5) (update_attempt (json_ok W) c
      (if fenced then lease_token s else None) k mutate also) (envs W j) r = (res, r')"
    by (auto simp: transact_def atomic_update_def split: if_splits)
  from update_loop_result [OF l] show ?thesis
  proof (elim disjE exE conjE)
    fix n x
    assume n: "update_attempt (json_ok W) c (if fenced then lease_token s else None) k mutate also
        (envs W j n) (after_env n (envs W j) r) = Done res x" and x: "r' = x"
    have e: "I s (after_env n (envs W j) r)" by (rule I_after_env [OF u i])
    with u have "I s (fst (envs W j n) (after_env n (envs W j) r))" by (simp add: undisturbed_def)
    with update_attempt_writes [OF n] e x show ?thesis by (auto intro: also_I I_write_doc)
  next
    assume "r' = after_env (max 1 5) (envs W j) r"
    with I_after_env [OF u i] show ?thesis by simp
  qed
qed

lemma I_update:
  "undisturbed W \<Longrightarrow> transact W j c fenced k mutate (\<lambda>_ r. r) s r = (res, r') \<Longrightarrow> I s r \<Longrightarrow> I s r'"
  by (rule I_transact) auto

lemma I_get_config:
  assumes "undisturbed W" and "get_config W j u s r = (res, r')" and "I s r"
  shows "I s r'"
  using assms(2,3)
  by (auto simp: get_config_def split: sum.splits json.splits prod.splits intro: I_update [OF assms(1)])

lemma I_mark_goal_run:
  assumes "undisturbed W" and "mark_goal_run W j u g t l s r = (res, r')" and "I s r"
  shows "I s r'"
proof -
  obtain x r1 where t: "transact W j ListDoc l ''goals'' (mark_goal_doc g t) (\<lambda>_ r. r) s r = (x, r1)"
    by fastforce
  from I_update [OF assms(1) t assms(3)] assms(2) show ?thesis
    by (auto simp: mark_goal_run_def t I_publish split: sum.splits if_splits)
qed

lemma I_append_event:
  assumes "undisturbed W" and "append_event W j u e s r = (res, r')" and "I s r"
  shows "I s r'"
  using assms(2,3)
  by (auto simp: append_event_def split: sum.splits prod.splits
      intro: I_update [OF assms(1)] I_publish)

lemma I_log_event:
  "undisturbed W \<Longrightarrow> log_event W j u i t m l d s r = (res, r') \<Longrightarrow> I s r \<Longrightarrow> I s r'"
  by (auto simp: log_event_def dest: I_append_event)

lemma I_upsert_run:
  assumes "undisturbed W" and "upsert_run W j u run s r = (res, r')" and "I s r"
  shows "I s r'"
  using assms(2,3)
  by (auto simp: upsert_run_def Let_def split: sum.splits prod.splits
      intro: I_publish I_update [OF assms(1)] dest!: I_get_config [OF assms(1)])

lemma I_append_feed_items:
  assumes "undisturbed W" and "append_feed_items h W j u items l s r = (res, r')" and "I s r"
  shows "I s r'"
  using assms(2,3)
  by (auto simp: append_feed_items_def split: sum.splits prod.splits if_splits
      intro: I_publish I_update [OF assms(1)] dest!: I_get_config [OF assms(1)])

lemma I_set_text: "set_text k v l s r = (res, r') \<Longrightarrow> I s r \<Longrightarrow> I s r'"
  by (auto simp: set_text_def Let_def I_texts split: if_splits option.splits)

lemma I_load_loop: "load_loop u l ws s r = (res, r') \<Longrightarrow> I s r \<Longrightarrow> I s r'"
proof (induction ws arbitrary: r res)
  case (Cons p ws)
  obtain n seed where p: "p = (n, seed)" by (cases p)
  from Cons.prems obtain r1 where
    "I s r1" "r' = r1 \<or> (\<exists>res'. load_loop u l ws s r1 = (res', r'))"
    by (auto simp: p Let_def dest!: I_set_text split: option.splits prod.splits sum.splits if_splits)
  with Cons.IH show ?case by auto
qed simp

lemma I_load_workspace: "load_workspace u l s r = (res, r') \<Longrightarrow> I s r \<Longrightarrow> I s r'"
  unfolding load_workspace_def by (rule I_load_loop)

lemma I_apply_loop: "apply_loop u l us s r = (res, r') \<Longrightarrow> I s r \<Longrightarrow> I s r'"
proof (induction us arbitrary: r res)
  case (Cons p us)
  obtain n c where p: "p = (n, c)" by (cases p)
  have "\<exists>r1. I s r1 \<and> (r' = r1 \<or> (\<exists>res'. apply_loop u l us s r1 = (res', r')))"
  proof (cases "\<exists>c'. c = JStr c' \<and> (\<exists>res' r1. set_text (workspace_key u n) (strip c') l s r = (res', r1)
      \<and> (r' = r1 \<or> (\<exists>res''. apply_loop u l us s r1 = (res'', r'))))")
    case True
    with Cons.prems(2) show ?thesis by (auto dest: I_set_text)
  next
    case False
    with Cons.prems have "\<exists>res'. apply_loop u l us s r = (res', r')"
      by (auto simp: p Let_def split: if_splits json.splits prod.splits sum.splits)
    with Cons.prems(2) show ?thesis by blast
  qed
  with Cons.IH show ?case by metis
qed simp

lemma I_apply_updates: "apply_workspace_updates u out l s r = (res, r') \<Longrightarrow> I s r \<Longrightarrow> I s r'"
  by (auto simp: apply_workspace_updates_def split: json.splits dest: I_apply_loop)

section \<open>Runs keep the invariant\<close>

definition calm :: "run_env \<Rightarrow> bool" where
  "calm E \<longleftrightarrow> (\<forall>n. undisturbed (worlds E n)) \<and>
     (\<forall>n s r s' r'. I s r \<longrightarrow> gaps E n s r = (s', r') \<longrightarrow> I s' r')"

definition harmless :: "'a action \<Rightarrow> bool" where
  "harmless m \<longleftrightarrow> (\<forall>st res st'. m st = (res, st') \<longrightarrow> I (mem st) (db st) \<longrightarrow>
     I (mem st') (db st') \<and> dispatched st' = dispatched st)"

lemma harmlessD:
  "harmless m \<Longrightarrow> m st = (res, st') \<Longrightarrow> I (mem st) (db st) \<Longrightarrow>
     I (mem st') (db st') \<and> dispatched st' = dispatched st"
  by (auto simp: harmless_def)

lemma harmless_bind:
  "harmless m \<Longrightarrow> (\<And>x. harmless (f x)) \<Longrightarrow> harmless (bind_act m f)"
  by (fastforce simp: harmless_def bind_act_def split: prod.splits sum.splits)

lemma harmless_pure: "harmless (pass x)" "harmless (lift res)" "harmless (\<lambda>st. (g st, st))"
  "harmless (raise e)"
  by (auto simp: harmless_def pass_def lift_def raise_def)

lemma harmless_after:
  "harmless m \<Longrightarrow> (\<And>st. db (g st) = db st \<and> mem (g st) = mem st \<and> dispatched (g st) = dispatched st) \<Longrightarrow>
     harmless (\<lambda>st. m (g st))"
  by (auto simp: harmless_def)

lemma harmless_if: "harmless a \<Longrightarrow> harmless b \<Longrightarrow> harmless (if P then a else b)"
  by simp

lemma harmless_call_store:
  assumes c: "calm E"
    and f: "\<And>W s r res s' r'. undisturbed W \<Longrightarrow> I s r \<Longrightarrow> f W s r = (res, s', r') \<Longrightarrow> I s' r'"
  shows "harmless (call_store E f)"
proof -
  have "I (mem st') (db st') \<and> dispatched st' = dispatched st"
    if a: "call_store E f st = (res, st')" and i: "I (mem st) (db st)" for st res st'
  proof -
    obtain s r where g: "gaps E (tick st) (mem st) (db st) = (s, r)" by fastforce
    obtain x s' r' where h: "f (worlds E (tick st)) s r = (x, s', r')" by (metis prod_cases3)
    from c i g have "I s r" "undisturbed (worlds E (tick st))" unfolding calm_def by blast+
    from f [OF this(2,1) h] a g h show ?thesis by (auto simp: call_store_def)
  qed
  then show ?thesis unfolding harmless_def by blast
qed

lemma harmless_call:
  assumes "calm E" and "\<And>W s r res r'. undisturbed W \<Longrightarrow> f W s r = (res, r') \<Longrightarrow> I s r \<Longrightarrow> I s r'"
  shows "harmless (call E f)"
  unfolding call_def
  by (rule harmless_call_store [OF assms(1)]) (auto split: prod.splits intro: assms(2))

lemma harmless_query: "calm E \<Longrightarrow> harmless (query E f)"
  unfolding query_def by (rule harmless_call) auto

lemma harmless_depending: "(\<And>x. harmless (m x)) \<Longrightarrow> harmless (\<lambda>st. m (g st) st)"
  by (auto simp: harmless_def)

lemma harmless_save_run: "calm E \<Longrightarrow> harmless (save_run E u)"
proof -
  assume "calm E"
  then have "harmless (call E (\<lambda>W. upsert_run W 0 u run))" for run
    by (rule harmless_call) (erule (2) I_upsert_run)
  then show ?thesis
    unfolding save_run_def harmless_def by (fastforce split: prod.splits sum.splits)
qed

lemma harmless_note_event: "calm E \<Longrightarrow> harmless (note_event E u ev m l d)"
  unfolding note_event_def
  by (rule harmless_depending [where m = "\<lambda>i. call E (\<lambda>W. log_event W 0 u i ev m l d)" and g = run_id])
    (erule harmless_call, erule (2) I_log_event)

lemma harmless_check_cancel: "calm E \<Longrightarrow> harmless (check_cancel E)"
  unfolding check_cancel_def
  by (rule harmless_depending [where g = run_id and m = "\<lambda>i. query E (\<lambda>W s r. Inr (cancel_requested i r))"])
    (erule harmless_query)

lemma harmless_close_run: "calm E \<Longrightarrow> harmless (close_run E u status field m ev l)"
  unfolding close_run_def
  by (rule harmless_after, intro harmless_bind harmless_save_run harmless_note_event harmless_pure) auto

lemma harmless_on_error: "calm E \<Longrightarrow> harmless (on_error E u e)"
proof -
  assume c: "calm E"
  then have "harmless (on_interrupted E u)"
    unfolding on_interrupted_def
    by (intro harmless_bind harmless_if harmless_check_cancel harmless_close_run)
  moreover have "harmless (on_run_aborted E u m)" for m
    unfolding on_run_aborted_def Let_def
    using c
    by (intro harmless_bind harmless_check_cancel)
      (auto simp: harmless_def dest!: harmlessD [OF harmless_close_run [OF c]] split: if_splits)
  ultimately show ?thesis
    using c by (cases e) (auto simp: on_error_def intro: harmless_close_run)
qed

lemma harmless_choose_goal: "calm E \<Longrightarrow> harmless (choose_goal E request invalid)"
  unfolding choose_goal_def
  by (intro harmless_if harmless_bind harmless_query harmless_pure)
    (auto simp: harmless_def split: sum.splits option.splits list.splits)

lemma harmless_begin_run: "calm E \<Longrightarrow> harmless (begin_run E u request)"
proof -
  assume "calm E"
  then have "harmless (bind_act (save_run E u)
      (\<lambda>_. note_event E u ''run_started'' ''Autonomous run started.'' ''info'' []))"
    by (intro harmless_bind harmless_save_run harmless_note_event)
  then show ?thesis by (auto simp: begin_run_def Let_def harmless_def)
qed

lemma harmless_store_calls:
  assumes "calm E"
  shows "harmless (call E (\<lambda>W. get_config W 0 u))"
    and "harmless (call E (\<lambda>W. load_workspace u l))"
    and "harmless (call E (\<lambda>W. apply_workspace_updates u out l))"
    and "harmless (call E (\<lambda>W. append_feed_items h W 0 u items l))"
    and "harmless (call E (\<lambda>W. mark_goal_run W 0 u g t l))"
  using assms
  by (auto intro!: harmless_call dest: I_get_config I_load_workspace I_apply_updates
      I_append_feed_items I_mark_goal_run)

lemma harmless_gather:
  assumes "calm E"
  shows "harmless (gather E u request invalid snap goal_id)"
proof -
  have g: "harmless (case snap of Some goals \<Rightarrow> pass goals | None \<Rightarrow> query E (\<lambda>W s. list_goals W))"
    using assms by (cases snap) (auto intro: harmless_query harmless_pure)
  have m: "harmless (\<lambda>st. let st' = set_metric ''explorationLane'' (JStr (preferred_lane e))
                (set_metric ''explorationStep'' (JInt (int (step e))) st)
          in (build_messages (prompt E) (clock E st') u config workspace goals recent_runs recent_feed
                request e, st'))" for config goals workspace recent_runs recent_feed e
    by (auto simp: harmless_def Let_def)
  show ?thesis
    unfolding gather_def
    by (intro harmless_bind harmless_pure harmless_query harmless_store_calls g m assms)
qed

lemma harmless_publish_output:
  assumes "calm E"
  shows "harmless (publish_output E u output)"
proof -
  have e: "harmless (bind_act (save_run E u) (\<lambda>_. bind_act (note_event E u ev m l d)
      (\<lambda>_ st'. (Inr (run_doc st'), st'))))" for ev m l d
    by (intro harmless_bind harmless_save_run harmless_note_event harmless_pure assms)
  show ?thesis
    unfolding publish_output_def Let_def
    by (intro harmless_bind harmless_pure harmless_store_calls harmless_after [OF e] assms) auto
qed

lemma harmless_finish_run:
  assumes "calm E"
  shows "harmless (finish_run E u response)"
proof -
  have l: "harmless (\<lambda>st. if supervised E
      then query E (\<lambda>W s r. Inr (abort_set E (tick st) \<or> \<not> owns_lease s r)) st else (Inr False, st))"
    by (cases "supervised E")
      (auto intro: harmless_pure harmless_query [OF assms] harmless_depending [where g = tick and
        m = "\<lambda>t. query E (\<lambda>W s r. Inr (abort_set E t \<or> \<not> owns_lease s r))"])
  show ?thesis
    unfolding finish_run_def
    by (rule harmless_after, intro harmless_bind harmless_if harmless_check_cancel harmless_close_run
        harmless_pure harmless_publish_output l assms) auto
qed

end

text \<open>The instances: the phase of the claim in flight, the lease against the remembered token, and the
  trivial one.\<close>

definition claim_phase :: "payload \<Rightarrow> string option \<Rightarrow> store \<Rightarrow> redis \<Rightarrow> bool" where
  "claim_phase raw ph s r \<longleftrightarrow> inflight s = Some raw \<and> processing_state r raw = ph"

definition token_known :: "string \<Rightarrow> store \<Rightarrow> redis \<Rightarrow> bool" where
  "token_known token s r \<longleftrightarrow> (map_option fst (lease r) = Some token \<longrightarrow> lease_token s = Some token)"

interpretation claim: record_invariant "claim_phase raw ph" for raw ph
  by unfold_locales (simp_all add: claim_phase_def)

interpretation known: record_invariant "token_known token" for token
  by unfold_locales (simp_all add: token_known_def)

interpretation trivial: record_invariant "\<lambda>_ _. True"
  by unfold_locales simp_all

lemma trivial_calm [simp]: "trivial.calm E"
  by (simp add: trivial.calm_def trivial.undisturbed_def)

text \<open>Other clients leave the phase of a claim alone, and the heartbeat thread leaves the request in
  flight alone.\<close>

definition leaves_claim :: "payload \<Rightarrow> run_env \<Rightarrow> bool" where
  "leaves_claim raw E \<longleftrightarrow>
     (\<forall>n s r s' r'. gaps E n s r = (s', r') \<longrightarrow>
        processing_state r' raw = processing_state r raw \<and> inflight s' = inflight s) \<and>
     (\<forall>n i j r. processing_state (fst (envs (worlds E n) i j) r) raw = processing_state r raw)"

lemma leaves_claim_calm: "leaves_claim raw E \<Longrightarrow> claim.calm raw ph E"
  unfolding leaves_claim_def claim.calm_def claim.undisturbed_def claim_phase_def by metis

section \<open>The record of a run\<close>

lemma call_frame: "call E f st = (res, st') \<Longrightarrow> run_doc st' = run_doc st \<and> dispatched st' = dispatched st"
  by (auto simp: call_def call_store_def split: prod.splits)

lemma upsert_run_result:
  "upsert_run W j u run s r = (Inr run', r') \<Longrightarrow> run' = dict_set ''updatedAt'' (JInt (now W)) run"
  by (auto simp: upsert_run_def Let_def split: prod.splits sum.splits)

lemma save_run_result:
  "save_run E u st = (Inr x, st') \<Longrightarrow> \<exists>t. run_doc st' = dict_set ''updatedAt'' (JInt t) (run_doc st)"
  by (auto simp: save_run_def call_def call_store_def split: prod.splits sum.splits
      dest!: upsert_run_result)

lemma note_event_result: "note_event E u ev m l d st = (res, st') \<Longrightarrow> run_doc st' = run_doc st"
  by (auto simp: note_event_def dest: call_frame)

text \<open>Saving the record and noting an event returns the record as saved.\<close>

lemma save_and_note_result:
  assumes "bind_act (save_run E u) (\<lambda>_. bind_act (note_event E u ev m l d)
      (\<lambda>_ st'. (Inr (run_doc st'), st'))) st = (Inr run, st')"
  shows "\<exists>t. run = dict_set ''updatedAt'' (JInt t) (run_doc st)"
  using assms
  by (auto simp: bind_act_def split: prod.splits sum.splits dest!: save_run_result note_event_result)

definition closed_with :: "string set \<Rightarrow> dict \<Rightarrow> bool" where
  "closed_with statuses run \<longleftrightarrow>
     (\<exists>s \<in> statuses. dict_get run ''status'' = JStr s) \<and> (\<exists>t. dict_get run ''completedAt'' = JInt t)"

lemma closed_with_mono: "closed_with A run \<Longrightarrow> A \<subseteq> B \<Longrightarrow> closed_with B run"
  by (auto simp: closed_with_def)

lemma close_run_result:
  assumes "close_run E u status field m ev l st = (Inr run, st')"
    and "field = ''summary'' \<or> field = ''error''" and "status \<in> A"
  shows "closed_with A run"
  using save_and_note_result [OF assms(1) [unfolded close_run_def]] assms(2,3)
  by (auto simp: closed_with_def set_run_def)

lemma on_error_result:
  assumes "on_error E u e st = (Inr run, st')"
  shows "closed_with {''cancelled'', ''aborted'', ''failed''} run"
proof -
  note r = close_run_result [where A = "{''cancelled'', ''aborted'', ''failed''}"]
  have i: "on_interrupted E u st = (Inr run, st') \<Longrightarrow> ?thesis"
    by (auto simp: on_interrupted_def bind_act_def intro!: r split: prod.splits sum.splits if_splits)
  have a: "on_run_aborted E u m st = (Inr run, st') \<Longrightarrow> ?thesis" for m
    by (auto simp: on_run_aborted_def bind_act_def Let_def intro!: r
        split: prod.splits sum.splits if_splits)
  show ?thesis using assms i a by (cases e) (auto simp: on_error_def intro!: r)
qed

lemma publish_output_result:
  assumes "publish_output E u output st = (Inr run, st')"
  shows "closed_with {''completed''} run"
proof -
  note d = save_and_note_result
  from assms show ?thesis
    unfolding publish_output_def bind_act_def [of "call E f" for f] bind_act_def [of "\<lambda>st. (g st, st)" for g]
    by (auto simp: Let_def closed_with_def set_run_def set_metric_def split: prod.splits sum.splits dest!: d)
qed

lemma finish_run_result:
  assumes "finish_run E u response st = (Inr run, st')"
  shows "closed_with {''cancelled'', ''aborted''} run \<or>
    closed_with {''completed''} run \<and>
      (\<exists>out. parse_structured_output (loads E) (validate E) response = Inr out)"
proof -
  note r = close_run_result [where A = "{''cancelled'', ''aborted''}"]
  from assms show ?thesis
    unfolding finish_run_def bind_act_def [of "check_cancel E"] bind_act_def [of "lift x" for x]
      bind_act_def [of "\<lambda>st. if supervised E then g st else h st" for g h]
    by (auto simp: lift_def split: prod.splits sum.splits if_splits dest: r publish_output_result)
qed

section \<open>Dispatch\<close>

text \<open>What an action may do to the claim in flight: nothing, or pass the fence once, and only an action
  that passed the fence may have called the backend.\<close>

definition fenced_dispatch :: "payload \<Rightarrow> run_state \<Rightarrow> run_state \<Rightarrow> bool" where
  "fenced_dispatch raw st st' \<longleftrightarrow>
     (\<exists>calls. dispatched st' = dispatched st @ calls \<and> length calls \<le> 1 \<and>
       (calls = [] \<and> processing_state (db st') raw = processing_state (db st) raw
        \<or> processing_state (db st) raw = Some ''claimed'' \<and> processing_state (db st') raw = Some ''started''))"

lemma call_mark_started:
  assumes "leaves_claim raw E" and "inflight (mem st) = Some raw"
    and "call E (\<lambda>W. mark_backend_started) st = (res, st')"
  shows "dispatched st' = dispatched st \<and> inflight (mem st') = Some raw \<and>
    (res = Inl WorkerLeaseLost \<and> processing_state (db st') raw = processing_state (db st) raw
     \<or> res = Inr () \<and> processing_state (db st) raw = Some ''claimed'' \<and>
       processing_state (db st') raw = Some ''started'')"
proof -
  obtain s r where g: "gaps E (tick st) (mem st) (db st) = (s, r)" by fastforce
  from assms(1) g have "processing_state r raw = processing_state (db st) raw"
    "inflight s = inflight (mem st)"
    unfolding leaves_claim_def by blast+
  with assms(2,3) g show ?thesis
    by (auto simp: call_def call_store_def mark_backend_started_def mark_started_script_def
        record_phase_def split: option.splits prod.splits if_splits)
qed

text \<open>A harmless action keeps the claim and its phase.\<close>

lemma harmless_claim:
  assumes "\<And>ph. claim.harmless raw ph m" and "m st = (res, st')" and "inflight (mem st) = Some raw"
  shows "processing_state (db st') raw = processing_state (db st) raw \<and> inflight (mem st') = Some raw
    \<and> dispatched st' = dispatched st"
  using claim.harmlessD [OF assms(1,2), of "processing_state (db st) raw"] assms(3)
  by (simp add: claim_phase_def)

lemma dispatch_fenced:
  assumes l: "leaves_claim raw E" and i: "inflight (mem st) = Some raw"
    and d: "dispatch E u request goal_id msgs st = (res, st')"
  shows "fenced_dispatch raw st st' \<and> inflight (mem st') = Some raw"
proof (cases "supervised E \<and> abort_set E (tick st)")
  case True
  with d i show ?thesis by (auto simp: dispatch_def fenced_dispatch_def)
next
  case False
  note c = leaves_claim_calm [OF l]
  obtain r1 st1 where n: "note_event E u ''backend_call'' ''Calling backend workflow.'' ''info'' [] st = (r1, st1)"
    by fastforce
  note st1 = harmless_claim [OF claim.harmless_note_event [OF c] n i]
  obtain r2 st2 where m: "call E (\<lambda>W. mark_backend_started) st1 = (r2, st2)" by fastforce
  from st1 have st2: "dispatched st2 = dispatched st1" "inflight (mem st2) = Some raw"
    "r2 = Inl WorkerLeaseLost \<and> processing_state (db st2) raw = processing_state (db st1) raw
     \<or> r2 = Inr () \<and> processing_state (db st1) raw = Some ''claimed'' \<and>
       processing_state (db st2) raw = Some ''started''"
    using call_mark_started [OF l _ m] by auto
  let ?goal = "\<lambda>st. if goal_id = [] then (Inr (), st)
      else call E (\<lambda>W. mark_goal_run W 0 u goal_id
        (case dict_get (run_doc st) ''startedAt'' of JInt t \<Rightarrow> t | _ \<Rightarrow> 0) (supervised E)) st"
  obtain r3 st3 where g: "?goal st2 = (r3, st3)" by fastforce
  have st3: "processing_state (db st3) raw = processing_state (db st2) raw \<and> inflight (mem st3) = Some raw
      \<and> dispatched st3 = dispatched st2"
  proof (cases "goal_id = []")
    case True
    with g st2(2) show ?thesis by simp
  next
    case False
    with g have "call E (\<lambda>W. mark_goal_run W 0 u goal_id
        (case dict_get (run_doc st2) ''startedAt'' of JInt t \<Rightarrow> t | _ \<Rightarrow> 0) (supervised E)) st2 = (r3, st3)"
      by simp
    from harmless_claim [OF claim.harmless_store_calls(5) [OF c] this st2(2)] show ?thesis .
  qed
  show ?thesis
    using d False st1 st2 st3
    by (auto simp: dispatch_def bind_act_def n m g [simplified] fenced_dispatch_def Let_def
        split: sum.splits)
qed

lemma dispatch_answer:
  assumes d: "dispatch E u request goal_id msgs st = (Inr resp, st')"
  shows "\<exists>x. dispatched st' = dispatched st @ [(msgs, x)] \<and> backend E msgs x = Inr resp"
proof -
  let ?goal = "\<lambda>st. if goal_id = [] then (Inr (), st)
      else call E (\<lambda>W. mark_goal_run W 0 u goal_id
        (case dict_get (run_doc st) ''startedAt'' of JInt t \<Rightarrow> t | _ \<Rightarrow> 0) (supervised E)) st"
  from d obtain st1 st2 st3 x where
    n: "note_event E u ''backend_call'' ''Calling backend workflow.'' ''info'' [] st = (Inr (), st1)"
    and m: "call E (\<lambda>W. mark_backend_started) st1 = (Inr (), st2)"
    and g: "?goal st2 = (Inr (), st3)"
    and r: "backend E msgs x = Inr resp" "st' = st3\<lparr>dispatched := dispatched st3 @ [(msgs, x)]\<rparr>"
    by (auto simp: dispatch_def bind_act_def Let_def split: if_splits prod.splits sum.splits)
  have "dispatched st1 = dispatched st"
    using trivial.harmlessD [OF trivial.harmless_note_event n] by simp
  moreover have "dispatched st2 = dispatched st1" using call_frame [OF m] by simp
  moreover have "dispatched st3 = dispatched st2" using g by (auto split: if_splits dest: call_frame)
  ultimately show ?thesis using r by auto
qed

text \<open>Composition: harmless actions before and after a fenced one.\<close>

lemma fenced_then_harmless:
  assumes "fenced_dispatch raw st st1" and "inflight (mem st1) = Some raw"
    and "\<And>ph. claim.harmless raw ph m" and "m st1 = (res, st')"
  shows "fenced_dispatch raw st st'"
  using assms(1) harmless_claim [OF assms(3,4,2)] by (simp add: fenced_dispatch_def)

lemma harmless_then_fenced:
  assumes "\<And>ph. claim.harmless raw ph m" and "m st = (x, st1)" and "inflight (mem st) = Some raw"
    and "fenced_dispatch raw st1 st'"
  shows "fenced_dispatch raw st st'"
  using assms(4) harmless_claim [OF assms(1,2,3)] by (simp add: fenced_dispatch_def)

lemma harmless_fenced:
  assumes "\<And>ph. claim.harmless raw ph m" and "m st = (x, st')" and "inflight (mem st) = Some raw"
  shows "fenced_dispatch raw st st' \<and> inflight (mem st') = Some raw"
  using harmless_claim [OF assms] by (simp add: fenced_dispatch_def)

lemma run_body_fenced:
  assumes l: "leaves_claim raw E" and i: "inflight (mem st) = Some raw"
    and b: "run_body E u request invalid snap st = (res, st')"
  shows "fenced_dispatch raw st st'"
proof -
  note c = leaves_claim_calm [OF l]
  let ?g = "strip (text_of (dict_get (run_doc st) ''goalId''))"
  let ?m = "bind_act (gather E u request invalid snap ?g)
      (\<lambda>msgs. bind_act (dispatch E u request ?g msgs) (finish_run E u))"
  have "fenced_dispatch raw st st2 \<and> inflight (mem st2) = Some raw" if m: "?m st = (res2, st2)" for res2 st2
  proof -
    obtain r0 st0 where g: "gather E u request invalid snap ?g st = (r0, st0)" by fastforce
    note hg = harmless_claim [OF claim.harmless_gather [OF c] g i]
      and fg = harmless_fenced [OF claim.harmless_gather [OF c] g i]
    show ?thesis
    proof (cases r0)
      case (Inl e)
      with m g show ?thesis using fg by (auto simp: bind_act_def)
    next
      case (Inr msgs)
      obtain r1 st1 where d: "dispatch E u request ?g msgs st0 = (r1, st1)" by fastforce
      have f: "fenced_dispatch raw st st1" and i1: "inflight (mem st1) = Some raw"
        using dispatch_fenced [OF l _ d] hg harmless_then_fenced [OF claim.harmless_gather [OF c] g i]
        by auto
      show ?thesis
        using m g d Inr f i1 fenced_then_harmless [OF f i1 claim.harmless_finish_run [OF c]]
          harmless_claim [OF claim.harmless_finish_run [OF c] _ i1]
        by (cases r1) (auto simp: bind_act_def)
    qed
  qed
  with b show ?thesis
    using fenced_then_harmless [OF _ _ claim.harmless_on_error [OF c]]
    by (auto simp: run_body_def Let_def catch_def split: prod.splits sum.splits)
qed

section \<open>Properties\<close>


definition sample_env :: run_env where
  "sample_env = \<lparr>worlds = (\<lambda>_. sample_world), gaps = (\<lambda>_ s r. (s, r)), supervised = False,
     abort_set = (\<lambda>_. False), shutdown = False, backend = (\<lambda>_ _. Inl ApprovalRequiredError),
     loads = (\<lambda>_. None), validate = (\<lambda>_. None), sha1 = (\<lambda>_. []),
     prompt = \<lparr>instructions = (\<lambda>_ _ _ _. []), current_time = [], format_day = (\<lambda>_. [])\<rparr>,
     describe = (\<lambda>_. [])\<rparr>"

definition sample_claim :: payload where
  "sample_claim = Encoded (JObj [(''id'', JStr ''q''), (''trigger'', JStr ''manual'')])"

definition sample_run_state :: run_state where
  "sample_run_state = \<lparr>
     db = sample_config_db\<lparr>lease := Some (''t'', 60), processing := [sample_claim], texts := (\<lambda>_. Some []),
            processing_state := [sample_claim \<mapsto> ''claimed'']\<rparr>,
     mem = \<lparr>lease_token = Some ''t'', lease_ttl = Some 60, inflight = Some sample_claim\<rparr>,
     tick = 0, run_doc = [], dispatched = []\<rparr>"

lemma sample_env_leaves_claim: "leaves_claim raw sample_env"
  by (simp add: leaves_claim_def sample_env_def)




end
