(* ===== verification/Worker_Loop.thy ===== *)
theory Worker_Loop
  imports Worker_Safety
begin

text \<open>
  The main loop of the worker: its timing configuration, the heartbeat, the release of the lease at
  the end of every turn, and what the loop does with a queued empty object.
\<close>

section \<open>Timing\<close>

lemma heartbeat_interval_range:
  "1 < ttl \<Longrightarrow> 1 \<le> heartbeat_interval ttl \<and> heartbeat_interval ttl \<le> 20 \<and> heartbeat_interval ttl < ttl"
  by (auto simp: heartbeat_interval_def)

lemma backoff_range: "0 < poll \<Longrightarrow> poll \<le> backoff poll (Suc n) \<and> backoff poll (Suc n) \<le> max poll 60"
proof -
  assume "0 < poll"
  then have "poll * 1 \<le> poll * 2 ^ n" by (intro mult_left_mono) simp_all
  then show ?thesis by (auto simp: backoff_def)
qed

lemma backoff_mono: "0 < poll \<Longrightarrow> m \<le> n \<Longrightarrow> backoff poll m \<le> backoff poll n"
proof -
  assume p: "0 < poll" and "m \<le> n"
  then have "(2::int) ^ (m - 1) \<le> 2 ^ (n - 1)" by (intro power_increasing) auto
  with p have "poll * 2 ^ (m - 1) \<le> poll * 2 ^ (n - 1)" by (intro mult_left_mono) simp_all
  then show ?thesis unfolding backoff_def by (rule min.mono [OF order_refl])
qed

text \<open>Timing is safe whatever the environment sets: configuration that the worker accepts makes the
  idle poll shorter than the lease and the heartbeat interval both shorter than the lease and at most
  20 seconds, with three heartbeats per lease from 3 seconds on; a run is limited to 6900 seconds;
  and the pause after errors grows from the poll interval to at most a minute (or the poll interval).\<close>

theorem worker_timing_safe:
  assumes "worker_timing_seconds poll_env ttl_env = Inr (poll, ttl)"
  shows "0 < poll \<and> poll < ttl \<and> 1 \<le> heartbeat_interval ttl \<and> heartbeat_interval ttl \<le> 20
    \<and> heartbeat_interval ttl < ttl \<and> (3 \<le> ttl \<longrightarrow> 3 * heartbeat_interval ttl \<le> ttl)
    \<and> (\<forall>raw t. request_timeout_seconds raw = Inr t \<longrightarrow> 1 \<le> t \<and> t \<le> 6900)
    \<and> (\<forall>n. poll \<le> backoff poll (Suc n) \<and> backoff poll (Suc n) \<le> max poll 60
          \<and> backoff poll n \<le> backoff poll (Suc n))"
proof -
  from assms have p: "0 < poll" "poll < ttl"
    by (auto simp: worker_timing_seconds_def bind_result_Inr split: if_splits)
  have "3 \<le> ttl \<longrightarrow> 3 * heartbeat_interval ttl \<le> ttl"
    by (auto simp: heartbeat_interval_def)
  moreover have "\<forall>raw t. request_timeout_seconds raw = Inr t \<longrightarrow> 1 \<le> t \<and> t \<le> 6900"
    by (auto simp: request_timeout_seconds_def bind_result_Inr MAX_AUTONOMOUS_REQUEST_TIMEOUT_SECONDS_def
        split: if_splits)
  ultimately show ?thesis
    using p heartbeat_interval_range [of ttl] backoff_range [OF p(1)] backoff_mono [OF p(1)] by simp
qed

theorem worker_timing_safe_witness:
  "worker_timing_seconds None (Some ''90'') = Inr (10, 90) \<and> heartbeat_interval 90 < 90"
proof -
  have h: "worker_timing_seconds None (Some ''90'') = Inr (10, 90)" by code_simp
  from worker_timing_safe [OF h] h show ?thesis by simp
qed

section \<open>Heartbeat\<close>

text \<open>The heartbeat: it lets the run go on only when the worker is not shutting down, a due refresh
  was made and this store still owns the lease, renewed to its full time, and the cancellation flag
  it could read was not set; in every other case it aborts the run. When it aborts, it has not
  extended a lease that this store does not own.\<close>

theorem heartbeat_decides:
  "(\<exists>next' s' r'. heartbeat_turn ttl shutting_down t next refresh_raises cancel_raises rid s r = (Keep next', s', r')
      \<and> (next \<le> t \<longrightarrow> owns_lease s' r' \<and> map_option snd (lease r') = Some (max 1 ttl) \<and> next' = t + heartbeat_interval ttl)
      \<and> (t < next \<longrightarrow> next' = next \<and> s' = s \<and> r' = r))
   = (\<not> shutting_down \<and> (next \<le> t \<longrightarrow> \<not> refresh_raises \<and> owns_lease s r)
      \<and> \<not> (rid \<noteq> [] \<and> \<not> cancel_raises \<and> cancel_requested rid r))
   \<and> (\<forall>s' r'. heartbeat_turn ttl shutting_down t next refresh_raises cancel_raises rid s r = (Abort, s', r')
       \<and> \<not> owns_lease s r \<longrightarrow> r' = r)"
  by (auto simp: heartbeat_turn_def refresh_lease_def refresh_script_def owns_lease_def cancel_requested_def
      Let_def split: option.splits if_splits)

theorem heartbeat_decides_witness:
  "\<exists>next' s' r'. heartbeat_turn 60 False 5 5 False False ''r'' (empty_store\<lparr>lease_token := Some ''t''\<rparr>)
      (empty_redis\<lparr>lease := Some (''t'', 1)\<rparr>) = (Keep next', s', r')
    \<and> map_option snd (lease r') = Some 60"
  using heartbeat_decides [of 60 False 5 5 False False "''r''" "empty_store\<lparr>lease_token := Some ''t''\<rparr>"
      "empty_redis\<lparr>lease := Some (''t'', 1)\<rparr>"]
  by (auto simp: owns_lease_def cancel_requested_def empty_redis_def)

section \<open>The lease over a turn\<close>

text \<open>Others neither take the token nor make this store forget it while the lease carries it.\<close>

definition leaves_lease :: "string \<Rightarrow> run_env \<Rightarrow> bool" where
  "leaves_lease token E \<longleftrightarrow>
     (\<forall>n s r s' r'. gaps E n s r = (s', r') \<longrightarrow> token_known token s r \<longrightarrow> token_known token s' r') \<and>
     (\<forall>n i j r. map_option fst (lease (fst (envs (worlds E n) i j) r)) = Some token \<longrightarrow>
        map_option fst (lease r) = Some token)"

lemma leaves_lease_calm: "leaves_lease token E \<Longrightarrow> known.calm token E"
  unfolding leaves_lease_def known.calm_def known.undisturbed_def token_known_def by blast

definition guards :: "string \<Rightarrow> 'a action \<Rightarrow> bool" where
  "guards token m \<longleftrightarrow> (\<forall>st res st'. m st = (res, st') \<longrightarrow> token_known token (mem st) (db st) \<longrightarrow>
     token_known token (mem st') (db st'))"

lemma guards_harmless: "known.harmless token m \<Longrightarrow> guards token m"
  by (auto simp: guards_def known.harmless_def)

lemma guards_bind: "guards token m \<Longrightarrow> (\<And>x. guards token (f x)) \<Longrightarrow> guards token (bind_act m f)"
  by (fastforce simp: guards_def bind_act_def split: prod.splits sum.splits)

lemma guards_catch: "guards token m \<Longrightarrow> (\<And>e. guards token (h e)) \<Longrightarrow> guards token (catch m h)"
  by (fastforce simp: guards_def catch_def split: prod.splits sum.splits)

lemma guards_if: "guards token a \<Longrightarrow> guards token b \<Longrightarrow> guards token (if P then a else b)"
  by simp

lemma guards_depending: "(\<And>x. guards token (m x)) \<Longrightarrow> guards token (\<lambda>st. m (g st) st)"
  by (auto simp: guards_def)

lemma guards_choice: "guards token a \<Longrightarrow> guards token b \<Longrightarrow> guards token (\<lambda>st. if P st then a st else b st)"
  by (auto simp: guards_def split: if_splits)

lemma guards_pure: "guards token (pass x)" "guards token (raise e)"
  by (auto simp: guards_def pass_def raise_def)

lemma guards_dispatch:
  assumes c: "known.calm token E"
  shows "guards token (dispatch E u request goal_id msgs)"
proof -
  have m: "guards token (call E (\<lambda>W. mark_backend_started))"
    by (intro guards_harmless known.harmless_call [OF c])
      (auto simp: mark_backend_started_def mark_started_script_def record_phase_def token_known_def
        split: option.splits prod.splits if_splits)
  have g: "guards token (\<lambda>st. if goal_id = [] then (Inr (), st)
      else call E (\<lambda>W. mark_goal_run W 0 u goal_id
        (case dict_get (run_doc st) ''startedAt'' of JInt t \<Rightarrow> t | _ \<Rightarrow> 0) (supervised E)) st)"
  proof (cases "goal_id = []")
    case True
    then show ?thesis by (simp add: guards_def)
  next
    case False
    have "guards token (\<lambda>st. call E (\<lambda>W. mark_goal_run W 0 u goal_id
        (case dict_get (run_doc st) ''startedAt'' of JInt t \<Rightarrow> t | _ \<Rightarrow> 0) (supervised E)) st)"
      by (rule guards_depending [where m = "\<lambda>t. call E (\<lambda>W. mark_goal_run W 0 u goal_id t (supervised E))"])
        (rule guards_harmless, rule known.harmless_store_calls(5) [OF c])
    with False show ?thesis by simp
  qed
  have b: "guards token (\<lambda>st. let execution_id = text_of (py_or (dict_get request ''id'') (dict_get (run_doc st) ''id'')) in
      (backend E msgs execution_id, st\<lparr>dispatched := dispatched st @ [(msgs, execution_id)]\<rparr>))"
    by (auto simp: guards_def Let_def)
  have r: "guards token (\<lambda>st. (Inl InterruptedBeforeDispatch, st))" by (auto simp: guards_def)
  have a: "guards token (bind_act (note_event E u ''backend_call'' ''Calling backend workflow.'' ''info'' []) (\<lambda>_.
      bind_act (call E (\<lambda>W. mark_backend_started)) (\<lambda>_.
      bind_act (\<lambda>st. if goal_id = [] then (Inr (), st)
        else call E (\<lambda>W. mark_goal_run W 0 u goal_id
          (case dict_get (run_doc st) ''startedAt'' of JInt t \<Rightarrow> t | _ \<Rightarrow> 0) (supervised E)) st)
      (\<lambda>_ st. let execution_id = text_of (py_or (dict_get request ''id'') (dict_get (run_doc st) ''id'')) in
        (backend E msgs execution_id, st\<lparr>dispatched := dispatched st @ [(msgs, execution_id)]\<rparr>)))))"
    by (intro guards_bind guards_harmless [OF known.harmless_note_event] c m g b)
  show ?thesis
    using guards_choice [OF r a, of "\<lambda>st. supervised E \<and> abort_set E (tick st)"]
    unfolding dispatch_def by simp
qed

lemma guards_run_once:
  assumes c: "known.calm token E"
  shows "guards token (run_once E u request)"
proof -
  have b: "guards token (run_body E u req inv snap)" for req inv snap
    unfolding run_body_def Let_def
    by (rule guards_depending, intro guards_catch guards_bind guards_dispatch
        guards_harmless [OF known.harmless_gather] guards_harmless [OF known.harmless_finish_run]
        guards_harmless [OF known.harmless_on_error] c)
  have "guards token (case p of (req, snap) \<Rightarrow>
      bind_act (begin_run E u req) (\<lambda>_. run_body E u req (invalid_goal request) snap))" for p
    by (cases p) (auto intro!: guards_bind b guards_harmless [OF known.harmless_begin_run] c)
  then show ?thesis
    unfolding run_once_def Let_def
    by (intro guards_bind guards_harmless [OF known.harmless_choose_goal] c)
qed

text \<open>The recovery forgets the token only after it saw that the lease carries another one.\<close>

lemma fenced_loss:
  assumes t: "transact W j c True k mutate also s r = (Inl WorkerLeaseLost, r')"
    and m: "\<And>d. mutate d \<noteq> Inl WorkerLeaseLost"
  shows "lease_token s = None \<or> map_option fst (lease r') \<noteq> lease_token s"
proof (cases "lease_token s")
  case (Some tok)
  with t have l: "update_loop (max 1 5) (update_attempt (json_ok W) c (Some tok) k mutate also) (envs W j) r
      = (Inl WorkerLeaseLost, r')"
    by (simp add: transact_def atomic_update_def)
  from update_loop_result [OF l] obtain i where
    a: "update_attempt (json_ok W) c (Some tok) k mutate also (envs W j i) (after_env i (envs W j) r)
      = Done (Inl WorkerLeaseLost) r'" by auto
  have "map_option fst (lease r') \<noteq> Some tok"
    using a m by (auto simp: update_attempt_def Let_def split: if_splits slot.splits sum.splits
        option.splits prod.splits)
  with Some show ?thesis by simp
qed simp

lemma unfenced_no_loss:
  assumes "transact W j c False k mutate also s r = (res, r')" and m: "\<And>d. mutate d \<noteq> Inl WorkerLeaseLost"
  shows "res \<noteq> Inl WorkerLeaseLost"
proof -
  from assms(1) have l: "update_loop (max 1 5) (update_attempt (json_ok W) c None k mutate also) (envs W j) r
      = (res, r')"
    by (simp add: transact_def atomic_update_def)
  show ?thesis
  proof
    assume w: "res = Inl WorkerLeaseLost"
    with update_loop_result [OF l] obtain i where
      a: "update_attempt (json_ok W) c None k mutate also (envs W j i) (after_env i (envs W j) r)
        = Done (Inl WorkerLeaseLost) r'" by auto
    show False
      using a m by (auto simp: update_attempt_def Let_def split: if_splits slot.splits sum.splits
          option.splits prod.splits)
  qed
qed

lemma announce_no_loss: "announce_aborted W j u m runs s r = (res, r') \<Longrightarrow> res \<noteq> Inl WorkerLeaseLost"
proof (induction runs arbitrary: j r)
  case (Cons run runs)
  then show ?case
    by (auto simp: Let_def log_event_def append_event_def append_event_doc_def
        split: option.splits sum.splits prod.splits dest!: unfenced_no_loss)
qed auto

lemma announce_known:
  assumes "known.undisturbed token W"
  shows "announce_aborted W j u m runs s r = (res, r') \<Longrightarrow> token_known token s r \<Longrightarrow> token_known token s r'"
proof (induction runs arbitrary: j r)
  case (Cons run runs)
  let ?p = "publish W u ''autonomy_status'' (JObj [(''run'', JObj run)]) r"
  from Cons.prems(2) have p: "token_known token s ?p" by (rule known.I_publish)
  show ?case
  proof (cases "map_of run ''id''")
    case None
    with Cons.prems p show ?thesis by (auto simp: Let_def)
  next
    case (Some i)
    obtain x r1 where l: "log_event W j u (py_str i) ''run_aborted'' m ''warn'' [] s ?p = (x, r1)" by fastforce
    from known.I_log_event [OF assms l p] have "token_known token s r1" .
    with Cons l Some show ?thesis by (auto simp: Let_def split: sum.splits)
  qed
qed simp

lemma abort_runs_known:
  assumes u: "known.undisturbed token W" and a: "abort_interrupted_runs W j usr q s r = (res, r')"
    and k: "token_known token s r"
  shows "token_known token s r' \<and> (res = Inl WorkerLeaseLost \<longrightarrow> map_option fst (lease r') \<noteq> Some token)"
proof (cases "\<exists>runs. list_runs W r = Inr runs \<and> list_ex is_running runs")
  case False
  with a k show ?thesis
    by (auto simp: abort_interrupted_runs_def list_runs_def bind_result_Inl json_get_def wrong_type_def
        split: sum.splits if_splits slot.splits)
next
  case True
  let ?d = "abort_runs_doc (abort_summary q) (now W)"
  obtain x r1 where t: "transact W j ListDoc True ''runs'' ?d (\<lambda>_ r. r) s r = (x, r1)" by fastforce
  from known.I_update [OF u t k] have k1: "token_known token s r1" .
  show ?thesis
  proof (cases x)
    case (Inl e)
    with a True t have e: "res = Inl e" "r' = r1" by (auto simp: abort_interrupted_runs_def Let_def)
    have "map_option fst (lease r1) \<noteq> Some token" if "e = WorkerLeaseLost"
    proof -
      from that t Inl have "transact W j ListDoc True ''runs'' ?d (\<lambda>_ r. r) s r = (Inl WorkerLeaseLost, r1)"
        by simp
      then have "lease_token s = None \<or> map_option fst (lease r1) \<noteq> lease_token s"
        by (rule fenced_loss) (simp add: abort_runs_doc_def Let_def)
      with k1 show ?thesis by (auto simp: token_known_def)
    qed
    with e k1 show ?thesis by auto
  next
    case (Inr runs)
    with a True t have "announce_aborted W (Suc j) usr (abort_summary q) runs s r1 = (res, r')"
      by (auto simp: abort_interrupted_runs_def Let_def)
    from announce_known [OF u this k1] announce_no_loss [OF this] show ?thesis by simp
  qed
qed

lemma reclaim_known:
  assumes u: "known.undisturbed token W" and k: "token_known token s r"
    and a: "reclaim_processing W j usr s r = (res, s', r')"
  shows "token_known token s' r'"
proof (cases "lease_token s")
  case None
  with a k show ?thesis by (auto simp: reclaim_processing_def Let_def)
next
  case (Some t)
  let ?q = "list_all (\<lambda>raw. processing_state r raw = Some ''claimed'') (processing r)"
  obtain x r1 where b: "abort_interrupted_runs W j usr ?q s r = (x, r1)" by fastforce
  from abort_runs_known [OF u b k]
  have k1: "token_known token s r1" "x = Inl WorkerLeaseLost \<longrightarrow> map_option fst (lease r1) \<noteq> Some token"
    by auto
  show ?thesis
  proof (cases "processing r = []")
    case True
    with a k Some show ?thesis
      by (auto simp: reclaim_processing_def Let_def clear_phases_script_def token_known_def
          split: if_splits)
  next
    case False
    with a b k1 Some show ?thesis
      by (auto simp: reclaim_processing_def Let_def token_known_def reclaim_script_def
          split: sum.splits py_error.splits option.splits prod.splits if_splits)
  qed
qed

lemma refresh_known:
  "refresh_lease ttl s r = (ok, s', r') \<Longrightarrow> token_known token s r \<Longrightarrow> token_known token s' r'"
  by (auto simp: refresh_lease_def refresh_script_def token_known_def Let_def split: option.splits if_splits)

lemma dequeue_known:
  "dequeue s r = (res, s', r') \<Longrightarrow> token_known token s r \<Longrightarrow> token_known token s' r'"
proof -
  assume d: "dequeue s r = (res, s', r')" and k: "token_known token s r"
  have fin: "token_known token s' r'"
    if "finish_dequeue raw s r1 = (res, s', r')" and "token_known token s r1" for raw r1
  proof -
    let ?ttl = "case lease_ttl s of None \<Rightarrow> 60 | Some t \<Rightarrow> t"
    obtain ok s2 r2 where f: "refresh_lease ?ttl s r1 = (ok, s2, r2)" by (metis prod_cases3)
    from refresh_known [OF f that(2)] have "token_known token s2 r2" .
    with that(1) show ?thesis
      by (auto simp: finish_dequeue_def f Let_def token_known_def split: if_splits option.splits)
  qed
  from d k show ?thesis
    by (auto simp: dequeue_def pop_to_processing_def record_phase_def token_known_def
        split: if_splits prod.splits dest!: fin)
qed

lemma schedule_known:
  assumes u: "known.undisturbed token W" and k: "token_known token s r"
    and m: "maybe_enqueue_scheduled W j usr s r = (res, r')"
  shows "token_known token s r'"
proof -
  obtain x r1 where g: "get_config W j usr s r = (x, r1)" by fastforce
  from known.I_get_config [OF u g k] have k1: "token_known token s r1" .
  let ?t = "transact W (Suc j) DictDoc False ''config'' (mark_due_doc usr (now W)) (enqueue_scheduled (now W)) s r1"
  obtain y r2 where t: "?t = (y, r2)" by fastforce
  have "token_known token s (enqueue_scheduled i c q)" if "token_known token s q" for i c q
    using that by (auto simp: enqueue_scheduled_def enqueue_def token_known_def split: option.splits)
  from known.I_transact [OF u this t k1] have "token_known token s r2" by blast
  with m g t k1 show ?thesis
    by (auto simp: maybe_enqueue_scheduled_def Let_def known.I_publish split: sum.splits option.splits if_splits)
qed

lemma complete_known:
  "complete s r = (ok, s', r') \<Longrightarrow> token_known token s r \<Longrightarrow> token_known token s' r'"
  by (auto simp: complete_def complete_script_def token_known_def Let_def split: option.splits if_splits prod.splits)

lemma guards_refresh:
  "known.calm token E \<Longrightarrow>
     guards token (call_store E (\<lambda>W s r. case refresh_lease ttl s r of (ok, s', r') \<Rightarrow> (Inr ok, s', r')))"
  by (rule guards_harmless, erule known.harmless_call_store) (auto split: prod.splits intro: refresh_known)

lemma guards_serve_next:
  assumes c: "known.calm token E"
  shows "guards token (serve_next E u ttl)"
proof -
  have c': "known.calm token (E\<lparr>supervised := True\<rparr>)" using c by (simp add: known.calm_def)
  have run: "guards token (run_with_lease_heartbeat E u ttl request)" for request
    unfolding run_with_lease_heartbeat_def
    by (intro guards_bind guards_if guards_refresh guards_run_once guards_pure c c')
  have com: "guards token (call_store E (\<lambda>W s r. case complete s r of (ok, s', r') \<Rightarrow> (Inr ok, s', r')))"
    by (rule guards_harmless, rule known.harmless_call_store [OF c])
      (auto split: prod.splits intro: complete_known)
  have rec: "guards token (call_store E (\<lambda>W. reclaim_processing W 0 u))"
    by (rule guards_harmless, rule known.harmless_call_store [OF c]) (rule reclaim_known)
  have sch: "guards token (call E (\<lambda>W. maybe_enqueue_scheduled W 0 u))"
    by (rule guards_harmless, rule known.harmless_call [OF c]) (rule schedule_known)
  have deq: "guards token (call_store E (\<lambda>W. dequeue))"
    by (rule guards_harmless, rule known.harmless_call_store [OF c]) (rule dequeue_known)
  have "guards token (case request of
         Some (kv # rest) \<Rightarrow>
           bind_act (run_with_lease_heartbeat E u ttl (kv # rest)) (\<lambda>run.
             if dict_get run ''status'' \<noteq> JStr ''aborted''
             then bind_act (call_store E (\<lambda>W s r. case complete s r of (ok, s', r') \<Rightarrow> (Inr ok, s', r')))
                    (\<lambda>_. pass (Finished run))
             else pass (Finished run))
       | _ \<Rightarrow>
           bind_act (call_store E (\<lambda>W s r. case refresh_lease ttl s r of (ok, s', r') \<Rightarrow> (Inr ok, s', r')))
             (\<lambda>ok. if ok then pass Idle
                   else raise (RuntimeError ''worker lease was lost while idle'')))" for request
  proof (cases "request = None \<or> request = Some []")
    case True
    then show ?thesis
      by (elim disjE; simp only: option.case list.case; intro guards_bind guards_if guards_pure guards_refresh c)
  next
    case False
    then obtain kv rest where r: "request = Some (kv # rest)" by (cases request) (auto simp: neq_Nil_conv)
    show ?thesis
      unfolding r by (simp only: option.case list.case) (intro guards_bind guards_if guards_pure run com)
  qed
  then show ?thesis
    unfolding serve_next_def by (intro guards_bind rec sch deq)
qed

text \<open>Every turn ends without the lease: a turn that acquired the lease, however it ends, leaves the
  store without a token and the lease key without this turn's token, provided that others do not
  take the token; a turn that did not acquire it has called nothing else.\<close>

theorem turn_releases_lease:
  assumes "leaves_lease token E"
    and "worker_turn E u poll ttl token errors st = (out, errors', slept, st')"
  shows "(out = NotAcquired \<and> tick st' = Suc (tick st) \<and> errors' = errors \<and> slept = poll) \<or>
    (lease_token (mem st') = None \<and> map_option fst (lease (db st')) \<noteq> Some token)"
proof -
  note c = leaves_lease_calm [OF assms(1)]
  let ?acq = "call_store E (\<lambda>W s r. case acquire_lease token ttl s r of (ok, s', r') \<Rightarrow> (Inr ok, s', r'))"
  let ?rel = "call_store E (\<lambda>W s r. case release_lease s r of (s', r') \<Rightarrow> (Inr (), s', r'))"
  obtain x st1 where a: "?acq st = (x, st1)" by fastforce
  show ?thesis
  proof (cases "x = Inr True")
    case False
    with a have "tick st1 = Suc (tick st)" by (auto simp: call_store_def split: prod.splits)
    moreover from False assms(2) a have "out = NotAcquired" "errors' = errors" "slept = poll" "st' = st1"
      by (auto simp: worker_turn_def split: sum.splits bool.splits)
    ultimately show ?thesis by simp
  next
    case True
    with a have k1: "token_known token (mem st1) (db st1)"
      by (auto simp: call_store_def acquire_lease_def token_known_def Let_def
          split: prod.splits option.splits)
    obtain y st2 where s: "serve_next E u ttl st1 = (y, st2)" by fastforce
    from guards_serve_next [OF c] s k1 have k2: "token_known token (mem st2) (db st2)"
      by (auto simp: guards_def)
    obtain z st3 where r: "?rel st2 = (z, st3)" by fastforce
    obtain sg rg where g: "gaps E (tick st2) (mem st2) (db st2) = (sg, rg)" by fastforce
    from c k2 g have "token_known token sg rg" unfolding known.calm_def by blast
    with r g have "lease_token (mem st3) = None \<and> map_option fst (lease (db st3)) \<noteq> Some token"
      by (auto simp: call_store_def release_lease_def release_script_def token_known_def Let_def
          split: option.splits if_splits)
    moreover from assms(2) a True s r have "st' = st3"
      by (auto simp: worker_turn_def split: sum.splits)
    ultimately show ?thesis by simp
  qed
qed

definition sample_idle :: run_state where
  "sample_idle = \<lparr>db = sample_config_db, mem = empty_store, tick = 0, run_doc = [], dispatched = []\<rparr>"

theorem turn_releases_lease_witness:
  "lease (db sample_idle) = None \<and>
   (\<exists>out e' sl st'. worker_turn sample_env ''u'' 10 60 ''t'' 0 sample_idle = (out, e', sl, st')
      \<and> lease_token (mem st') = None \<and> map_option fst (lease (db st')) \<noteq> Some ''t'')"
proof -
  have l: "leaves_lease ''t'' sample_env"
    by (simp add: leaves_lease_def sample_env_def)
  obtain out e' sl st' where h: "worker_turn sample_env ''u'' 10 60 ''t'' 0 sample_idle = (out, e', sl, st')"
    by (metis prod_cases4)
  have f: "lease (db sample_idle) = None" by (simp add: sample_idle_def sample_config_db_def empty_redis_def)
  then have "out \<noteq> NotAcquired"
    using h by (auto simp: worker_turn_def call_store_def sample_env_def acquire_lease_def serve_next_def
        bind_act_def pass_def raise_def split: prod.splits sum.splits option.splits list.splits if_splits)
  with turn_releases_lease [OF l h] h f show ?thesis by blast
qed

section \<open>A queued empty object\<close>

text \<open>
  \<open>dequeue\<close> accepts \<open>{}\<close> as a request, but the loop tests \<open>if request\<close>, which is false for an empty
  dictionary: the request is neither run nor completed.
\<close>

definition empty_request :: payload where
  "empty_request = Encoded (JObj [])"

text \<open>A state between turns in which the claim of an empty request was left behind; scheduling is
  disabled and no run is recorded.\<close>

definition wedged :: "payload list \<Rightarrow> run_state \<Rightarrow> bool" where
  "wedged q st \<longleftrightarrow> lease (db st) = None \<and> queue (db st) = q \<and> processing (db st) = [empty_request]
     \<and> processing_state (db st) empty_request = Some ''claimed''
     \<and> slots (db st) ''config'' = RedisJson (JObj [(''enabled'', JBool False)])
     \<and> slots (db st) ''runs'' = Missing"

definition alone :: "run_env \<Rightarrow> bool" where
  "alone E \<longleftrightarrow> (\<forall>n. json_ok (worlds E n)) \<and> gaps E = (\<lambda>n s r. (s, r))"

lemma disabled_not_scheduled:
  assumes "slots r ''config'' = RedisJson (JObj [(''enabled'', JBool False)])" and "json_ok W"
  shows "maybe_enqueue_scheduled W j u s r = (Inr None, r)"
proof -
  have g: "get_config W j u s r = (Inr (dict_merge (default_config u (now W)) [(''enabled'', JBool False)]), r)"
    using assms by (simp add: get_config_def json_get_def)
  have "\<not> schedule_due (now W) (dict_merge (default_config u (now W)) [(''enabled'', JBool False)])"
    by (simp add: schedule_due_def dict_get_default_def map_of_dict_merge)
  with g show ?thesis by (simp add: maybe_enqueue_scheduled_def)
qed

lemma call_alone:
  "alone E \<Longrightarrow> call_store E f st = (case f (worlds E (tick st)) (mem st) (db st) of
     (res, s', r') \<Rightarrow> (res, st\<lparr>mem := s', db := r', tick := Suc (tick st)\<rparr>))"
  by (simp add: alone_def call_store_def)

lemma reclaim_empty_request:
  assumes "lease r = Some (token, x)" and "lease_token s = Some token" and "processing r = [empty_request]"
    and "processing_state r empty_request = Some ''claimed''" and "slots r ''runs'' = Missing"
  shows "\<exists>s'. reclaim_processing W j u s r = (Inr 1, s',
      r\<lparr>queue := queue r @ [empty_request], processing := [], processing_state := Map.empty\<rparr>)
    \<and> lease_token s' = Some token \<and> lease_ttl s' = lease_ttl s"
proof -
  have "abort_interrupted_runs W j u True s r = (Inr (), r)"
    using assms(5) by (simp add: abort_interrupted_runs_def list_runs_def json_get_def as_list_def)
  then show ?thesis
    using assms(1-4) by (auto simp: reclaim_processing_def reclaim_script_def Let_def split: option.splits)
qed

lemma dequeue_empty_request:
  assumes "lease r = Some (token, x)" and "lease_token s = Some token" and "queue r = q @ [empty_request]"
    and "processing r = []"
  shows "\<exists>s' y. dequeue s r = (Inr (Some []), s', r\<lparr>queue := q, processing := [empty_request],
      processing_state := (processing_state r)(empty_request \<mapsto> ''claimed''), lease := Some (token, y)\<rparr>)
    \<and> lease_token s' = Some token"
  using assms
  by (auto simp: dequeue_def owns_lease_def pop_to_processing_def record_phase_def finish_dequeue_def
      refresh_lease_def refresh_script_def empty_request_def Let_def)

lemma wedged_turn:
  assumes "wedged q st" and "alone E"
  shows "\<exists>st'. worker_turn E u poll ttl token errors st = (Idle, 0, 0, st') \<and> wedged q st'
    \<and> dispatched st' = dispatched st"
proof -
  note c = call_alone [OF assms(2)]
  note w = assms(1) [unfolded wedged_def]
  let ?s1 = "(mem st)\<lparr>lease_token := Some token, lease_ttl := Some (max 1 ttl)\<rparr>"
  let ?r1 = "(db st)\<lparr>lease := Some (token, max 1 ttl)\<rparr>"
  from w have "lease ?r1 = Some (token, max 1 ttl)" "lease_token ?s1 = Some token"
    "processing ?r1 = [empty_request]" "processing_state ?r1 empty_request = Some ''claimed''"
    "slots ?r1 ''runs'' = Missing" by simp_all
  from reclaim_empty_request [OF this, of "worlds E (Suc (tick st))" 0 u] w obtain s2 where
    rec: "reclaim_processing (worlds E (Suc (tick st))) 0 u ?s1 ?r1 = (Inr 1, s2, ?r1\<lparr>queue := q @ [empty_request],
        processing := [], processing_state := Map.empty\<rparr>)" and s2: "lease_token s2 = Some token"
    by auto
  let ?r2 = "?r1\<lparr>queue := q @ [empty_request], processing := [], processing_state := Map.empty\<rparr>"
  have sch: "maybe_enqueue_scheduled (worlds E n) 0 u s2 ?r2 = (Inr None, ?r2)" for n
    using w assms(2) by (intro disabled_not_scheduled) (auto simp: alone_def)
  have "lease ?r2 = Some (token, max 1 ttl)" "queue ?r2 = q @ [empty_request]" "processing ?r2 = []"
    by simp_all
  from dequeue_empty_request [OF this(1) s2 this(2,3)] obtain s3 y where
    deq: "dequeue s2 ?r2 = (Inr (Some []), s3, ?r2\<lparr>queue := q, processing := [empty_request],
      processing_state := (processing_state ?r2)(empty_request \<mapsto> ''claimed''), lease := Some (token, y)\<rparr>)"
    and s3: "lease_token s3 = Some token" by blast
  show ?thesis
    using w s3
    by (simp add: worker_turn_def serve_next_def c acquire_lease_def bind_act_def rec call_def sch deq
        refresh_lease_def refresh_script_def release_lease_def release_script_def pass_def wedged_def Let_def)
qed

lemma wedged_loop:
  assumes "wedged q st" and "\<forall>(E, token) \<in> set turns. alone E"
  shows "\<exists>st'. main_loop once u poll ttl turns errors st = (replicate (length turns) Idle, st') \<and> wedged q st'
    \<and> dispatched st' = dispatched st"
  using assms
proof (induction turns arbitrary: st errors)
  case (Cons p turns)
  obtain E token where p: "p = (E, token)" by (cases p)
  from Cons.prems p obtain st1 where t: "worker_turn E u poll ttl token errors st = (Idle, 0, 0, st1)"
    "wedged q st1" "dispatched st1 = dispatched st" using wedged_turn by fastforce
  from Cons.IH [OF t(2), of 0] Cons.prems(2) t show ?case by (auto simp: p)
qed simp


definition wedged_state :: run_state where
  "wedged_state = \<lparr>
     db = empty_redis\<lparr>queue := [sample_claim], processing := [empty_request],
        processing_state := [empty_request \<mapsto> ''claimed''],
        slots := (\<lambda>_. Missing)(''config'' := RedisJson (JObj [(''enabled'', JBool False)]))\<rparr>,
     mem = empty_store, tick = 0, run_doc = [], dispatched = []\<rparr>"


end
