(* ===== verification/Mcp_Execution.thy ===== *)
theory Mcp_Execution
  imports Mcp_Gate
begin

text \<open>
  The route that executes a call a human has approved (\<open>builder/mcp_approval_api.py\<close>) and the bounded,
  user-scoped records of these executions (\<open>builder/daedalus_runtime/executions.py\<close>).

  The route looks at the approval database twice, and other requests may run in between; both
  databases are arguments of the model. The MCP transport is outside the model: an execution sees
  the events it emits and how the call ends (\<open>call_end\<close>).
\<close>

section \<open>The execute route\<close>

record execute_body =
  eb_server_name :: string
  eb_tool_name :: string
  eb_canonical_arguments :: string
  eb_arguments_sha256 :: string

definition hex_char :: "char \<Rightarrow> bool" where
  "hex_char c = (is_digit c \<or> 97 \<le> code c \<and> code c \<le> 102)"

definition body_ok :: "execute_body \<Rightarrow> bool" where
  "body_ok b =
     (1 \<le> length (eb_server_name b) \<and> length (eb_server_name b) \<le> 128
      \<and> 1 \<le> length (eb_tool_name b) \<and> length (eb_tool_name b) \<le> 128
      \<and> 2 \<le> length (eb_canonical_arguments b) \<and> length (eb_canonical_arguments b) \<le> 4000000
      \<and> length (eb_arguments_sha256 b) = 64 \<and> list_all hex_char (eb_arguments_sha256 b))"

abbreviation invalid_credential :: py_error where
  "invalid_credential \<equiv> HTTPException 409 ''Exact MCP approval credential is missing or invalid''"

definition execute_checks ::
  "gate_ctx \<Rightarrow> string list \<Rightarrow> string \<Rightarrow> execute_body \<Rightarrow> (string \<times> dict) result" where
  "execute_checks G groups request_id b =
     bind_result (authenticated_user_id_from_headers (env G) (request_headers G)) (\<lambda>user.
       if request_id = [] \<or> length request_id > 128
       then Inl (HTTPException 400 ''Invalid approval request ID'')
       else case decode_json (crypt G) (eb_canonical_arguments b) of
         None \<Rightarrow> Inl (HTTPException 400 ''Canonical MCP arguments are invalid'')
       | Some (JObj arguments) \<Rightarrow>
           if hash256 (crypt G) (eb_canonical_arguments b) \<noteq> eb_arguments_sha256 b
           then Inl (HTTPException 409 ''MCP arguments do not match their approved hash'')
           else if has_local_read_only_evidence (policies G) (eb_server_name b) (eb_tool_name b)
           then Inl (HTTPException 409 ''Direct execution is limited to approval-gated operations'')
           else if contains ''__'' (eb_server_name b) \<or> eb_tool_name b = ''connect''
                   \<or> eb_server_name b \<notin> set groups
           then Inl invalid_credential
           else Inr (user, arguments)
       | Some _ \<Rightarrow> Inl (HTTPException 400 ''MCP arguments must be an object''))"

definition check_credential ::
  "gate_ctx \<Rightarrow> string \<Rightarrow> execute_body \<Rightarrow> string \<Rightarrow> bool \<Rightarrow> approvals \<Rightarrow> bool result \<times> approvals" where
  "check_credential G user b token consume m =
     (case validate_approval_token (crypt G)
             (call_request user (eb_server_name b) (eb_tool_name b) (eb_arguments_sha256 b))
             token None consume m of
        (r, m') \<Rightarrow> (bind_result r (\<lambda>(valid, reason). Inr valid), m'))"

definition consumed_execution_scope ::
  "gate_ctx \<Rightarrow> string \<Rightarrow> string \<Rightarrow> string \<Rightarrow> dict \<Rightarrow> (string \<times> string \<times> string \<times> string) result" where
  "consumed_execution_scope G user_id server_name tool_name arguments =
     (case mcp_policy_target (policies G) server_name tool_name of
        (logical_server, normalized_tool) \<Rightarrow>
          bind_result (canonical_hash G None arguments) (\<lambda>(canonical, sha).
            Inr (user_id, logical_server, normalized_tool, sha)))"

text \<open>The route up to the start of the execution: the database is \<open>m\<close> when the credential is looked at
  and \<open>m'\<close> when it is spent. The result is what the execution is started with.\<close>

definition execute_route ::
  "gate_ctx \<Rightarrow> string list \<Rightarrow> string \<Rightarrow> execute_body \<Rightarrow> string \<Rightarrow> approvals \<Rightarrow> approvals \<Rightarrow>
   (string \<times> dict \<times> string \<times> string \<times> string \<times> string) result \<times> approvals" where
  "execute_route G groups request_id b token m m' =
     (if \<not> body_ok b then (Inl (HTTPException 422 ''Unprocessable Entity''), m')
      else case execute_checks G groups request_id b of
        Inl e \<Rightarrow> (Inl e, m')
      | Inr (user, arguments) \<Rightarrow>
          (case make_redis_client G of
             Inl e \<Rightarrow> (Inl e, m')
           | Inr _ \<Rightarrow>
               (case fst (check_credential G user b token False m) of
                  Inl e \<Rightarrow> (Inl e, m')
                | Inr False \<Rightarrow> (Inl invalid_credential, m')
                | Inr True \<Rightarrow>
                    (case check_credential G user b token True m' of
                       (Inl e, m'') \<Rightarrow> (Inl e, m'')
                     | (Inr False, m'') \<Rightarrow> (Inl invalid_credential, m'')
                     | (Inr True, m'') \<Rightarrow>
                         (bind_result (consumed_execution_scope G user (eb_server_name b) (eb_tool_name b) arguments)
                            (\<lambda>consumed. Inr (user, arguments, consumed)), m'')))))"

section \<open>Execution records\<close>

record execution =
  ex_user :: string
  execution_id :: string
  status :: string
  created :: rat
  auth_url :: json
  oauth_state :: json
  outcome :: "dict option"
  error_text :: string
  task_done :: "bool option"
  first_outcome :: bool

definition new_execution :: "rat \<Rightarrow> string \<Rightarrow> string \<Rightarrow> execution" where
  "new_execution now ident user =
     \<lparr>ex_user = user, execution_id = ident, status = ''running'', created = now, auth_url = JNull,
      oauth_state = JNull, outcome = None, error_text = [], task_done = Some False, first_outcome = False\<rparr>"

definition payload_dict :: "bool \<Rightarrow> execution \<Rightarrow> dict" where
  "payload_dict initial r =
     [(''executionId'', JStr (execution_id r)), (''status'', JStr (status r))]
     @ (if status r = ''oauth_required''
        then [(if initial then ''authUrl'' else ''auth_url'', auth_url r),
              (if initial then ''oauthState'' else ''oauth_state'', oauth_state r)] else [])
     @ (case outcome r of None \<Rightarrow> [] | Some d \<Rightarrow> [(''result'', JObj d)])
     @ (if error_text r = [] then [] else [(''error'', JStr (error_text r))])"

type_synonym executions = "(string \<times> execution) list"

definition kept_record :: "rat \<Rightarrow> execution \<Rightarrow> bool" where
  "kept_record now r =
     (case task_done r of None \<Rightarrow> False | Some d \<Rightarrow> \<not> d \<or> now - created r < 3600)"

definition start_execution ::
  "rat \<Rightarrow> string \<Rightarrow> string \<Rightarrow> executions \<Rightarrow> execution result \<times> executions" where
  "start_execution now ident user records =
     (let rs = filter (\<lambda>(k, r). kept_record now r) records in
      if length rs \<ge> 1024 then (Inl (RuntimeError ''Execution capacity reached''), rs)
      else (Inr (new_execution now ident user), AList.update ident (new_execution now ident user) rs))"

text \<open>An event: the status changes before the members are read, and \<open>data[...]\<close> raises on a missing one.\<close>

definition emit_event :: "string \<Rightarrow> dict \<Rightarrow> execution \<Rightarrow> unit result \<times> execution" where
  "emit_event event data r =
     (if event \<noteq> ''oauth_required'' then (Inr (), r)
      else let r' = r\<lparr>status := ''oauth_required''\<rparr> in
        (case (map_of data ''auth_url'', map_of data ''oauth_state'') of
           (Some u, Some s) \<Rightarrow> (Inr (), r'\<lparr>auth_url := u, oauth_state := s, first_outcome := True\<rparr>)
         | _ \<Rightarrow> (Inl KeyError, r')))"

datatype call_end = Returned dict | Raised | CancelledEnd

definition confirmed :: "call_end \<Rightarrow> bool" where
  "confirmed e =
     (case e of
        Returned o1 \<Rightarrow> \<not> truthy (dict_get o1 ''is_error'') \<and> \<not> truthy (dict_get o1 ''terminal'')
      | _ \<Rightarrow> False)"

definition receipt :: "execute_body \<Rightarrow> dict \<Rightarrow> dict" where
  "receipt b o1 =
     [(''status'', JStr ''completed''), (''serverName'', JStr (eb_server_name b)),
      (''toolName'', JStr (eb_tool_name b)), (''argumentsSha256'', JStr (eb_arguments_sha256 b)),
      (''content'', dict_get_default o1 ''content'' (JStr []))]"

definition cancel_execution :: "execution \<Rightarrow> execution" where
  "cancel_execution r =
     r\<lparr>status := ''cancelled'', error_text := ''The approved MCP operation was cancelled before it confirmed success. Check its current state before retrying.'',
       task_done := Some True, first_outcome := True\<rparr>"

definition fail_execution :: "execution \<Rightarrow> execution" where
  "fail_execution r =
     r\<lparr>status := ''failed'', error_text := ''The approved MCP operation did not confirm success. Check its current state before retrying.'',
       task_done := Some True, first_outcome := True\<rparr>"

definition end_execution :: "execute_body \<Rightarrow> call_end \<Rightarrow> execution \<Rightarrow> execution" where
  "end_execution b e r =
     (case e of
        Returned o1 \<Rightarrow>
          if confirmed e
          then r\<lparr>status := ''completed'', outcome := Some (receipt b o1), task_done := Some True, first_outcome := True\<rparr>
          else fail_execution r
      | Raised \<Rightarrow> fail_execution r
      | CancelledEnd \<Rightarrow> cancel_execution r)"

definition run_execution :: "execute_body \<Rightarrow> (string \<times> dict) list \<Rightarrow> call_end \<Rightarrow> execution \<Rightarrow> execution" where
  "run_execution b events e r =
     end_execution b e (fold (\<lambda>(event, data) r. snd (emit_event event data r)) events r)"

definition close_executions :: "executions \<Rightarrow> executions" where
  "close_executions records =
     map (\<lambda>(k, r). (k, if task_done r = Some False then cancel_execution r else r)) records"

definition response_status :: "execution \<Rightarrow> nat" where
  "response_status r =
     (if status r = ''completed'' then 200 else if status r = ''failed'' then 422 else 202)"

definition get_execution :: "gate_ctx \<Rightarrow> executions \<Rightarrow> string \<Rightarrow> dict result" where
  "get_execution G records ident =
     (case map_of records ident of
        None \<Rightarrow> Inl (HTTPException 404 ''Execution not found'')
      | Some r \<Rightarrow>
          bind_result (authenticated_user_id_from_headers (env G) (request_headers G)) (\<lambda>user.
            if ex_user r \<noteq> user then Inl (HTTPException 404 ''Execution not found'')
            else Inr (payload_dict False r)))"

section \<open>Facts\<close>

lemma canonical_hash_plain: "\<exists>canonical sha. canonical_hash G None d = Inr (canonical, sha)"
  by (simp add: canonical_hash_def canonical_mcp_call_def)

lemma check_effect:
  "snd (check_credential G user b token c m)
     = (if token \<noteq> [] \<and> c then m(approval_token_key (crypt G) user token := None) else m)"
  by (simp add: check_credential_def split_beta validate_effect)

text \<open>What a positive check says of the stored credential.\<close>

lemma check_accepts:
  assumes "fst (check_credential G user b token c m) = Inr True"
  shows "token \<noteq> [] \<and> (\<exists>d. m (approval_token_key (crypt G) user token) = Some (Encoded (JObj d))
    \<and> norm_value (dict_get d ''user_id'') = Inr (norm_text user [])
    \<and> norm_value (dict_get d ''action_type'') = Inr ''mcp_mutation''
    \<and> norm_value (dict_get d ''server_name'') = Inr (norm_text (eb_server_name b) [])
    \<and> norm_value (dict_get d ''tool_name'') = Inr (norm_text (eb_tool_name b) [])
    \<and> norm_value (dict_get d ''arguments_sha256'') = Inr (norm_text (eb_arguments_sha256 b) []))"
proof
  let ?q = "call_request user (eb_server_name b) (eb_tool_name b) (eb_arguments_sha256 b)"
  from assms obtain reason where v: "fst (validate_approval_token (crypt G) ?q token None c m) = Inr (True, reason)"
    by (auto simp: check_credential_def bind_result_Inr split: prod.splits)
  then show "token \<noteq> []" by (auto simp: validate_approval_token_def)
  from validate_accepts [OF v] obtain d sha where
    d: "m (approval_token_key (crypt G) user token) = Some (Encoded (JObj d))"
    and a: "actual_hash ''mcp_mutation'' None d = Inr (Inr sha)"
    and e: "compare_request (expected_request ?q) d sha = Inr (True, reason)" by auto
  from a have "norm_value (dict_get d ''arguments_sha256'') = Inr sha"
    by (auto simp: actual_hash_def bind_result_Inr)
  with compare_accepts [OF e] d show "\<exists>d. m (approval_token_key (crypt G) user token) = Some (Encoded (JObj d))
    \<and> norm_value (dict_get d ''user_id'') = Inr (norm_text user [])
    \<and> norm_value (dict_get d ''action_type'') = Inr ''mcp_mutation''
    \<and> norm_value (dict_get d ''server_name'') = Inr (norm_text (eb_server_name b) [])
    \<and> norm_value (dict_get d ''tool_name'') = Inr (norm_text (eb_tool_name b) [])
    \<and> norm_value (dict_get d ''arguments_sha256'') = Inr (norm_text (eb_arguments_sha256 b) [])"
    by (auto simp: expected_call)
qed

lemma check_missing:
  "m (approval_token_key (crypt G) user token) = None \<Longrightarrow> fst (check_credential G user b token c m) = Inr False"
  by (simp add: check_credential_def validate_approval_token_def Let_def)

text \<open>The steps of a route that starts an execution.\<close>

lemma route_started:
  assumes "execute_route G groups rid b token m m' = (Inr (user, arguments, consumed), m'')"
  shows "execute_checks G groups rid b = Inr (user, arguments)"
    and "fst (check_credential G user b token True m') = Inr True"
    and "m'' = m'(approval_token_key (crypt G) user token := None)"
    and "consumed_execution_scope G user (eb_server_name b) (eb_tool_name b) arguments = Inr consumed"
proof -
  from assms obtain u a where c: "execute_checks G groups rid b = Inr (u, a)"
    by (auto simp: execute_route_def split: if_splits sum.splits)
  from assms c have k: "fst (check_credential G u b token True m') = Inr True"
    and s: "snd (check_credential G u b token True m') = m''"
    and d: "consumed_execution_scope G u (eb_server_name b) (eb_tool_name b) a = Inr consumed"
    and e: "u = user" "a = arguments"
    by (auto simp: execute_route_def bind_result_Inr split: if_splits sum.splits bool.splits prod.splits)
  from k check_accepts have "token \<noteq> []" by blast
  with s check_effect [of G u b token True m'] e
  show "m'' = m'(approval_token_key (crypt G) user token := None)" by simp
  from c k d e show "execute_checks G groups rid b = Inr (user, arguments)"
    "fst (check_credential G user b token True m') = Inr True"
    "consumed_execution_scope G user (eb_server_name b) (eb_tool_name b) arguments = Inr consumed" by auto
qed

lemma checks_passed:
  assumes "execute_checks G groups rid b = Inr (user, arguments)"
  shows "authenticated_user_id_from_headers (env G) (request_headers G) = Inr user"
    and "decode_json (crypt G) (eb_canonical_arguments b) = Some (JObj arguments)"
    and "hash256 (crypt G) (eb_canonical_arguments b) = eb_arguments_sha256 b"
    and "\<not> has_local_read_only_evidence (policies G) (eb_server_name b) (eb_tool_name b)"
    and "eb_server_name b \<in> set groups" and "\<not> contains ''__'' (eb_server_name b)"
  using assms
  by (auto simp: execute_checks_def bind_result_Inr split: if_splits option.splits json.splits)

lemma user_from_context:
  "authenticated_user_id_from_headers S ctx = Inr user \<Longrightarrow>
     authenticated_user_id_from_context_or_fallback S ctx [] = Inr user \<and> user \<noteq> []"
  using no_context_no_identity [of S user]
  by (cases ctx) (auto simp: authenticated_user_id_from_context_or_fallback_def
      authenticated_user_id_from_headers_def Let_def split: if_splits)

text \<open>Inside the scope of a consumed credential the gate compares, and spends nothing.\<close>

lemma gate_in_scope:
  assumes "authenticated_user_id_from_headers (env G) (request_headers G) = Inr user"
    and "call_policy (policies G) (server c) (tool c) = ApprovalRequired"
  shows "validate_mcp_approval (G\<lparr>consumed_execution := Some consumed\<rparr>) rid time c st
    = (match_consumed (G\<lparr>consumed_execution := Some consumed\<rparr>) c user consumed, st)"
  using gate_protected [of "G\<lparr>consumed_execution := Some consumed\<rparr>" c rid time st] assms
    user_from_context [OF assms(1)] by simp

lemma canonical_hash_scope [simp]:
  "canonical_hash (G\<lparr>consumed_execution := x\<rparr>) = canonical_hash G"
  by (simp add: canonical_hash_def fun_eq_iff)

section \<open>Properties\<close>


definition exec_gate :: gate_ctx where
  "exec_gate = sample_gate\<lparr>crypt := sample_crypto\<lparr>hash256 := (\<lambda>_. replicate 64 (CHR ''a''))\<rparr>\<rparr>"

definition exec_body :: execute_body where
  "exec_body = \<lparr>eb_server_name = ''k8s'', eb_tool_name = ''delete'', eb_canonical_arguments = ''{}'',
     eb_arguments_sha256 = replicate 64 (CHR ''a'')\<rparr>"

definition exec_db :: approvals where
  "exec_db = snd (issue_approval_token (crypt exec_gate) ''t'' 0
     (sample_request\<lparr>ar_arguments_sha256 := replicate 64 (CHR ''a'')\<rparr>) (\<lambda>_. None))"


text \<open>An execution reports what happened: when its task has ended the record is in a final state, it is
  answered with status 200 exactly when the MCP call returned without an error or terminal mark, 422 when
  it failed and 202 when it was cancelled; a receipt exists only in the first case and names the approved
  server, tool and hash, and in the others an error tells the user to check before a retry.\<close>

theorem execution_reports:
  assumes "r = run_execution b events e (new_execution now ident user)"
  shows "task_done r = Some True \<and> first_outcome r \<and> ex_user r = user
    \<and> (response_status r = 200 \<longleftrightarrow> confirmed e)
    \<and> (response_status r = 202 \<longleftrightarrow> e = CancelledEnd)
    \<and> (outcome r \<noteq> None \<longleftrightarrow> confirmed e)
    \<and> (\<forall>d. outcome r = Some d \<longrightarrow> dict_get d ''serverName'' = JStr (eb_server_name b)
         \<and> dict_get d ''toolName'' = JStr (eb_tool_name b)
         \<and> dict_get d ''argumentsSha256'' = JStr (eb_arguments_sha256 b))
    \<and> (error_text r \<noteq> [] \<longleftrightarrow> \<not> confirmed e)"
proof -
  let ?f = "\<lambda>events r. fold (\<lambda>(event, data) r. snd (emit_event event data r)) events r"
  have kept: "outcome (?f events r) = outcome r \<and> error_text (?f events r) = error_text r
      \<and> ex_user (?f events r) = ex_user r" for r
  proof (induction events arbitrary: r)
    case (Cons x events)
    have "outcome (snd (emit_event (fst x) (snd x) r)) = outcome r
        \<and> error_text (snd (emit_event (fst x) (snd x) r)) = error_text r
        \<and> ex_user (snd (emit_event (fst x) (snd x) r)) = ex_user r"
      by (simp add: emit_event_def Let_def split: option.splits)
    with Cons.IH [of "snd (emit_event (fst x) (snd x) r)"] show ?case
      by (simp add: split_beta)
  qed simp
  show ?thesis
    unfolding assms run_execution_def
    using kept [of "new_execution now ident user"]
    by (cases e) (simp_all add: end_execution_def confirmed_def fail_execution_def cancel_execution_def
        response_status_def new_execution_def receipt_def dict_get_def)
qed

theorem execution_reports_witness:
  "response_status (run_execution
      \<lparr>eb_server_name = ''k8s'', eb_tool_name = ''delete'', eb_canonical_arguments = ''{}'', eb_arguments_sha256 = ''h''\<rparr>
      [(''oauth_required'', [(''auth_url'', JStr ''u'')])] (Returned [(''content'', JStr ''done'')])
      (new_execution 0 ''i'' ''ann'')) = 200"
  using execution_reports [OF refl, of
      "\<lparr>eb_server_name = ''k8s'', eb_tool_name = ''delete'', eb_canonical_arguments = ''{}'', eb_arguments_sha256 = ''h''\<rparr>"
      "[(''oauth_required'', [(''auth_url'', JStr ''u'')])]" "Returned [(''content'', JStr ''done'')]" 0 "''i''" "''ann''"]
  by (simp add: confirmed_def dict_get_def)

lemma update_length: "length (AList.update k v xs) \<le> Suc (length xs)"
  by (induction xs) auto

lemma update_elems: "x \<in> set (AList.update k v xs) \<Longrightarrow> x = (k, v) \<or> x \<in> set xs"
  by (induction xs) (auto split: if_splits)

lemma map_of_filtered:
  "distinct (map fst xs) \<Longrightarrow> map_of xs k = Some v \<Longrightarrow> P (k, v) \<Longrightarrow> map_of (filter P xs) k = Some v"
  by (induction xs) (auto simp: map_of_eq_None_iff image_iff split: if_splits)

text \<open>Execution records are bounded and private: starting keeps at most 1024 records, fails only when
  1024 records are still running or younger than an hour, and drops no running execution (records have
  distinct identifiers and the new one is fresh); and a record is shown only to the user it was started by.\<close>

theorem executions_bounded:
  assumes "distinct (map fst records)" and "map_of records ident = None"
    and "start_execution now ident user records = (res, records')"
  shows "(is_ok res \<longrightarrow> length records' \<le> 1024 \<and> distinct (map fst records')
            \<and> map_of records' ident = Some (new_execution now ident user))
    \<and> (\<not> is_ok res \<longrightarrow> 1024 \<le> length (filter (\<lambda>(k, r). kept_record now r) records))
    \<and> (\<forall>k r. map_of records k = Some r \<longrightarrow> task_done r = Some False \<longrightarrow> map_of records' k = Some r)
    \<and> (\<forall>G k d. get_execution G records' k = Inr d \<longrightarrow>
         (\<exists>r. map_of records' k = Some r
            \<and> authenticated_user_id_from_headers (env G) (request_headers G) = Inr (ex_user r)))"
proof (intro conjI allI impI)
  let ?rs = "filter (\<lambda>(k, r). kept_record now r) records"
  have dist: "distinct (map fst ?rs)" using assms(1) by (rule distinct_map_filter)
  show "length records' \<le> 1024" if "is_ok res"
    using that assms(3) update_length [of ident "new_execution now ident user" ?rs]
    by (auto simp: start_execution_def Let_def split: if_splits)
  show "distinct (map fst records')" if "is_ok res"
    using that assms(3) dist by (auto simp: start_execution_def Let_def distinct_update split: if_splits)
  show "map_of records' ident = Some (new_execution now ident user)" if "is_ok res"
    using that assms(3) by (auto simp: start_execution_def Let_def update_conv' split: if_splits)
  show "1024 \<le> length ?rs" if "\<not> is_ok res"
    using that assms(3) by (auto simp: start_execution_def Let_def split: if_splits)
  show "map_of records' k = Some r" if "map_of records k = Some r" "task_done r = Some False" for k r
  proof -
    have "map_of ?rs k = Some r"
      using that assms(1) by (intro map_of_filtered) (auto simp: kept_record_def)
    with assms(2,3) that(1) show ?thesis
      by (auto simp: start_execution_def Let_def update_conv' split: if_splits)
  qed
  show "\<exists>r. map_of records' k = Some r
      \<and> authenticated_user_id_from_headers (env G) (request_headers G) = Inr (ex_user r)"
    if "get_execution G records' k = Inr d" for G k d
    using that by (auto simp: get_execution_def bind_result_Inr split: option.splits if_splits)
qed

theorem executions_bounded_witness:
  "map_of (snd (start_execution 7 ''b'' ''ann'' [(''a'', new_execution 0 ''a'' ''bob'')])) ''a''
     = Some (new_execution 0 ''a'' ''bob'')"
proof -
  let ?rs = "[(''a'', new_execution 0 ''a'' ''bob'')]"
  obtain res rs' where s: "start_execution 7 ''b'' ''ann'' ?rs = (res, rs')"
    by (cases "start_execution 7 ''b'' ''ann'' ?rs")
  have "distinct (map fst ?rs)" "map_of ?rs ''b'' = None" by simp_all
  from executions_bounded [OF this s] have
    "\<forall>k r. map_of ?rs k = Some r \<longrightarrow> task_done r = Some False \<longrightarrow> map_of rs' k = Some r" by blast
  moreover have "task_done (new_execution 0 ''a'' ''bob'') = Some False" by (simp add: new_execution_def)
  ultimately show ?thesis by (simp add: s)
qed

end
