(* ===== verification/Backend_Client.thy ===== *)
theory Backend_Client
  imports Py_Values
begin

text \<open>
  The client through which the worker calls the backend
  (\<open>autonomous_agent/backend_client.py\<close>): recognising requests for authorization, the headers of a call,
  the reader of the event stream and the race between the reader, an abort and the time limit.

  The HTTP library is outside the model: the reader is given the lines of the response, or the status
  code when the library refused it. \<open>loads\<close> is \<open>json.loads\<close>.
\<close>

section \<open>Requests for authorization\<close>

definition any_in :: "string list \<Rightarrow> string \<Rightarrow> bool" where
  "any_in terms t = list_ex (\<lambda>w. contains w t) terms"

definition looks_like_oauth_text :: "string \<Rightarrow> bool" where
  "looks_like_oauth_text t =
     (let lowered = lower t in
      any_in [''oauth'', ''authorization'', ''authorize'', ''authenticate'', ''auth''] lowered
      \<and> any_in [''required'', ''needed'', ''missing'', ''expired'', ''connect'', ''login'',
               ''unauthenticated'', ''unauthorized''] lowered)"

text \<open>\<open>re.findall\<close> with \<open>_AUTH_URL_RE\<close>; the number counts the characters of a match still to be skipped.\<close>

definition url_char :: "char \<Rightarrow> bool" where
  "url_char c = (\<not> is_space c \<and> code c \<noteq> 60 \<and> code c \<noteq> 62 \<and> code c \<noteq> 34 \<and> code c \<noteq> 41)"

definition match_url :: "string \<Rightarrow> string option" where
  "match_url s =
     (let p = (if starts_with ''https://'' s then ''https://'' else if starts_with ''http://'' s then ''http://'' else []);
          body = takeWhile url_char (drop (length p) s)
      in if p = [] \<or> body = [] then None else Some (p @ body))"

fun auth_urls :: "nat \<Rightarrow> string \<Rightarrow> string list" where
  "auth_urls k [] = []"
| "auth_urls (Suc k) (c # cs) = auth_urls k cs"
| "auth_urls 0 (c # cs) =
     (case match_url (c # cs) of
        None \<Rightarrow> auth_urls 0 cs
      | Some u \<Rightarrow> u # auth_urls (length u - 1) cs)"

definition extract_auth_url_from_text :: "string \<Rightarrow> string" where
  "extract_auth_url_from_text t =
     (if \<not> looks_like_oauth_text t then []
      else (case find (\<lambda>url. any_in [''oauth'', ''auth'', ''accounts.google.com''] (lower url))
                   (map (rstrip_while (\<lambda>c. c \<in> set ''.,;'')) (auth_urls 0 t)) of
              None \<Rightarrow> [] | Some url \<Rightarrow> url))"

text \<open>\<open>str(a or b or c or "")\<close> over the keys of a candidate.\<close>

definition first_true :: "dict \<Rightarrow> string list \<Rightarrow> json" where
  "first_true d ks =
     (case find (\<lambda>k. truthy (dict_get d k)) ks of None \<Rightarrow> JStr [] | Some k \<Rightarrow> dict_get d k)"

definition oauth_candidates :: "dict \<Rightarrow> dict list" where
  "oauth_candidates parsed =
     parsed # concat (map (\<lambda>k. case dict_get parsed k of JObj d \<Rightarrow> [d] | _ \<Rightarrow> [])
       [''data'', ''payload'', ''metadata''])"

definition candidate_fields :: "dict \<Rightarrow> string \<times> string" where
  "candidate_fields d =
     (py_str (first_true d [''auth_url'', ''authUrl'', ''authorization_url'']),
      py_str (first_true d [''oauth_state'', ''oauthState'', ''state'']))"

fun candidate_loop :: "dict list \<Rightarrow> string \<times> string \<Rightarrow> string \<times> string" where
  "candidate_loop [] found = found"
| "candidate_loop (d # ds) found =
     (if fst (candidate_fields d) \<noteq> [] then candidate_fields d else candidate_loop ds (candidate_fields d))"

definition text_urls :: "dict list \<Rightarrow> string list" where
  "text_urls candidates =
     filter (\<lambda>u. u \<noteq> []) (map (\<lambda>v. case v of JStr s \<Rightarrow> extract_auth_url_from_text s | _ \<Rightarrow> [])
       (concat (map (map snd) candidates)))"

text \<open>The payload as URL and state; the state is empty when the dictionary has none.\<close>

definition oauth_payload_of_dict :: "string option \<Rightarrow> dict \<Rightarrow> (string \<times> string) option" where
  "oauth_payload_of_dict event_name parsed =
     (let candidates = oauth_candidates parsed;
          is_oauth_event = (event_name = Some ''oauth_required''
            \<or> list_ex (\<lambda>d. first_true d [''event_type'', ''type'', ''event''] = JStr ''oauth_required'') candidates);
          found = candidate_loop candidates ([], []) in
      if is_oauth_event \<and> fst found \<noteq> [] then Some found
      else (case text_urls candidates of [] \<Rightarrow> None | u # us \<Rightarrow> Some (u, [])))"

definition extract_oauth_required_payload ::
  "(string \<Rightarrow> json option) \<Rightarrow> string option \<Rightarrow> json \<Rightarrow> (string \<times> string) option" where
  "extract_oauth_required_payload loads event_name parsed =
     (case parsed of
        JStr s \<Rightarrow>
          (case loads s of
             None \<Rightarrow> (let u = extract_auth_url_from_text s in if u = [] then None else Some (u, []))
           | Some (JObj d) \<Rightarrow> oauth_payload_of_dict event_name d
           | Some _ \<Rightarrow> None)
      | JObj d \<Rightarrow> oauth_payload_of_dict event_name d
      | _ \<Rightarrow> None)"

section \<open>The headers of a call\<close>

record backend_client =
  base_url :: string
  api_path :: string
  client_user :: string
  request_timeout :: int

definition make_client :: "string \<Rightarrow> string \<Rightarrow> string \<Rightarrow> int \<Rightarrow> backend_client" where
  "make_client url path user limit =
     \<lparr>base_url = rstrip_while (\<lambda>c. c = CHR ''/'') url, api_path = path, client_user = user,
      request_timeout = limit\<rparr>"

definition call_headers :: "string option \<Rightarrow> backend_client \<Rightarrow> string \<Rightarrow> (string \<times> string) list" where
  "call_headers token_env client execution_id =
     (let token = strip (case token_env of None \<Rightarrow> [] | Some t \<Rightarrow> t) in
      [(''x-user-id'', client_user client), (''x-timezone'', ''America/New_York''),
       (''x-daedalus-execution-scope'', ''autonomy'')]
      @ (if token = [] then [] else [(''x-daedalus-internal-token'', token)])
      @ (if strip execution_id = [] then [] else [(''x-daedalus-execution-id'', strip execution_id)]))"

section \<open>The stream reader\<close>

definition MAX_RESPONSE_CHARS :: nat where
  "MAX_RESPONSE_CHARS = 4 * 1024 * 1024"

abbreviation invalid_event :: py_error where
  "invalid_event \<equiv> RunAbortedError ''backend sent an invalid stream event''"

abbreviation stream_error :: py_error where
  "stream_error \<equiv> RunAbortedError ''backend stream reported an error''"

record stream =
  parts :: "string list"
  response_chars :: nat
  stream_done :: bool
  sse_event :: "string option"

definition empty_stream :: stream where
  "empty_stream = \<lparr>parts = [], response_chars = 0, stream_done = False, sse_event = None\<rparr>"

definition read_choice :: "json \<Rightarrow> stream \<Rightarrow> stream result" where
  "read_choice choice st =
     (case choice of
        JObj c \<Rightarrow>
          (case (dict_get_default c ''daedalus_terminal'' (JBool False), dict_get_default c ''delta'' (JObj [])) of
             (JBool terminal, JObj delta) \<Rightarrow>
               let finish_reason = dict_get c ''finish_reason''; content = dict_get delta ''content'' in
               if finish_reason \<noteq> JNull \<and> \<not> is_str finish_reason then Inl invalid_event
               else if finish_reason = JStr ''error'' then Inl stream_error
               else if finish_reason = JStr ''mcp_approval_required'' then Inl ApprovalRequiredError
               else if content \<noteq> JNull \<and> \<not> is_str content then Inl invalid_event
               else
                 let piece = (case content of JStr s \<Rightarrow> s | _ \<Rightarrow> []) in
                 Inr (st\<lparr>parts := (if piece = [] then parts st else parts st @ [piece]),
                         response_chars := response_chars st + length piece,
                         stream_done := (stream_done st \<or> terminal \<or> truthy finish_reason)\<rparr>)
           | _ \<Rightarrow> Inl invalid_event)
      | _ \<Rightarrow> Inl invalid_event)"

fun read_choices :: "json list \<Rightarrow> stream \<Rightarrow> stream result" where
  "read_choices [] st = Inr st"
| "read_choices (c # cs) st = bind_result (read_choice c st) (read_choices cs)"

text \<open>One decoded \<open>data:\<close> line, up to the test whether the stream is complete.\<close>

definition read_chunk :: "(string \<Rightarrow> json option) \<Rightarrow> json \<Rightarrow> stream \<Rightarrow> stream result" where
  "read_chunk loads chunk st =
     (case chunk of
        JObj d \<Rightarrow>
          if sse_event st = Some ''error'' \<or> truthy (dict_get d ''error'') then Inl stream_error
          else if sse_event st = Some ''mcp_approval_required'' then Inl ApprovalRequiredError
          else (case extract_oauth_required_payload loads (sse_event st) chunk of
                  Some (auth_url, oauth_state) \<Rightarrow> Inl (OAuthRequiredError auth_url oauth_state)
                | None \<Rightarrow>
                    (case dict_get_default d ''choices'' (JList []) of
                       JList choices \<Rightarrow>
                         bind_result (read_choices choices st) (\<lambda>st'.
                           if response_chars st' > MAX_RESPONSE_CHARS
                           then Inl (RunAbortedError (''backend response exceeded '' @ show_nat MAX_RESPONSE_CHARS @ '' characters''))
                           else Inr st')
                     | _ \<Rightarrow> Inl invalid_event))
      | _ \<Rightarrow> Inl invalid_event)"

text \<open>One line: \<open>Inr (True, st)\<close> leaves the loop.\<close>

definition read_line :: "(string \<Rightarrow> json option) \<Rightarrow> string \<Rightarrow> stream \<Rightarrow> (bool \<times> stream) result" where
  "read_line loads line st =
     (if line = [] then Inr (False, st\<lparr>sse_event := None\<rparr>)
      else if starts_with ''event:'' line
      then Inr (False, st\<lparr>sse_event := Some (strip (drop 6 line))\<rparr>)
      else if \<not> starts_with ''data:'' line then Inr (False, st)
      else
        let rest = drop 5 line;
            data = (if starts_with '' '' rest then drop 1 rest else rest) in
        if strip data = ''[DONE]'' then Inr (True, st\<lparr>stream_done := True\<rparr>)
        else (case loads data of
                None \<Rightarrow> Inl invalid_event
              | Some chunk \<Rightarrow> bind_result (read_chunk loads chunk st) (\<lambda>st'. Inr (stream_done st', st'))))"

fun read_lines :: "(string \<Rightarrow> json option) \<Rightarrow> string list \<Rightarrow> stream \<Rightarrow> stream result" where
  "read_lines loads [] st = Inr st"
| "read_lines loads (line # lines) st =
     bind_result (read_line loads line st) (\<lambda>(stop, st'). if stop then Inr st' else read_lines loads lines st')"

definition read_stream :: "(string \<Rightarrow> json option) \<Rightarrow> nat option \<Rightarrow> string list \<Rightarrow> string result" where
  "read_stream loads refused lines =
     (case refused of
        Some status \<Rightarrow> Inl (RunAbortedError (''backend returned HTTP '' @ show_nat status))
      | None \<Rightarrow>
          bind_result (read_lines loads lines empty_stream) (\<lambda>st.
            if stream_done st then Inr (concat (parts st))
            else Inl (RunAbortedError ''backend stream ended before completion'')))"

text \<open>What has happened when the waiting ends: whether the abort event was set at the start, the
  result of the reader if it has finished, and whether the abort was noticed.\<close>

record race =
  aborted_before :: bool
  reader_result :: "string result option"
  abort_noticed :: bool

definition call_stream :: "backend_client \<Rightarrow> race \<Rightarrow> string result" where
  "call_stream client r =
     (if aborted_before r then Inl (RunAbortedError ''backend request aborted'')
      else if reader_result r = None \<and> \<not> abort_noticed r
      then Inl (RunAbortedError (''backend request exceeded '' @ show_int (request_timeout client) @ ''s''))
      else if abort_noticed r then Inl (RunAbortedError ''backend request aborted'')
      else (case reader_result r of Some res \<Rightarrow> res
              | None \<Rightarrow> Inl (RunAbortedError ''backend request aborted'')))"

section \<open>Facts\<close>

definition stream_ok :: "stream \<Rightarrow> bool" where
  "stream_ok st \<longleftrightarrow> response_chars st = length (concat (parts st))"

definition terminal_choice :: "json \<Rightarrow> bool" where
  "terminal_choice choice =
     (case choice of
        JObj c \<Rightarrow> dict_get c ''daedalus_terminal'' = JBool True \<or> truthy (dict_get c ''finish_reason'')
      | _ \<Rightarrow> False)"

definition line_data :: "string \<Rightarrow> string" where
  "line_data line = (let rest = drop 5 line in if starts_with '' '' rest then drop 1 rest else rest)"

text \<open>A line that says that the answer is complete.\<close>

definition terminal_line :: "(string \<Rightarrow> json option) \<Rightarrow> string \<Rightarrow> bool" where
  "terminal_line loads line =
     (starts_with ''data:'' line \<and>
      (strip (line_data line) = ''[DONE]'' \<or>
       (case loads (line_data line) of
          Some (JObj d) \<Rightarrow>
            (case dict_get d ''choices'' of JList choices \<Rightarrow> list_ex terminal_choice choices | _ \<Rightarrow> False)
        | _ \<Rightarrow> False)))"

definition handled_error :: "py_error \<Rightarrow> bool" where
  "handled_error e =
     (case e of RunAbortedError m \<Rightarrow> True | ApprovalRequiredError \<Rightarrow> True | OAuthRequiredError u s \<Rightarrow> True
      | _ \<Rightarrow> False)"

lemma dict_get_default_get:
  "dict_get_default c k v = w \<Longrightarrow> w \<noteq> v \<Longrightarrow> dict_get c k = w"
  by (auto simp: dict_get_default_def dict_get_def split: option.splits)

lemma read_choice_ok:
  assumes "read_choice choice st = Inr st'"
  shows "(stream_ok st \<longrightarrow> stream_ok st') \<and> (stream_done st' \<longrightarrow> stream_done st \<or> terminal_choice choice)
    \<and> sse_event st' = sse_event st"
proof -
  from assms obtain c where c: "choice = JObj c" by (cases choice) (simp_all add: read_choice_def)
  let ?t = "dict_get_default c ''daedalus_terminal'' (JBool False)"
  let ?d = "dict_get_default c ''delta'' (JObj [])"
  from assms c obtain terminal where t: "?t = JBool terminal"
    by (cases ?t) (simp_all add: read_choice_def)
  from assms c t obtain delta where d: "?d = JObj delta"
    by (cases ?d) (simp_all add: read_choice_def)
  have tm: "terminal \<Longrightarrow> dict_get c ''daedalus_terminal'' = JBool True"
    using dict_get_default_get [OF t] t by auto
  from assms c t d tm show ?thesis
    by (auto simp: read_choice_def Let_def stream_ok_def terminal_choice_def split: if_splits)
qed

lemma read_choices_ok:
  "read_choices cs st = Inr st' \<Longrightarrow>
     (stream_ok st \<longrightarrow> stream_ok st') \<and> (stream_done st' \<longrightarrow> stream_done st \<or> list_ex terminal_choice cs)
     \<and> sse_event st' = sse_event st"
proof (induction cs arbitrary: st)
  case (Cons c cs)
  from Cons.prems obtain st1 where c: "read_choice c st = Inr st1" and r: "read_choices cs st1 = Inr st'"
    by (auto simp: bind_result_Inr)
  from read_choice_ok [OF c] Cons.IH [OF r] show ?case by auto
qed simp

lemma read_choice_error: "read_choice c st = Inl e \<Longrightarrow> handled_error e"
  by (auto simp: read_choice_def Let_def handled_error_def split: json.splits bool.splits if_splits)

lemma read_choices_error: "read_choices cs st = Inl e \<Longrightarrow> handled_error e"
  by (induction cs arbitrary: st) (auto simp: bind_result_Inl dest: read_choice_error)

lemma read_chunk_ok:
  assumes "read_chunk loads chunk st = Inr st'"
  shows "(stream_ok st \<longrightarrow> stream_ok st') \<and> response_chars st' \<le> MAX_RESPONSE_CHARS
    \<and> (stream_done st' \<longrightarrow> stream_done st \<or> (\<exists>d choices. chunk = JObj d \<and> dict_get d ''choices'' = JList choices
         \<and> list_ex terminal_choice choices))"
proof -
  from assms obtain d where d: "chunk = JObj d" by (cases chunk) (simp_all add: read_chunk_def)
  let ?c = "dict_get_default d ''choices'' (JList [])"
  from assms d obtain choices where c: "?c = JList choices"
    by (cases ?c) (auto simp: read_chunk_def split: if_splits option.splits)
  from assms d c have r: "read_choices choices st = Inr st'" and m: "response_chars st' \<le> MAX_RESPONSE_CHARS"
    by (auto simp: read_chunk_def bind_result_Inr split: if_splits option.splits)
  have "choices \<noteq> [] \<Longrightarrow> dict_get d ''choices'' = JList choices"
    using dict_get_default_get [OF c] by simp
  with read_choices_ok [OF r] m d show ?thesis by (cases choices) auto
qed

lemma read_chunk_error: "read_chunk loads chunk st = Inl e \<Longrightarrow> handled_error e"
  by (cases chunk)
    (auto simp: read_chunk_def bind_result_Inl handled_error_def split: if_splits option.splits json.splits
      dest!: read_choices_error)

lemma read_line_ok:
  assumes "read_line loads line st = Inr (stop, st')" and "stream_ok st" "\<not> stream_done st"
    "response_chars st \<le> MAX_RESPONSE_CHARS"
  shows "stream_ok st' \<and> stop = stream_done st' \<and> response_chars st' \<le> MAX_RESPONSE_CHARS
    \<and> (stream_done st' \<longrightarrow> terminal_line loads line)"
proof (cases "line = [] \<or> starts_with ''event:'' line \<or> \<not> starts_with ''data:'' line")
  case True
  with assms show ?thesis by (auto simp: read_line_def stream_ok_def split: if_splits)
next
  case False
  then have data: "starts_with ''data:'' line" by simp
  show ?thesis
  proof (cases "strip (line_data line) = ''[DONE]''")
    case True
    with False assms show ?thesis
      by (auto simp: read_line_def line_data_def Let_def stream_ok_def terminal_line_def)
  next
    case no_done: False
    from assms(1) False no_done obtain chunk where c: "loads (line_data line) = Some chunk"
      by (cases "loads (line_data line)") (auto simp: read_line_def line_data_def Let_def)
    from assms(1) False no_done c have r: "read_chunk loads chunk st = Inr st'" "stop = stream_done st'"
      by (auto simp: read_line_def line_data_def Let_def bind_result_Inr)
    from read_chunk_ok [OF r(1)] r(2) c data assms(2-) show ?thesis
      by (auto simp: terminal_line_def)
  qed
qed

lemma read_line_error: "read_line loads line st = Inl e \<Longrightarrow> handled_error e"
  by (auto simp: read_line_def Let_def bind_result_Inl handled_error_def split: if_splits option.splits
      dest!: read_chunk_error)

lemma read_lines_error: "read_lines loads lines st = Inl e \<Longrightarrow> handled_error e"
  by (induction lines arbitrary: st)
    (auto simp: bind_result_Inl split: if_splits dest: read_line_error)

lemma read_stream_error: "read_stream loads refused lines = Inl e \<Longrightarrow> handled_error e"
  by (auto simp: read_stream_def bind_result_Inl handled_error_def split: option.splits if_splits
      dest!: read_lines_error)

lemma read_lines_ok:
  "read_lines loads lines st = Inr st' \<Longrightarrow> stream_ok st \<Longrightarrow> \<not> stream_done st \<Longrightarrow>
   response_chars st \<le> MAX_RESPONSE_CHARS \<Longrightarrow> stream_done st' \<Longrightarrow>
     stream_ok st' \<and> response_chars st' \<le> MAX_RESPONSE_CHARS \<and> list_ex (terminal_line loads) lines
     \<and> (\<forall>rest. read_lines loads (lines @ rest) st = Inr st')"
proof (induction lines arbitrary: st)
  case (Cons line lines)
  from Cons.prems(1) obtain stop st1 where l: "read_line loads line st = Inr (stop, st1)"
    and r: "(if stop then Inr st1 else read_lines loads lines st1) = Inr st'"
    by (auto simp: bind_result_Inr)
  note ok = read_line_ok [OF l Cons.prems(2-4)]
  show ?case
  proof (cases stop)
    case True
    with ok r l show ?thesis by auto
  next
    case False
    with ok r Cons.IH [of st1] Cons.prems(5) l show ?thesis by auto
  qed
qed simp

section \<open>Properties\<close>


definition sample_loads :: "string \<Rightarrow> json option" where
  "sample_loads s = Some (JObj [(''choices'', JList [JObj [(''finish_reason'', JStr ''stop''),
     (''delta'', JObj [(''content'', JStr ''hi'')])]])])"


text \<open>A call never outlives an abort: an abort that is set before the call or noticed while it runs wins
  even over an answer that arrived in the same moment, a call that is neither answered nor aborted in time
  fails, and every failure is one that the worker handles.\<close>

theorem call_abort_wins:
  assumes "reader_result r = None \<or> (\<exists>refused lines. reader_result r = Some (read_stream loads refused lines))"
  shows "(aborted_before r \<or> abort_noticed r \<longrightarrow>
            call_stream client r = Inl (RunAbortedError ''backend request aborted''))
    \<and> (call_stream client r = Inr answer \<longleftrightarrow>
         \<not> aborted_before r \<and> \<not> abort_noticed r \<and> reader_result r = Some (Inr answer))
    \<and> (\<forall>e. call_stream client r = Inl e \<longrightarrow> handled_error e)"
proof -
  have "handled_error e" if "reader_result r = Some (Inl e)" for e
  proof -
    from assms that obtain refused lines where "read_stream loads refused lines = Inl e" by auto
    then show ?thesis by (rule read_stream_error)
  qed
  then show ?thesis
    by (auto simp: call_stream_def handled_error_def split: option.splits)
qed

theorem call_abort_wins_witness:
  "call_stream (make_client ''http://b/'' ''/p'' ''u'' 60)
     \<lparr>aborted_before = False, reader_result = Some (read_stream sample_loads (Some 500) []), abort_noticed = True\<rparr>
     = Inl (RunAbortedError ''backend request aborted'')"
  using call_abort_wins [of "\<lparr>aborted_before = False, reader_result = Some (read_stream sample_loads (Some 500) []),
      abort_noticed = True\<rparr>" sample_loads] by auto

end
