(* ===== verification/Url_Guard.thy ===== *)
theory Url_Guard
  imports Py_Url
begin

text \<open>
  The egress guard for URLs that a model or a page can influence (\<open>nat_helpers/url_guard.py\<close>) and the
  pinned transport and redirect handling built on it (\<open>nat_helpers/safe_http.py\<close>).

  \<^item> The address classes are those of the \<open>ipaddress\<close> module of the Python 3.12 line, with IPv4-mapped
    IPv6 addresses classified by the address they carry.
  \<^item> DNS is an argument that may answer differently every time it is asked (\<open>resolver\<close> takes the number
    of the question). The HTTP library is an argument too: which host it takes from a URL, what the peer
    answers, and \<open>urljoin\<close>.
\<close>

section \<open>Address classes\<close>

datatype address = V4 nat | V6 nat

definition ip_address :: "string \<Rightarrow> address option" where
  "ip_address s =
     (case ipv4_of_text s of Some v \<Rightarrow> Some (V4 v) | None \<Rightarrow> map_option V6 (ipv6_of_text s))"

text \<open>Membership in the network of the given base and prefix length.\<close>

definition in_net :: "nat \<Rightarrow> nat \<Rightarrow> nat \<times> nat \<Rightarrow> bool" where
  "in_net bits a net = (a div 2 ^ (bits - snd net) = fst net div 2 ^ (bits - snd net))"

definition quad :: "nat \<Rightarrow> nat \<Rightarrow> nat \<Rightarrow> nat \<Rightarrow> nat" where
  "quad a b c d = ((a * 256 + b) * 256 + c) * 256 + d"

definition v4_private :: "(nat \<times> nat) list" where
  "v4_private =
     [(quad 0 0 0 0, 8), (quad 10 0 0 0, 8), (quad 127 0 0 0, 8), (quad 169 254 0 0, 16),
      (quad 172 16 0 0, 12), (quad 192 0 0 0, 24), (quad 192 0 0 170, 31), (quad 192 0 2 0, 24),
      (quad 192 168 0 0, 16), (quad 198 18 0 0, 15), (quad 198 51 100 0, 24), (quad 203 0 113 0, 24),
      (quad 240 0 0 0, 4), (quad 255 255 255 255, 32)]"

definition v4_private_exceptions :: "(nat \<times> nat) list" where
  "v4_private_exceptions = [(quad 192 0 0 9, 32), (quad 192 0 0 10, 32)]"

definition v4_is_private :: "nat \<Rightarrow> bool" where
  "v4_is_private a = (list_ex (in_net 32 a) v4_private \<and> \<not> list_ex (in_net 32 a) v4_private_exceptions)"

record flags =
  is_global :: bool
  is_site_local :: bool
  is_loopback :: bool
  is_link_local :: bool
  is_reserved :: bool
  is_multicast :: bool
  is_unspecified :: bool

definition v4_flags :: "nat \<Rightarrow> flags" where
  "v4_flags a =
     \<lparr>is_global = (\<not> in_net 32 a (quad 100 64 0 0, 10) \<and> \<not> v4_is_private a), is_site_local = False,
      is_loopback = in_net 32 a (quad 127 0 0 0, 8), is_link_local = in_net 32 a (quad 169 254 0 0, 16),
      is_reserved = in_net 32 a (quad 240 0 0 0, 4), is_multicast = in_net 32 a (quad 224 0 0 0, 4),
      is_unspecified = (a = 0)\<rparr>"

text \<open>A group of an IPv6 address, counted from the left.\<close>

definition grp :: "nat \<Rightarrow> nat \<Rightarrow> nat" where
  "grp i h = h * 65536 ^ (7 - i)"

definition v6_private :: "(nat \<times> nat) list" where
  "v6_private =
     [(1, 128), (0, 128), (grp 5 0xffff, 96), (grp 0 0x64 + grp 1 0xff9b + grp 2 1, 48), (grp 0 0x100, 64),
      (grp 0 0x2001, 23), (grp 0 0x2001 + grp 1 0xdb8, 32), (grp 0 0x2002, 16), (grp 0 0x3fff, 20),
      (grp 0 0xfc00, 7), (grp 0 0xfe80, 10)]"

definition v6_private_exceptions :: "(nat \<times> nat) list" where
  "v6_private_exceptions =
     [(grp 0 0x2001 + grp 1 1 + 1, 128), (grp 0 0x2001 + grp 1 1 + 2, 128), (grp 0 0x2001 + grp 1 3, 32),
      (grp 0 0x2001 + grp 1 4 + grp 2 0x112, 48), (grp 0 0x2001 + grp 1 0x20, 28), (grp 0 0x2001 + grp 1 0x30, 28)]"

definition v6_reserved :: "(nat \<times> nat) list" where
  "v6_reserved =
     [(0, 8), (grp 0 0x100, 8), (grp 0 0x200, 7), (grp 0 0x400, 6), (grp 0 0x800, 5), (grp 0 0x1000, 4),
      (grp 0 0x4000, 3), (grp 0 0x6000, 3), (grp 0 0x8000, 3), (grp 0 0xa000, 3), (grp 0 0xc000, 3),
      (grp 0 0xe000, 4), (grp 0 0xf000, 5), (grp 0 0xf800, 6), (grp 0 0xfe00, 9)]"

definition v6_flags :: "nat \<Rightarrow> flags" where
  "v6_flags a =
     (if a div 2 ^ 32 = 0xffff then v4_flags (a mod 2 ^ 32)
      else \<lparr>is_global = (\<not> (list_ex (in_net 128 a) v6_private \<and> \<not> list_ex (in_net 128 a) v6_private_exceptions)),
            is_site_local = in_net 128 a (grp 0 0xfec0, 10), is_loopback = (a = 1),
            is_link_local = in_net 128 a (grp 0 0xfe80, 10), is_reserved = list_ex (in_net 128 a) v6_reserved,
            is_multicast = in_net 128 a (grp 0 0xff00, 8), is_unspecified = (a = 0)\<rparr>)"

definition flags_of :: "address \<Rightarrow> flags" where
  "flags_of a = (case a of V4 v \<Rightarrow> v4_flags v | V6 v \<Rightarrow> v6_flags v)"

definition public_flags :: "flags \<Rightarrow> bool" where
  "public_flags f =
     (\<not> (\<not> is_global f \<or> is_site_local f \<or> is_loopback f \<or> is_link_local f \<or> is_reserved f
         \<or> is_multicast f \<or> is_unspecified f))"

definition ip_is_public :: "string \<Rightarrow> bool" where
  "ip_is_public ip = (case ip_address ip of None \<Rightarrow> False | Some a \<Rightarrow> public_flags (flags_of a))"

section \<open>The guard\<close>

definition quoted :: "string \<Rightarrow> string" where
  "quoted s = [char_of (39::nat)] @ s @ [char_of (39::nat)]"

text \<open>\<open>tuple(dict.fromkeys(...))\<close>.\<close>

definition remdups_first :: "'a list \<Rightarrow> 'a list" where
  "remdups_first xs = rev (remdups (rev xs))"

definition resolve_public_addresses :: "(string \<Rightarrow> string list option) \<Rightarrow> string \<Rightarrow> string list result" where
  "resolve_public_addresses getaddrinfo host =
     (if ip_address host \<noteq> None
      then (if \<not> ip_is_public host
            then Inl (UnsafeURLError (''URL host '' @ quoted host @ '' is a non-public address.''))
            else Inr [host])
      else (case getaddrinfo host of
              None \<Rightarrow> Inl (UnresolvableHostError (''Could not resolve host '' @ quoted host))
            | Some infos \<Rightarrow>
                let addresses = remdups_first infos in
                if addresses = []
                then Inl (UnresolvableHostError (''Host '' @ quoted host @ '' did not resolve to any address.''))
                else if \<not> list_all ip_is_public addresses
                then Inl (UnsafeURLError (''URL host '' @ quoted host @ '' resolves to a non-public address.''))
                else Inr addresses))"

definition ALLOWED_SCHEMES :: "string list" where
  "ALLOWED_SCHEMES = [''http'', ''https'']"

definition validate_public_url ::
  "(string \<Rightarrow> string list option) \<Rightarrow> string list \<Rightarrow> bool \<Rightarrow> string \<Rightarrow> string result" where
  "validate_public_url getaddrinfo schemes check_dns url =
     (if url = [] then Inl (UnsafeURLError ''No URL supplied.'')
      else case urlsplit (strip url) of
        None \<Rightarrow> Inl (ValueError ''Invalid IPv6 URL'')
      | Some parsed \<Rightarrow>
          if lower (scheme parsed) \<notin> set schemes
          then Inl (UnsafeURLError (''URL scheme '' @ quoted (scheme parsed) @ '' is not allowed.''))
          else if hostname parsed = [] then Inl (UnsafeURLError ''URL is missing a host.'')
          else if \<not> check_dns
          then (if ip_address (hostname parsed) \<noteq> None \<and> \<not> ip_is_public (hostname parsed)
                then Inl (UnsafeURLError (''URL host '' @ quoted (hostname parsed) @ '' is a non-public address.''))
                else Inr url)
          else bind_result (resolve_public_addresses getaddrinfo (hostname parsed)) (\<lambda>_. Inr url))"

section \<open>The transport and redirects\<close>

record response =
  redirect :: bool
  location :: "string option"
  content_encoding :: "string option"
  content_length :: "string option"
  chunks :: "nat list list"

definition check_response_size :: "response \<Rightarrow> int \<Rightarrow> unit result" where
  "check_response_size r limit =
     (let encoding = lower (strip (case content_encoding r of None \<Rightarrow> ''identity'' | Some e \<Rightarrow> e)) in
      if encoding \<noteq> [] \<and> encoding \<noteq> ''identity''
      then Inl (UnsafeURLError ''Public fetch requires identity content encoding.'')
      else (case content_length r of
              None \<Rightarrow> Inr ()
            | Some l \<Rightarrow>
                if l \<noteq> [] \<and> list_all is_digit l \<and> int (digits_value l) > limit
                then Inl (UnsafeURLError (''Public response exceeds '' @ show_int limit @ '' byte limit.''))
                else Inr ()))"

text \<open>\<open>_BoundedAsyncStream\<close>: the chunks that a consumer of the body receives, and whether it ends in
  an error.\<close>

fun bounded_stream :: "int \<Rightarrow> int \<Rightarrow> nat list list \<Rightarrow> nat list list \<times> bool" where
  "bounded_stream limit seen [] = ([], False)"
| "bounded_stream limit seen (c # cs) =
     (if seen + int (length c) > limit then ([], True)
      else (case bounded_stream limit (seen + int (length c)) cs of (ds, e) \<Rightarrow> (c # ds, e)))"

record web =
  resolver :: "nat \<Rightarrow> string \<Rightarrow> string list option"
  http_host :: "string \<Rightarrow> string"
  respond :: "nat \<Rightarrow> string \<Rightarrow> response"
  urljoin :: "string \<Rightarrow> string \<Rightarrow> string"

definition connect_tcp :: "web \<Rightarrow> nat \<Rightarrow> string \<Rightarrow> string result" where
  "connect_tcp W t host = bind_result (resolve_public_addresses (resolver W t) host) (\<lambda>addresses. Inr (hd addresses))"

text \<open>One request through the transport: the address of the connection, if one was opened, and the
  response.\<close>

definition handle_request :: "web \<Rightarrow> int \<Rightarrow> nat \<Rightarrow> string \<Rightarrow> response result \<times> string list" where
  "handle_request W limit t url =
     (case connect_tcp W t (http_host W url) of
        Inl e \<Rightarrow> (Inl e, [])
      | Inr ip \<Rightarrow>
          (bind_result (check_response_size (respond W t url) limit) (\<lambda>_. Inr (respond W t url)), [ip]))"

text \<open>The loop over redirects. Question \<open>2 t\<close> to DNS is asked by the validation and \<open>2 t + 1\<close> by the
  connection of request \<open>t\<close>.\<close>

fun fetch_loop ::
  "web \<Rightarrow> string list \<Rightarrow> int \<Rightarrow> string \<Rightarrow> nat \<Rightarrow> nat \<Rightarrow> nat \<Rightarrow> string \<Rightarrow> response result \<times> (string \<times> string list) list" where
  "fetch_loop W schemes limit url max_redirects 0 t current_url =
     (Inl (UnsafeURLError (''Exceeded maximum of '' @ show_nat max_redirects
        @ '' redirects while fetching '' @ quoted url @ ''.'')), [])"
| "fetch_loop W schemes limit url max_redirects (Suc n) t current_url =
     (case validate_public_url (resolver W (2 * t)) schemes True current_url of
        Inl e \<Rightarrow> (Inl e, [])
      | Inr _ \<Rightarrow>
          (case handle_request W limit (2 * t + 1) current_url of
             (Inl e, ips) \<Rightarrow> (Inl e, [(current_url, ips)])
           | (Inr r, ips) \<Rightarrow>
               if \<not> redirect r then (Inr r, [(current_url, ips)])
               else (case location r of
                       None \<Rightarrow> (Inr r, [(current_url, ips)])
                     | Some l \<Rightarrow>
                         if l = [] then (Inr r, [(current_url, ips)])
                         else (case fetch_loop W schemes limit url max_redirects n (Suc t)
                                      (urljoin W current_url l) of
                                 (res, trace) \<Rightarrow> (res, (current_url, ips) # trace)))))"

definition get_public_response ::
  "web \<Rightarrow> string list \<Rightarrow> int \<Rightarrow> nat \<Rightarrow> string \<Rightarrow> response result \<times> (string \<times> string list) list" where
  "get_public_response W schemes limit max_redirects url =
     fetch_loop W schemes limit url max_redirects (max_redirects + 1) 0 url"

section \<open>Facts\<close>

lemma remdups_first_set [simp]: "set (remdups_first xs) = set xs"
  by (simp add: remdups_first_def)

lemma resolved_public:
  assumes "resolve_public_addresses dns host = Inr addresses"
  shows "addresses \<noteq> [] \<and> list_all ip_is_public addresses"
  using assms
  by (auto simp: resolve_public_addresses_def Let_def list_all_iff split: if_splits option.splits)

lemma connected_public: "connect_tcp W t host = Inr ip \<Longrightarrow> ip_is_public ip"
  by (auto simp: connect_tcp_def bind_result_Inr dest!: resolved_public) (auto simp: list_all_iff)

lemma bounded_stream_limit:
  "bounded_stream limit seen cs = (ds, e) \<Longrightarrow> seen \<le> limit \<Longrightarrow>
     seen + int (length (concat ds)) \<le> limit \<and> (\<exists>rest. cs = ds @ rest \<and> (e \<longleftrightarrow> rest \<noteq> []))"
proof (induction cs arbitrary: seen ds)
  case (Cons c cs)
  show ?case
  proof (cases "seen + int (length c) > limit")
    case True
    with Cons.prems show ?thesis by auto
  next
    case False
    obtain ds' where b: "bounded_stream limit (seen + int (length c)) cs = (ds', e)" and ds: "ds = c # ds'"
      using Cons.prems(1) False by (auto split: prod.splits)
    from Cons.IH [OF b] False show ?thesis by (auto simp: ds)
  qed
qed simp

text \<open>Which addresses are public, of those written with four numbers.\<close>

lemma v4_public_excludes:
  assumes "public_flags (v4_flags a)"
  shows "\<not> in_net 32 a (quad 10 0 0 0, 8)" "\<not> in_net 32 a (quad 127 0 0 0, 8)"
    "\<not> in_net 32 a (quad 169 254 0 0, 16)" "\<not> in_net 32 a (quad 172 16 0 0, 12)"
    "\<not> in_net 32 a (quad 192 168 0 0, 16)" "\<not> in_net 32 a (quad 100 64 0 0, 10)"
    "\<not> in_net 32 a (quad 0 0 0 0, 8)" "\<not> in_net 32 a (quad 224 0 0 0, 4)"
    "\<not> in_net 32 a (quad 240 0 0 0, 4)"
proof -
  have ex: "in_net 32 a p \<Longrightarrow> \<not> in_net 32 a (quad 192 0 0 9, 32) \<and> \<not> in_net 32 a (quad 192 0 0 10, 32)"
    if "p \<in> {(quad 10 0 0 0, 8), (quad 172 16 0 0, 12), (quad 192 168 0 0, 16), (quad 0 0 0 0, 8)}" for p
    using that by (auto simp: in_net_def quad_def)
  show "\<not> in_net 32 a (quad 127 0 0 0, 8)" "\<not> in_net 32 a (quad 169 254 0 0, 16)"
    "\<not> in_net 32 a (quad 100 64 0 0, 10)" "\<not> in_net 32 a (quad 224 0 0 0, 4)" "\<not> in_net 32 a (quad 240 0 0 0, 4)"
    using assms by (simp_all add: public_flags_def v4_flags_def)
  show "\<not> in_net 32 a (quad 10 0 0 0, 8)" "\<not> in_net 32 a (quad 172 16 0 0, 12)"
    "\<not> in_net 32 a (quad 192 168 0 0, 16)" "\<not> in_net 32 a (quad 0 0 0 0, 8)"
    using assms ex by (auto simp: public_flags_def v4_flags_def v4_is_private_def v4_private_def v4_private_exceptions_def)
qed

text \<open>Two networks that share an address are nested.\<close>

lemma in_net_nested:
  assumes "in_net bits a (p, k)" "in_net bits a (q, l)" "k \<le> l" "l \<le> bits"
  shows "in_net bits q (p, k)"
proof -
  let ?n = "2 ^ (bits - l) :: nat" and ?m = "2 ^ (l - k) :: nat"
  have e: "2 ^ (bits - k) = ?n * ?m" using assms(3,4) by (simp flip: power_add)
  have "q div (?n * ?m) = a div (?n * ?m)" using assms(2) by (simp add: div_mult2_eq in_net_def)
  with assms(1) e show ?thesis by (simp add: in_net_def)
qed

lemma v6_local_private:
  assumes "in_net 128 a (grp 0 0xfc00, 7)"
  shows "\<not> list_ex (in_net 128 a) v6_private_exceptions"
proof
  assume "list_ex (in_net 128 a) v6_private_exceptions"
  then obtain q l where ql: "(q, l) \<in> set v6_private_exceptions" "in_net 128 a (q, l)"
    by (auto simp: list_ex_iff)
  from ql(1) have "7 \<le> l" "l \<le> 128" "\<not> in_net 128 q (grp 0 0xfc00, 7)"
    by (auto simp: v6_private_exceptions_def in_net_def grp_def)
  with in_net_nested [OF assms ql(2)] show False by blast
qed

text \<open>The addresses that must never be reached, as the operators' network policy lists them, with IPv4
  addresses also in their IPv6-mapped form.\<close>

definition internal_v4 :: "(nat \<times> nat) list" where
  "internal_v4 =
     [(quad 10 0 0 0, 8), (quad 172 16 0 0, 12), (quad 192 168 0 0, 16), (quad 127 0 0 0, 8),
      (quad 169 254 0 0, 16), (quad 100 64 0 0, 10), (quad 0 0 0 0, 8), (quad 224 0 0 0, 4), (quad 240 0 0 0, 4)]"

definition internal_v6 :: "(nat \<times> nat) list" where
  "internal_v6 = [(grp 0 0xfc00, 7), (grp 0 0xfe80, 10), (grp 0 0xfec0, 10), (grp 0 0xff00, 8)]"

definition internal_address :: "address \<Rightarrow> bool" where
  "internal_address a =
     (case a of
        V4 v \<Rightarrow> list_ex (in_net 32 v) internal_v4
      | V6 v \<Rightarrow>
          if v div 2 ^ 32 = 0xffff then list_ex (in_net 32 (v mod 2 ^ 32)) internal_v4
          else v = 0 \<or> v = 1 \<or> list_ex (in_net 128 v) internal_v6)"

lemma v4_public_external: "public_flags (v4_flags v) \<Longrightarrow> \<not> list_ex (in_net 32 v) internal_v4"
  using v4_public_excludes [of v] by (simp add: internal_v4_def)

lemma v6_public_external:
  assumes "public_flags (v6_flags v)" "v div 2 ^ 32 \<noteq> 0xffff"
  shows "v \<noteq> 0 \<and> v \<noteq> 1 \<and> \<not> list_ex (in_net 128 v) internal_v6"
proof -
  have "\<not> in_net 128 v (grp 0 0xfc00, 7)"
    using assms v6_local_private [of v] by (auto simp: public_flags_def v6_flags_def v6_private_def)
  with assms show ?thesis by (auto simp: public_flags_def v6_flags_def internal_v6_def)
qed

lemma public_external: "ip_is_public ip \<Longrightarrow> \<exists>a. ip_address ip = Some a \<and> \<not> internal_address a"
proof -
  assume "ip_is_public ip"
  then obtain a where a: "ip_address ip = Some a" "public_flags (flags_of a)"
    by (auto simp: ip_is_public_def split: option.splits)
  then show ?thesis
    using v4_public_external v6_public_external
    by (cases a) (auto simp: flags_of_def internal_address_def v6_flags_def split: if_splits)
qed

lemma validated_scheme:
  "validate_public_url dns schemes c url = Inr u \<Longrightarrow>
     \<exists>p. urlsplit (strip url) = Some p \<and> lower (scheme p) \<in> set schemes \<and> hostname p \<noteq> []"
  by (auto simp: validate_public_url_def split: if_splits option.splits)

definition safe_request :: "string list \<Rightarrow> string \<times> string list \<Rightarrow> bool" where
  "safe_request schemes x \<longleftrightarrow>
     (\<exists>p. urlsplit (strip (fst x)) = Some p \<and> lower (scheme p) \<in> set schemes \<and> hostname p \<noteq> [])
     \<and> (\<forall>ip \<in> set (snd x). \<exists>a. ip_address ip = Some a \<and> \<not> internal_address a)"

lemma handle_request_public:
  "handle_request W limit t url = (r, ips) \<Longrightarrow>
     (\<forall>ip \<in> set ips. ip_is_public ip) \<and> (\<forall>x. r = Inr x \<longrightarrow> check_response_size x limit = Inr ())"
  by (auto simp: handle_request_def bind_result_Inr split: sum.splits dest: connected_public)

lemma fetch_loop_safe:
  "fetch_loop W schemes limit url m n t current = (res, trace) \<Longrightarrow>
     length trace \<le> n \<and> list_all (safe_request schemes) trace
     \<and> (\<forall>r. res = Inr r \<longrightarrow> check_response_size r limit = Inr ())"
proof (induction n arbitrary: t current res trace)
  case (Suc n)
  show ?case
  proof (cases "validate_public_url (resolver W (2 * t)) schemes True current")
    case (Inl e)
    with Suc.prems show ?thesis by auto
  next
    case (Inr u)
    obtain x ips where h: "handle_request W limit (2 * t + 1) current = (x, ips)"
      by (cases "handle_request W limit (2 * t + 1) current")
    have safe: "safe_request schemes (current, ips)"
      using validated_scheme [OF Inr] handle_request_public [OF h] public_external
      by (auto simp: safe_request_def)
    show ?thesis
    proof (cases "\<exists>r l. x = Inr r \<and> redirect r \<and> location r = Some l \<and> l \<noteq> []")
      case True
      then obtain r l where r: "x = Inr r" "redirect r" "location r = Some l" "l \<noteq> []" by blast
      obtain res' trace' where f: "fetch_loop W schemes limit url m n (Suc t) (urljoin W current l) = (res', trace')"
        by (cases "fetch_loop W schemes limit url m n (Suc t) (urljoin W current l)")
      from Suc.prems Inr h r f have "res = res'" "trace = (current, ips) # trace'" by auto
      with Suc.IH [OF f] safe show ?thesis by auto
    next
      case False
      with Suc.prems Inr h have "res = x \<and> trace = [(current, ips)]"
        by (auto split: sum.splits option.splits if_splits)
      with safe handle_request_public [OF h] show ?thesis by auto
    qed
  qed
qed simp

section \<open>Properties\<close>

text \<open>C19. No fetch of a caller-influenced URL reaches an internal address, however DNS answers from one
  question to the next, whatever host the HTTP library reads from the URL and wherever redirects lead:
  every connection is to a literal public address (none of the private, shared, loopback, link-local,
  multicast, reserved or unspecified ranges, also not through an IPv4-mapped IPv6 address), every URL that
  is requested has an allowed scheme and a host, there are at most \<open>max_redirects + 1\<close> requests, and the
  body that a consumer receives has at most \<open>limit\<close> bytes and is a prefix of what was sent.\<close>

theorem egress_guarded:
  assumes "get_public_response W schemes limit max_redirects url = (res, trace)"
  shows "length trace \<le> max_redirects + 1 \<and> list_all (safe_request schemes) trace
    \<and> (\<forall>r body cut. res = Inr r \<longrightarrow> 0 \<le> limit \<longrightarrow> bounded_stream limit 0 (chunks r) = (body, cut) \<longrightarrow>
         check_response_size r limit = Inr () \<and> int (length (concat body)) \<le> limit
         \<and> (\<exists>rest. chunks r = body @ rest \<and> (cut \<longleftrightarrow> rest \<noteq> [])))"
proof -
  from fetch_loop_safe [OF assms [unfolded get_public_response_def]]
  have "length trace \<le> max_redirects + 1" "list_all (safe_request schemes) trace"
    "\<forall>r. res = Inr r \<longrightarrow> check_response_size r limit = Inr ()" by auto
  with bounded_stream_limit [where seen = 0 and limit = limit] show ?thesis by fastforce
qed

definition sample_web :: web where
  "sample_web = \<lparr>resolver = (\<lambda>t h. if t = 0 then Some [''93.184.216.34''] else Some [''169.254.169.254'']),
     http_host = (\<lambda>u. ''example.com''),
     respond = (\<lambda>t u. \<lparr>redirect = False, location = None, content_encoding = None, content_length = None, chunks = []\<rparr>),
     urljoin = (\<lambda>u l. l)\<rparr>"

text \<open>A name that is public when it is validated and the metadata address when it is connected to.\<close>

lemma quad_texts:
  "ipv4_of_text ''93.184.216.34'' = Some (quad 93 184 216 34)"
  "ipv4_of_text ''169.254.169.254'' = Some (quad 169 254 169 254)"
  by (simp_all add: ipv4_of_text_def ipv4_octet_def digits_value_def is_digit_def code_def quad_def)

lemma quad_public: "ip_is_public ''93.184.216.34''" "\<not> ip_is_public ''169.254.169.254''"
  by (simp_all add: ip_is_public_def ip_address_def quad_texts flags_of_def public_flags_def v4_flags_def
      v4_is_private_def v4_private_def v4_private_exceptions_def in_net_def quad_def)

lemma not_literal: "ip_address ''example.com'' = None"
  by code_simp

theorem egress_guarded_witness:
  "\<not> is_ok (fst (get_public_response sample_web ALLOWED_SCHEMES 10 3 ''https://example.com/''))
   \<and> list_all (safe_request ALLOWED_SCHEMES)
       (snd (get_public_response sample_web ALLOWED_SCHEMES 10 3 ''https://example.com/''))"
proof -
  let ?g = "get_public_response sample_web ALLOWED_SCHEMES 10 3 ''https://example.com/''"
  obtain res trace where g: "?g = (res, trace)" by (cases ?g)
  have u: "urlsplit (strip ''https://example.com/'') \<noteq> None" by code_simp
  have p: "case urlsplit (strip ''https://example.com/'') of None \<Rightarrow> False
      | Some p \<Rightarrow> lower (scheme p) = ''https'' \<and> hostname p = ''example.com''" by code_simp
  have "\<not> is_ok (fst ?g)"
    using u p quad_public not_literal
    by (auto simp: get_public_response_def validate_public_url_def ALLOWED_SCHEMES_def sample_web_def
        resolve_public_addresses_def handle_request_def connect_tcp_def remdups_first_def
        numeral_eq_Suc split: option.splits)
  with egress_guarded [OF g] g show ?thesis by simp
qed

end
