(* ===== verification/Runtime_Config.thy ===== *)
theory Runtime_Config
  imports Mcp_Policy
begin

text \<open>
  Loading the application configuration (\<open>builder/daedalus_runtime/config.py\<close>): inheritance through
  \<open>base:\<close>, the deep merge and the expansion of environment references; and how it relates to the loader
  of the MCP approval policy, which reads the same files. The file system and YAML are those of
  \<open>Mcp_Policy.loader\<close>; the environment maps names to values.
\<close>

type_synonym environ = "string \<Rightarrow> string option"

section \<open>Merging and expansion\<close>

function (sequential) merge_config :: "dict \<Rightarrow> dict \<Rightarrow> dict" where
  "merge_config result [] = result"
| "merge_config result ((key, value) # rest) =
     merge_config
       (case (value, dict_get result key) of
          (JObj v, JObj b) \<Rightarrow> dict_set key (JObj (merge_config b v)) result
        | _ \<Rightarrow> dict_set key value result) rest"
  by pat_completeness auto
termination
  by (relation "measure (\<lambda>(b, v). size_list (size_prod (\<lambda>_. 0) size) v)") auto

definition name_start :: "char \<Rightarrow> bool" where
  "name_start c = (is_lower_letter c \<or> is_upper_letter c \<or> c = CHR ''_'')"

definition name_char :: "char \<Rightarrow> bool" where
  "name_char c = (name_start c \<or> is_digit c)"

text \<open>A reference at the start of the text: its length, its name and its fallback.\<close>

definition match_env :: "string \<Rightarrow> (nat \<times> string \<times> string) option" where
  "match_env s =
     (if \<not> starts_with ''${'' s then None
      else
        let name = takeWhile name_char (drop 2 s); rest = drop (2 + length name) s in
        if name = [] \<or> \<not> name_start (hd name) then None
        else if starts_with ''}'' rest then Some (3 + length name, name, [])
        else if starts_with '':-'' rest
        then (let d = takeWhile (\<lambda>c. c \<noteq> CHR ''}'') (drop 2 rest) in
              if length (drop 2 rest) = length d then None
              else Some (5 + length name + length d, name, d))
        else None)"

definition env_value :: "environ \<Rightarrow> string \<Rightarrow> string \<Rightarrow> string" where
  "env_value env name fallback =
     (case env name of Some v \<Rightarrow> if v = [] then fallback else v | None \<Rightarrow> fallback)"

text \<open>\<open>_ENV.sub\<close>; the number counts the characters of a match still to be skipped.\<close>

fun expand_text :: "environ \<Rightarrow> nat \<Rightarrow> string \<Rightarrow> string" where
  "expand_text env k [] = []"
| "expand_text env (Suc k) (c # cs) = expand_text env k cs"
| "expand_text env 0 (c # cs) =
     (case match_env (c # cs) of
        None \<Rightarrow> c # expand_text env 0 cs
      | Some (n, name, fallback) \<Rightarrow> env_value env name fallback @ expand_text env (n - 1) cs)"

fun expand :: "environ \<Rightarrow> json \<Rightarrow> json" where
  "expand env (JStr s) = JStr (expand_text env 0 s)"
| "expand env (JObj d) = JObj (map (\<lambda>p. (fst p, expand env (snd p))) d)"
| "expand env (JList xs) = JList (map (expand env) xs)"
| "expand env v = v"

definition expand_dict :: "environ \<Rightarrow> dict \<Rightarrow> dict" where
  "expand_dict env d = map (\<lambda>p. (fst p, expand env (snd p))) d"

section \<open>Loading\<close>

function load_config :: "loader \<Rightarrow> environ \<Rightarrow> string \<Rightarrow> string list \<Rightarrow> dict result" where
  "load_config L env path seen =
     (let resolved = resolve_path L path in
      if resolved \<in> set seen \<or> length seen \<ge> 16
      then Inl (ValueError ''Circular or excessively deep configuration inheritance'')
      else case read_yaml L resolved of
        None \<Rightarrow> Inl (RuntimeError ''configuration cannot be read'')
      | Some (JObj raw) \<Rightarrow>
          let base = dict_get raw ''base''; data = dict_pop ''base'' raw in
          if \<not> truthy base then Inr (expand_dict env data)
          else bind_result (load_config L env (base_path L resolved (py_str base)) (resolved # seen))
                 (\<lambda>base_config. Inr (expand_dict env (merge_config base_config data)))
      | Some _ \<Rightarrow> Inl (ValueError ''Application configuration must be a mapping''))"
  by pat_completeness auto
termination
  by (relation "measure (\<lambda>(L, e, p, seen). 16 - length seen)") auto

declare load_config.simps [simp del]

section \<open>The two loaders\<close>

lemma dict_get_obj: "dict_get d k = JObj v \<longleftrightarrow> map_of d k = Some (JObj v)"
  by (auto simp: dict_get_def split: option.splits)

text \<open>The deep merge of the policy loader and of the application loader are the same function.\<close>

lemma merges_agree: "merge_config b v = deep_merge_policy_mapping b v"
proof (induction b v rule: deep_merge_policy_mapping.induct)
  case (2 base_value k v rest)
  show ?case
  proof (cases "map_of base_value k")
    case None
    with 2 show ?thesis by (simp add: dict_get_def)
  next
    case (Some w)
    with 2 show ?thesis by (cases w) (simp_all add: dict_get_def)
  qed
qed auto

text \<open>Values without a reference are left alone.\<close>

fun plain :: "json \<Rightarrow> bool" where
  "plain (JStr s) = (\<not> contains ''${'' s)"
| "plain (JObj d) = list_all (\<lambda>p. plain (snd p)) d"
| "plain (JList xs) = list_all plain xs"
| "plain v = True"

lemma expand_text_plain: "\<not> contains ''${'' s \<Longrightarrow> expand_text env 0 s = s"
  by (induction s) (auto simp: match_env_def)

lemma expand_plain: "plain v \<Longrightarrow> expand env v = v"
proof (induction v rule: plain.induct)
  case (2 d)
  then have "map (\<lambda>p. (fst p, expand env (snd p))) d = map (\<lambda>p. p) d"
    by (intro map_cong) (auto simp: list_all_iff)
  then show ?case by simp
next
  case (3 xs)
  then have "map (expand env) xs = map (\<lambda>x. x) xs"
    by (intro map_cong) (auto simp: list_all_iff)
  then show ?case by simp
qed (auto simp: expand_text_plain)

definition plain_dict :: "dict \<Rightarrow> bool" where
  "plain_dict d = list_all (\<lambda>p. plain (snd p)) d"

lemma expand_dict_plain: "plain_dict d \<Longrightarrow> expand_dict env d = d"
proof -
  assume "plain_dict d"
  then have "map (\<lambda>p. (fst p, expand env (snd p))) d = map (\<lambda>p. p) d"
    by (intro map_cong) (auto simp: plain_dict_def list_all_iff expand_plain)
  then show ?thesis by (simp add: expand_dict_def)
qed

lemma plain_dict_set: "plain_dict d \<Longrightarrow> plain v \<Longrightarrow> plain_dict (dict_set k v d)"
  by (induction k v d rule: dict_set.induct) (auto simp: plain_dict_def)

lemma plain_lookup: "plain_dict d \<Longrightarrow> map_of d k = Some v \<Longrightarrow> plain v"
  by (auto simp: plain_dict_def list_all_iff dest!: map_of_SomeD)

lemma plain_merge: "plain_dict b \<Longrightarrow> plain_dict v \<Longrightarrow> plain_dict (deep_merge_policy_mapping b v)"
proof (induction b v rule: deep_merge_policy_mapping.induct)
  case (2 b k v rest)
  let ?w = "case map_of b k of Some (JObj c) \<Rightarrow> JObj (deep_merge_policy_mapping c v) | _ \<Rightarrow> JObj v"
  have v: "plain_dict v" and rest: "plain_dict rest" using "2.prems"(2) by (auto simp: plain_dict_def)
  have "plain ?w"
  proof (cases "\<exists>c. map_of b k = Some (JObj c)")
    case True
    then obtain c where c: "map_of b k = Some (JObj c)" by blast
    with plain_lookup [OF "2.prems"(1) c] "2.IH"(1) [OF c refl] v show ?thesis by (simp add: plain_dict_def)
  next
    case False
    with v show ?thesis by (auto simp: plain_dict_def split: option.splits json.splits)
  qed
  with "2.IH"(2) plain_dict_set [OF "2.prems"(1)] rest show ?case by simp
qed (auto simp: plain_dict_def plain_dict_set [unfolded plain_dict_def])

lemma plain_pop: "plain_dict d \<Longrightarrow> plain_dict (dict_pop k d)"
  by (auto simp: plain_dict_def dict_pop_def list_all_iff)

section \<open>Properties\<close>

text \<open>The gate and the application read the same configuration: on files without environment
  references, whatever the approval policy loader accepts the application loader accepts with exactly the
  same content, for any environment and any chain of \<open>base:\<close> files.\<close>

theorem loaders_agree:
  "(\<forall>p d. read_yaml L p = Some (JObj d) \<longrightarrow> plain_dict d) \<Longrightarrow> load_policy_config L path seen = Inr c \<Longrightarrow>
     load_config L env path seen = Inr c \<and> plain_dict c"
proof (induction L path seen arbitrary: c rule: load_policy_config.induct)
  case (1 L path seen)
  let ?r = "resolve_path L path"
  from "1.prems"(2) have ok: "\<not> (?r \<in> set seen \<or> length seen \<ge> 5)"
    by (subst (asm) load_policy_config.simps) (auto simp: Let_def split: if_splits)
  with "1.prems"(2) obtain raw where raw: "read_yaml L ?r = Some (JObj raw)"
    by (subst (asm) load_policy_config.simps) (auto simp: Let_def split: option.splits json.splits)
  let ?b = "dict_get raw ''base''" and ?own = "dict_pop ''base'' raw"
  have own: "plain_dict ?own" using "1.prems"(1) raw plain_pop by blast
  show ?case
  proof (cases "truthy ?b")
    case False
    with "1.prems"(2) ok raw have "c = ?own" by (subst (asm) load_policy_config.simps) (simp add: Let_def)
    moreover from False ok raw own have "load_config L env path seen = Inr ?own"
      by (subst load_config.simps) (simp add: Let_def expand_dict_plain)
    ultimately show ?thesis using own by simp
  next
    case True
    let ?n = "base_path L ?r (py_str ?b)"
    from "1.prems"(2) ok raw True obtain bc where bc: "load_policy_config L ?n (?r # seen) = Inr bc"
      and c: "c = deep_merge_policy_mapping bc ?own"
      by (subst (asm) load_policy_config.simps) (auto simp: Let_def bind_result_Inr)
    have notfalse: "\<not> \<not> truthy ?b" using True by simp
    from "1.IH" [OF refl ok raw refl refl refl notfalse "1.prems"(1) bc]
    have ih: "load_config L env ?n (?r # seen) = Inr bc" "plain_dict bc" by auto
    have "plain_dict c" using plain_merge [OF ih(2) own] c by simp
    moreover from ok raw True ih(1) c \<open>plain_dict c\<close> have "load_config L env path seen = Inr c"
      by (subst load_config.simps) (simp add: Let_def merges_agree expand_dict_plain)
    ultimately show ?thesis by simp
  qed
qed

theorem loaders_agree_witness:
  "\<exists>c. load_config sample_loader (\<lambda>_. None) ''p'' [] = Inr c \<and> load_policy_config sample_loader ''p'' [] = Inr c"
proof -
  have "is_ok (load_policy_config sample_loader ''p'' [])" by code_simp
  then obtain c where c: "load_policy_config sample_loader ''p'' [] = Inr c"
    by (cases "load_policy_config sample_loader ''p'' []") auto
  have "\<forall>p d. read_yaml sample_loader p = Some (JObj d) \<longrightarrow> plain_dict d"
    by (auto simp: sample_loader_def plain_dict_def string_defs)
  from loaders_agree [OF this c, of "\<lambda>_. None"] c show ?thesis by blast
qed

definition reference_loader :: loader where
  "reference_loader = \<lparr>resolve_path = id, base_path = (\<lambda>_ b. b),
     read_yaml = (\<lambda>p. Some (JObj (if p = ''base'' then [(''k'', JStr ''${A}'')] else [(''base'', JStr ''base'')]))),
     expandvars = id\<rparr>"

definition reference_environ :: environ where
  "reference_environ n = (if n = ''A'' then Some ''${B}'' else if n = ''B'' then Some ''x'' else None)"

text \<open>An inherited value is expanded once for every file below it: the text that the environment gives
  for a reference is itself searched for references when the configuration is inherited. Loaded directly
  the file keeps the value as the environment has it; loaded as a base the same file gives another value.\<close>

theorem inherited_values_expanded_twice:
  "load_config reference_loader reference_environ ''base'' [] = Inr [(''k'', JStr ''${B}'')]
   \<and> load_config reference_loader reference_environ ''child'' [] = Inr [(''k'', JStr ''x'')]"
  by code_simp

end
