(* ===== verification/Spec2Isabelle.thy ===== *)
theory Spec2Isabelle
  imports Tool_Service Google_OAuth Memory_Fence Memory_Api Memory_Import Document_Ingest Queue_System Worker_Loop Mcp_Execution Idempotency Backend_Client Request_Budgets Url_Guard Runtime_Config Model_Routing Output_Compaction
begin

text \<open>
  Verification of the Python services of Daedalus, a personal research agent.

  \<^bold>\<open>The program.\<close> An autonomy worker (\<open>builder/autonomous_agent\<close>) takes requests of a user from a Redis
  queue while it holds a lease, chooses a goal and a research approach, calls the backend once, validates
  the structured answer, removes repetitions and publishes the result in bounded documents of the same
  Redis. The backend (\<open>builder/daedalus_runtime\<close>, \<open>builder/nat_helpers\<close>) authenticates every internal
  request, loads its configuration, routes a request to a model, keeps histories and images within
  budgets, compacts long tool results, fetches public pages through an egress guard and lets tools call
  MCP servers only through an approval gate: policy, one-time credentials and an execute route
  (\<open>builder/mcp_approval_api.py\<close>, \<open>builder/user_interaction\<close>). External writes are reserved by receipts
  that survive a restart. Uploads of a user are loaded from an owner-bound store and written to a private
  collection of vectors (\<open>builder/nat_nv_ingest\<close>). Finished turns, profiles and explicit notes are retained in
  a bank of the user at a memory service, from which each request gets a bounded context
  (\<open>builder/memory_api.py\<close>, \<open>profile_import_api.py\<close>, \<open>nat_helpers\<close>).

  \<^bold>\<open>Theories.\<close> Each definition is named after the function that it translates.

  \<^item> \<open>Prelude\<close>, \<open>Py_Values\<close>, \<open>Py_Url\<close>: errors, results, strings, JSON values with the truth and text
    conversions of the language, dictionaries as association lists in insertion order, and the parts of
    the URL library that the sources use.
  \<^item> \<open>Interfaces\<close>: the contracts shared by components, as locales: a step system with an invariant, a
    refinement of an abstract step system, a first-in first-out queue. Each is interpreted on the model
    (\<open>Work_Queue\<close>, \<open>Queue_System\<close>, \<open>Idempotency\<close>, \<open>Approval_Tokens\<close>, \<open>Request_Budgets\<close>).
  \<^item> \<open>Work_Queue\<close>, \<open>Queue_System\<close> (\<open>autonomous_agent/store.py\<close>): lease, queue, processing list and phases
    with every Lua script; then any number of workers that interleave, crash and lose their lease. The
    lemmas are invariants by rule induction: conservation of requests, at most one dispatch, one owner.
  \<^item> \<open>Atomic_Update\<close>, \<open>Autonomy_Store\<close> (\<open>store.py\<close>, \<open>models.py\<close>): optimistic transactions in both storage
    encodings, then the goals, runs, feed and schedule kept in them.
  \<^item> \<open>Feed_Dedupe\<close> (\<open>dedupe.py\<close>): normalisation, fingerprints, similarity and classification.
  \<^item> \<open>Exploration\<close>, \<open>Goal_Selection\<close>, \<open>Agent_Output\<close> (\<open>exploration.py\<close>, \<open>worker.py\<close>, \<open>prompt.py\<close>): what the
    next run does, what it is told and what is accepted as its answer.
  \<^item> \<open>Autonomy_Worker\<close>, \<open>Worker_Safety\<close>, \<open>Worker_Loop\<close> (\<open>worker.py\<close>): one run with its handlers, the
    heartbeat and the main loop, over the stores above.
  \<^item> \<open>Backend_Client\<close> (\<open>backend_client.py\<close>): the worker's request and the reading of the event stream.
  \<^item> \<open>Internal_Auth\<close> (\<open>internal_auth.py\<close>, \<open>identity.py\<close>): the boundary of the backend.
  \<^item> \<open>Mcp_Policy\<close>, \<open>Approval_Tokens\<close>, \<open>Mcp_Gate\<close>, \<open>Mcp_Execution\<close> (\<open>approval.py\<close>, \<open>approval_tokens.py\<close>,
    \<open>approval_context.py\<close>, \<open>mcp_approval_api.py\<close>, \<open>executions.py\<close>): who may call what, and how often.
  \<^item> \<open>Idempotency\<close> (\<open>idempotency.py\<close>): write reservations, refined against the abstract states free, held
    and done.
  \<^item> \<open>Request_Budgets\<close>, \<open>Url_Guard\<close>, \<open>Runtime_Config\<close>, \<open>Model_Routing\<close> (\<open>history_budget.py\<close>,
    \<open>image_input_budget.py\<close>, \<open>url_guard.py\<close>, \<open>safe_http.py\<close>, \<open>config.py\<close>, \<open>model_routing.py\<close>): budgets of
    a request, public egress, configuration and model choice.
  \<^item> \<open>Py_Json\<close>, \<open>Output_Compaction\<close> (\<open>tool_output_compaction.py\<close>, \<open>tool_output_retriever.py\<close>): the lossless
    decoder and encoder of JSON texts with their round trip, previews of long results and their recovery.
  \<^item> \<open>Document_Collections\<close>, \<open>Document_Storage\<close>, \<open>Document_Ingest\<close> (\<open>nat_nv_ingest.py\<close>, \<open>document_ingest_api.py\<close>):
    which collection a request may use and the migration of old names; bounded loading of an upload that its
    requester owns; one ingest with its retries, batches of them, the idempotent wrapper over \<open>Idempotency\<close>,
    extraction, download and the checks of the routes over \<open>Internal_Auth\<close>.
  \<^item> \<open>Memory_Client\<close>, \<open>Memory_Context\<close>, \<open>Memory_Fence\<close> (\<open>hindsight_client.py\<close>,
    \<open>hindsight_memory_context.py\<close>): the requests of the memory client over an arbitrary service that may answer
    from the whole history, the bootstrap of a bank and its caches, the bounded context of a request, and the
    cached brief against concurrent clears, by an invariant over all interleavings.
  \<^item> \<open>Memory_Turns\<close>, \<open>Memory_Api\<close>, \<open>Memory_Import\<close> (\<open>memory_api.py\<close>, \<open>memory_lifecycle.py\<close>,
    \<open>profile_import_api.py\<close>, \<open>daedalus_memory_tools.py\<close>): what of a turn is retained, the memory routes over
    \<open>Internal_Auth\<close>, the import of a profile and the memory tools over \<open>Idempotency\<close>. The lemmas say which
    requests a computation can send (\<open>sends_only\<close>) and compose along its calls.
  \<^item> \<open>Mcp_Calls\<close>, \<open>Google_OAuth\<close> (\<open>mcp.py\<close>, \<open>oauth.py\<close>): exposure, connections per server and user, discovery
    and calls over \<open>Mcp_Gate\<close>; grants, their refresh, the browser authorization as steps with an invariant. The
    bearer token is an argument of the calls: it is what \<open>access_token\<close> returns.
  \<^item> \<open>Tool_Runs\<close>, \<open>Tool_Service\<close> (\<open>service.py\<close>, \<open>agent_loop_guard.py\<close>, \<open>autonomous_llm.py\<close>): the call of a tool
    over \<open>Mcp_Calls\<close>, \<open>Model_Routing\<close> and \<open>Output_Compaction\<close> with the removal of untrusted markers and the
    classification of its result; preparation, context and release of runs as requests in any order, with the
    bounds of 128 runs and 256 tombstones as invariant.
  \<^item> This theory composes the worker's client, the boundary and the gate.

  \<^bold>\<open>Arguments of the model.\<close> Code outside the repository is an argument of the definitions that use it:
  SHA-256 and HMAC, the JSON codec where only its result matters, random identifiers and the clock, DNS,
  the HTTP client, YAML and the file system, the model's answer, and the commands of other Redis clients
  between two commands of an operation. Where a theorem needs a law of such an argument it is a hypothesis
  and the witness instantiates it. Text is a list of 8-bit characters: case mapping and white space are
  those of ASCII.

  \<^bold>\<open>Bounds.\<close> Loops of the sources have explicit bounds and so have the definitions: the attempts of an
  optimistic update, two attempts of a reservation, one request more than the allowed redirects, 5 base
  files of a policy and 16 of a configuration, 1000 pages of a profile inventory. The main loop of the worker takes the number of its turns
  as an argument, since the program runs until it is stopped.

  \<^bold>\<open>Not modelled.\<close> The Rust runtime and the web frontend (other languages); the NV-Ingest pipeline
  with the cleaning of its Markdown, vector retrieval, images, sandbox and search tools, which are
  clients of services; the MCP protocol library, the removal of idle connections, the tool registry with its
  contracts and the byte stream of a call;
  rendering of briefings; migration and contract checks; logging and telemetry; process start, signals
  and threads other than the heartbeat.
\<close>

section \<open>The worker's requests at the backend\<close>

lemma lower_names:
  "lower ''x-user-id'' = ''x-user-id''" "lower ''x-timezone'' = ''x-timezone''"
  "lower ''x-daedalus-execution-scope'' = ''x-daedalus-execution-scope''"
  "lower ''x-daedalus-internal-token'' = ''x-daedalus-internal-token''"
  "lower ''x-daedalus-execution-id'' = ''x-daedalus-execution-id''"
  "lower ''autonomy'' = ''autonomy''" "strip ''autonomy'' = ''autonomy''"
  by code_simp+

text \<open>The middleware's dictionary of the client's headers is the client's own list.\<close>

lemma decode_call_headers: "decode_headers (call_headers t client i) = call_headers t client i"
  by (simp add: decode_headers_def call_headers_def Let_def lower_names)

lemma call_header_values:
  "header_value (Some (call_headers t client i)) ''x-user-id'' = strip (client_user client)"
  "header_value (Some (call_headers t client i)) ''x-daedalus-execution-scope'' = ''autonomy''"
  "header_value (Some (call_headers t client i)) ''x-daedalus-internal-token'' = strip (or_empty t)"
  "header_value (Some (call_headers t client i)) ''x-daedalus-execution-id'' = strip i"
  by (auto simp: header_value_def call_headers_def Let_def lower_names or_empty_def split: option.splits)

text \<open>C8. What the autonomous worker may do at the backend: its calls pass the boundary of a backend that
  shares its internal token, as exactly the user it works for, and are recognised as autonomous, with the
  execution identifier that write reservations use; hence the gate refuses every protected MCP call of
  such a run outright, recording no approval request and spending nothing.\<close>

theorem autonomous_calls_refused:
  assumes user: "strip (client_user client) \<noteq> []"
    and token: "configured_internal_token S \<noteq> [] \<or> allow_insecure_internal S"
    and sc: "sc = \<lparr>scope_type = ''http'', scope_path = Some route,
                   scope_headers = call_headers (token_env S) client execution\<rparr>"
    and public: "request_path sc \<notin> set PUBLIC_HTTP_PATHS"
  shows "\<exists>ctx. middleware S sc = Forward (Some ctx)
    \<and> authenticated_user_id_from_headers S (Some ctx) = Inr (strip (client_user client))
    \<and> is_authenticated_autonomy_request S (Some ctx)
    \<and> (strip execution \<noteq> [] \<longrightarrow> execution_id_from_context_or_none (Some ctx) = Some (strip execution))
    \<and> (\<forall>G c rid time st. env G = S \<longrightarrow> request_headers G = Some ctx \<longrightarrow> consumed_execution G = None \<longrightarrow>
         call_policy (policies G) (server c) (tool c) = ApprovalRequired \<longrightarrow>
         strip (or_empty (approval_token c)) = [] \<longrightarrow>
         validate_mcp_approval G rid time c st = ((False, BACKGROUND_APPROVAL_REFUSAL), st))"
proof (intro exI conjI allI impI)
  let ?ctx = "call_headers (token_env S) client execution"
  have id: "authenticated_user_id_from_headers S (Some ?ctx) = Inr (strip (client_user client))"
    using user token
    by (auto simp: authenticated_user_id_from_headers_def call_header_values Let_def configured_internal_token_def)
  then show "authenticated_user_id_from_headers S (Some ?ctx) = Inr (strip (client_user client))" .
  have "require_trusted_user S (map_of ?ctx ''x-user-id'') (map_of ?ctx ''x-daedalus-internal-token'')
      = Inr (strip (client_user client))"
    using gate_identity [of S ?ctx "strip (client_user client)"] id by (simp add: decode_call_headers)
  then show "middleware S sc = Forward (Some ?ctx)"
    using public by (simp add: middleware_def sc decode_call_headers Let_def)
  have auto: "is_authenticated_autonomy_request S (Some ?ctx)"
    by (simp add: is_authenticated_autonomy_request_def trusted_request_header_from_context_def id
        call_header_values lower_names)
  then show "is_authenticated_autonomy_request S (Some ?ctx)" .
  show "execution_id_from_context_or_none (Some ?ctx) = Some (strip execution)" if "strip execution \<noteq> []"
    using that by (simp add: execution_id_from_context_or_none_def call_header_values lower_names)
  fix G :: gate_ctx and c :: mcp_call and rid time st
  assume "env G = S" "request_headers G = Some ?ctx" "consumed_execution G = None"
    "call_policy (policies G) (server c) (tool c) = ApprovalRequired"
    "strip (or_empty (approval_token c)) = []"
  then show "validate_mcp_approval G rid time c st = ((False, BACKGROUND_APPROVAL_REFUSAL), st)"
    using id user auto
    by (simp add: gate_protected authenticated_user_id_from_context_or_fallback_def request_approval_def)
qed

theorem autonomous_calls_refused_witness:
  "is_authenticated_autonomy_request \<lparr>token_env = Some ''s'', insecure_env = None\<rparr>
     (Some (call_headers (Some ''s'') (make_client ''http://b'' ''/v1'' ''ann'' 60) ''run-1''))"
proof -
  let ?S = "\<lparr>token_env = Some ''s'', insecure_env = None\<rparr>"
  let ?c = "make_client ''http://b'' ''/v1'' ''ann'' 60"
  let ?sc = "\<lparr>scope_type = ''http'', scope_path = Some ''/v1/chat'',
    scope_headers = call_headers (token_env ?S) ?c ''run-1''\<rparr>"
  have 1: "strip (client_user ?c) \<noteq> []" by code_simp
  have 2: "configured_internal_token ?S \<noteq> [] \<or> allow_insecure_internal ?S" by code_simp
  have 3: "request_path ?sc \<notin> set PUBLIC_HTTP_PATHS" by code_simp
  from autonomous_calls_refused [OF 1 2 refl 3] show ?thesis
    by (auto simp: middleware_def decode_call_headers Let_def split: if_splits sum.splits py_error.splits)
qed

end
